(* ===== verification/Cork_Prelude.thy ===== *)
theory Cork_Prelude
  imports Main "HOL-Library.Word"
begin

text \<open>
  Shared vocabulary of the development: Go's 64- and 32-bit signed integers with their
  wrap-around and truncating division, decimal printing and parsing of integers
  (\<open>strconv\<close>), the string helpers the sources use (\<open>strings\<close>), and the
  state-and-error monad in which the stateful parts of the orchestrator are written, with
  the rules that carry invariants through it.
\<close>

named_theorems io_simps \<open>equations of the state-and-error monad\<close>
named_theorems keeps_intros \<open>operations keep an invariant of the state\<close>
named_theorems health_simps \<open>projections of the worker health operations\<close>
named_theorems db_simps \<open>projections of the database operations\<close>

section \<open>Go integers\<close>

type_synonym duration = int \<comment> \<open>time.Duration: nanoseconds in an int64\<close>
type_synonym timestamp = int \<comment> \<open>a point in time, in nanoseconds\<close>

definition wrap64 :: "int \<Rightarrow> int" where
  "wrap64 x = (x + 2 ^ 63) mod 2 ^ 64 - 2 ^ 63"

definition wrap32 :: "int \<Rightarrow> int" where
  "wrap32 x = (x + 2 ^ 31) mod 2 ^ 32 - 2 ^ 31"

text \<open>Go's \<open>/\<close> on signed integers truncates towards zero.\<close>

definition go_div :: "int \<Rightarrow> int \<Rightarrow> int" where
  "go_div a b = sgn a * sgn b * (\<bar>a\<bar> div \<bar>b\<bar>)"

lemma wrap64_id: "- (2 ^ 63) \<le> x \<Longrightarrow> x < 2 ^ 63 \<Longrightarrow> wrap64 x = x"
  by (simp add: wrap64_def)

lemma wrap64_range: "- (2 ^ 63) \<le> wrap64 x \<and> wrap64 x < 2 ^ 63"
  by (simp add: wrap64_def)

lemma wrap64_word: "wrap64 x = sint (word_of_int x :: 64 word)"
  by (simp add: wrap64_def signed_take_bit_eq_take_bit_shift take_bit_eq_mod sint_word_ariths
        signed_of_int ac_simps)

lemma wrap32_id: "- (2 ^ 31) \<le> x \<Longrightarrow> x < 2 ^ 31 \<Longrightarrow> wrap32 x = x"
  by (simp add: wrap32_def)

lemma go_div_nonneg: "0 \<le> a \<Longrightarrow> 0 < b \<Longrightarrow> go_div a b = a div b"
  by (cases "a = 0") (simp_all add: go_div_def)

section \<open>Strings\<close>

text \<open>\<open>strings.CutPrefix\<close>: the rest after the prefix, or nothing.\<close>

fun cutPrefix :: "string \<Rightarrow> string \<Rightarrow> string option" where
  "cutPrefix s [] = Some s"
| "cutPrefix [] (p # ps) = None"
| "cutPrefix (c # cs) (p # ps) = (if c = p then cutPrefix cs ps else None)"

definition hasPrefix :: "string \<Rightarrow> string \<Rightarrow> bool" where
  "hasPrefix s p = (cutPrefix s p \<noteq> None)"

text \<open>\<open>strings.TrimPrefix\<close>: without the prefix if it is there, else unchanged.\<close>

definition trimPrefix :: "string \<Rightarrow> string \<Rightarrow> string" where
  "trimPrefix s p = (case cutPrefix s p of None \<Rightarrow> s | Some r \<Rightarrow> r)"

lemma cutPrefix_append [simp]: "cutPrefix (p @ s) p = Some s"
  by (induction p) auto

lemma cutPrefix_Some_iff: "cutPrefix s p = Some r \<longleftrightarrow> s = p @ r"
  by (induction s p rule: cutPrefix.induct) auto

lemma hasPrefix_iff: "hasPrefix s p \<longleftrightarrow> (\<exists>r. s = p @ r)"
  by (auto simp: hasPrefix_def cutPrefix_Some_iff)

lemma trimPrefix_append [simp]: "trimPrefix (p @ s) p = s"
  by (simp add: trimPrefix_def)

subsection \<open>Splitting\<close>

text \<open>\<open>strings.Split\<close> at a single character, and \<open>strings.Join\<close> with one.\<close>

fun splitOn :: "char \<Rightarrow> string \<Rightarrow> string list" where
  "splitOn c [] = [[]]"
| "splitOn c (x # xs) =
     (if x = c then [] # splitOn c xs
      else (case splitOn c xs of [] \<Rightarrow> [[x]] | p # ps \<Rightarrow> (x # p) # ps))"

fun joinWith :: "char \<Rightarrow> string list \<Rightarrow> string" where
  "joinWith c [] = []"
| "joinWith c [s] = s"
| "joinWith c (s # ss) = s @ c # joinWith c ss"

lemma splitOn_ne_Nil [simp]: "splitOn c s \<noteq> []"
  by (induction s) (auto split: list.splits)

lemma splitOn_no_sep: "p \<in> set (splitOn c s) \<Longrightarrow> c \<notin> set p"
  by (induction s arbitrary: p) (auto split: if_splits list.splits)

lemma splitOn_chars: "p \<in> set (splitOn c s) \<Longrightarrow> set p \<subseteq> set s"
proof (induction s arbitrary: p)
  case (Cons x xs)
  then show ?case by (cases "splitOn c xs") (auto split: if_splits, blast+)
qed simp

lemma splitOn_plain: "c \<notin> set s \<Longrightarrow> splitOn c s = [s]"
  by (induction s) auto

lemma splitOn_append_sep: "c \<notin> set s \<Longrightarrow> splitOn c (s @ c # t) = s # splitOn c t"
  by (induction s) auto

text \<open>Joining and splitting are inverse on parts without the separator.\<close>

lemma splitOn_joinWith: "ss \<noteq> [] \<Longrightarrow> (\<And>s. s \<in> set ss \<Longrightarrow> c \<notin> set s) \<Longrightarrow> splitOn c (joinWith c ss) = ss"
proof (induction c ss rule: joinWith.induct)
  case (3 c s s' ss)
  have "splitOn c (joinWith c (s' # ss)) = s' # ss" by (rule 3) (use 3 in auto)
  then show ?case using 3(3) by (simp add: splitOn_append_sep)
qed (auto simp: splitOn_plain)

lemma set_joinWith: "set (joinWith c ss) \<subseteq> insert c (\<Union> (set ` set ss))"
  by (induction c ss rule: joinWith.induct) auto

subsection \<open>Decimal digits\<close>

definition digit_char :: "nat \<Rightarrow> char" where
  "digit_char d = char_of (48 + d)"

definition is_digit :: "char \<Rightarrow> bool" where
  "is_digit c = (48 \<le> (of_char c :: nat) \<and> (of_char c :: nat) \<le> 57)"

definition digit_val :: "char \<Rightarrow> nat" where
  "digit_val c = of_char c - 48"

lemma of_char_digit: "d < 10 \<Longrightarrow> (of_char (digit_char d) :: nat) = 48 + d"
  by (simp add: digit_char_def of_char_of)

lemma is_digit_digit_char [simp]: "d < 10 \<Longrightarrow> is_digit (digit_char d)"
  by (simp add: is_digit_def of_char_digit)

lemma digit_val_digit_char [simp]: "d < 10 \<Longrightarrow> digit_val (digit_char d) = d"
  by (simp add: digit_val_def of_char_digit)

text \<open>\<open>%d\<close> of a non-negative number.\<close>

fun show_nat :: "nat \<Rightarrow> string" where
  "show_nat n = (if n < 10 then [digit_char n] else show_nat (n div 10) @ [digit_char (n mod 10)])"

declare show_nat.simps [simp del]

definition show_int :: "int \<Rightarrow> string" where
  "show_int i = (if i < 0 then ''-'' @ show_nat (nat (- i)) else show_nat (nat i))"

text \<open>The value of a run of decimal digits, most significant first.\<close>

definition digits_val :: "string \<Rightarrow> nat" where
  "digits_val s = foldl (\<lambda>acc c. 10 * acc + digit_val c) 0 s"

lemma digits_val_snoc [simp]: "digits_val (s @ [c]) = 10 * digits_val s + digit_val c"
  by (simp add: digits_val_def)

lemma show_nat_ne_Nil [simp]: "show_nat n \<noteq> []"
  by (subst show_nat.simps) simp

lemma digits_show_nat: "list_all is_digit (show_nat n) \<and> digits_val (show_nat n) = n"
proof (induction n rule: show_nat.induct)
  case (1 n)
  show ?case
  proof (cases "n < 10")
    case True
    then show ?thesis by (simp add: show_nat.simps [of n] digits_val_def)
  next
    case False
    with 1 show ?thesis by (simp add: show_nat.simps [of n])
  qed
qed

lemma is_digit_show_nat [simp]: "list_all is_digit (show_nat n)"
  using digits_show_nat by blast

lemma digits_val_show_nat [simp]: "digits_val (show_nat n) = n"
  using digits_show_nat by blast

text \<open>
  \<open>strconv.Atoi\<close> / \<open>strconv.ParseInt(s, 10, 64)\<close>: an optional sign, then at least one
  decimal digit and nothing else, within the range of an int64.
\<close>

definition parse_digits :: "string \<Rightarrow> nat option" where
  "parse_digits s = (if s \<noteq> [] \<and> list_all is_digit s then Some (digits_val s) else None)"

definition atoi :: "string \<Rightarrow> int option" where
  "atoi s =
     (let (neg, ds) = (case s of
            [] \<Rightarrow> (False, s)
          | c # cs \<Rightarrow> if c = CHR ''-'' then (True, cs)
                      else if c = CHR ''+'' then (False, cs) else (False, s))
      in case parse_digits ds of
           None \<Rightarrow> None
         | Some n \<Rightarrow> (let v = (if neg then - int n else int n)
                     in if - (2 ^ 63) \<le> v \<and> v < 2 ^ 63 then Some v else None))"

lemma parse_digits_show_nat [simp]: "parse_digits (show_nat n) = Some n"
  by (simp add: parse_digits_def)

lemma show_nat_head_digit: "\<exists>c cs. show_nat n = c # cs \<and> is_digit c"
  using is_digit_show_nat [of n] show_nat_ne_Nil [of n] by (cases "show_nat n") auto

lemma atoi_show_nat: "n < 2 ^ 63 \<Longrightarrow> atoi (show_nat n) = Some (int n)"
proof -
  assume n: "n < 2 ^ 63"
  obtain c cs where s: "show_nat n = c # cs" "is_digit c"
    using show_nat_head_digit by blast
  then have "c \<noteq> CHR ''-''" "c \<noteq> CHR ''+''" by (auto simp: is_digit_def)
  moreover have "parse_digits (c # cs) = Some n" using parse_digits_show_nat [of n] s by simp
  moreover have "int n < 2 ^ 63" using n by simp
  ultimately show ?thesis using s by (simp add: atoi_def)
qed

section \<open>The state-and-error monad\<close>

text \<open>
  A Go function \<open>func (m *Manager) f(...) (T, error)\<close> that reads and writes the manager
  becomes a function from the state to a result and the next state. The result is \<open>Inl e\<close>
  for \<open>return ..., err\<close> and \<open>Inr v\<close> for a return without error. \<open>bnd m k\<close> is
  the idiom \<open>x, err := m(); if err != nil { return err }; k\<close>.
\<close>

type_synonym ('w, 'e, 'a) io = "'w \<Rightarrow> ('e + 'a) \<times> 'w"

definition ret :: "'a \<Rightarrow> ('w, 'e, 'a) io" where
  "ret x = (\<lambda>w. (Inr x, w))"

definition fail :: "'e \<Rightarrow> ('w, 'e, 'a) io" where
  "fail e = (\<lambda>w. (Inl e, w))"

definition bnd :: "('w, 'e, 'a) io \<Rightarrow> ('a \<Rightarrow> ('w, 'e, 'b) io) \<Rightarrow> ('w, 'e, 'b) io" where
  "bnd m k = (\<lambda>w. case m w of (Inl e, w') \<Rightarrow> (Inl e, w') | (Inr x, w') \<Rightarrow> k x w')"

text \<open>\<open>catch m h\<close> looks at the error instead of returning it: \<open>if err != nil { h }\<close>.\<close>

definition catch :: "('w, 'e, 'a) io \<Rightarrow> ('e \<Rightarrow> ('w, 'e, 'a) io) \<Rightarrow> ('w, 'e, 'a) io" where
  "catch m h = (\<lambda>w. case m w of (Inl e, w') \<Rightarrow> h e w' | (Inr x, w') \<Rightarrow> (Inr x, w'))"

definition gets :: "('w \<Rightarrow> 'a) \<Rightarrow> ('w, 'e, 'a) io" where
  "gets f = (\<lambda>w. (Inr (f w), w))"

definition modify :: "('w \<Rightarrow> 'w) \<Rightarrow> ('w, 'e, unit) io" where
  "modify f = (\<lambda>w. (Inr (), f w))"

text \<open>A \<open>for _, x := range xs\<close> loop whose body may return an error.\<close>

fun for_each :: "'x list \<Rightarrow> ('x \<Rightarrow> ('w, 'e, unit) io) \<Rightarrow> ('w, 'e, unit) io" where
  "for_each [] f = ret ()"
| "for_each (x # xs) f = bnd (f x) (\<lambda>_. for_each xs f)"

lemma ret_apply [simp, io_simps]: "ret x w = (Inr x, w)"
  by (simp add: ret_def)

lemma fail_apply [simp, io_simps]: "fail e w = (Inl e, w)"
  by (simp add: fail_def)

lemma gets_apply [simp, io_simps]: "gets f w = (Inr (f w), w)"
  by (simp add: gets_def)

lemma modify_apply [simp, io_simps]: "modify f w = (Inr (), f w)"
  by (simp add: modify_def)

lemma bnd_ret [simp]: "bnd (ret x) k = k x"
  by (simp add: bnd_def fun_eq_iff)

lemma bnd_Inr: "m w = (Inr x, w') \<Longrightarrow> bnd m k w = k x w'"
  by (simp add: bnd_def)

lemma bnd_Inl: "m w = (Inl e, w') \<Longrightarrow> bnd m k w = (Inl e, w')"
  by (simp add: bnd_def)

lemma bnd_assoc: "bnd (bnd m k) h = bnd m (\<lambda>x. bnd (k x) h)"
  by (auto simp: bnd_def fun_eq_iff split: prod.splits sum.splits)

lemma bnd_InrE:
  assumes "bnd m k w = (Inr y, w')"
  obtains x w1 where "m w = (Inr x, w1)" and "k x w1 = (Inr y, w')"
  using assms by (auto simp: bnd_def split: prod.splits sum.splits)

subsection \<open>Invariants\<close>

text \<open>\<open>keeps I m\<close>: the operation keeps the invariant, on its error paths as well.\<close>

definition keeps :: "('w \<Rightarrow> bool) \<Rightarrow> ('w, 'e, 'a) io \<Rightarrow> bool" where
  "keeps I m \<longleftrightarrow> (\<forall>w. I w \<longrightarrow> I (snd (m w)))"

lemma keepsI: "(\<And>w. I w \<Longrightarrow> I (snd (m w))) \<Longrightarrow> keeps I m"
  by (simp add: keeps_def)

lemma keepsD: "keeps I m \<Longrightarrow> I w \<Longrightarrow> m w = (r, w') \<Longrightarrow> I w'"
  by (metis keeps_def snd_conv)

lemma keeps_ret [keeps_intros]: "keeps I (ret x)"
  by (simp add: keeps_def)

lemma keeps_fail [keeps_intros]: "keeps I (fail e)"
  by (simp add: keeps_def)

lemma keeps_gets [keeps_intros]: "keeps I (gets f)"
  by (simp add: keeps_def)

lemma keeps_modify: "(\<And>w. I w \<Longrightarrow> I (f w)) \<Longrightarrow> keeps I (modify f)"
  by (simp add: keeps_def)

lemma keeps_bnd [keeps_intros]: "keeps I m \<Longrightarrow> (\<And>x. keeps I (k x)) \<Longrightarrow> keeps I (bnd m k)"
  unfolding keeps_def bnd_def
  by (auto split: prod.splits sum.splits)

lemma keeps_catch [keeps_intros]: "keeps I m \<Longrightarrow> (\<And>e. keeps I (h e)) \<Longrightarrow> keeps I (catch m h)"
  unfolding keeps_def catch_def
  by (auto split: prod.splits sum.splits)

lemma keeps_for_each [keeps_intros]: "(\<And>x. keeps I (f x)) \<Longrightarrow> keeps I (for_each xs f)"
  by (induction xs) (auto intro: keeps_intros)

lemma keeps_if [keeps_intros]: "keeps I a \<Longrightarrow> keeps I b \<Longrightarrow> keeps I (if c then a else b)"
  by simp

lemma keeps_case_option [keeps_intros]:
  "keeps I a \<Longrightarrow> (\<And>x. keeps I (b x)) \<Longrightarrow> keeps I (case z of None \<Rightarrow> a | Some x \<Rightarrow> b x)"
  by (cases z) auto

section \<open>Lists\<close>

lemma last_filter_mem: "filter P xs \<noteq> [] \<Longrightarrow> last (filter P xs) \<in> set xs \<and> P (last (filter P xs))"
  using last_in_set [of "filter P xs"] by auto

section \<open>Systems driven by events\<close>

text \<open>
  The interface between a component and the properties of its whole life: an operation per
  event and an invariant every event keeps. What holds of single events is lifted to runs of
  them once, here.
\<close>

locale event_system =
  fixes apply_ev :: "'ev \<Rightarrow> 's \<Rightarrow> 's" and inv :: "'s \<Rightarrow> bool"
  assumes inv_step: "inv s \<Longrightarrow> inv (apply_ev e s)"
begin

lemma run_inv: "inv s \<Longrightarrow> inv (fold apply_ev es s)"
  by (induction es arbitrary: s) (auto intro: inv_step)

text \<open>A property that every allowed event keeps survives any run of allowed events.\<close>

lemma run_stable:
  assumes "inv s" "Q s" "\<And>e s. inv s \<Longrightarrow> Q s \<Longrightarrow> allowed e \<Longrightarrow> Q (apply_ev e s)" "list_all allowed es"
  shows "Q (fold apply_ev es s)"
  using assms by (induction es arbitrary: s) (auto intro: inv_step)

text \<open>A value that no event lowers is no lower after a run.\<close>

lemma run_mono:
  fixes f :: "'s \<Rightarrow> 'n::preorder"
  assumes "inv s" "\<And>e s. inv s \<Longrightarrow> f s \<le> f (apply_ev e s)"
  shows "f s \<le> f (fold apply_ev es s)"
  using assms
proof (induction es arbitrary: s)
  case (Cons e es)
  have "f s \<le> f (apply_ev e s)" using Cons.prems by blast
  also have "\<dots> \<le> f (fold apply_ev es (apply_ev e s))" using Cons inv_step by blast
  finally show ?case by simp
qed simp

end

end
