(* ===== verification/Settings.thy ===== *)
theory Settings
  imports Cork_Prelude
begin

text \<open>
  Reading settings (\<open>src/cork/env.go\<close>, \<open>src/cork/policy.go\<close>): the
  \<open>CORK_\<close> name of a setting, then its pre-rename \<open>CMGR_\<close> name, and the
  numeric readers built on it. The process environment is the argument \<open>os\<close>
  (\<open>os.LookupEnv\<close>), and the byte-size parser of go-units the argument \<open>ram\<close>.
\<close>

type_synonym environment = "string \<Rightarrow> string option"

definition envPrefix :: string where "envPrefix = ''CORK_''"

definition legacyEnvPrefix :: string where "legacyEnvPrefix = ''CMGR_''"

definition legacyEnvName :: "string \<Rightarrow> string" where
  "legacyEnvName name = legacyEnvPrefix @ trimPrefix name envPrefix"

definition LookupEnv :: "environment \<Rightarrow> string \<Rightarrow> string option" where
  "LookupEnv os name =
     (case os name of
        Some v \<Rightarrow> Some v
      | None \<Rightarrow> if hasPrefix name envPrefix then os (legacyEnvName name) else None)"

definition Getenv :: "environment \<Rightarrow> string \<Rightarrow> string" where
  "Getenv os name = (case LookupEnv os name of None \<Rightarrow> '''' | Some v \<Rightarrow> v)"

text \<open>The legacy names in use, over the list of setting names, in sorted order.\<close>

fun string_le :: "string \<Rightarrow> string \<Rightarrow> bool" where
  "string_le [] t = True"
| "string_le (c # cs) [] = False"
| "string_le (c # cs) (d # ds) =
     ((of_char c :: nat) < of_char d \<or> c = d \<and> string_le cs ds)"

fun insort_string :: "string \<Rightarrow> string list \<Rightarrow> string list" where
  "insort_string x [] = [x]"
| "insort_string x (y # ys) = (if string_le x y then x # y # ys else y # insort_string x ys)"

definition sort_strings :: "string list \<Rightarrow> string list" where
  "sort_strings xs = foldr insort_string xs []"

definition legacySettingsInUse :: "environment \<Rightarrow> string list \<Rightarrow> string list" where
  "legacySettingsInUse os settingNames =
     sort_strings (filter (\<lambda>legacy. os legacy \<noteq> None) (map legacyEnvName settingNames))"

definition envString :: "environment \<Rightarrow> string \<Rightarrow> string \<Rightarrow> string" where
  "envString os name fallback = (case LookupEnv os name of Some v \<Rightarrow> v | None \<Rightarrow> fallback)"

datatype policy_error = NotPositiveInteger string string | NotPositiveBytes string string

definition positiveEnvInt :: "environment \<Rightarrow> string \<Rightarrow> int \<Rightarrow> policy_error + int" where
  "positiveEnvInt os name fallback =
     (let value = envString os name (show_int fallback)
      in case atoi value of
           None \<Rightarrow> Inl (NotPositiveInteger name value)
         | Some parsed \<Rightarrow> if parsed \<le> 0 then Inl (NotPositiveInteger name value) else Inr parsed)"

definition positiveEnvBytes ::
    "(string \<Rightarrow> int option) \<Rightarrow> environment \<Rightarrow> string \<Rightarrow> int \<Rightarrow> policy_error + int" where
  "positiveEnvBytes ram os name fallback =
     (case LookupEnv os name of
        None \<Rightarrow> Inr fallback
      | Some value \<Rightarrow> (case ram value of
            None \<Rightarrow> Inl (NotPositiveBytes name value)
          | Some parsed \<Rightarrow> if parsed \<le> 0 then Inl (NotPositiveBytes name value) else Inr parsed))"

record managerPolicy =
  MaxArtifactFiles :: int
  MaxArtifactBytes :: int
  MaxArtifactFileBytes :: int

definition maxArtifactFilesEnv :: string where "maxArtifactFilesEnv = ''CORK_MAX_ARTIFACT_FILES''"
definition maxArtifactBytesEnv :: string where "maxArtifactBytesEnv = ''CORK_MAX_ARTIFACT_BYTES''"
definition maxArtifactFileBytesEnv :: string where
  "maxArtifactFileBytesEnv = ''CORK_MAX_ARTIFACT_FILE_BYTES''"

definition defaultMaxArtifactFiles :: int where "defaultMaxArtifactFiles = 10000"
definition defaultMaxArtifactBytes :: int where "defaultMaxArtifactBytes = 5 * 2 ^ 30"
definition defaultMaxArtifactFileBytes :: int where "defaultMaxArtifactFileBytes = 2 ^ 30"

definition initPolicy :: "(string \<Rightarrow> int option) \<Rightarrow> environment \<Rightarrow> policy_error + managerPolicy" where
  "initPolicy ram os =
     (case positiveEnvInt os maxArtifactFilesEnv defaultMaxArtifactFiles of
        Inl e \<Rightarrow> Inl e
      | Inr files \<Rightarrow>
     (case positiveEnvBytes ram os maxArtifactBytesEnv defaultMaxArtifactBytes of
        Inl e \<Rightarrow> Inl e
      | Inr bytes \<Rightarrow>
     (case positiveEnvBytes ram os maxArtifactFileBytesEnv defaultMaxArtifactFileBytes of
        Inl e \<Rightarrow> Inl e
      | Inr fileBytes \<Rightarrow>
          Inr \<lparr>MaxArtifactFiles = files, MaxArtifactBytes = bytes, MaxArtifactFileBytes = fileBytes\<rparr>)))"

section \<open>Facts\<close>

lemma LookupEnv_current: "os name = Some v \<Longrightarrow> LookupEnv os name = Some v"
  by (simp add: LookupEnv_def)

lemma LookupEnv_legacy:
  "os (envPrefix @ s) = None \<Longrightarrow> LookupEnv os (envPrefix @ s) = os (legacyEnvPrefix @ s)"
  by (simp add: LookupEnv_def legacyEnvName_def hasPrefix_iff)

lemma initPolicy_cases:
  assumes "initPolicy ram os = Inr p"
  shows "0 < MaxArtifactFiles p \<and> 0 < MaxArtifactBytes p \<and> 0 < MaxArtifactFileBytes p"
  using assms
  by (auto simp: initPolicy_def positiveEnvInt_def positiveEnvBytes_def Let_def
        defaultMaxArtifactBytes_def defaultMaxArtifactFileBytes_def
      split: sum.splits option.splits if_splits)

lemma initPolicy_default: "initPolicy ram (\<lambda>_. None) =
   Inr \<lparr>MaxArtifactFiles = 10000, MaxArtifactBytes = 5 * 2 ^ 30, MaxArtifactFileBytes = 2 ^ 30\<rparr>"
proof -
  have "atoi (show_nat (nat 10000)) = Some 10000" using atoi_show_nat [of 10000] by simp
  then show ?thesis
    by (simp add: initPolicy_def positiveEnvInt_def positiveEnvBytes_def Let_def envString_def
        LookupEnv_def show_int_def defaultMaxArtifactFiles_def defaultMaxArtifactBytes_def
        defaultMaxArtifactFileBytes_def)
qed

end
