(* ===== verification/Worker_Health.thy ===== *)
theory Worker_Health
  imports Settings
begin

text \<open>
  The health of one docker worker (\<open>src/cork/workers.go\<close>): its timing tunables, the two
  health axes, the one-shot connection object \<open>workerConn\<close> with its only writers
  \<open>setReachable\<close>, \<open>setLoad\<close> and \<open>eject\<close>, the stall counter
  \<open>noteTimeout\<close>, the recovery backoff, and the body of the poll loop. Readings of the
  clock and the answers of the probes are arguments. Channels are modelled by how often they
  were closed: Go panics on the second close of a channel.
\<close>

section \<open>Timing tunables\<close>

record workerTiming =
  pollInterval :: duration
  pollTimeout :: duration
  pingTimeout :: duration
  deepProbeInterval :: duration
  maxMisses :: int
  loadMissesLimit :: int
  healthyThreshold :: int
  recoverBackoff :: duration
  recoverBackoffMax :: duration
  ejectionDecay :: duration
  controlTimeout :: duration
  timeoutsToEject :: int
  timeoutWindow :: duration
  pullTimeout :: duration
  launchWait :: duration
  teardownWait :: duration

definition millisecond :: duration where "millisecond = 1000000"
definition second :: duration where "second = 1000 * millisecond"
definition minute :: duration where "minute = 60 * second"

definition minPollInterval :: duration where "minPollInterval = 10 * millisecond"

definition defaultWorkerTiming :: workerTiming where
  "defaultWorkerTiming = \<lparr>
     pollInterval = 5 * second,
     pollTimeout = 250 * millisecond,
     pingTimeout = second,
     deepProbeInterval = 30 * second,
     maxMisses = 6,
     loadMissesLimit = 3,
     healthyThreshold = 2,
     recoverBackoff = 10 * second,
     recoverBackoffMax = 5 * minute,
     ejectionDecay = 5 * minute,
     controlTimeout = 30 * second,
     timeoutsToEject = 3,
     timeoutWindow = 2 * minute,
     pullTimeout = 30 * second,
     launchWait = 10 * second,
     teardownWait = 30 * second\<rparr>"

definition envDuration :: "(string \<Rightarrow> duration option) \<Rightarrow> environment \<Rightarrow> string \<Rightarrow> duration \<Rightarrow> duration" where
  "envDuration parseDuration os name d =
     (case LookupEnv os name of
        None \<Rightarrow> d
      | Some s \<Rightarrow> (case parseDuration s of
            None \<Rightarrow> d
          | Some v \<Rightarrow> if v \<le> 0 then d else v))"

definition envCount :: "environment \<Rightarrow> string \<Rightarrow> int \<Rightarrow> int" where
  "envCount os name n =
     (case LookupEnv os name of
        None \<Rightarrow> n
      | Some s \<Rightarrow> (case atoi s of
            None \<Rightarrow> n
          | Some v \<Rightarrow> if v < 1 then n else v))"

definition clampProbeTimeout :: "duration \<Rightarrow> duration \<Rightarrow> duration" where
  "clampProbeTimeout d interval = (if d < interval then d else go_div interval 2)"

definition workerTimingFromEnv ::
    "(string \<Rightarrow> duration option) \<Rightarrow> environment \<Rightarrow> workerTiming" where
  "workerTimingFromEnv parseDuration os =
     (let d = defaultWorkerTiming;
          dur = envDuration parseDuration os;
          t = \<lparr>
            pollInterval = dur ''CORK_WORKER_POLL_INTERVAL'' (pollInterval d),
            pollTimeout = dur ''CORK_WORKER_POLL_TIMEOUT'' (pollTimeout d),
            pingTimeout = dur ''CORK_WORKER_PING_TIMEOUT'' (pingTimeout d),
            deepProbeInterval = dur ''CORK_WORKER_DEEP_PROBE_INTERVAL'' (deepProbeInterval d),
            maxMisses = envCount os ''CORK_WORKER_MAX_MISSES'' (maxMisses d),
            loadMissesLimit = envCount os ''CORK_WORKER_LOAD_MISSES'' (loadMissesLimit d),
            healthyThreshold = envCount os ''CORK_WORKER_HEALTHY_THRESHOLD'' (healthyThreshold d),
            recoverBackoff = dur ''CORK_WORKER_RECOVER_BACKOFF'' (recoverBackoff d),
            recoverBackoffMax = dur ''CORK_WORKER_RECOVER_BACKOFF_MAX'' (recoverBackoffMax d),
            ejectionDecay = dur ''CORK_WORKER_EJECTION_DECAY'' (ejectionDecay d),
            controlTimeout = dur ''CORK_WORKER_CONTROL_TIMEOUT'' (controlTimeout d),
            timeoutsToEject = envCount os ''CORK_WORKER_TIMEOUTS_TO_EJECT'' (timeoutsToEject d),
            timeoutWindow = dur ''CORK_WORKER_TIMEOUT_WINDOW'' (timeoutWindow d),
            pullTimeout = dur ''CORK_WORKER_PULL_TIMEOUT'' (pullTimeout d),
            launchWait = dur ''CORK_WORKER_LAUNCH_WAIT'' (launchWait d),
            teardownWait = dur ''CORK_WORKER_TEARDOWN_WAIT'' (teardownWait d)\<rparr>;
          interval = (if pollInterval t < minPollInterval then minPollInterval else pollInterval t)
      in t\<lparr>
           pollInterval := interval,
           pollTimeout := clampProbeTimeout (pollTimeout t) interval,
           pingTimeout := clampProbeTimeout (pingTimeout t) interval,
           deepProbeInterval :=
             (if deepProbeInterval t < interval then interval else deepProbeInterval t)\<rparr>)"

text \<open>
  The condition under which the reader of the settings warns that the stall window can never
  fill (the span is an int64 product).
\<close>

definition stallWindowWarning :: "workerTiming \<Rightarrow> bool" where
  "stallWindowWarning t =
     (1 < timeoutsToEject t \<and>
      timeoutWindow t \<le> wrap64 (wrap64 (timeoutsToEject t - 1) * controlTimeout t))"

section \<open>The two axes\<close>

datatype workerReachable = workerUnresponsive | workerDown | workerReachableOk

datatype workerLoad = workerLoadUnknown | workerOverloaded | workerLoadOk

fun reachable_String :: "workerReachable \<Rightarrow> string" where
  "reachable_String workerReachableOk = ''ok''"
| "reachable_String workerDown = ''down''"
| "reachable_String workerUnresponsive = ''unresponsive''"

fun load_String :: "workerLoad \<Rightarrow> string" where
  "load_String workerLoadOk = ''ok''"
| "load_String workerOverloaded = ''overloaded''"
| "load_String workerLoadUnknown = ''unknown''"

definition derivedHealth :: "workerReachable \<Rightarrow> workerLoad \<Rightarrow> string" where
  "derivedHealth r l =
     (if r \<noteq> workerReachableOk then reachable_String r
      else if l = workerOverloaded then ''overloaded'' else ''ok'')"

section \<open>The connection object\<close>

record workerConn =
  ip :: string
  public :: string
  cli :: nat \<comment> \<open>identity of the docker client, fresh for every connection\<close>
  reachable :: workerReachable
  load :: workerLoad
  since :: timestamp
  reason :: "string option"
  ejections :: int
  unreachCh :: "nat option" \<comment> \<open>None: a nil channel; Some n: closed n times\<close>
  retired :: bool
  reconciled :: bool
  fromRecovery :: bool
  daemonFailed :: bool
  timeouts :: "timestamp list"
  probeNow :: bool \<comment> \<open>a nudge is waiting in the one-place channel\<close>

definition close_unreachCh :: "workerConn \<Rightarrow> workerConn" where
  "close_unreachCh w = w\<lparr>unreachCh := map_option Suc (unreachCh w)\<rparr>"

definition setReachable ::
    "timestamp \<Rightarrow> workerConn \<Rightarrow> workerReachable \<Rightarrow> string \<Rightarrow> workerConn \<times> bool" where
  "setReachable now w to why =
     (let prev = reachable w in
      if prev = to then ((if why \<noteq> '''' then w\<lparr>reason := Some why\<rparr> else w), False)
      else if prev = workerDown \<and> to \<noteq> workerDown then (w, False)
      else if to = workerReachableOk \<and> retired w then (w, False)
      else
        (let w = w\<lparr>reachable := to\<rparr>;
             w = w\<lparr>since := now\<rparr>;
             w = w\<lparr>reason := (if why = '''' then None else Some why)\<rparr>;
             w = (if prev = workerReachableOk then close_unreachCh (w\<lparr>retired := True\<rparr>) else w)
         in (w, True)))"

definition setLoad :: "workerConn \<Rightarrow> workerLoad \<Rightarrow> workerConn" where
  "setLoad w to = w\<lparr>load := to\<rparr>"

definition eject :: "timestamp \<Rightarrow> workerConn \<Rightarrow> string \<Rightarrow> workerConn" where
  "eject now w why =
     (let first = \<not> daemonFailed w;
          w = w\<lparr>daemonFailed := True\<rparr>;
          (w, moved) = setReachable now w workerUnresponsive why
      in if moved \<or> first \<and> fromRecovery w
         then w\<lparr>ejections := wrap32 (ejections w + 1)\<rparr> else w)"

definition markWorkerDown :: "timestamp \<Rightarrow> workerConn \<Rightarrow> workerConn" where
  "markWorkerDown now w = fst (setReachable now w workerDown ''taken down by an operator'')"

definition noteTimeout ::
    "timestamp \<Rightarrow> duration \<Rightarrow> duration \<Rightarrow> int \<Rightarrow> timestamp list \<Rightarrow> timestamp list \<times> int \<times> bool" where
  "noteTimeout now callTimeout window limit ts =
     (let recent = filter (\<lambda>at. now - at < window) ts; k = length recent in
      if 0 < k \<and> now - recent ! (k - 1) < callTimeout then (recent, int k, False)
      else
        (let ts' = recent @ [now]; n = int (length ts') in
         if n < limit then (ts', n, False) else ([], n, True)))"

definition recoverBackoffFor :: "workerTiming \<Rightarrow> workerConn \<Rightarrow> duration" where
  "recoverBackoffFor t w =
     (let n = (if ejections w < 1 then 1 else ejections w);
          backoff = wrap64 (n * recoverBackoff t)
      in min backoff (recoverBackoffMax t))"

definition readyToRecover :: "workerTiming \<Rightarrow> timestamp \<Rightarrow> workerConn \<Rightarrow> int \<Rightarrow> bool" where
  "readyToRecover t now w goodProbes =
     (if goodProbes < healthyThreshold t then False
      else recoverBackoffFor t w \<le> now - since w)"

definition placeable :: "workerConn \<Rightarrow> bool" where
  "placeable w = (reachable w = workerReachableOk \<and> load w \<noteq> workerOverloaded)"

section \<open>The poll loop\<close>

record pollState =
  loadMisses :: int
  misses :: int
  goodProbes :: int
  lastDeep :: "timestamp option" \<comment> \<open>None: the zero time, before the first deep probe\<close>
  lastDecay :: timestamp
  deepWedged :: bool
  missReason :: string
  lastSeen :: workerReachable

text \<open>What the environment answers during one probe, and what the clock reads.\<close>

record probeInput =
  telemetry :: "string + bool" \<comment> \<open>pollTelemetry: the error, or whether the box is overloaded\<close>
  pingAnswer :: "string option" \<comment> \<open>pingWorker: the error if any\<close>
  deepAnswer :: "string option" \<comment> \<open>deepProbeWorker: the error if any, read only when it runs\<close>
  pingTime :: timestamp \<comment> \<open>when the ping has returned\<close>
  endTime :: timestamp \<comment> \<open>when the last probe of the tick has returned\<close>

definition initPollState :: "timestamp \<Rightarrow> workerConn \<Rightarrow> pollState" where
  "initPollState now w = \<lparr>loadMisses = 0, misses = 0, goodProbes = 0, lastDeep = None,
     lastDecay = now, deepWedged = False, missReason = '''', lastSeen = reachable w\<rparr>"

definition probeReason :: "bool \<Rightarrow> string \<Rightarrow> string" where
  "probeReason deep err =
     (if deep then ''dockerd answered /_ping but could not list containers: '' @ err
      else ''dockerd did not answer: '' @ err)"

definition noticeEjection :: "workerConn \<Rightarrow> pollState \<Rightarrow> pollState" where
  "noticeEjection w p =
     (if reachable w \<noteq> lastSeen p
      then (if reachable w \<noteq> workerReachableOk then p\<lparr>goodProbes := 0\<rparr> else p)\<lparr>lastSeen := reachable w\<rparr>
      else p)"

definition pollLoad :: "workerTiming \<Rightarrow> string + bool \<Rightarrow> pollState \<Rightarrow> workerConn \<Rightarrow> pollState \<times> workerConn" where
  "pollLoad t answer p w =
     (case answer of
        Inl err \<Rightarrow>
          (let p = p\<lparr>loadMisses := loadMisses p + 1\<rparr>
           in (p, if loadMissesLimit t \<le> loadMisses p then setLoad w workerLoadUnknown else w))
      | Inr overloaded \<Rightarrow>
          (p\<lparr>loadMisses := 0\<rparr>, setLoad w (if overloaded then workerOverloaded else workerLoadOk)))"

definition deepDue :: "workerTiming \<Rightarrow> probeInput \<Rightarrow> pollState \<Rightarrow> bool" where
  "deepDue t i p =
     (pingAnswer i = None \<and>
      (deepWedged p \<or> (case lastDeep p of None \<Rightarrow> True | Some at \<Rightarrow> deepProbeInterval t \<le> pingTime i - at)))"

definition pollDaemon :: "workerTiming \<Rightarrow> probeInput \<Rightarrow> pollState \<Rightarrow> pollState \<times> bool" where
  "pollDaemon t i p =
     (let deep = deepDue t i p;
          err = (if deep then deepAnswer i else pingAnswer i);
          p = (if deep then p\<lparr>lastDeep := Some (endTime i), deepWedged := (err \<noteq> None)\<rparr> else p)
      in case err of
           Some e \<Rightarrow> (p\<lparr>goodProbes := 0, misses := misses p + 1, missReason := probeReason deep e\<rparr>, False)
         | None \<Rightarrow> (p\<lparr>misses := 0, goodProbes := goodProbes p + 1\<rparr>, True))"

text \<open>
  One run of the closure \<open>probe\<close>. The last component says whether it ends in a call of
  \<open>recoverWorker\<close>, which is an operation of the fleet.
\<close>

definition probe ::
    "workerTiming \<Rightarrow> probeInput \<Rightarrow> pollState \<Rightarrow> workerConn \<Rightarrow> pollState \<times> workerConn \<times> bool" where
  "probe t i p w =
     (if reachable w = workerDown then (p, w, False)
      else
        (let p = noticeEjection w p;
             (p, w) = pollLoad t (telemetry i) p w;
             (p, answered) = pollDaemon t i p;
             now = endTime i
         in if 0 < misses p then
              (if maxMisses t \<le> misses p
               then (let w = eject now w (missReason p) in (p\<lparr>lastSeen := reachable w\<rparr>, w, False))
               else (p, w, False))
            else if reachable w = workerReachableOk then
              (if 0 < ejections w \<and> ejectionDecay t \<le> now - lastDecay p
               then (p\<lparr>lastDecay := now\<rparr>, w\<lparr>ejections := wrap32 (ejections w - 1)\<rparr>, False)
               else (p, w, False))
            else (p, w, readyToRecover t now w (goodProbes p))))"

section \<open>Timing: what no environment can break\<close>

definition timing_wf :: "workerTiming \<Rightarrow> bool" where
  "timing_wf t \<longleftrightarrow>
     minPollInterval \<le> pollInterval t \<and>
     0 < pollTimeout t \<and> pollTimeout t < pollInterval t \<and>
     0 < pingTimeout t \<and> pingTimeout t < pollInterval t \<and>
     pollInterval t \<le> deepProbeInterval t \<and>
     1 \<le> maxMisses t \<and> 1 \<le> loadMissesLimit t \<and> 1 \<le> healthyThreshold t \<and> 1 \<le> timeoutsToEject t \<and>
     0 < recoverBackoff t \<and> 0 < recoverBackoffMax t \<and> 0 < ejectionDecay t \<and>
     0 < controlTimeout t \<and> 0 < timeoutWindow t \<and> 0 < pullTimeout t \<and>
     0 < launchWait t \<and> 0 < teardownWait t"

lemmas duration_units = millisecond_def second_def minute_def minPollInterval_def

lemma envDuration_pos: "0 < d \<Longrightarrow> 0 < envDuration pd os name d"
  by (auto simp: envDuration_def split: option.splits)

lemma envCount_pos: "1 \<le> n \<Longrightarrow> 1 \<le> envCount os name n"
  by (auto simp: envCount_def split: option.splits)

lemma clampProbeTimeout_fits:
  "0 < d \<Longrightarrow> minPollInterval \<le> i \<Longrightarrow> 0 < clampProbeTimeout d i \<and> clampProbeTimeout d i < i"
  by (auto simp: clampProbeTimeout_def go_div_nonneg duration_units)

text \<open>
  Whatever the environment holds and however durations parse, the worker timing read from
  it is usable: every ceiling is positive, both probe timeouts are positive and fit strictly
  under the poll interval (a zero timeout would be no timeout at all), the interval respects its
  floor, the deep probe is no more frequent than the tick, and every count is at least one.
\<close>

theorem workerTimingFromEnv_wf: "timing_wf (workerTimingFromEnv parseDuration os)"
proof -
  have units: "0 < second" "0 < millisecond" "0 < minute" "0 < minPollInterval"
    by (simp_all add: duration_units)
  show ?thesis
    unfolding timing_wf_def workerTimingFromEnv_def Let_def defaultWorkerTiming_def
    using units
    by (simp add: envDuration_pos envCount_pos clampProbeTimeout_fits)
qed

lemma workerTimingFromEnv_default: "workerTimingFromEnv pd (\<lambda>_. None) = defaultWorkerTiming"
  by (simp add: workerTimingFromEnv_def Let_def envDuration_def envCount_def LookupEnv_def
      defaultWorkerTiming_def clampProbeTimeout_def duration_units)

section \<open>The connection object: one-shot, and down sticks\<close>

text \<open>
  A connection in placement was never retired, and its broadcast channel was closed once if it
  was retired and never otherwise, so no close can panic.
\<close>

definition conn_inv :: "workerConn \<Rightarrow> bool" where
  "conn_inv w \<longleftrightarrow>
     (reachable w = workerReachableOk \<longrightarrow> \<not> retired w) \<and>
     (case unreachCh w of None \<Rightarrow> True | Some n \<Rightarrow> n = (if retired w then 1 else 0))"

lemma conn_inv_setReachable [health_simps]: "conn_inv w \<Longrightarrow> conn_inv (fst (setReachable now w to why))"
  by (auto simp: conn_inv_def setReachable_def close_unreachCh_def Let_def split: option.splits)

lemma setReachable_down [simp]:
  "reachable w = workerDown \<Longrightarrow> to \<noteq> workerDown \<Longrightarrow> setReachable now w to why = (w, False)"
  by (simp add: setReachable_def)

lemma setReachable_reachable [health_simps]:
  "reachable (fst (setReachable now w to why)) =
     (if reachable w = workerDown \<or> to = workerReachableOk \<and> retired w then reachable w else to)"
  by (auto simp: setReachable_def close_unreachCh_def Let_def)

lemma setReachable_moved:
  "snd (setReachable now w to why) \<longleftrightarrow>
     reachable w \<noteq> to \<and> reachable w \<noteq> workerDown \<and> \<not> (to = workerReachableOk \<and> retired w)"
  by (auto simp: setReachable_def Let_def)

lemma setReachable_since:
  "since (fst (setReachable now w to why)) = (if snd (setReachable now w to why) then now else since w)"
  by (auto simp: setReachable_def close_unreachCh_def Let_def)

lemma setReachable_frame [health_simps, simp]:
  "ip (fst (setReachable now w to why)) = ip w"
  "public (fst (setReachable now w to why)) = public w"
  "cli (fst (setReachable now w to why)) = cli w"
  "load (fst (setReachable now w to why)) = load w"
  "ejections (fst (setReachable now w to why)) = ejections w"
  "reconciled (fst (setReachable now w to why)) = reconciled w"
  "fromRecovery (fst (setReachable now w to why)) = fromRecovery w"
  "daemonFailed (fst (setReachable now w to why)) = daemonFailed w"
  "timeouts (fst (setReachable now w to why)) = timeouts w"
  "probeNow (fst (setReachable now w to why)) = probeNow w"
  by (auto simp: setReachable_def close_unreachCh_def Let_def)

lemma setReachable_retired:
  "retired (fst (setReachable now w to why)) =
     (retired w \<or> reachable w = workerReachableOk \<and> to \<noteq> workerReachableOk)"
  by (cases "reachable w") (auto simp: setReachable_def close_unreachCh_def Let_def)

lemma eject_unfold:
  "eject now w why =
     (let w1 = fst (setReachable now (w\<lparr>daemonFailed := True\<rparr>) workerUnresponsive why)
      in if reachable w = workerReachableOk \<or> \<not> daemonFailed w \<and> fromRecovery w
         then w1\<lparr>ejections := wrap32 (ejections w + 1)\<rparr> else w1)"
proof -
  let ?w = "w\<lparr>daemonFailed := True\<rparr>"
  obtain w1 b where s: "setReachable now ?w workerUnresponsive why = (w1, b)" by fastforce
  have "ejections w1 = ejections w" "fromRecovery w1 = fromRecovery w"
    using setReachable_frame [of now ?w workerUnresponsive why] s by simp_all
  moreover have "b = (reachable w = workerReachableOk)"
    using setReachable_moved [of now ?w workerUnresponsive why] s by (cases "reachable w") auto
  ultimately show ?thesis using s by (simp add: eject_def Let_def)
qed

lemma eject_reachable [health_simps]:
  "reachable (eject now w why) = (if reachable w = workerDown then workerDown else workerUnresponsive)"
  by (simp add: eject_unfold Let_def setReachable_reachable)

lemma eject_frame [health_simps, simp]:
  "ip (eject now w why) = ip w" "public (eject now w why) = public w"
  "cli (eject now w why) = cli w" "daemonFailed (eject now w why)"
  "load (eject now w why) = load w"
  "fromRecovery (eject now w why) = fromRecovery w" "reconciled (eject now w why) = reconciled w"
  by (simp_all add: eject_unfold Let_def)

lemma conn_inv_update_irrelevant [simp]:
  "conn_inv (w\<lparr>ejections := n\<rparr>) = conn_inv w" "conn_inv (w\<lparr>daemonFailed := b\<rparr>) = conn_inv w"
  "conn_inv (w\<lparr>load := l\<rparr>) = conn_inv w" "conn_inv (w\<lparr>timeouts := ts\<rparr>) = conn_inv w"
  "conn_inv (w\<lparr>probeNow := b\<rparr>) = conn_inv w"
  "conn_inv (w\<lparr>reconciled := b\<rparr>) = conn_inv w" "conn_inv (w\<lparr>reason := r\<rparr>) = conn_inv w"
  by (simp_all add: conn_inv_def)

lemma conn_inv_eject [health_simps]: "conn_inv w \<Longrightarrow> conn_inv (eject now w why)"
  by (simp add: eject_unfold Let_def conn_inv_setReachable)

lemma setLoad_frame [health_simps, simp]:
  "reachable (setLoad w l) = reachable w" "conn_inv (setLoad w l) = conn_inv w"
  "ejections (setLoad w l) = ejections w" "since (setLoad w l) = since w"
  "cli (setLoad w l) = cli w" "ip (setLoad w l) = ip w" "retired (setLoad w l) = retired w"
  "load (setLoad w l) = l"
  by (simp_all add: setLoad_def)

section \<open>Stalls\<close>

text \<open>Recorded stalls are a call timeout apart, and fewer than the limit.\<close>

definition stalls_inv :: "duration \<Rightarrow> int \<Rightarrow> timestamp list \<Rightarrow> bool" where
  "stalls_inv callTimeout limit ts \<longleftrightarrow>
     sorted_wrt (\<lambda>a b. callTimeout \<le> b - a) ts \<and> int (length ts) < limit"

text \<open>The verdicts of a run of timeouts at the given times.\<close>

fun stall_run :: "duration \<Rightarrow> duration \<Rightarrow> int \<Rightarrow> timestamp list \<Rightarrow> timestamp list \<Rightarrow> bool list" where
  "stall_run ct win limit ts [] = []"
| "stall_run ct win limit ts (now # nows) =
     (case noteTimeout now ct win limit ts of (ts', n, e) \<Rightarrow> e # stall_run ct win limit ts' nows)"

lemma spaced_snoc:
  assumes "sorted_wrt (\<lambda>a b. ct \<le> b - a) xs" "(0::int) \<le> ct" "xs \<noteq> [] \<Longrightarrow> ct \<le> now - last xs"
  shows "sorted_wrt (\<lambda>a b. ct \<le> b - a) (xs @ [now])"
proof (cases xs rule: rev_cases)
  case (snoc ys y)
  have y: "ct \<le> now - y" and ys: "\<forall>a\<in>set ys. ct \<le> y - a" "sorted_wrt (\<lambda>a b. ct \<le> b - a) ys"
    using assms snoc by (auto simp: sorted_wrt_append)
  have "ct \<le> now - a" if "a \<in> set ys" for a using y ys(1) assms(2) that by fastforce
  with y ys snoc show ?thesis by (auto simp: sorted_wrt_append)
qed simp

lemma spaced_span:
  "sorted_wrt (\<lambda>a b. ct \<le> b - a) xs \<Longrightarrow> xs \<noteq> [] \<Longrightarrow> (0::int) \<le> ct \<Longrightarrow>
     (int (length xs) - 1) * ct \<le> last xs - hd xs"
proof (induction xs)
  case (Cons x xs)
  show ?case
  proof (cases xs)
    case (Cons y ys)
    with Cons.prems Cons.IH have "(int (length xs) - 1) * ct \<le> last xs - hd xs" "ct \<le> y - x" by auto
    with Cons show ?thesis by (simp add: algebra_simps)
  qed simp
qed simp

lemma noteTimeout_cases:
  assumes inv: "stalls_inv ct limit ts" and ct: "0 \<le> ct"
    and nt: "noteTimeout now ct win limit ts = (ts', n, e)"
  shows "if e then ts' = [] \<and> n = limit \<and> (limit > 1 \<longrightarrow> (limit - 1) * ct < win)
         else stalls_inv ct limit ts' \<and> set ts' \<subseteq> insert now (set ts)"
proof -
  let ?r = "filter (\<lambda>at. now - at < win) ts"
  have r: "sorted_wrt (\<lambda>a b. ct \<le> b - a) ?r" "length ?r \<le> length ts"
    using inv by (simp_all add: stalls_inv_def sorted_wrt_filter)
  have last_r: "?r \<noteq> [] \<Longrightarrow> ?r ! (length ?r - 1) = last ?r" by (simp add: last_conv_nth)
  show ?thesis
  proof (cases "0 < length ?r \<and> now - ?r ! (length ?r - 1) < ct")
    case True
    then have "ts' = ?r" "\<not> e" using nt by (auto simp: noteTimeout_def Let_def)
    moreover have "int (length ?r) < limit" using r(2) inv unfolding stalls_inv_def by linarith
    ultimately show ?thesis using r(1) by (auto simp: stalls_inv_def)
  next
    case False
    then have sp: "sorted_wrt (\<lambda>a b. ct \<le> b - a) (?r @ [now])"
      using r ct last_r by (intro spaced_snoc) auto
    have n: "n = int (length ?r) + 1" and e: "e = (limit \<le> n)" and
      ts': "ts' = (if e then [] else ?r @ [now])"
      using nt False by (auto simp: noteTimeout_def Let_def split: if_splits)
    have "limit > 1 \<longrightarrow> (limit - 1) * ct < win" if e
    proof
      assume "1 < limit"
      with that e n have ne: "?r \<noteq> []" by auto
      then have "now - hd ?r < win" using hd_in_set [OF ne] by auto
      moreover have "int (length ?r) * ct \<le> now - hd ?r"
        using spaced_span [OF sp] ct ne by simp
      moreover have "limit - 1 = int (length ?r)"
        using that e n r(2) inv unfolding stalls_inv_def by linarith
      ultimately show "(limit - 1) * ct < win" by simp
    qed
    moreover have "e \<longrightarrow> n = limit" using n e r(2) inv unfolding stalls_inv_def by linarith
    ultimately show ?thesis using n e ts' sp by (auto simp: stalls_inv_def)
  qed
qed

lemma stall_run_window:
  "stalls_inv ct limit ts \<Longrightarrow> 0 \<le> ct \<Longrightarrow> 1 < limit \<Longrightarrow> win \<le> (limit - 1) * ct \<Longrightarrow>
     True \<notin> set (stall_run ct win limit ts nows)"
proof (induction nows arbitrary: ts)
  case (Cons now nows)
  obtain ts' n e where nt: "noteTimeout now ct win limit ts = (ts', n, e)" by (cases rule: prod_cases3)
  from noteTimeout_cases [OF Cons.prems(1,2) nt] Cons.prems(3,4)
  have "\<not> e" "stalls_inv ct limit ts'" by (auto split: if_splits)
  with Cons nt show ?case by simp
qed simp

text \<open>
  The warning of the settings reader is right: when it is given (and the int64 product it
  computes does not overflow), a daemon that answers its pings is never ejected for timing calls
  out, however many calls time out and whenever they do.
\<close>

theorem stallWindowWarning_sound:
  assumes "timing_wf t" and "(timeoutsToEject t - 1) * controlTimeout t < 2 ^ 63"
    and "stallWindowWarning t"
  shows "True \<notin> set (stall_run (controlTimeout t) (timeoutWindow t) (timeoutsToEject t) [] nows)"
proof -
  let ?k = "timeoutsToEject t" and ?c = "controlTimeout t"
  have k: "1 < ?k" "0 < ?c" using assms(1,3) by (auto simp: timing_wf_def stallWindowWarning_def)
  then have "(?k - 1) * 1 \<le> (?k - 1) * ?c" by (intro mult_left_mono) auto
  with assms(2) have "?k - 1 < 2 ^ 63" by (simp only: mult_1_right order_le_less_trans)
  with k have "wrap64 (?k - 1) = ?k - 1" by (intro wrap64_id) simp_all
  moreover from k assms(2) have "wrap64 ((?k - 1) * ?c) = (?k - 1) * ?c"
    by (intro wrap64_id) (auto intro: order_trans [of _ 0])
  ultimately have "timeoutWindow t \<le> (?k - 1) * ?c" using assms(3) by (simp add: stallWindowWarning_def)
  with k show ?thesis by (intro stall_run_window) (auto simp: stalls_inv_def)
qed

definition tight_window_timing :: workerTiming where
  "tight_window_timing = defaultWorkerTiming\<lparr>timeoutWindow := 60 * second\<rparr>"

theorem stallWindowWarning_sound_witness:
  "stallWindowWarning tight_window_timing \<and>
   True \<notin> set (stall_run (controlTimeout tight_window_timing) (timeoutWindow tight_window_timing)
      (timeoutsToEject tight_window_timing) [] [0, 30 * second, 60 * second, 90 * second])"
proof -
  have a: "timing_wf tight_window_timing" "stallWindowWarning tight_window_timing"
      "(timeoutsToEject tight_window_timing - 1) * controlTimeout tight_window_timing < 2 ^ 63"
    by (simp_all add: tight_window_timing_def timing_wf_def stallWindowWarning_def
        defaultWorkerTiming_def duration_units wrap64_def)
  show ?thesis using a(2) stallWindowWarning_sound [OF a(1,3,2)] by blast
qed

lemma stall_run_fills:
  assumes "sorted_wrt (\<lambda>a b. ct \<le> b - a) (ts @ nows)" "nows \<noteq> []" "0 < ct"
    and "int (length ts + length nows) = limit" and "last nows - hd (ts @ nows) < win"
  shows "stall_run ct win limit ts nows = replicate (length nows - 1) False @ [True]"
  using assms
proof (induction nows arbitrary: ts)
  case (Cons now nows)
  have le: "a \<le> last (now # nows)" if "a \<in> set (ts @ now # nows)" for a
  proof -
    have "a = last (now # nows) \<or> ct \<le> last (now # nows) - a"
      using that Cons.prems(1) by (induction nows rule: rev_induct) (auto simp: sorted_wrt_append)
    with Cons.prems(3) show ?thesis by auto
  qed
  have ge: "hd (ts @ now # nows) \<le> a" if "a \<in> set ts" for a
  proof (cases ts)
    case (Cons b bs)
    with \<open>sorted_wrt _ (ts @ now # nows)\<close> that have "a = b \<or> ct \<le> a - b" by auto
    with Cons \<open>0 < ct\<close> show ?thesis by auto
  qed (use that in simp)
  have "now - a < win" if "a \<in> set ts" for a
    using ge [OF that] le [of now] Cons.prems(5) by auto
  then have r: "filter (\<lambda>at. now - at < win) ts = ts" by (simp add: filter_id_conv)
  have spaced: "\<not> (0 < length ts \<and> now - ts ! (length ts - 1) < ct)"
    using Cons.prems(1) by (cases ts rule: rev_cases) (auto simp: sorted_wrt_append)
  show ?case
  proof (cases nows)
    case Nil
    with Cons.prems(4) r spaced show ?thesis by (auto simp: noteTimeout_def Let_def)
  next
    case (Cons m ms)
    with Cons.prems(4) r spaced have "noteTimeout now ct win limit ts = (ts @ [now], int (length ts) + 1, False)"
      by (auto simp: noteTimeout_def Let_def)
    moreover have "stall_run ct win limit (ts @ [now]) nows = replicate (length nows - 1) False @ [True]"
      using Cons.prems Cons by (intro Cons.IH) auto
    ultimately show ?thesis using Cons by simp
  qed
qed simp

text \<open>
  A daemon wedged underneath a live ping is ejected: once as many stalls as the limit, each a
  call timeout after the one before, have landed within the window, exactly the last of them
  ejects.
\<close>

theorem noteTimeout_ejects:
  assumes "sorted_wrt (\<lambda>a b. callTimeout \<le> b - a) nows" and "0 < callTimeout"
    and "nows \<noteq> []" and "int (length nows) = limit" and "last nows - hd nows < window"
  shows "stall_run callTimeout window limit [] nows = replicate (length nows - 1) False @ [True]"
  using stall_run_fills [of callTimeout "[]" nows limit window] assms by simp

theorem noteTimeout_ejects_witness:
  "stall_run (30 * second) (2 * minute) 3 [] [0, 40 * second, 75 * second] = [False, False, True]"
  using noteTimeout_ejects [of "30 * second" "[0, 40 * second, 75 * second]" 3 "2 * minute"]
  by (simp add: duration_units numeral_eq_Suc)

end
