(* ===== verification/Worker_Poll.thy ===== *)
theory Worker_Poll
  imports Worker_Health
begin

text \<open>
  What the poll loop of \<open>Worker_Health\<close> achieves over runs of probes: it ejects a worker
  after exactly \<open>maxMisses\<close> consecutive failures (also when only the container store is
  wedged), never because of telemetry, never touches an asserted down, and asks for recovery
  once the daemon has answered often enough and the backoff has passed.
\<close>

section \<open>One probe\<close>

lemma probe_conn_inv: "conn_inv w \<Longrightarrow> conn_inv (fst (snd (probe t i p w)))"
  by (auto simp: probe_def pollLoad_def Let_def health_simps split: prod.splits sum.splits if_splits)

lemma pollLoad_frame:
  "pollLoad t a p w = (p', w') \<Longrightarrow>
     reachable w' = reachable w \<and> ejections w' = ejections w \<and> since w' = since w \<and>
     daemonFailed w' = daemonFailed w \<and> fromRecovery w' = fromRecovery w \<and>
     misses p' = misses p \<and> goodProbes p' = goodProbes p \<and> lastDeep p' = lastDeep p \<and>
     deepWedged p' = deepWedged p \<and> lastDecay p' = lastDecay p"
  by (auto simp: pollLoad_def setLoad_def Let_def split: sum.splits if_splits)

lemma noticeEjection_frame [simp]:
  "misses (noticeEjection w p) = misses p" "lastDeep (noticeEjection w p) = lastDeep p"
  "deepWedged (noticeEjection w p) = deepWedged p" "lastDecay (noticeEjection w p) = lastDecay p"
  "lastSeen (noticeEjection w p) = reachable w"
  by (simp_all add: noticeEjection_def)

text \<open>Whether the dockerd probes of a tick fail, as the poll state decides which of them runs.\<close>

definition probe_fails :: "workerTiming \<Rightarrow> probeInput \<Rightarrow> pollState \<Rightarrow> bool" where
  "probe_fails t i p = ((if deepDue t i p then deepAnswer i else pingAnswer i) \<noteq> None)"

lemma pollDaemon_misses:
  "misses (fst (pollDaemon t i p)) = (if probe_fails t i p then misses p + 1 else 0)"
  "goodProbes (fst (pollDaemon t i p)) = (if probe_fails t i p then 0 else goodProbes p + 1)"
  "deepWedged (fst (pollDaemon t i p)) = (if deepDue t i p then deepAnswer i \<noteq> None else deepWedged p)"
  "lastDeep (fst (pollDaemon t i p)) = (if deepDue t i p then Some (endTime i) else lastDeep p)"
  "lastSeen (fst (pollDaemon t i p)) = lastSeen p"
  by (auto simp: pollDaemon_def probe_fails_def Let_def split: option.splits)

lemma deepDue_cong:
  "lastDeep p = lastDeep q \<Longrightarrow> deepWedged p = deepWedged q \<Longrightarrow> deepDue t i p = deepDue t i q"
  by (simp add: deepDue_def)

lemma probe_fails_cong:
  "lastDeep p = lastDeep q \<Longrightarrow> deepWedged p = deepWedged q \<Longrightarrow> probe_fails t i p = probe_fails t i q"
  by (simp add: probe_fails_def deepDue_cong [of p q])

lemma probe_step:
  assumes nd: "reachable w \<noteq> workerDown" and m0: "0 \<le> misses p" and pr: "probe t i p w = (p', w', rec)"
  shows "misses p' = (if probe_fails t i p then misses p + 1 else 0)"
    and "goodProbes p' = (if probe_fails t i p then 0
           else 1 + (if reachable w \<noteq> lastSeen p \<and> reachable w \<noteq> workerReachableOk then 0 else goodProbes p))"
    and "deepWedged p' = (if deepDue t i p then deepAnswer i \<noteq> None else deepWedged p)"
    and "lastDeep p' = (if deepDue t i p then Some (endTime i) else lastDeep p)"
    and "lastSeen p' = reachable w'"
    and "reachable w' = (if probe_fails t i p \<and> maxMisses t \<le> misses p + 1
           then workerUnresponsive else reachable w)"
    and "\<not> probe_fails t i p \<Longrightarrow> reachable w \<noteq> workerReachableOk \<Longrightarrow>
           since w' = since w \<and> ejections w' = ejections w"
    and "rec = (\<not> probe_fails t i p \<and> reachable w \<noteq> workerReachableOk \<and>
           readyToRecover t (endTime i) w (goodProbes p'))"
proof -
  define p1 where "p1 = noticeEjection w p"
  obtain p2 w2 where l: "pollLoad t (telemetry i) p1 w = (p2, w2)" by fastforce
  obtain p3 b where d: "pollDaemon t i p2 = (p3, b)" by fastforce
  note f = pollLoad_frame [OF l]
  have ls2: "lastSeen p2 = reachable w"
    using l by (auto simp: pollLoad_def Let_def p1_def split: sum.splits if_splits)
  have g1: "goodProbes p1 = (if reachable w \<noteq> lastSeen p \<and> reachable w \<noteq> workerReachableOk then 0 else goodProbes p)"
    by (auto simp: p1_def noticeEjection_def)
  have same: "lastDeep p2 = lastDeep p" "deepWedged p2 = deepWedged p" "misses p2 = misses p"
    using f by (simp_all add: p1_def)
  note pd = pollDaemon_misses [of t i p2, unfolded d fst_conv]
  note c = deepDue_cong [OF same(1,2), of t i] probe_fails_cong [OF same(1,2), of t i]
  have p3: "misses p3 = (if probe_fails t i p then misses p + 1 else 0)"
    "goodProbes p3 = (if probe_fails t i p then 0 else 1 + goodProbes p1)"
    "deepWedged p3 = (if deepDue t i p then deepAnswer i \<noteq> None else deepWedged p)"
    "lastDeep p3 = (if deepDue t i p then Some (endTime i) else lastDeep p)"
    "lastSeen p3 = reachable w"
    using pd c same f ls2 by (simp_all)
  have ready: "readyToRecover t now w2 g = readyToRecover t now w g" for now g
    using f by (simp add: readyToRecover_def recoverBackoffFor_def)
  have main: "(p', w', rec) =
     (if probe_fails t i p then
        (if maxMisses t \<le> misses p + 1
         then (p3\<lparr>lastSeen := workerUnresponsive\<rparr>, eject (endTime i) w2 (missReason p3), False)
         else (p3, w2, False))
      else if reachable w = workerReachableOk then
        (if 0 < ejections w2 \<and> ejectionDecay t \<le> endTime i - lastDecay p3
         then (p3\<lparr>lastDecay := endTime i\<rparr>, w2\<lparr>ejections := wrap32 (ejections w2 - 1)\<rparr>, False)
         else (p3, w2, False))
      else (p3, w2, readyToRecover t (endTime i) w (goodProbes p3)))"
    unfolding pr [symmetric] probe_def Let_def
    using nd m0 f by (simp add: p1_def [symmetric] l d p3(1) ready eject_reachable)
  note p3' = p3(2-5) p3(1) g1
  consider (miss) "probe_fails t i p" "\<not> maxMisses t \<le> misses p + 1"
    | (out) "probe_fails t i p" "maxMisses t \<le> misses p + 1"
    | (steady) "\<not> probe_fails t i p" "reachable w = workerReachableOk"
    | (answering) "\<not> probe_fails t i p" "reachable w \<noteq> workerReachableOk" by blast
  then have "misses p' = (if probe_fails t i p then misses p + 1 else 0) \<and>
    goodProbes p' = (if probe_fails t i p then 0
           else 1 + (if reachable w \<noteq> lastSeen p \<and> reachable w \<noteq> workerReachableOk then 0 else goodProbes p)) \<and>
    deepWedged p' = (if deepDue t i p then deepAnswer i \<noteq> None else deepWedged p) \<and>
    lastDeep p' = (if deepDue t i p then Some (endTime i) else lastDeep p) \<and>
    lastSeen p' = reachable w' \<and>
    reachable w' = (if probe_fails t i p \<and> maxMisses t \<le> misses p + 1
           then workerUnresponsive else reachable w) \<and>
    (\<not> probe_fails t i p \<longrightarrow> reachable w \<noteq> workerReachableOk \<longrightarrow>
           since w' = since w \<and> ejections w' = ejections w) \<and>
    rec = (\<not> probe_fails t i p \<and> reachable w \<noteq> workerReachableOk \<and>
           readyToRecover t (endTime i) w (goodProbes p'))"
  proof cases
    case miss
    with main have "p' = p3" "w' = w2" "\<not> rec" by simp_all
    with miss p3' f show ?thesis by simp
  next
    case out
    with main have "p' = p3\<lparr>lastSeen := workerUnresponsive\<rparr>" "w' = eject (endTime i) w2 (missReason p3)" "\<not> rec"
      by simp_all
    with out p3' f nd show ?thesis by (simp add: eject_reachable)
  next
    case steady
    with main have "(p' = p3 \<and> w' = w2 \<or> p' = p3\<lparr>lastDecay := endTime i\<rparr> \<and> w' = w2\<lparr>ejections := wrap32 (ejections w2 - 1)\<rparr>)"
      "\<not> rec" by (simp_all split: if_split_asm)
    with steady p3' f show ?thesis by (elim disjE conjE) simp_all
  next
    case answering
    with main have "p' = p3" "w' = w2" "rec = readyToRecover t (endTime i) w (goodProbes p3)" by simp_all
    with answering p3' f show ?thesis by simp
  qed
  then show
    "misses p' = (if probe_fails t i p then misses p + 1 else 0)"
    "goodProbes p' = (if probe_fails t i p then 0
           else 1 + (if reachable w \<noteq> lastSeen p \<and> reachable w \<noteq> workerReachableOk then 0 else goodProbes p))"
    "deepWedged p' = (if deepDue t i p then deepAnswer i \<noteq> None else deepWedged p)"
    "lastDeep p' = (if deepDue t i p then Some (endTime i) else lastDeep p)"
    "lastSeen p' = reachable w'"
    "reachable w' = (if probe_fails t i p \<and> maxMisses t \<le> misses p + 1
           then workerUnresponsive else reachable w)"
    "\<not> probe_fails t i p \<Longrightarrow> reachable w \<noteq> workerReachableOk \<Longrightarrow>
           since w' = since w \<and> ejections w' = ejections w"
    "rec = (\<not> probe_fails t i p \<and> reachable w \<noteq> workerReachableOk \<and>
           readyToRecover t (endTime i) w (goodProbes p'))"
    by blast+
qed

section \<open>Runs of probes\<close>

fun probe_run :: "workerTiming \<Rightarrow> probeInput list \<Rightarrow> pollState \<Rightarrow> workerConn \<Rightarrow> pollState \<times> workerConn \<times> bool" where
  "probe_run t [] p w = (p, w, False)"
| "probe_run t (i # is) p w =
     (case probe t i p w of (p', w', rec) \<Rightarrow> if is = [] then (p', w', rec) else probe_run t is p' w')"

text \<open>The daemon is out: it answers no ping, or its store answers no list.\<close>

definition daemon_out :: "pollState \<Rightarrow> probeInput list \<Rightarrow> bool" where
  "daemon_out p is \<longleftrightarrow>
     (\<forall>i\<in>set is. pingAnswer i \<noteq> None) \<or>
     (deepWedged p \<or> lastDeep p = None) \<and> (\<forall>i\<in>set is. deepAnswer i \<noteq> None)"

lemma daemon_out_fails: "daemon_out p (i # is) \<Longrightarrow> probe_fails t i p"
  by (auto simp: daemon_out_def probe_fails_def deepDue_def)

lemma daemon_out_step:
  assumes "daemon_out p (i # is)" "reachable w \<noteq> workerDown" "0 \<le> misses p" "probe t i p w = (p', w', rec)"
  shows "daemon_out p' is"
  using assms(1) probe_step(3,4) [OF assms(2-4)]
  by (auto simp: daemon_out_def deepDue_def split: if_splits)

lemma probe_run_daemon_out:
  "daemon_out p is \<Longrightarrow> reachable w \<noteq> workerDown \<Longrightarrow> 0 \<le> misses p \<Longrightarrow>
   probe_run t is p w = (p', w', rec) \<Longrightarrow>
     reachable w' = (if is \<noteq> [] \<and> maxMisses t \<le> misses p + int (length is) then workerUnresponsive else reachable w)"
proof (induction "is" arbitrary: p w)
  case (Cons i "is")
  obtain p1 w1 r1 where pr: "probe t i p w = (p1, w1, r1)" by (cases rule: prod_cases3)
  note st = probe_step [OF Cons.prems(2,3) pr]
  have f: "probe_fails t i p" using daemon_out_fails Cons.prems(1) .
  have o1: "daemon_out p1 is" using daemon_out_step [OF Cons.prems(1-3) pr] .
  show ?case
  proof (cases "is")
    case Nil
    with Cons.prems(4) pr st(6) f show ?thesis by simp
  next
    case (Cons j js)
    have "probe_run t is p1 w1 = (p', w', rec)" using Cons.prems(4) pr Cons by simp
    moreover have "reachable w1 \<noteq> workerDown" "0 \<le> misses p1"
      using st(1,6) Cons.prems(2,3) by simp_all
    ultimately have "reachable w' = (if is \<noteq> [] \<and> maxMisses t \<le> misses p1 + int (length is)
        then workerUnresponsive else reachable w1)"
      using Cons.IH [OF o1] by blast
    with st(1,6) f Cons show ?thesis by auto
  qed
qed simp

text \<open>
  C36. A worker whose daemon is out is ejected by its poller after exactly \<open>maxMisses\<close>
  consecutive probes and not before, whether the daemon answers no ping at all or answers every
  ping while its container store is wedged; fewer failures in a row leave it in placement.
\<close>

theorem poller_ejects_exactly_at_maxMisses:
  assumes "daemon_out p inputs" and "misses p = 0" and "1 \<le> maxMisses t"
    and "reachable w = workerReachableOk"
  shows "reachable (fst (snd (probe_run t inputs p w))) =
           (if maxMisses t \<le> int (length inputs) then workerUnresponsive else workerReachableOk)"
  using probe_run_daemon_out [OF assms(1), of w t] assms(2-4)
  by (cases "probe_run t inputs p w" rule: prod_cases3) auto

definition wedged_input :: "timestamp \<Rightarrow> probeInput" where
  "wedged_input at = \<lparr>telemetry = Inr False, pingAnswer = None, deepAnswer = Some ''timeout'',
     pingTime = at, endTime = at + second\<rparr>"

definition fresh_conn :: workerConn where
  "fresh_conn = \<lparr>ip = ''10.0.0.1'', public = '''', cli = 1, reachable = workerReachableOk,
     load = workerLoadOk, since = 0, reason = None, ejections = 0, unreachCh = Some 0,
     retired = False, reconciled = True, fromRecovery = False, daemonFailed = False,
     timeouts = [], probeNow = False\<rparr>"

theorem poller_ejects_exactly_at_maxMisses_witness:
  "reachable (fst (snd (probe_run defaultWorkerTiming
      (map wedged_input [5 * second, 10 * second, 15 * second, 20 * second, 25 * second, 30 * second])
      (initPollState 0 fresh_conn) fresh_conn))) = workerUnresponsive \<and>
   reachable (fst (snd (probe_run defaultWorkerTiming
      (map wedged_input [5 * second, 10 * second, 15 * second, 20 * second, 25 * second])
      (initPollState 0 fresh_conn) fresh_conn))) = workerReachableOk"
proof -
  have o: "daemon_out (initPollState 0 fresh_conn) (map wedged_input ts)" for ts
    by (simp add: daemon_out_def initPollState_def wedged_input_def)
  have m: "misses (initPollState 0 fresh_conn) = 0" "1 \<le> maxMisses defaultWorkerTiming"
    "reachable fresh_conn = workerReachableOk"
    by (simp_all add: initPollState_def defaultWorkerTiming_def fresh_conn_def)
  show ?thesis
    using poller_ejects_exactly_at_maxMisses [OF o m, of "[5 * second, 10 * second, 15 * second, 20 * second, 25 * second, 30 * second]"]
      poller_ejects_exactly_at_maxMisses [OF o m, of "[5 * second, 10 * second, 15 * second, 20 * second, 25 * second]"]
    by (simp add: defaultWorkerTiming_def)
qed

text \<open>
  Telemetry drives the load axis only: two ticks that differ in nothing but what the telemetry
  agent answered leave the worker equally reachable, with the same counts and the same decision
  on recovery.
\<close>

theorem telemetry_never_ejects:
  assumes "0 \<le> misses p"
  shows "let (p1, w1, r1) = probe t i p w; (p2, w2, r2) = probe t (i\<lparr>telemetry := a\<rparr>) p w
         in reachable w1 = reachable w2 \<and> misses p1 = misses p2 \<and> goodProbes p1 = goodProbes p2 \<and> r1 = r2"
proof -
  obtain p1 w1 r1 where 1: "probe t i p w = (p1, w1, r1)" by (cases rule: prod_cases3)
  obtain p2 w2 r2 where 2: "probe t (i\<lparr>telemetry := a\<rparr>) p w = (p2, w2, r2)" by (cases rule: prod_cases3)
  have "reachable w1 = reachable w2 \<and> misses p1 = misses p2 \<and> goodProbes p1 = goodProbes p2 \<and> r1 = r2"
  proof (cases "reachable w = workerDown")
    case True
    with 1 2 show ?thesis by (simp add: probe_def)
  next
    case False
    have same: "probe_fails t (i\<lparr>telemetry := a\<rparr>) p = probe_fails t i p"
      by (simp add: probe_fails_def deepDue_def split: option.split)
    show ?thesis
      using probe_step(1,2,6,8) [OF False assms 1] probe_step(1,2,6,8) [OF False assms 2]
      unfolding same by simp
  qed
  with 1 2 show ?thesis by simp
qed

theorem telemetry_never_ejects_witness:
  "let (p1, w1, r1) = probe defaultWorkerTiming (wedged_input 0) (initPollState 0 fresh_conn) fresh_conn;
       (p2, w2, r2) = probe defaultWorkerTiming ((wedged_input 0)\<lparr>telemetry := Inl ''refused''\<rparr>)
          (initPollState 0 fresh_conn) fresh_conn
   in reachable w1 = reachable w2 \<and> misses p1 = misses p2 \<and> goodProbes p1 = goodProbes p2 \<and> r1 = r2"
  by (rule telemetry_never_ejects) (simp add: initPollState_def)

section \<open>Recovery\<close>

definition daemon_answers :: "probeInput list \<Rightarrow> bool" where
  "daemon_answers is \<longleftrightarrow> (\<forall>i\<in>set is. pingAnswer i = None \<and> deepAnswer i = None)"

lemma probe_run_answers:
  "daemon_answers is \<Longrightarrow> is \<noteq> [] \<Longrightarrow> reachable w = workerUnresponsive \<Longrightarrow> 0 \<le> misses p \<Longrightarrow>
   lastSeen p = workerUnresponsive \<Longrightarrow> probe_run t is p w = (p', w', rec) \<Longrightarrow>
     rec = readyToRecover t (endTime (last is)) w (goodProbes p + int (length is))"
proof (induction "is" arbitrary: p w)
  case (Cons i "is")
  obtain p1 w1 r1 where pr: "probe t i p w = (p1, w1, r1)" by (cases rule: prod_cases3)
  have nd: "reachable w \<noteq> workerDown" using Cons.prems(3) by simp
  have ok: "\<not> probe_fails t i p" using Cons.prems(1) by (auto simp: daemon_answers_def probe_fails_def)
  note st = probe_step [OF nd Cons.prems(4) pr]
  have g: "goodProbes p1 = goodProbes p + 1" using st(2) ok Cons.prems(3,5) by simp
  have w1: "reachable w1 = workerUnresponsive" "since w1 = since w" "ejections w1 = ejections w"
    using st(6,7) ok Cons.prems(3) by simp_all
  have same: "readyToRecover t now w1 k = readyToRecover t now w k" for now k
    using w1 by (simp add: readyToRecover_def recoverBackoffFor_def)
  show ?case
  proof (cases "is")
    case Nil
    with Cons.prems(6) pr st(8) ok g Cons.prems(3) show ?thesis by simp
  next
    case (Cons j js)
    have "probe_run t is p1 w1 = (p', w', rec)" using Cons.prems(6) pr Cons by simp
    moreover have "daemon_answers is" "0 \<le> misses p1" "lastSeen p1 = workerUnresponsive"
      using Cons.prems(1) st(1,5) ok w1 by (auto simp: daemon_answers_def)
    ultimately have "rec = readyToRecover t (endTime (last is)) w1 (goodProbes p1 + int (length is))"
      using Cons.IH [OF _ _ w1(1)] Cons by simp
    with same g Cons show ?thesis by (simp add: algebra_simps)
  qed
qed simp

text \<open>
  Recovery is neither early nor forgotten: while an ejected worker's daemon answers every probe
  of a run, the last probe asks for recovery exactly when the run is long enough for the health
  threshold and the worker has been out for the backoff its ejections have earned, a wait between
  the base backoff and its cap.
\<close>

theorem recovery_after_backoff:
  assumes "daemon_answers inputs" and "inputs \<noteq> []" and "reachable w = workerUnresponsive"
    and "misses p = 0" and "goodProbes p = 0" and "lastSeen p = workerUnresponsive"
    and "timing_wf t" and "max 1 (ejections w) * recoverBackoff t < 2 ^ 63"
  shows "snd (snd (probe_run t inputs p w)) \<longleftrightarrow>
           healthyThreshold t \<le> int (length inputs) \<and>
           min (max 1 (ejections w) * recoverBackoff t) (recoverBackoffMax t) \<le> endTime (last inputs) - since w"
proof -
  obtain p' w' rec where run: "probe_run t inputs p w = (p', w', rec)" by (cases rule: prod_cases3)
  let ?n = "max 1 (ejections w)"
  have "0 < recoverBackoff t" using assms(7) by (simp add: timing_wf_def)
  then have "0 \<le> ?n * recoverBackoff t" by simp
  then have "wrap64 (?n * recoverBackoff t) = ?n * recoverBackoff t"
    using assms(8) by (intro wrap64_id) auto
  moreover have "(if ejections w < 1 then 1 else ejections w) = ?n" by auto
  ultimately have "recoverBackoffFor t w = min (?n * recoverBackoff t) (recoverBackoffMax t)"
    by (simp add: recoverBackoffFor_def Let_def)
  with probe_run_answers [OF assms(1-3) _ assms(6) run] assms(4,5) run
  show ?thesis by (auto simp: readyToRecover_def)
qed

definition answered_input :: "timestamp \<Rightarrow> probeInput" where
  "answered_input at = \<lparr>telemetry = Inr False, pingAnswer = None, deepAnswer = None,
     pingTime = at, endTime = at\<rparr>"

definition ejected_conn :: workerConn where
  "ejected_conn = fresh_conn\<lparr>reachable := workerUnresponsive, retired := True, unreachCh := Some 1,
     ejections := 3, daemonFailed := True\<rparr>"

theorem recovery_after_backoff_witness:
  "snd (snd (probe_run defaultWorkerTiming [answered_input (25 * second), answered_input (30 * second)]
     (initPollState 0 ejected_conn) ejected_conn)) \<and>
   \<not> snd (snd (probe_run defaultWorkerTiming [answered_input (20 * second), answered_input (25 * second)]
     (initPollState 0 ejected_conn) ejected_conn))"
proof -
  have a: "reachable ejected_conn = workerUnresponsive" "misses (initPollState 0 ejected_conn) = 0"
    "goodProbes (initPollState 0 ejected_conn) = 0" "lastSeen (initPollState 0 ejected_conn) = workerUnresponsive"
    "timing_wf defaultWorkerTiming" "max 1 (ejections ejected_conn) * recoverBackoff defaultWorkerTiming < 2 ^ 63"
    by (simp_all add: ejected_conn_def initPollState_def timing_wf_def defaultWorkerTiming_def duration_units
        fresh_conn_def)
  have d: "daemon_answers [answered_input x, answered_input y]" for x y
    by (simp add: daemon_answers_def answered_input_def)
  show ?thesis
    using recovery_after_backoff [OF d _ a, of "25 * second" "30 * second"]
      recovery_after_backoff [OF d _ a, of "20 * second" "25 * second"]
    by (simp add: answered_input_def ejected_conn_def fresh_conn_def defaultWorkerTiming_def duration_units)
qed

end
