(* ===== verification/Reachable_Race.thy ===== *)
theory Reachable_Race
  imports Worker_Poll
begin

text \<open>
  \<open>setReachable\<close> (\<open>src/cork/workers.go\<close>) at the grain of its atomic memory
  operations: any number of goroutines call it on one connection at once (the poller, failed
  control calls, \<open>worker-down\<close>, the reconcile pass), and every load, compare-and-swap and
  store may interleave with those of the others. The sequential \<open>setReachable\<close> of
  \<open>Worker_Health\<close> is one thread run alone. Closing a closed channel panics in Go, so the
  count of closes must never reach two.
\<close>

section \<open>The calls and their steps\<close>

datatype pc =
    PLoad \<comment> \<open>about to load the reachable state\<close>
  | PRetired workerReachable \<comment> \<open>about to load retired, having loaded prev\<close>
  | PCas workerReachable \<comment> \<open>about to compare-and-swap prev\<close>
  | PStamp workerReachable \<comment> \<open>swapped; about to store since and reason\<close>
  | PRetire \<comment> \<open>about to set retired\<close>
  | PClose \<comment> \<open>about to close unreachCh\<close>
  | PLeft \<comment> \<open>returned true, having closed the channel\<close>
  | PDone bool \<comment> \<open>returned\<close>

record race =
  conn :: workerConn
  pcs :: "nat \<Rightarrow> pc"

definition advance :: "nat \<Rightarrow> pc \<Rightarrow> race \<Rightarrow> race" where
  "advance i p s = s\<lparr>pcs := (pcs s)(i := p)\<rparr>"

text \<open>Call \<open>i\<close> wants the worker in state \<open>tgt i\<close>, for the reason \<open>why i\<close>.\<close>

inductive race_step :: "(nat \<Rightarrow> workerReachable) \<Rightarrow> (nat \<Rightarrow> string) \<Rightarrow> race \<Rightarrow> race \<Rightarrow> bool"
  for tgt why where
  load_same: "pcs s i = PLoad \<Longrightarrow> reachable (conn s) = tgt i \<Longrightarrow>
     race_step tgt why s (advance i (PDone False)
       (s\<lparr>conn := (if why i \<noteq> '''' then (conn s)\<lparr>reason := Some (why i)\<rparr> else conn s)\<rparr>))"
| load_down: "pcs s i = PLoad \<Longrightarrow> reachable (conn s) = workerDown \<Longrightarrow> tgt i \<noteq> workerDown \<Longrightarrow>
     race_step tgt why s (advance i (PDone False) s)"
| load_go: "pcs s i = PLoad \<Longrightarrow> reachable (conn s) \<noteq> tgt i \<Longrightarrow> reachable (conn s) \<noteq> workerDown \<Longrightarrow>
     race_step tgt why s (advance i
       (if tgt i = workerReachableOk then PRetired (reachable (conn s)) else PCas (reachable (conn s))) s)"
| retired_yes: "pcs s i = PRetired prev \<Longrightarrow> retired (conn s) \<Longrightarrow>
     race_step tgt why s (advance i (PDone False) s)"
| retired_no: "pcs s i = PRetired prev \<Longrightarrow> \<not> retired (conn s) \<Longrightarrow>
     race_step tgt why s (advance i (PCas prev) s)"
| cas_fail: "pcs s i = PCas prev \<Longrightarrow> reachable (conn s) \<noteq> prev \<Longrightarrow>
     race_step tgt why s (advance i PLoad s)"
| cas_ok: "pcs s i = PCas prev \<Longrightarrow> reachable (conn s) = prev \<Longrightarrow>
     race_step tgt why s (advance i (PStamp prev) (s\<lparr>conn := (conn s)\<lparr>reachable := tgt i\<rparr>\<rparr>))"
| stamp: "pcs s i = PStamp prev \<Longrightarrow>
     race_step tgt why s (advance i (if prev = workerReachableOk then PRetire else PDone True)
       (s\<lparr>conn := (conn s)\<lparr>since := now, reason := (if why i = '''' then None else Some (why i))\<rparr>\<rparr>))"
| retire: "pcs s i = PRetire \<Longrightarrow>
     race_step tgt why s (advance i PClose (s\<lparr>conn := (conn s)\<lparr>retired := True\<rparr>\<rparr>))"
| close_ch: "pcs s i = PClose \<Longrightarrow>
     race_step tgt why s (advance i PLeft (s\<lparr>conn := close_unreachCh (conn s)\<rparr>))"

text \<open>
  A connection as \<open>newWorkerConn\<close> makes it, and every call still to be made. Only
  \<open>runWorker\<close> asks for \<open>ok\<close>, once per connection.
\<close>

definition race_init :: "race \<Rightarrow> bool" where
  "race_init s \<longleftrightarrow> reachable (conn s) = workerUnresponsive \<and> \<not> retired (conn s) \<and>
     unreachCh (conn s) = Some 0 \<and> (\<forall>i. pcs s i = PLoad)"

definition one_ok_call :: "(nat \<Rightarrow> workerReachable) \<Rightarrow> bool" where
  "one_ok_call tgt \<longleftrightarrow> (\<forall>i j. tgt i = workerReachableOk \<longrightarrow> tgt j = workerReachableOk \<longrightarrow> i = j)"

inductive race_reach :: "(nat \<Rightarrow> workerReachable) \<Rightarrow> (nat \<Rightarrow> string) \<Rightarrow> race \<Rightarrow> bool" for tgt why where
  start: "race_init s \<Longrightarrow> race_reach tgt why s"
| step: "race_reach tgt why s \<Longrightarrow> race_step tgt why s s' \<Longrightarrow> race_reach tgt why s'"

section \<open>The invariant\<close>

fun leaving :: "pc \<Rightarrow> bool" where
  "leaving (PStamp prev) = (prev = workerReachableOk)"
| "leaving PRetire = True"
| "leaving PClose = True"
| "leaving PLeft = True"
| "leaving _ = False"

definition entered :: "(nat \<Rightarrow> workerReachable) \<Rightarrow> race \<Rightarrow> bool" where
  "entered tgt s \<longleftrightarrow> (\<exists>k prev. tgt k = workerReachableOk \<and>
     (pcs s k = PStamp prev \<and> prev \<noteq> workerReachableOk \<or> pcs s k = PDone True))"

definition race_inv :: "(nat \<Rightarrow> workerReachable) \<Rightarrow> race \<Rightarrow> bool" where
  "race_inv tgt s \<longleftrightarrow>
     (\<forall>i j. leaving (pcs s i) \<longrightarrow> leaving (pcs s j) \<longrightarrow> i = j) \<and>
     (\<forall>i. leaving (pcs s i) \<longrightarrow> reachable (conn s) \<noteq> workerReachableOk \<and> entered tgt s \<and> tgt i \<noteq> workerReachableOk) \<and>
     (reachable (conn s) = workerReachableOk \<longrightarrow> entered tgt s) \<and>
     unreachCh (conn s) = Some (if \<exists>i. pcs s i = PLeft then 1 else 0) \<and>
     (\<forall>i prev. pcs s i = PRetired prev \<or> pcs s i = PCas prev \<longrightarrow> prev \<noteq> tgt i \<and> prev \<noteq> workerDown)"

lemma race_invI:
  assumes "\<And>i j. leaving (pcs s i) \<Longrightarrow> leaving (pcs s j) \<Longrightarrow> i = j"
    and "\<And>i. leaving (pcs s i) \<Longrightarrow> reachable (conn s) \<noteq> workerReachableOk \<and> entered tgt s \<and> tgt i \<noteq> workerReachableOk"
    and "reachable (conn s) = workerReachableOk \<Longrightarrow> entered tgt s"
    and "unreachCh (conn s) = Some (if \<exists>i. pcs s i = PLeft then 1 else 0)"
    and "\<And>i q. pcs s i = PRetired q \<or> pcs s i = PCas q \<Longrightarrow> q \<noteq> tgt i \<and> q \<noteq> workerDown"
  shows "race_inv tgt s"
  unfolding race_inv_def using assms by blast

lemma race_invD:
  assumes "race_inv tgt s"
  shows "leaving (pcs s i) \<Longrightarrow> leaving (pcs s j) \<Longrightarrow> i = j"
    and "leaving (pcs s i) \<Longrightarrow> reachable (conn s) \<noteq> workerReachableOk \<and> entered tgt s \<and> tgt i \<noteq> workerReachableOk"
    and "reachable (conn s) = workerReachableOk \<Longrightarrow> entered tgt s"
    and "unreachCh (conn s) = Some (if \<exists>i. pcs s i = PLeft then 1 else 0)"
    and "pcs s i = PRetired q \<or> pcs s i = PCas q \<Longrightarrow> q \<noteq> tgt i \<and> q \<noteq> workerDown"
  using assms unfolding race_inv_def by blast+

lemma race_inv_init: "race_init s \<Longrightarrow> race_inv tgt s"
  by (simp add: race_inv_def race_init_def)

lemma entered_advance:
  "entered tgt s \<Longrightarrow> \<not> (tgt i = workerReachableOk \<and> (pcs s i = PDone True \<or> (\<exists>prev. pcs s i = PStamp prev))) \<Longrightarrow>
     entered tgt (advance i p (s\<lparr>conn := c\<rparr>))"
  by (auto simp: entered_def advance_def)

lemma leaving_advance [simp]:
  "leaving (pcs (advance i p s) j) = (if j = i then leaving p else leaving (pcs s j))"
  by (simp add: advance_def)

lemma conn_advance [simp]: "conn (advance i p s) = conn s"
  by (simp add: advance_def)

lemma left_advance:
  "pcs s i \<noteq> PLeft \<Longrightarrow> p \<noteq> PLeft \<Longrightarrow>
     (\<exists>j. pcs (advance i p (s\<lparr>conn := c\<rparr>)) j = PLeft) = (\<exists>j. pcs s j = PLeft)"
  by (auto simp: advance_def)

text \<open>A step that neither enters nor leaves: the call is before its swap and stays quiet.\<close>

lemma race_inv_quiet:
  assumes inv: "race_inv tgt s" and old: "pcs s i = PLoad \<or> (\<exists>q. pcs s i = PRetired q \<or> pcs s i = PCas q)"
    and new: "\<not> leaving p" "\<forall>q. p = PRetired q \<or> p = PCas q \<longrightarrow> q \<noteq> tgt i \<and> q \<noteq> workerDown"
    and c: "reachable c = reachable (conn s)" "unreachCh c = unreachCh (conn s)"
  shows "race_inv tgt (advance i p (s\<lparr>conn := c\<rparr>))"
proof -
  let ?s = "advance i p (s\<lparr>conn := c\<rparr>)"
  have e: "entered tgt s \<Longrightarrow> entered tgt ?s" by (rule entered_advance) (use old in auto)
  have l: "(\<exists>j. pcs ?s j = PLeft) = (\<exists>j. pcs s j = PLeft)"
    by (rule left_advance) (use old new in auto)
  have g: "\<forall>j q. pcs ?s j = PRetired q \<or> pcs ?s j = PCas q \<longrightarrow> q \<noteq> tgt j \<and> q \<noteq> workerDown"
    using inv new(2) by (auto simp: race_inv_def advance_def)
  show ?thesis
  proof (rule race_invI, goal_cases)
    case (1 j k) then show ?case using race_invD(1) [OF inv] new(1) by (simp split: if_splits)
  next
    case (2 j) then show ?case using race_invD(2) [OF inv] new(1) c e by (simp split: if_splits)
  next
    case 3 then show ?case using race_invD(3) [OF inv] c e by simp
  next
    case 4 then show ?case unfolding l using race_invD(4) [OF inv] c by simp
  next
    case (5 j q) then show ?case using g by blast
  qed
qed

lemma race_inv_cas:
  assumes inv: "race_inv tgt s" and one: "one_ok_call tgt" and pc: "pcs s i = PCas prev"
    and cur: "reachable (conn s) = prev"
  shows "race_inv tgt (advance i (PStamp prev) (s\<lparr>conn := (conn s)\<lparr>reachable := tgt i\<rparr>\<rparr>))"
proof -
  let ?s = "advance i (PStamp prev) (s\<lparr>conn := (conn s)\<lparr>reachable := tgt i\<rparr>\<rparr>)"
  have prev: "prev \<noteq> tgt i" "prev \<noteq> workerDown" using inv pc by (auto simp: race_inv_def)
  have l: "(\<exists>j. pcs ?s j = PLeft) = (\<exists>j. pcs s j = PLeft)" by (rule left_advance) (use pc in auto)
  have g: "\<forall>j q. pcs ?s j = PRetired q \<or> pcs ?s j = PCas q \<longrightarrow> q \<noteq> tgt j \<and> q \<noteq> workerDown"
    using inv by (auto simp: race_inv_def advance_def)
  have e: "entered tgt s \<Longrightarrow> entered tgt ?s" by (rule entered_advance) (use pc in auto)
  have none_ok: "\<not> leaving (pcs s j)" if "prev = workerReachableOk" for j
    using inv cur that by (auto simp: race_inv_def)
  have none_enter: "\<not> leaving (pcs s j)" if "tgt i = workerReachableOk" for j
  proof
    assume "leaving (pcs s j)"
    then have "entered tgt s" using inv by (auto simp: race_inv_def)
    with that one pc show False by (auto simp: entered_def one_ok_call_def)
  qed
  have e_ok: "entered tgt ?s" if "tgt i = workerReachableOk"
    using that prev by (auto simp: entered_def advance_def)
  show ?thesis
  proof (rule race_invI, goal_cases)
    case (1 j k) then show ?case using race_invD(1) [OF inv, of j k] none_ok by (auto split: if_splits)
  next
    case (2 j)
    then have "if j = i then prev = workerReachableOk else leaving (pcs s j)" by (auto split: if_splits)
    then show ?case
      using race_invD(2) [OF inv, of j] race_invD(3) [OF inv] none_enter e cur prev by (auto split: if_splits)
  next
    case 3 then show ?case using e_ok by simp
  next
    case 4 then show ?case unfolding l using race_invD(4) [OF inv] by simp
  next
    case (5 j q) then show ?case using g by blast
  qed
qed

lemma race_inv_stamp:
  assumes inv: "race_inv tgt s" and pc: "pcs s i = PStamp prev"
    and c: "reachable c = reachable (conn s)" "unreachCh c = unreachCh (conn s)"
  shows "race_inv tgt (advance i (if prev = workerReachableOk then PRetire else PDone True) (s\<lparr>conn := c\<rparr>))"
proof -
  let ?p = "if prev = workerReachableOk then PRetire else PDone True"
  let ?s = "advance i ?p (s\<lparr>conn := c\<rparr>)"
  have e: "entered tgt ?s" if en: "entered tgt s"
  proof (cases "tgt i = workerReachableOk")
    case True
    with inv pc have "prev \<noteq> workerReachableOk" by (auto simp: race_inv_def)
    with True show ?thesis by (auto simp: entered_def advance_def)
  qed (use en in \<open>auto intro: entered_advance\<close>)
  have l: "(\<exists>j. pcs ?s j = PLeft) = (\<exists>j. pcs s j = PLeft)" by (rule left_advance) (use pc in auto)
  have g: "\<forall>j q. pcs ?s j = PRetired q \<or> pcs ?s j = PCas q \<longrightarrow> q \<noteq> tgt j \<and> q \<noteq> workerDown"
    using inv by (auto simp: race_inv_def advance_def)
  have lv: "leaving ?p = leaving (pcs s i)" using pc by simp
  then have same: "leaving (pcs ?s j) = leaving (pcs s j)" for j by simp
  show ?thesis
  proof (rule race_invI, goal_cases)
    case (1 j k) then show ?case using race_invD(1) [OF inv] unfolding same by blast
  next
    case (2 j) then show ?case using race_invD(2) [OF inv] c e unfolding same by simp
  next
    case 3 then show ?case using race_invD(3) [OF inv] c e by simp
  next
    case 4 then show ?case unfolding l using race_invD(4) [OF inv] c by simp
  next
    case (5 j q) then show ?case using g by blast
  qed
qed

lemma race_inv_retire_close:
  assumes inv: "race_inv tgt s" and pc: "pcs s i = PRetire \<and> p = PClose \<and> unreachCh c = unreachCh (conn s) \<or>
      pcs s i = PClose \<and> p = PLeft \<and> unreachCh c = map_option Suc (unreachCh (conn s))"
    and c: "reachable c = reachable (conn s)"
  shows "race_inv tgt (advance i p (s\<lparr>conn := c\<rparr>))"
proof -
  let ?s = "advance i p (s\<lparr>conn := c\<rparr>)"
  have i: "leaving (pcs s i)" "leaving p" using pc by auto
  have nok: "tgt i \<noteq> workerReachableOk" using inv i(1) by (auto simp: race_inv_def)
  have e: "entered tgt s \<Longrightarrow> entered tgt ?s" by (rule entered_advance) (use nok in auto)
  have others: "pcs s j \<noteq> PLeft" if "j \<noteq> i" for j
    using race_invD(1) [OF inv i(1), of j] that by force
  have none: "\<not> (\<exists>j. pcs s j = PLeft)" using others pc by (metis pc.simps)
  have ch: "unreachCh c = Some (if \<exists>j. pcs ?s j = PLeft then 1 else 0)"
  proof -
    have "unreachCh (conn s) = Some 0" using race_invD(4) [OF inv] none by simp
    moreover have "(\<exists>j. pcs ?s j = PLeft) = (p = PLeft)" using none by (auto simp: advance_def)
    ultimately show ?thesis using pc by auto
  qed
  have g: "\<forall>j q. pcs ?s j = PRetired q \<or> pcs ?s j = PCas q \<longrightarrow> q \<noteq> tgt j \<and> q \<noteq> workerDown"
    using inv pc by (auto simp: race_inv_def advance_def)
  have same: "leaving (pcs ?s j) = leaving (pcs s j)" for j using i by simp
  show ?thesis
  proof (rule race_invI, goal_cases)
    case (1 j k) then show ?case using race_invD(1) [OF inv] unfolding same by blast
  next
    case (2 j) then show ?case using race_invD(2) [OF inv] c e unfolding same by simp
  next
    case 3 then show ?case using race_invD(3) [OF inv] c e by simp
  next
    case 4 then show ?case using ch by simp
  next
    case (5 j q) then show ?case using g by blast
  qed
qed

lemma race_inv_step: "race_step tgt why s s' \<Longrightarrow> one_ok_call tgt \<Longrightarrow> race_inv tgt s \<Longrightarrow> race_inv tgt s'"
proof (induction rule: race_step.induct)
  case (load_same s i)
  then show ?case by (intro race_inv_quiet) auto
next
  case (load_down s i)
  then show ?case using race_inv_quiet [of tgt s i "PDone False" "conn s"] by simp
next
  case (load_go s i)
  then show ?case
    using race_inv_quiet [of tgt s i "if tgt i = workerReachableOk then PRetired (reachable (conn s)) else PCas (reachable (conn s))" "conn s"]
    by auto
next
  case (retired_yes s i prev)
  then show ?case using race_inv_quiet [of tgt s i "PDone False" "conn s"] by simp
next
  case (retired_no s i prev)
  then have "prev \<noteq> tgt i \<and> prev \<noteq> workerDown" by (auto simp: race_inv_def)
  then show ?case using race_inv_quiet [of tgt s i "PCas prev" "conn s"] retired_no by simp
next
  case (cas_fail s i prev)
  then show ?case using race_inv_quiet [of tgt s i PLoad "conn s"] by simp
next
  case (cas_ok s i prev)
  then show ?case by (intro race_inv_cas) auto
next
  case (stamp s i prev now)
  then show ?case by (intro race_inv_stamp) auto
next
  case (retire s i)
  then show ?case by (intro race_inv_retire_close) auto
next
  case (close_ch s i)
  then show ?case by (intro race_inv_retire_close) (auto simp: close_unreachCh_def)
qed

lemma race_reach_inv: "race_reach tgt why s \<Longrightarrow> one_ok_call tgt \<Longrightarrow> race_inv tgt s"
  by (induction rule: race_reach.induct) (auto intro: race_inv_init race_inv_step)

text \<open>No interleaving lifts a down: the swap's expected value is never down.\<close>

lemma race_step_down:
  "race_step tgt why s s' \<Longrightarrow> race_inv tgt s \<Longrightarrow> reachable (conn s) = workerDown \<Longrightarrow>
     reachable (conn s') = workerDown"
  by (induction rule: race_step.induct) (auto simp: race_inv_def close_unreachCh_def)

section \<open>The theorem\<close>

text \<open>
  C31. However the calls of \<open>setReachable\<close> on one connection interleave, down to single atomic
  loads, swaps and stores, and however many there are, as long as only one of them asks for
  \<open>ok\<close> (the reconcile pass of the connection's own goroutine): the broadcast channel is closed
  at most once, so no close panics, it is closed only when the worker is no longer ok, and an
  asserted down is never lifted by the next step.
\<close>

theorem setReachable_race_safe:
  assumes "race_reach tgt why s" and "one_ok_call tgt"
  shows "(unreachCh (conn s) = Some 0 \<or> unreachCh (conn s) = Some 1 \<and> reachable (conn s) \<noteq> workerReachableOk) \<and>
     (\<forall>s'. race_step tgt why s s' \<longrightarrow> reachable (conn s) = workerDown \<longrightarrow> reachable (conn s') = workerDown)"
proof -
  have inv: "race_inv tgt s" using race_reach_inv assms .
  have "unreachCh (conn s) = Some 0 \<or> unreachCh (conn s) = Some 1 \<and> reachable (conn s) \<noteq> workerReachableOk"
  proof (cases "\<exists>i. pcs s i = PLeft")
    case True
    then obtain i where "pcs s i = PLeft" by blast
    then have "leaving (pcs s i)" by simp
    with inv True show ?thesis by (auto simp: race_inv_def)
  qed (use inv in \<open>auto simp: race_inv_def\<close>)
  then show ?thesis using race_step_down [OF _ inv] by blast
qed

section \<open>The steps as a program, and runs of it\<close>

text \<open>One step of call \<open>i\<close> as a function: what the scheduler runs.\<close>

definition race_exec ::
    "(nat \<Rightarrow> workerReachable) \<Rightarrow> (nat \<Rightarrow> string) \<Rightarrow> timestamp \<Rightarrow> nat \<Rightarrow> race \<Rightarrow> race" where
  "race_exec tgt why now i s =
     (case pcs s i of
        PLoad \<Rightarrow>
          if reachable (conn s) = tgt i then advance i (PDone False)
            (s\<lparr>conn := (if why i \<noteq> '''' then (conn s)\<lparr>reason := Some (why i)\<rparr> else conn s)\<rparr>)
          else if reachable (conn s) = workerDown then advance i (PDone False) s
          else advance i (if tgt i = workerReachableOk then PRetired (reachable (conn s))
                          else PCas (reachable (conn s))) s
      | PRetired prev \<Rightarrow> advance i (if retired (conn s) then PDone False else PCas prev) s
      | PCas prev \<Rightarrow>
          if reachable (conn s) = prev
          then advance i (PStamp prev) (s\<lparr>conn := (conn s)\<lparr>reachable := tgt i\<rparr>\<rparr>)
          else advance i PLoad s
      | PStamp prev \<Rightarrow> advance i (if prev = workerReachableOk then PRetire else PDone True)
          (s\<lparr>conn := (conn s)\<lparr>since := now, reason := (if why i = '''' then None else Some (why i))\<rparr>\<rparr>)
      | PRetire \<Rightarrow> advance i PClose (s\<lparr>conn := (conn s)\<lparr>retired := True\<rparr>\<rparr>)
      | PClose \<Rightarrow> advance i PLeft (s\<lparr>conn := close_unreachCh (conn s)\<rparr>)
      | PLeft \<Rightarrow> s
      | PDone b \<Rightarrow> s)"

fun race_run :: "(nat \<Rightarrow> workerReachable) \<Rightarrow> (nat \<Rightarrow> string) \<Rightarrow> timestamp \<Rightarrow> nat list \<Rightarrow> race \<Rightarrow> race" where
  "race_run tgt why now [] s = s"
| "race_run tgt why now (i # is) s = race_run tgt why now is (race_exec tgt why now i s)"

lemma race_exec_step: "race_exec tgt why now i s = s \<or> race_step tgt why s (race_exec tgt why now i s)"
proof (cases "pcs s i")
  case PLoad
  then show ?thesis
    using race_step.load_same [of s i tgt why] race_step.load_down [of s i tgt why] race_step.load_go [of s i tgt why]
    by (auto simp: race_exec_def)
next
  case (PRetired prev)
  then show ?thesis using race_step.retired_yes [of s i prev tgt why] race_step.retired_no [of s i prev tgt why]
    by (auto simp: race_exec_def)
next
  case (PCas prev)
  then show ?thesis using race_step.cas_ok [of s i prev tgt why] race_step.cas_fail [of s i prev tgt why]
    by (auto simp: race_exec_def)
next
  case (PStamp prev)
  then show ?thesis using race_step.stamp [of s i prev tgt why now] by (simp add: race_exec_def)
next
  case PRetire
  then show ?thesis using race_step.retire [of s i tgt why] by (simp add: race_exec_def)
next
  case PClose
  then show ?thesis using race_step.close_ch [of s i tgt why] by (simp add: race_exec_def)
qed (simp_all add: race_exec_def)

lemma race_run_reach: "race_reach tgt why s \<Longrightarrow> race_reach tgt why (race_run tgt why now is s)"
proof (induction "is" arbitrary: s)
  case (Cons i "is")
  have "race_reach tgt why (race_exec tgt why now i s)"
    using race_exec_step [of tgt why now i s] Cons.prems race_reach.step by auto
  then show ?case using Cons.IH by simp
qed simp

text \<open>Alone, the call's successive positions collapse, so a run stays in a compact form.\<close>

lemma advance_simps [simp]:
  "pcs (advance i p s) i = p" "advance i p (advance i q s) = advance i p s"
  "(advance i p s)\<lparr>conn := c\<rparr> = advance i p (s\<lparr>conn := c\<rparr>)"
  by (simp_all add: advance_def)

lemma race_exec_alone:
  "race_exec tgt why now i (advance i PLoad s) =
     (if reachable (conn s) = tgt i then advance i (PDone False)
        (s\<lparr>conn := (if why i \<noteq> '''' then (conn s)\<lparr>reason := Some (why i)\<rparr> else conn s)\<rparr>)
      else if reachable (conn s) = workerDown then advance i (PDone False) s
      else advance i (if tgt i = workerReachableOk then PRetired (reachable (conn s))
                      else PCas (reachable (conn s))) s)"
  "race_exec tgt why now i (advance i (PRetired prev) s) =
     advance i (if retired (conn s) then PDone False else PCas prev) s"
  "race_exec tgt why now i (advance i (PCas prev) s) =
     (if reachable (conn s) = prev
      then advance i (PStamp prev) (s\<lparr>conn := (conn s)\<lparr>reachable := tgt i\<rparr>\<rparr>) else advance i PLoad s)"
  "race_exec tgt why now i (advance i (PStamp prev) s) =
     advance i (if prev = workerReachableOk then PRetire else PDone True)
       (s\<lparr>conn := (conn s)\<lparr>since := now, reason := (if why i = '''' then None else Some (why i))\<rparr>\<rparr>)"
  "race_exec tgt why now i (advance i PRetire s) = advance i PClose (s\<lparr>conn := (conn s)\<lparr>retired := True\<rparr>\<rparr>)"
  "race_exec tgt why now i (advance i PClose s) = advance i PLeft (s\<lparr>conn := close_unreachCh (conn s)\<rparr>)"
  "race_exec tgt why now i (advance i PLeft s) = advance i PLeft s"
  "race_exec tgt why now i (advance i (PDone b) s) = advance i (PDone b) s"
  by (simp_all add: race_exec_def)

lemma run6: "race_run tgt why now (replicate 6 i) s =
   race_exec tgt why now i (race_exec tgt why now i (race_exec tgt why now i
     (race_exec tgt why now i (race_exec tgt why now i (race_exec tgt why now i s)))))"
  by (simp add: numeral_eq_Suc)

text \<open>
  The sequential \<open>setReachable\<close> that the rest of the model uses is the atomic-step program
  run without interference: six steps of one call from any connection leave the connection the
  sequential function computes, and the call has returned what that function returns.
\<close>

theorem setReachable_is_the_program_alone:
  assumes "pcs s i = PLoad"
  shows "conn (race_run tgt why now (replicate 6 i) s) = fst (setReachable now (conn s) (tgt i) (why i)) \<and>
     (pcs (race_run tgt why now (replicate 6 i) s) i \<in> {PLeft, PDone True}
        \<longleftrightarrow> snd (setReachable now (conn s) (tgt i) (why i)))"
proof -
  have s: "s = advance i PLoad s" using assms by (cases s) (simp add: advance_def fun_upd_idem)
  show ?thesis
    unfolding run6
    by (subst (1 2) s, cases "tgt i"; cases "reachable (conn s)")
       (simp_all add: race_exec_alone setReachable_def Let_def close_unreachCh_def)
qed

definition race_start :: race where
  "race_start = \<lparr>conn = fresh_conn\<lparr>reachable := workerUnresponsive\<rparr>, pcs = (\<lambda>_. PLoad)\<rparr>"

definition ok_then_ejected :: "nat \<Rightarrow> workerReachable" where
  "ok_then_ejected i = (if i = 0 then workerReachableOk else workerUnresponsive)"

theorem setReachable_is_the_program_alone_witness:
  "conn (race_run ok_then_ejected (\<lambda>_. '''') 7 (replicate 6 0) race_start) =
     fst (setReachable 7 (conn race_start) workerReachableOk '''') \<and>
   reachable (conn (race_run ok_then_ejected (\<lambda>_. '''') 7 (replicate 6 0) race_start)) = workerReachableOk"
proof -
  have "pcs race_start 0 = PLoad" by (simp add: race_start_def)
  from setReachable_is_the_program_alone [OF this, of ok_then_ejected "\<lambda>_. ''''" 7]
  show ?thesis by (simp add: ok_then_ejected_def race_start_def fresh_conn_def setReachable_def Let_def)
qed

text \<open>A run with one call for ok and two ejections racing: closed once, and no state closes again.\<close>

theorem setReachable_race_safe_witness:
  "unreachCh (conn (race_run ok_then_ejected (\<lambda>_. ''x'') 7 [0,0,0,0,1,2,2,1,1,2,2,2,1] race_start)) = Some 1 \<and>
   \<not> reachable (conn (race_run ok_then_ejected (\<lambda>_. ''x'') 7 [0,0,0,0,1,2,2,1,1,2,2,2,1] race_start)) = workerReachableOk"
proof -
  let ?s = "race_run ok_then_ejected (\<lambda>_. ''x'') 7 [0,0,0,0,1,2,2,1,1,2,2,2,1] race_start"
  have "race_init race_start" by (simp add: race_init_def race_start_def fresh_conn_def)
  then have r: "race_reach ok_then_ejected (\<lambda>_. ''x'') ?s"
    by (intro race_run_reach race_reach.start)
  have "one_ok_call ok_then_ejected" by (simp add: one_ok_call_def ok_then_ejected_def)
  from setReachable_race_safe [OF r this] have
    "unreachCh (conn ?s) = Some 0 \<or> unreachCh (conn ?s) = Some 1 \<and> reachable (conn ?s) \<noteq> workerReachableOk"
    by blast
  moreover have "unreachCh (conn ?s) = Some 1" by code_simp
  ultimately show ?thesis by simp
qed

text \<open>
  The hypothesis of one call for \<open>ok\<close> is needed: with two of them the retired check is passed
  before the leaving call has stored it, and the channel is closed twice. What rules this out is
  the single call in \<open>runWorker\<close>, not the check.
\<close>

lemma two_ok_calls_close_twice:
  "unreachCh (conn (race_run (\<lambda>i. if i < 2 then workerReachableOk else workerUnresponsive) (\<lambda>_. '''') 0
     [0,0,0, 2,2, 1,1,1, 3,3, 2,2,2, 3,3,3] race_start)) = Some 2"
  by code_simp

end
