(* ===== verification/Seccomp.thy ===== *)
theory Seccomp
  imports Settings
begin

text \<open>
  Seccomp profiles of challenges (\<open>src/cork/seccomp.go\<close>): which filenames are accepted,
  how a profile is read and validated, how the resolved text is persisted, and how profiles
  travel in a hand-over and are applied on arrival. Decoding JSON and the SHA-256 digest are the
  arguments \<open>decode\<close> and \<open>sha256\<close>; the file a name denotes in the challenge
  directory is described by what the system calls on it answer.
\<close>

section \<open>Data\<close>

record seccompArgument =
  saIndex :: nat
  saValue :: nat
  saValueTwo :: nat
  saOp :: string

record seccompSyscall =
  ssName :: string
  ssNames :: "string list"
  ssAction :: string
  ssErrnoRet :: "nat option"
  ssArgs :: "seccompArgument list"

record seccompProfile =
  spDefaultAction :: string
  spDefaultErrnoRet :: "nat option"
  spSyscalls :: "seccompSyscall list"

record SeccompOptions =
  soProfile :: string
  soProfileHash :: string
  effectiveProfile :: string

datatype seccompError =
    EmptyFilename | NotInDirectory | HiddenFilename | NotJsonFilename
  | ReservedFilename string | UnsupportedCharacters string
  | InspectFailed | IsSymlink | NotRegular | TooLarge | OpenFailed | ChangedWhileOpening | ReadFailed
  | InvalidJson | NoDefaultAction | UnknownDefaultAction string
  | NameAndNames nat | NoNames nat | NoAction nat | UnknownAction nat string
  | NoOperator nat nat | UnknownOperator nat nat string
  | NotHandedOver string | HashMismatch string string

section \<open>Filenames\<close>

text \<open>\<open>filepath.Base\<close> and \<open>filepath.Ext\<close>.\<close>

definition path_Base :: "string \<Rightarrow> string" where
  "path_Base p =
     (if p = '''' then ''.''
      else
        let stripped = dropWhile (\<lambda>c. c = CHR ''/'') (rev p);
            elem = rev (takeWhile (\<lambda>c. c \<noteq> CHR ''/'') stripped)
        in if elem = '''' then ''/'' else elem)"

definition path_Ext :: "string \<Rightarrow> string" where
  "path_Ext p =
     (case dropWhile (\<lambda>c. c \<noteq> CHR ''.'' \<and> c \<noteq> CHR ''/'') (rev p) of
        [] \<Rightarrow> ''''
      | c # _ \<Rightarrow> if c = CHR ''.'' then CHR ''.'' # rev (takeWhile (\<lambda>c. c \<noteq> CHR ''.'' \<and> c \<noteq> CHR ''/'') (rev p)) else '''')"

definition path_IsAbs :: "string \<Rightarrow> bool" where
  "path_IsAbs p = hasPrefix p ''/''"

definition isLetter :: "char \<Rightarrow> bool" where
  "isLetter c =
     (let character = of_char c :: nat in
      of_char (CHR ''a'') \<le> character \<and> character \<le> of_char (CHR ''z'') \<or>
      of_char (CHR ''A'') \<le> character \<and> character \<le> of_char (CHR ''Z''))"

definition isNumber :: "char \<Rightarrow> bool" where
  "isNumber c = is_digit c"

definition filenameChar :: "char \<Rightarrow> bool" where
  "filenameChar c = (isLetter c \<or> isNumber c \<or> c = CHR ''_'' \<or> c = CHR ''-'' \<or> c = CHR ''.'')"

definition validateSeccompProfileFilename :: "string \<Rightarrow> seccompError option" where
  "validateSeccompProfileFilename p =
     (if p = '''' then Some EmptyFilename
      else if path_IsAbs p \<or> path_Base p \<noteq> p then Some NotInDirectory
      else if hd p = CHR ''.'' then Some HiddenFilename
      else if path_Ext p \<noteq> ''.json'' then Some NotJsonFilename
      else if p = ''problem.json'' \<or> p = ''problem.md'' \<or> p = ''metadata.json'' then Some (ReservedFilename p)
      else if list_all filenameChar p then None
      else Some (UnsupportedCharacters p))"

section \<open>Reading a profile\<close>

definition maxSeccompProfileSize :: nat where
  "maxSeccompProfileSize = 1024 * 1024"

record fileInfo =
  fiSymlink :: bool
  fiRegular :: bool
  fiSize :: nat
  fiFile :: nat \<comment> \<open>which file it is, for os.SameFile\<close>

text \<open>What \<open>Lstat\<close>, \<open>Open\<close>, \<open>Stat\<close> and reading answer for a name, in that order.\<close>

record profileFile =
  pfLstat :: "fileInfo option"
  pfOpens :: bool
  pfStat :: "fileInfo option"
  pfData :: "string option"

definition readSeccompProfile :: "(string \<Rightarrow> profileFile) \<Rightarrow> string \<Rightarrow> seccompError + string" where
  "readSeccompProfile dir p =
     (case validateSeccompProfileFilename p of
        Some e \<Rightarrow> Inl e
      | None \<Rightarrow>
     (case pfLstat (dir p) of
        None \<Rightarrow> Inl InspectFailed
      | Some info \<Rightarrow>
     if fiSymlink info then Inl IsSymlink
     else if \<not> fiRegular info then Inl NotRegular
     else if fiSize info > maxSeccompProfileSize then Inl TooLarge
     else if \<not> pfOpens (dir p) then Inl OpenFailed
     else (case pfStat (dir p) of
        None \<Rightarrow> Inl InspectFailed
      | Some opened \<Rightarrow>
     if \<not> fiRegular opened \<or> fiFile info \<noteq> fiFile opened then Inl ChangedWhileOpening
     else (case pfData (dir p) of
        None \<Rightarrow> Inl ReadFailed
      | Some content \<Rightarrow>
          (let text = take (maxSeccompProfileSize + 1) content in
           if length text > maxSeccompProfileSize then Inl TooLarge else Inr text)))))"

section \<open>Validation\<close>

definition validSeccompActions :: "string list" where
  "validSeccompActions = [''SCMP_ACT_KILL'', ''SCMP_ACT_KILL_PROCESS'', ''SCMP_ACT_KILL_THREAD'', ''SCMP_ACT_TRAP'',
     ''SCMP_ACT_ERRNO'', ''SCMP_ACT_TRACE'', ''SCMP_ACT_ALLOW'', ''SCMP_ACT_LOG'', ''SCMP_ACT_NOTIFY'']"

definition validSeccompOperators :: "string list" where
  "validSeccompOperators = [''SCMP_CMP_NE'', ''SCMP_CMP_LT'', ''SCMP_CMP_LE'', ''SCMP_CMP_EQ'', ''SCMP_CMP_GE'',
     ''SCMP_CMP_GT'', ''SCMP_CMP_MASKED_EQ'']"

fun validateArgs :: "nat \<Rightarrow> nat \<Rightarrow> seccompArgument list \<Rightarrow> seccompError option" where
  "validateArgs i j [] = None"
| "validateArgs i j (a # as) =
     (if saOp a = '''' then Some (NoOperator j i)
      else if saOp a \<notin> set validSeccompOperators then Some (UnknownOperator j i (saOp a))
      else validateArgs i (Suc j) as)"

definition validateSyscall :: "nat \<Rightarrow> seccompSyscall \<Rightarrow> seccompError option" where
  "validateSyscall i s =
     (if ssName s \<noteq> '''' \<and> ssNames s \<noteq> [] then Some (NameAndNames i)
      else if ssName s = '''' \<and> ssNames s = [] then Some (NoNames i)
      else if ssAction s = '''' then Some (NoAction i)
      else if ssAction s \<notin> set validSeccompActions then Some (UnknownAction i (ssAction s))
      else validateArgs i 0 (ssArgs s))"

fun validateSyscalls :: "nat \<Rightarrow> seccompSyscall list \<Rightarrow> seccompError option" where
  "validateSyscalls i [] = None"
| "validateSyscalls i (s # ss) =
     (case validateSyscall i s of Some e \<Rightarrow> Some e | None \<Rightarrow> validateSyscalls (Suc i) ss)"

definition validateSeccompProfile :: "(string \<Rightarrow> seccompProfile option) \<Rightarrow> string \<Rightarrow> seccompError option" where
  "validateSeccompProfile decode profile =
     (case decode profile of
        None \<Rightarrow> Some InvalidJson
      | Some document \<Rightarrow>
          if spDefaultAction document = '''' then Some NoDefaultAction
          else if spDefaultAction document \<notin> set validSeccompActions then Some (UnknownDefaultAction (spDefaultAction document))
          else validateSyscalls 0 (spSyscalls document))"

text \<open>\<open>SeccompOptions.resolve\<close>: the options as they are left, and the error.\<close>

definition resolve ::
    "(string \<Rightarrow> seccompProfile option) \<Rightarrow> (string \<Rightarrow> string) \<Rightarrow> (string \<Rightarrow> profileFile) \<Rightarrow> SeccompOptions \<Rightarrow> seccompError option \<times> SeccompOptions" where
  "resolve decode sha256 dir opts =
     (let cleared = opts\<lparr>soProfileHash := '''', effectiveProfile := ''''\<rparr> in
      if soProfile opts = '''' then (None, cleared)
      else
        (case readSeccompProfile dir (soProfile opts) of
           Inl e \<Rightarrow> (Some e, cleared)
         | Inr profile \<Rightarrow>
             (case validateSeccompProfile decode profile of
                Some e \<Rightarrow> (Some e, cleared)
              | None \<Rightarrow> (None, cleared\<lparr>soProfileHash := sha256 profile, effectiveProfile := profile\<rparr>))))"

definition seccompSecurityOpt :: "string \<Rightarrow> string" where
  "seccompSecurityOpt profile = ''seccomp='' @ profile"

section \<open>Options, persisted and handed over\<close>

record ContainerOptions =
  coInit :: bool
  coCpus :: string
  coMemory :: string
  coUlimits :: "string list"
  coPidsLimit :: int
  coReadonlyRootfs :: bool
  coDroppedCaps :: "string list"
  coNoNewPrivileges :: bool
  coDiskQuota :: string
  coCgroupParent :: string
  coCapImmutable :: bool
  coSeccomp :: "SeccompOptions option" \<comment> \<open>a pointer\<close>

record ChallengeOptions =
  chDefault :: ContainerOptions \<comment> \<open>the embedded ContainerOptions\<close>
  chOverrides :: "(string \<times> ContainerOptions) list"

record persistedSeccompOptions =
  psOptions :: "SeccompOptions option"
  psEffectiveProfile :: string

text \<open>JSON carries the exported fields only.\<close>

definition exported :: "SeccompOptions \<Rightarrow> SeccompOptions" where
  "exported opts = opts\<lparr>effectiveProfile := ''''\<rparr>"

definition marshalSeccompOptions :: "(persistedSeccompOptions \<Rightarrow> string) \<Rightarrow> SeccompOptions option \<Rightarrow> string" where
  "marshalSeccompOptions encode opts =
     (case opts of
        None \<Rightarrow> ''''
      | Some o' \<Rightarrow>
          if soProfile o' = '''' \<and> effectiveProfile o' = '''' then ''''
          else encode \<lparr>psOptions = Some (exported o'), psEffectiveProfile = effectiveProfile o'\<rparr>)"

definition unmarshalSeccompOptions ::
    "(string \<Rightarrow> persistedSeccompOptions option) \<Rightarrow> string \<Rightarrow> seccompError + SeccompOptions option" where
  "unmarshalSeccompOptions decode data =
     (if data = '''' then Inr None
      else (case decode data of
              None \<Rightarrow> Inl InvalidJson
            | Some persisted \<Rightarrow>
                (case psOptions persisted of
                   None \<Rightarrow> Inr None
                 | Some o' \<Rightarrow> Inr (Some (o'\<lparr>effectiveProfile := psEffectiveProfile persisted\<rparr>)))))"

fun goMapPut :: "string \<Rightarrow> string \<Rightarrow> (string \<times> string) list \<Rightarrow> (string \<times> string) list" where
  "goMapPut k v [] = [(k, v)]"
| "goMapPut k v ((k', v') # xs) = (if k' = k then (k, v) # xs else (k', v') # goMapPut k v xs)"

definition collect :: "SeccompOptions option \<Rightarrow> (string \<times> string) list \<Rightarrow> (string \<times> string) list" where
  "collect opts profiles =
     (case opts of
        None \<Rightarrow> profiles
      | Some o' \<Rightarrow>
          if soProfile o' = '''' \<or> effectiveProfile o' = '''' then profiles
          else goMapPut (soProfile o') (effectiveProfile o') profiles)"

definition SeccompProfiles :: "ChallengeOptions \<Rightarrow> (string \<times> string) list" where
  "SeccompProfiles c = fold (\<lambda>(_, override). collect (coSeccomp override)) (chOverrides c) (collect (coSeccomp (chDefault c)) [])"

definition applyOne ::
    "(string \<Rightarrow> seccompProfile option) \<Rightarrow> (string \<Rightarrow> string) \<Rightarrow> (string \<times> string) list \<Rightarrow> SeccompOptions option \<Rightarrow> seccompError + SeccompOptions option" where
  "applyOne decode sha256 profiles opts =
     (case opts of
        None \<Rightarrow> Inr None
      | Some o' \<Rightarrow>
          if soProfile o' = '''' then Inr (Some o')
          else
            (case map_of profiles (soProfile o') of
               None \<Rightarrow> Inl (NotHandedOver (soProfile o'))
             | Some profile \<Rightarrow>
                 (case validateSeccompProfile decode profile of
                    Some e \<Rightarrow> Inl e
                  | None \<Rightarrow>
                      (let sum = sha256 profile in
                       if soProfileHash o' \<noteq> '''' \<and> sum \<noteq> soProfileHash o' then Inl (HashMismatch sum (soProfileHash o'))
                       else Inr (Some (o'\<lparr>soProfileHash := sum, effectiveProfile := profile\<rparr>))))))"

fun applyOverrides ::
    "(string \<Rightarrow> seccompProfile option) \<Rightarrow> (string \<Rightarrow> string) \<Rightarrow> (string \<times> string) list \<Rightarrow> (string \<times> ContainerOptions) list \<Rightarrow> seccompError + (string \<times> ContainerOptions) list" where
  "applyOverrides decode sha256 profiles [] = Inr []"
| "applyOverrides decode sha256 profiles ((host, override) # rest) =
     (case applyOne decode sha256 profiles (coSeccomp override) of
        Inl e \<Rightarrow> Inl e
      | Inr s \<Rightarrow>
          (case applyOverrides decode sha256 profiles rest of
             Inl e \<Rightarrow> Inl e
           | Inr rest' \<Rightarrow> Inr ((host, override\<lparr>coSeccomp := s\<rparr>) # rest')))"

definition applySeccompProfiles ::
    "(string \<Rightarrow> seccompProfile option) \<Rightarrow> (string \<Rightarrow> string) \<Rightarrow> ChallengeOptions \<Rightarrow> (string \<times> string) list \<Rightarrow> seccompError + ChallengeOptions" where
  "applySeccompProfiles decode sha256 c profiles =
     (case applyOne decode sha256 profiles (coSeccomp (chDefault c)) of
        Inl e \<Rightarrow> Inl e
      | Inr s \<Rightarrow>
          (case applyOverrides decode sha256 profiles (chOverrides c) of
             Inl e \<Rightarrow> Inl e
           | Inr os \<Rightarrow> Inr (c\<lparr>chDefault := (chDefault c)\<lparr>coSeccomp := s\<rparr>, chOverrides := os\<rparr>)))"

section \<open>Filenames stay in the directory\<close>

lemma path_Base_id: "p \<noteq> '''' \<Longrightarrow> CHR ''/'' \<notin> set p \<Longrightarrow> path_Base p = p"
proof -
  assume p: "p \<noteq> ''''" "CHR ''/'' \<notin> set p"
  then have "dropWhile (\<lambda>c. c = CHR ''/'') (rev p) = rev p"
    by (cases p rule: rev_cases) auto
  moreover have "takeWhile (\<lambda>c. c \<noteq> CHR ''/'') (rev p) = rev p" using p by (auto simp: takeWhile_eq_all_conv)
  ultimately show ?thesis using p by (simp add: path_Base_def Let_def del: takeWhile_eq_all_conv)
qed

lemma ends_json:
  "path_Ext p = ''.json'' \<longleftrightarrow> (\<exists>stem. p = stem @ ''.json'')" if "CHR ''/'' \<notin> set p"
proof
  let ?Q = "\<lambda>c. c \<noteq> CHR ''.'' \<and> c \<noteq> CHR ''/''"
  assume e: "path_Ext p = ''.json''"
  obtain c rest where d: "dropWhile ?Q (rev p) = c # rest" "c = CHR ''.''"
    and t: "rev (takeWhile ?Q (rev p)) = ''json''"
    using e by (auto simp: path_Ext_def split: list.splits if_splits)
  have "rev p = takeWhile ?Q (rev p) @ dropWhile ?Q (rev p)" by simp
  then have "p = rev (dropWhile ?Q (rev p)) @ rev (takeWhile ?Q (rev p))" by (metis rev_append rev_rev_ident)
  then show "\<exists>stem. p = stem @ ''.json''" using d t by (auto intro: exI [of _ "rev rest"])
next
  assume "\<exists>stem. p = stem @ ''.json''"
  then show "path_Ext p = ''.json''" by (auto simp: path_Ext_def)
qed

lemma filenameChar_no_slash: "list_all filenameChar p \<Longrightarrow> CHR ''/'' \<notin> set p"
  by (auto simp: list_all_iff filenameChar_def isLetter_def isNumber_def is_digit_def)

text \<open>
  The accepted filenames are exactly the names made of letters, digits, \<open>_\<close>, \<open>-\<close> and
  \<open>.\<close> that end in \<open>.json\<close>, do not start with a dot and are none of the files cork owns;
  in particular no accepted name has a \<open>/\<close>, so a profile is always a file directly inside
  the challenge directory.
\<close>

theorem seccomp_filename_accepted_iff:
  "validateSeccompProfileFilename p = None \<longleftrightarrow>
     list_all filenameChar p \<and> (\<exists>stem. p = stem @ ''.json'') \<and> hd p \<noteq> CHR ''.'' \<and>
     p \<notin> {''problem.json'', ''metadata.json''}"
proof
  assume v: "validateSeccompProfileFilename p = None"
  then have ok: "list_all filenameChar p" "path_Ext p = ''.json''" "hd p \<noteq> CHR ''.''" "p \<noteq> ''problem.json''" "p \<noteq> ''metadata.json''"
    by (auto simp: validateSeccompProfileFilename_def split: if_splits)
  then show "list_all filenameChar p \<and> (\<exists>stem. p = stem @ ''.json'') \<and> hd p \<noteq> CHR ''.'' \<and> p \<notin> {''problem.json'', ''metadata.json''}"
    using ends_json filenameChar_no_slash by auto
next
  assume a: "list_all filenameChar p \<and> (\<exists>stem. p = stem @ ''.json'') \<and> hd p \<noteq> CHR ''.'' \<and> p \<notin> {''problem.json'', ''metadata.json''}"
  then have s: "CHR ''/'' \<notin> set p" "p \<noteq> ''''" using filenameChar_no_slash by auto
  have "\<not> path_IsAbs p" using s by (cases p) (auto simp: path_IsAbs_def hasPrefix_def)
  moreover have "p \<noteq> ''problem.md''"
  proof
    assume "p = ''problem.md''"
    then show False using a by (auto simp: append_eq_Cons_conv)
  qed
  ultimately show "validateSeccompProfileFilename p = None"
    using a s ends_json path_Base_id by (auto simp: validateSeccompProfileFilename_def)
qed

section \<open>What validation accepts\<close>

lemma validateArgs_None: "validateArgs i j as = None \<longleftrightarrow> (\<forall>a\<in>set as. saOp a \<in> set validSeccompOperators)"
  by (induction as arbitrary: j) (auto simp: validSeccompOperators_def)

definition rule_ok :: "seccompSyscall \<Rightarrow> bool" where
  "rule_ok s \<longleftrightarrow> (ssName s = '''' \<longleftrightarrow> ssNames s \<noteq> []) \<and> ssAction s \<in> set validSeccompActions \<and>
     (\<forall>a\<in>set (ssArgs s). saOp a \<in> set validSeccompOperators)"

lemma validateSyscall_None: "validateSyscall i s = None \<longleftrightarrow> rule_ok s"
  by (auto simp: validateSyscall_def rule_ok_def validateArgs_None validSeccompActions_def)

lemma validateSyscalls_None: "validateSyscalls i ss = None \<longleftrightarrow> (\<forall>s\<in>set ss. rule_ok s)"
proof (induction ss arbitrary: i)
  case (Cons s ss)
  have "validateSyscalls i (s # ss) = None \<longleftrightarrow> validateSyscall i s = None \<and> validateSyscalls (Suc i) ss = None"
    by (auto split: option.splits)
  then show ?case using Cons by (simp add: validateSyscall_None)
qed simp

lemma validateSeccompProfile_None:
  "validateSeccompProfile decode profile = None \<longleftrightarrow>
     (\<exists>doc. decode profile = Some doc \<and> spDefaultAction doc \<in> set validSeccompActions \<and> (\<forall>s\<in>set (spSyscalls doc). rule_ok s))"
  by (auto simp: validateSeccompProfile_def validateSyscalls_None validSeccompActions_def split: option.splits)

section \<open>Applying delivered profiles\<close>

text \<open>All the declarations a challenge makes: its own and those of its overrides.\<close>

definition declarations :: "ChallengeOptions \<Rightarrow> SeccompOptions list" where
  "declarations c =
     concat (map (\<lambda>s. case s of None \<Rightarrow> [] | Some o' \<Rightarrow> [o']) (coSeccomp (chDefault c) # map (coSeccomp \<circ> snd) (chOverrides c)))"

lemma declarations_mem:
  "o' \<in> set (declarations c) \<longleftrightarrow> coSeccomp (chDefault c) = Some o' \<or> (\<exists>h ov. (h, ov) \<in> set (chOverrides c) \<and> coSeccomp ov = Some o')"
  by (force simp: declarations_def split: option.splits)

text \<open>A declaration whose resolved text may be run: valid and hashing to what is declared.\<close>

definition stands_behind :: "(string \<Rightarrow> seccompProfile option) \<Rightarrow> (string \<Rightarrow> string) \<Rightarrow> SeccompOptions \<Rightarrow> bool" where
  "stands_behind decode sha256 o' \<longleftrightarrow>
     validateSeccompProfile decode (effectiveProfile o') = None \<and> soProfileHash o' = sha256 (effectiveProfile o')"

lemma applyOne_sound:
  assumes "applyOne decode sha256 profiles opts = Inr opts'"
  shows "(opts = None \<longrightarrow> opts' = None) \<and>
     (\<forall>o1. opts = Some o1 \<longrightarrow> (\<exists>o2. opts' = Some o2 \<and> soProfile o2 = soProfile o1 \<and>
        (soProfile o1 \<noteq> '''' \<longrightarrow> map_of profiles (soProfile o1) = Some (effectiveProfile o2) \<and> stands_behind decode sha256 o2 \<and>
           (soProfileHash o1 \<noteq> '''' \<longrightarrow> soProfileHash o2 = soProfileHash o1))))"
  using assms by (auto simp: applyOne_def stands_behind_def Let_def split: option.splits if_splits)

lemma applyOverrides_sound:
  assumes "applyOverrides decode sha256 profiles os = Inr os'"
  shows "list_all2 (\<lambda>(h, ov) (h', ov'). h' = h \<and> (\<exists>s. applyOne decode sha256 profiles (coSeccomp ov) = Inr s \<and> ov' = ov\<lparr>coSeccomp := s\<rparr>)) os os'"
  using assms
  by (induction decode sha256 profiles os arbitrary: os' rule: applyOverrides.induct) (auto split: sum.splits)

text \<open>
  C37. A hand-over cannot widen a challenge's syscall policy: when its profiles are accepted,
  every declaration that names a profile runs the text delivered under that name, that text is a
  valid profile, and it hashes to the hash the challenge declares.
\<close>

theorem handed_over_profiles_stand_behind:
  assumes "applySeccompProfiles decode sha256 c profiles = Inr c'"
    and "o2 \<in> set (declarations c')" "soProfile o2 \<noteq> ''''"
  shows "map_of profiles (soProfile o2) = Some (effectiveProfile o2) \<and> stands_behind decode sha256 o2 \<and>
    (\<exists>o1\<in>set (declarations c). soProfile o1 = soProfile o2 \<and> (soProfileHash o1 \<noteq> '''' \<longrightarrow> soProfileHash o2 = soProfileHash o1))"
proof -
  obtain s os where s: "applyOne decode sha256 profiles (coSeccomp (chDefault c)) = Inr s"
    and os: "applyOverrides decode sha256 profiles (chOverrides c) = Inr os"
    and c': "c' = c\<lparr>chDefault := (chDefault c)\<lparr>coSeccomp := s\<rparr>, chOverrides := os\<rparr>"
    using assms(1) by (auto simp: applySeccompProfiles_def split: sum.splits)
  have "\<exists>opts. applyOne decode sha256 profiles opts = Inr (Some o2) \<and> (\<forall>o1. opts = Some o1 \<longrightarrow> o1 \<in> set (declarations c))"
  proof (cases "s = Some o2")
    case True
    then show ?thesis using s by (auto simp: declarations_mem)
  next
    case False
    then obtain h ov' where "(h, ov') \<in> set os" "coSeccomp ov' = Some o2" using assms(2) c' by (auto simp: declarations_mem)
    then obtain ov where "(h, ov) \<in> set (chOverrides c)" "applyOne decode sha256 profiles (coSeccomp ov) = Inr (Some o2)"
      using applyOverrides_sound [OF os] by (fastforce simp: list_all2_conv_all_nth in_set_conv_nth)
    then show ?thesis by (auto simp: declarations_mem)
  qed
  then obtain opts where opts: "applyOne decode sha256 profiles opts = Inr (Some o2)" "\<forall>o1. opts = Some o1 \<longrightarrow> o1 \<in> set (declarations c)"
    by blast
  then obtain o1 where "opts = Some o1" by (cases opts) (auto simp: applyOne_def)
  then show ?thesis using applyOne_sound [OF opts(1)] opts(2) assms(3) by auto
qed

text \<open>A challenge with two profiles, and a decoder that knows exactly their two texts.\<close>

definition strict_text :: string where "strict_text = ''{strict}''"

definition sample_decode :: "string \<Rightarrow> seccompProfile option" where
  "sample_decode s =
     (if s = strict_text
      then Some \<lparr>spDefaultAction = ''SCMP_ACT_ERRNO'', spDefaultErrnoRet = None,
                 spSyscalls = [\<lparr>ssName = '''', ssNames = [''read'', ''write''], ssAction = ''SCMP_ACT_ALLOW'', ssErrnoRet = None,
                   ssArgs = [\<lparr>saIndex = 0, saValue = 0, saValueTwo = 0, saOp = ''SCMP_CMP_EQ''\<rparr>]\<rparr>]\<rparr>
      else None)"

definition plain_options :: ContainerOptions where
  "plain_options = \<lparr>coInit = False, coCpus = '''', coMemory = '''', coUlimits = [], coPidsLimit = 0, coReadonlyRootfs = False,
     coDroppedCaps = [], coNoNewPrivileges = False, coDiskQuota = '''', coCgroupParent = '''', coCapImmutable = False, coSeccomp = None\<rparr>"

definition strict_options :: SeccompOptions where
  "strict_options = \<lparr>soProfile = ''strict.json'', soProfileHash = ''h{strict}'', effectiveProfile = strict_text\<rparr>"

definition sample_challenge_options :: ChallengeOptions where
  "sample_challenge_options = \<lparr>chDefault = plain_options,
     chOverrides = [('''', plain_options), (''web'', plain_options\<lparr>coSeccomp := Some strict_options\<rparr>)]\<rparr>"

theorem handed_over_profiles_stand_behind_witness:
  "map_of [(''strict.json'', strict_text)] ''strict.json'' = Some (effectiveProfile strict_options) \<and>
   stands_behind sample_decode (\<lambda>s. CHR ''h'' # s) strict_options"
proof -
  have "applySeccompProfiles sample_decode (\<lambda>s. CHR ''h'' # s) sample_challenge_options [(''strict.json'', strict_text)] = Inr sample_challenge_options"
    by code_simp
  moreover have "strict_options \<in> set (declarations sample_challenge_options)"
    by (simp add: declarations_def sample_challenge_options_def plain_options_def)
  ultimately show ?thesis
    using handed_over_profiles_stand_behind [of sample_decode "\<lambda>s. CHR ''h'' # s" sample_challenge_options "[(''strict.json'', strict_text)]"
        sample_challenge_options strict_options]
    by (simp add: strict_options_def)
qed

section \<open>Profiles survive the trip\<close>

lemma map_of_goMapPut [simp]: "map_of (goMapPut k v xs) = (map_of xs)(k \<mapsto> v)"
  by (induction k v xs rule: goMapPut.induct) (auto simp: fun_eq_iff)

text \<open>\<open>carried\<close>: every declaration of the list with a text is in the map with that text.\<close>

definition consistent :: "SeccompOptions list \<Rightarrow> bool" where
  "consistent ds \<longleftrightarrow> (\<forall>o1\<in>set ds. \<forall>o2\<in>set ds. soProfile o1 = soProfile o2 \<longrightarrow> effectiveProfile o1 = effectiveProfile o2)"

lemma fold_collect_carries:
  assumes "\<forall>o'\<in>set ds. soProfile o' \<noteq> '''' \<and> effectiveProfile o' \<noteq> ''''" "consistent ds"
    and "\<forall>o'\<in>set ds. map_of init (soProfile o') = None \<or> map_of init (soProfile o') = Some (effectiveProfile o')"
  shows "(\<forall>o'\<in>set ds. map_of (fold (\<lambda>o'. collect (Some o')) ds init) (soProfile o') = Some (effectiveProfile o')) \<and>
     (\<forall>p. p \<notin> soProfile ` set ds \<longrightarrow> map_of (fold (\<lambda>o'. collect (Some o')) ds init) p = map_of init p)"
  using assms
proof (induction ds arbitrary: init)
  case (Cons d ds)
  let ?init = "goMapPut (soProfile d) (effectiveProfile d) init"
  have col: "collect (Some d) init = ?init" using Cons.prems(1) by (simp add: collect_def)
  have same: "soProfile o' = soProfile d \<Longrightarrow> effectiveProfile o' = effectiveProfile d" if "o' \<in> set ds" for o'
    using Cons.prems(2) that unfolding consistent_def by (metis list.set_intros(1,2))
  have "consistent ds" using Cons.prems(2) unfolding consistent_def by (meson list.set_intros(2))
  moreover have "\<forall>o'\<in>set ds. map_of ?init (soProfile o') = None \<or> map_of ?init (soProfile o') = Some (effectiveProfile o')"
    using Cons.prems(3) same by auto
  ultimately have "(\<forall>o'\<in>set ds. map_of (fold (\<lambda>o'. collect (Some o')) ds ?init) (soProfile o') = Some (effectiveProfile o')) \<and>
     (\<forall>p. p \<notin> soProfile ` set ds \<longrightarrow> map_of (fold (\<lambda>o'. collect (Some o')) ds ?init) p = map_of ?init p)"
    using Cons.IH [of ?init] Cons.prems(1) by simp
  moreover have "map_of (fold (\<lambda>o'. collect (Some o')) ds ?init) (soProfile d) = Some (effectiveProfile d)"
  proof (cases "soProfile d \<in> soProfile ` set ds")
    case True
    then obtain o' where "o' \<in> set ds" "soProfile o' = soProfile d" by auto
    then show ?thesis using calculation same by metis
  qed (use calculation in simp)
  ultimately show ?case using col by auto
qed simp

definition resolved :: "(string \<Rightarrow> seccompProfile option) \<Rightarrow> (string \<Rightarrow> string) \<Rightarrow> SeccompOptions \<Rightarrow> bool" where
  "resolved decode sha256 o' \<longleftrightarrow>
     (if soProfile o' = '''' then effectiveProfile o' = ''''
      else effectiveProfile o' \<noteq> '''' \<and> stands_behind decode sha256 o')"

text \<open>The challenge as its JSON carries it: every declaration without its text.\<close>

definition sent :: "ChallengeOptions \<Rightarrow> ChallengeOptions" where
  "sent c = c\<lparr>chDefault := (chDefault c)\<lparr>coSeccomp := map_option exported (coSeccomp (chDefault c))\<rparr>,
     chOverrides := map (\<lambda>(h, ov). (h, ov\<lparr>coSeccomp := map_option exported (coSeccomp ov)\<rparr>)) (chOverrides c)\<rparr>"

lemma collect_unnamed: "soProfile o' = '''' \<Longrightarrow> collect (Some o') ps = ps"
  by (simp add: collect_def)

lemma fold_collect_options:
  "fold collect os ps =
   fold (\<lambda>o'. collect (Some o')) (filter (\<lambda>o'. soProfile o' \<noteq> '''') (concat (map (\<lambda>s. case s of None \<Rightarrow> [] | Some o' \<Rightarrow> [o']) os))) ps"
proof (induction os arbitrary: ps)
  case (Cons s os)
  then show ?case by (cases s) (auto simp: collect_def)
qed simp

lemma SeccompProfiles_declarations:
  "SeccompProfiles c = fold (\<lambda>o'. collect (Some o')) (filter (\<lambda>o'. soProfile o' \<noteq> '''') (declarations c)) []"
proof -
  have "SeccompProfiles c = fold collect (coSeccomp (chDefault c) # map (coSeccomp \<circ> snd) (chOverrides c)) []"
    by (simp add: SeccompProfiles_def fold_map o_def split_def)
  then show ?thesis unfolding declarations_def by (simp only: fold_collect_options)
qed

lemma SeccompProfiles_carry:
  assumes "\<forall>o'\<in>set (declarations c). resolved decode sha256 o'" "consistent (declarations c)"
    and "o' \<in> set (declarations c)" "soProfile o' \<noteq> ''''"
  shows "map_of (SeccompProfiles c) (soProfile o') = Some (effectiveProfile o')"
proof -
  let ?ds = "filter (\<lambda>o'. soProfile o' \<noteq> '''') (declarations c)"
  have "\<forall>o'\<in>set ?ds. soProfile o' \<noteq> '''' \<and> effectiveProfile o' \<noteq> ''''" using assms(1) by (auto simp: resolved_def)
  moreover have "consistent ?ds" using assms(2) by (simp add: consistent_def)
  moreover have "o' \<in> set ?ds" using assms(3,4) by simp
  ultimately show ?thesis using fold_collect_carries [of ?ds "[]"] by (simp only: SeccompProfiles_declarations) simp
qed

lemma applyOne_restores:
  assumes "resolved decode sha256 o'" "soProfile o' \<noteq> '''' \<Longrightarrow> map_of ps (soProfile o') = Some (effectiveProfile o')"
  shows "applyOne decode sha256 ps (Some (exported o')) = Inr (Some o')"
proof (cases "soProfile o' = ''''")
  case True
  then have "exported o' = o'" using assms(1) by (simp add: resolved_def exported_def)
  then show ?thesis using True by (simp add: applyOne_def)
next
  case False
  then show ?thesis using assms by (simp add: applyOne_def resolved_def stands_behind_def exported_def Let_def)
qed

lemma applyOne_restores_opt:
  assumes "\<And>o'. s = Some o' \<Longrightarrow> applyOne decode sha256 ps (Some (exported o')) = Inr (Some o')"
  shows "applyOne decode sha256 ps (map_option exported s) = Inr s"
  using assms by (cases s) (auto simp: applyOne_def)

lemma applyOverrides_restores:
  assumes "\<And>h ov. (h, ov) \<in> set os \<Longrightarrow> applyOne decode sha256 ps (map_option exported (coSeccomp ov)) = Inr (coSeccomp ov)"
  shows "applyOverrides decode sha256 ps (map (\<lambda>(h, ov). (h, ov\<lparr>coSeccomp := map_option exported (coSeccomp ov)\<rparr>)) os) = Inr os"
  using assms
proof (induction os)
  case (Cons x os)
  obtain h ov where x: "x = (h, ov)" by fastforce
  have "applyOne decode sha256 ps (map_option exported (coSeccomp ov)) = Inr (coSeccomp ov)" using Cons.prems [of h ov] x by simp
  moreover have "applyOverrides decode sha256 ps (map (\<lambda>(h, ov). (h, ov\<lparr>coSeccomp := map_option exported (coSeccomp ov)\<rparr>)) os) = Inr os"
    using Cons.IH Cons.prems by (meson list.set_intros(2))
  ultimately show ?case using x by simp
qed simp

text \<open>
  A challenge whose profiles have been resolved arrives with the same profiles: what
  \<open>SeccompProfiles\<close> collects is enough for \<open>applySeccompProfiles\<close> to restore, on
  the options the JSON carries, every text of the challenge and of its overrides.
\<close>

theorem seccomp_handover_roundtrip:
  assumes "\<forall>o'\<in>set (declarations c). resolved decode sha256 o'" "consistent (declarations c)"
  shows "applySeccompProfiles decode sha256 (sent c) (SeccompProfiles c) = Inr c"
proof -
  have one: "applyOne decode sha256 (SeccompProfiles c) (map_option exported s) = Inr s"
    if "\<And>o'. s = Some o' \<Longrightarrow> o' \<in> set (declarations c)" for s
    using that assms SeccompProfiles_carry [OF assms] by (intro applyOne_restores_opt applyOne_restores) auto
  have "applyOne decode sha256 (SeccompProfiles c) (map_option exported (coSeccomp (chDefault c))) = Inr (coSeccomp (chDefault c))"
    by (rule one) (simp add: declarations_mem)
  moreover have "applyOverrides decode sha256 (SeccompProfiles c)
      (map (\<lambda>(h, ov). (h, ov\<lparr>coSeccomp := map_option exported (coSeccomp ov)\<rparr>)) (chOverrides c)) = Inr (chOverrides c)"
    by (rule applyOverrides_restores, rule one) (auto simp: declarations_mem)
  ultimately show ?thesis by (simp add: applySeccompProfiles_def sent_def)
qed

lemma sample_stands_behind: "stands_behind sample_decode (\<lambda>s. CHR ''h'' # s) strict_options"
  by code_simp

theorem seccomp_handover_roundtrip_witness:
  "applySeccompProfiles sample_decode (\<lambda>s. CHR ''h'' # s) (sent sample_challenge_options) (SeccompProfiles sample_challenge_options) =
   Inr sample_challenge_options"
proof (rule seccomp_handover_roundtrip)
  have ds: "declarations sample_challenge_options = [strict_options]"
    by (simp add: declarations_def sample_challenge_options_def plain_options_def)
  show "\<forall>o'\<in>set (declarations sample_challenge_options). resolved sample_decode (\<lambda>s. CHR ''h'' # s) o'"
    using sample_stands_behind unfolding ds by (simp add: resolved_def strict_options_def strict_text_def)
  show "consistent (declarations sample_challenge_options)" unfolding ds by (simp add: consistent_def)
qed

lemma persisted_seccomp_roundtrip:
  assumes "\<And>p. decode (encode p) = Some p" "\<And>p. encode p \<noteq> ''''"
    and "\<And>o'. s = Some o' \<Longrightarrow> soProfile o' \<noteq> '''' \<or> effectiveProfile o' \<noteq> ''''"
  shows "unmarshalSeccompOptions decode (marshalSeccompOptions encode s) = Inr s"
  using assms by (cases s) (auto simp: unmarshalSeccompOptions_def marshalSeccompOptions_def exported_def)

end
