(* ===== verification/Container_Config.thy ===== *)
theory Container_Config
  imports Complex_Main Seccomp
begin

text \<open>
  What a challenge container is created with (the first half of \<open>startContainers\<close> in
  \<open>src/cork/docker.go\<close>, and \<open>src/cork/cpu.go\<close>): the published ports and their host
  ports, labels, environment, resource limits, and the seccomp profile. Parsers of libraries are
  the fields of \<open>configParsers\<close>: \<open>big.Rat.SetString\<close>, \<open>units.RAMInBytes\<close>,
  \<open>units.ParseUlimit\<close>, \<open>network.ParsePort\<close> and \<open>netip.ParseAddr\<close>.
\<close>

section \<open>CPU limits\<close>

definition nanoCPUsPerCPU :: int where "nanoCPUsPerCPU = 1000000000"

datatype configError =
    BadPort string | BadInterface string | NotRational string | TooPrecise string | CpuOutOfRange string
  | BadMemory string | BadUlimit string

definition isInt64 :: "int \<Rightarrow> bool" where
  "isInt64 n = (- (2 ^ 63) \<le> n \<and> n < 2 ^ 63)"

definition parseNanoCPUs :: "(string \<Rightarrow> rat option) \<Rightarrow> string \<Rightarrow> configError + int" where
  "parseNanoCPUs setString s =
     (case setString s of
        None \<Rightarrow> Inl (NotRational s)
      | Some cpus \<Rightarrow>
          (let nano = quotient_of (cpus * of_int nanoCPUsPerCPU) in
           if snd nano \<noteq> 1 then Inl (TooPrecise s)
           else if \<not> isInt64 (fst nano) then Inl (CpuOutOfRange s)
           else Inr (fst nano)))"

section \<open>The configuration of a container\<close>

record configParsers =
  parsePort :: "string \<Rightarrow> string option"
  parseAddr :: "string \<Rightarrow> string option"
  ratSetString :: "string \<Rightarrow> rat option"
  ramInBytes :: "string \<Rightarrow> int option"
  parseUlimit :: "string \<Rightarrow> string option"

record hostSettings =
  challengeInterface :: string
  hostOSType :: string
  quotasEnabled :: bool
  seccompPolicy :: string

record portBinding =
  pbHostIP :: string
  pbHostPort :: string

record hostConfig =
  hcPortBindings :: "(string \<times> portBinding) list"
  hcRestart :: string
  hcInit :: "bool option"
  hcNanoCPUs :: int
  hcMemory :: int
  hcUlimits :: "string list"
  hcPidsLimit :: "int option"
  hcReadonlyRootfs :: bool
  hcCapDrop :: "string list"
  hcCapAdd :: "string list"
  hcSecurityOpt :: "string list"
  hcStorageSize :: "string option"
  hcCgroupParent :: string

record containerSpec =
  csImage :: string
  csHostname :: string
  csExposedPorts :: "string list"
  csLabels :: "(string \<times> string) list"
  csEnv :: "string list"
  csHost :: hostConfig
  csNetwork :: string

definition zeroHostConfig :: hostConfig where
  "zeroHostConfig = \<lparr>hcPortBindings = [], hcRestart = ''always'', hcInit = None, hcNanoCPUs = 0, hcMemory = 0, hcUlimits = [],
     hcPidsLimit = None, hcReadonlyRootfs = False, hcCapDrop = [], hcCapAdd = [], hcSecurityOpt = [], hcStorageSize = None, hcCgroupParent = ''''\<rparr>"

text \<open>A Go map read: the zero value when the key is missing.\<close>

definition portOf :: "(string \<times> int) list \<Rightarrow> string \<Rightarrow> int" where
  "portOf ports name = (case map_of ports name of None \<Rightarrow> 0 | Some p \<Rightarrow> p)"

definition nameOf :: "(string \<Rightarrow> string option) \<Rightarrow> string \<Rightarrow> string" where
  "nameOf revPortMap portStr = (case revPortMap portStr of None \<Rightarrow> '''' | Some n \<Rightarrow> n)"

definition hostPortOf :: "int \<Rightarrow> (string \<times> int) list \<Rightarrow> (string \<Rightarrow> string option) \<Rightarrow> string \<Rightarrow> string" where
  "hostPortOf portLow ports revPortMap portStr =
     (if portLow = 0 then '''' else show_int (portOf ports (nameOf revPortMap portStr)))"

fun bindPut :: "string \<Rightarrow> portBinding \<Rightarrow> (string \<times> portBinding) list \<Rightarrow> (string \<times> portBinding) list" where
  "bindPut k v [] = [(k, v)]"
| "bindPut k v ((k', v') # xs) = (if k' = k then (k, v) # xs else (k', v') # bindPut k v xs)"

fun bindPorts ::
    "configParsers \<Rightarrow> hostSettings \<Rightarrow> (string \<Rightarrow> string) \<Rightarrow> string list \<Rightarrow> (string \<times> portBinding) list \<Rightarrow> configError + (string \<times> portBinding) list" where
  "bindPorts ps hs hostPort [] acc = Inr acc"
| "bindPorts ps hs hostPort (portStr # rest) acc =
     (case parsePort ps portStr of
        None \<Rightarrow> Inl (BadPort portStr)
      | Some port \<Rightarrow>
          if challengeInterface hs = ''''
          then bindPorts ps hs hostPort rest (bindPut port \<lparr>pbHostIP = '''', pbHostPort = hostPort portStr\<rparr> acc)
          else (case parseAddr ps (challengeInterface hs) of
                  None \<Rightarrow> Inl (BadInterface (challengeInterface hs))
                | Some addr \<Rightarrow> bindPorts ps hs hostPort rest (bindPut port \<lparr>pbHostIP = addr, pbHostPort = hostPort portStr\<rparr> acc)))"

fun parseUlimits :: "configParsers \<Rightarrow> string list \<Rightarrow> configError + string list" where
  "parseUlimits ps [] = Inr []"
| "parseUlimits ps (u # us) =
     (case parseUlimit ps u of
        None \<Rightarrow> Inl (BadUlimit u)
      | Some l \<Rightarrow> (case parseUlimits ps us of Inl e \<Rightarrow> Inl e | Inr ls \<Rightarrow> Inr (l # ls)))"

definition toLower :: "string \<Rightarrow> string" where
  "toLower = map (\<lambda>c. if (of_char (CHR ''A'') :: nat) \<le> of_char c \<and> (of_char c :: nat) \<le> of_char (CHR ''Z'')
                      then char_of ((of_char c :: nat) + 32) else c)"

text \<open>The options that apply to a host: its override, else the default entry of the overrides.\<close>

definition optionsFor :: "(string \<times> ContainerOptions) list \<Rightarrow> string \<Rightarrow> ContainerOptions option" where
  "optionsFor opts host =
     (case map_of opts (toLower host) of Some o' \<Rightarrow> Some o' | None \<Rightarrow> map_of opts '''')"

definition applyOptions :: "configParsers \<Rightarrow> hostSettings \<Rightarrow> ContainerOptions \<Rightarrow> hostConfig \<Rightarrow> configError + hostConfig" where
  "applyOptions ps hs co hc =
     (case (if coCpus co = '''' then Inr (hcNanoCPUs hc) else parseNanoCPUs (ratSetString ps) (coCpus co)) of
        Inl e \<Rightarrow> Inl e
      | Inr nano \<Rightarrow>
     (case (if coMemory co = '''' then Inr (hcMemory hc)
            else case ramInBytes ps (coMemory co) of None \<Rightarrow> Inl (BadMemory (coMemory co)) | Some b \<Rightarrow> Inr b) of
        Inl e \<Rightarrow> Inl e
      | Inr memory \<Rightarrow>
     (case parseUlimits ps (coUlimits co) of
        Inl e \<Rightarrow> Inl e
      | Inr limits \<Rightarrow>
          Inr (hc\<lparr>hcInit := Some (coInit co), hcNanoCPUs := nano, hcMemory := memory, hcUlimits := limits,
                  hcPidsLimit := (if coPidsLimit co = 0 then hcPidsLimit hc else Some (coPidsLimit co)),
                  hcReadonlyRootfs := coReadonlyRootfs co, hcCapDrop := coDroppedCaps co,
                  hcSecurityOpt := hcSecurityOpt hc @ (if coNoNewPrivileges co then [''no-new-privileges=true''] else []),
                  hcStorageSize := (if coDiskQuota co \<noteq> '''' \<and> quotasEnabled hs then Some (coDiskQuota co) else hcStorageSize hc),
                  hcCgroupParent := (if coCgroupParent co = '''' then hcCgroupParent hc else coCgroupParent co)\<rparr>))))"

definition applySecurity :: "hostSettings \<Rightarrow> ContainerOptions option \<Rightarrow> hostConfig \<Rightarrow> hostConfig" where
  "applySecurity hs copts hc =
     (if hostOSType hs \<noteq> ''linux'' then hc
      else
        (let profile = (case copts of
                          None \<Rightarrow> seccompPolicy hs
                        | Some co \<Rightarrow> (case coSeccomp co of
                                        None \<Rightarrow> seccompPolicy hs
                                      | Some s \<Rightarrow> if effectiveProfile s = '''' then seccompPolicy hs else effectiveProfile s))
         in hc\<lparr>hcCapAdd := hcCapAdd hc @ (if (\<exists>co\<in>set_option copts. coCapImmutable co) then [''LINUX_IMMUTABLE''] else []),
               hcSecurityOpt := hcSecurityOpt hc @ [seccompSecurityOpt profile]\<rparr>))"

definition containerConfig ::
    "configParsers \<Rightarrow> hostSettings \<Rightarrow> int \<Rightarrow> (string \<times> int) list \<Rightarrow> (string \<Rightarrow> string option) \<Rightarrow> (string \<times> ContainerOptions) list \<Rightarrow>
     (string \<times> string) list \<Rightarrow> bool \<Rightarrow> string \<Rightarrow> string \<Rightarrow> string \<Rightarrow> string list \<Rightarrow> configError + containerSpec" where
  "containerConfig ps hs portLow ports revPortMap opts envVars dynamic imageName netname host imagePorts =
     (case bindPorts ps hs (hostPortOf portLow ports revPortMap) imagePorts [] of
        Inl e \<Rightarrow> Inl e
      | Inr bindings \<Rightarrow>
          (let copts = optionsFor opts host; hc = zeroHostConfig\<lparr>hcPortBindings := bindings\<rparr> in
           (case (case copts of None \<Rightarrow> Inr hc | Some co \<Rightarrow> applyOptions ps hs co hc) of
              Inl e \<Rightarrow> Inl e
            | Inr hc' \<Rightarrow>
                Inr \<lparr>csImage = imageName, csHostname = host, csExposedPorts = map fst bindings,
                     csLabels = [(''cmgr.managed'', ''true''), (''cmgr.dynamic'', if dynamic then ''true'' else ''false'')],
                     csEnv = map (\<lambda>(k, v). k @ ''='' @ v) envVars,
                     csHost = applySecurity hs copts hc', csNetwork = netname\<rparr>)))"

section \<open>What a container may use\<close>

lemma quotient_of_integer: "snd (quotient_of r) = 1 \<Longrightarrow> of_int (fst (quotient_of r)) = r"
  using quotient_of_div [OF prod.collapse [symmetric], of r] by simp

text \<open>
  A CPU limit is accepted exactly when it is a whole number of NanoCPUs that fits in an int64,
  and then it is that number: nothing is rounded, truncated or wrapped.
\<close>

theorem parseNanoCPUs_exact:
  "parseNanoCPUs setString s = Inr n \<longleftrightarrow>
     isInt64 n \<and> (\<exists>cpus. setString s = Some cpus \<and> cpus * 1000000000 = of_int n)"
proof
  assume "parseNanoCPUs setString s = Inr n"
  then obtain cpus where c: "setString s = Some cpus" "snd (quotient_of (cpus * of_int nanoCPUsPerCPU)) = 1"
      "isInt64 (fst (quotient_of (cpus * of_int nanoCPUsPerCPU)))" "n = fst (quotient_of (cpus * of_int nanoCPUsPerCPU))"
    by (auto simp: parseNanoCPUs_def Let_def split: option.splits if_splits)
  then have "cpus * of_int nanoCPUsPerCPU = of_int n"
    using quotient_of_integer [of "cpus * of_int nanoCPUsPerCPU"] by simp
  then show "isInt64 n \<and> (\<exists>cpus. setString s = Some cpus \<and> cpus * 1000000000 = of_int n)"
    using c by (auto simp: nanoCPUsPerCPU_def)
next
  assume "isInt64 n \<and> (\<exists>cpus. setString s = Some cpus \<and> cpus * 1000000000 = of_int n)"
  then obtain cpus where "isInt64 n" "setString s = Some cpus" "cpus * 1000000000 = of_int n" by blast
  then show "parseNanoCPUs setString s = Inr n" by (simp add: parseNanoCPUs_def nanoCPUsPerCPU_def Let_def)
qed

lemma map_of_bindPut [simp]: "map_of (bindPut k v xs) = (map_of xs)(k \<mapsto> v)"
  by (induction k v xs rule: bindPut.induct) (auto simp: fun_eq_iff)

definition bindIP :: "configParsers \<Rightarrow> hostSettings \<Rightarrow> string" where
  "bindIP ps hs = (if challengeInterface hs = '''' then '''' else the (parseAddr ps (challengeInterface hs)))"

lemma bindPorts_char:
  assumes "bindPorts ps hs hostPort ports acc = Inr bindings"
  shows "(\<forall>s\<in>set ports. parsePort ps s \<noteq> None) \<and>
    map_of bindings p = (case filter (\<lambda>s. parsePort ps s = Some p) (rev ports) of
       [] \<Rightarrow> map_of acc p | s # _ \<Rightarrow> Some \<lparr>pbHostIP = bindIP ps hs, pbHostPort = hostPort s\<rparr>)"
  using assms
proof (induction ports arbitrary: acc)
  case (Cons s ports)
  obtain q where q: "parsePort ps s = Some q"
    and rest: "bindPorts ps hs hostPort ports (bindPut q \<lparr>pbHostIP = bindIP ps hs, pbHostPort = hostPort s\<rparr> acc) = Inr bindings"
    using Cons.prems by (auto simp: bindIP_def split: option.splits if_splits)
  show ?case using Cons.IH [OF rest] q by (auto split: list.splits)
qed simp

lemma bindPorts_binds:
  assumes "bindPorts ps hs hostPort ports [] = Inr bindings" "portStr \<in> set ports" "inj_on (parsePort ps) (set ports)"
  shows "\<exists>p. parsePort ps portStr = Some p \<and> map_of bindings p = Some \<lparr>pbHostIP = bindIP ps hs, pbHostPort = hostPort portStr\<rparr>"
proof -
  obtain p where p: "parsePort ps portStr = Some p" using bindPorts_char [OF assms(1)] assms(2) by blast
  let ?fs = "filter (\<lambda>s. parsePort ps s = Some p) (rev ports)"
  have "portStr \<in> set ?fs" using assms(2) p by simp
  then obtain s ss where ss: "?fs = s # ss" by (cases ?fs) auto
  then have "s \<in> set ?fs" by simp
  then have "s \<in> set ports \<and> parsePort ps s = Some p" by simp
  then have "s = portStr" using assms(2,3) p by (metis inj_on_def)
  then show ?thesis using bindPorts_char [OF assms(1), of p] ss p by simp
qed

lemma applyOptions_frame:
  assumes "applyOptions ps hs co hc = Inr hc'"
  shows "hcPortBindings hc' = hcPortBindings hc \<and> hcCapAdd hc' = hcCapAdd hc \<and> hcRestart hc' = hcRestart hc \<and>
    hcSecurityOpt hc' = hcSecurityOpt hc @ (if coNoNewPrivileges co then [''no-new-privileges=true''] else [])"
  using assms by (auto simp: applyOptions_def split: sum.splits)

lemma containerConfig_parts:
  assumes "containerConfig ps hs portLow ports rpm opts envVars dynamic imageName netname host imagePorts = Inr spec"
  obtains bindings hc where "bindPorts ps hs (hostPortOf portLow ports rpm) imagePorts [] = Inr bindings"
    and "hcPortBindings hc = bindings" and "csHost spec = applySecurity hs (optionsFor opts host) hc"
    and "csExposedPorts spec = map fst bindings"
    and "(case optionsFor opts host of None \<Rightarrow> Inr (zeroHostConfig\<lparr>hcPortBindings := bindings\<rparr>)
          | Some co \<Rightarrow> applyOptions ps hs co (zeroHostConfig\<lparr>hcPortBindings := bindings\<rparr>)) = Inr hc"
proof -
  obtain bindings where b: "bindPorts ps hs (hostPortOf portLow ports rpm) imagePorts [] = Inr bindings"
    using assms by (auto simp: containerConfig_def split: sum.splits)
  let ?hc = "zeroHostConfig\<lparr>hcPortBindings := bindings\<rparr>"
  obtain hc where h: "(case optionsFor opts host of None \<Rightarrow> Inr ?hc | Some co \<Rightarrow> applyOptions ps hs co ?hc) = Inr hc"
    and s: "csHost spec = applySecurity hs (optionsFor opts host) hc" "csExposedPorts spec = map fst bindings"
    using assms b by (auto simp: containerConfig_def Let_def split: sum.splits)
  have "hcPortBindings hc = bindings" using h by (auto split: option.splits dest: applyOptions_frame)
  then show ?thesis using that b h s by blast
qed

text \<open>
  With a port range configured, every port an image publishes is bound to the host port
  reserved for it: the binding carries exactly the number recorded under the port's name.
\<close>

theorem container_binds_reserved_ports:
  assumes "containerConfig ps hs portLow ports rpm opts envVars dynamic imageName netname host imagePorts = Inr spec"
    and "portLow \<noteq> 0" "inj_on (parsePort ps) (set imagePorts)"
    and "s \<in> set imagePorts" "rpm s = Some name" "map_of ports name = Some p"
  shows "\<exists>port. parsePort ps s = Some port \<and> port \<in> set (csExposedPorts spec) \<and>
    map_option pbHostPort (map_of (hcPortBindings (csHost spec)) port) = Some (show_int p)"
proof -
  obtain bindings hc where b: "bindPorts ps hs (hostPortOf portLow ports rpm) imagePorts [] = Inr bindings"
    and h: "hcPortBindings hc = bindings" "csHost spec = applySecurity hs (optionsFor opts host) hc" "csExposedPorts spec = map fst bindings"
    by (rule containerConfig_parts [OF assms(1)]) blast
  obtain port where "parsePort ps s = Some port"
      "map_of bindings port = Some \<lparr>pbHostIP = bindIP ps hs, pbHostPort = hostPortOf portLow ports rpm s\<rparr>"
    using bindPorts_binds [OF b assms(4,3)] by blast
  moreover have "hcPortBindings (csHost spec) = bindings" using h by (simp add: applySecurity_def Let_def)
  moreover have "hostPortOf portLow ports rpm s = show_int p" using assms by (simp add: hostPortOf_def portOf_def nameOf_def)
  ultimately show ?thesis using h by (auto dest: map_of_SomeD intro!: exI [of _ port] image_eqI)
qed

text \<open>
  On Linux every container runs under exactly one seccomp profile: the one resolved for the
  options that apply to its host when there is one, else cork's own policy; a challenge never
  runs unconfined.
\<close>

theorem container_always_confined:
  assumes "containerConfig ps hs portLow ports rpm opts envVars dynamic imageName netname host imagePorts = Inr spec"
    and "hostOSType hs = ''linux''"
  shows "filter (\<lambda>o'. hasPrefix o' ''seccomp='') (hcSecurityOpt (csHost spec)) =
    [''seccomp='' @ (case Option.bind (optionsFor opts host) coSeccomp of
                      Some s \<Rightarrow> if effectiveProfile s = '''' then seccompPolicy hs else effectiveProfile s
                    | None \<Rightarrow> seccompPolicy hs)]"
proof -
  obtain bindings hc where h: "csHost spec = applySecurity hs (optionsFor opts host) hc"
    and c: "(case optionsFor opts host of None \<Rightarrow> Inr (zeroHostConfig\<lparr>hcPortBindings := bindings\<rparr>)
          | Some co \<Rightarrow> applyOptions ps hs co (zeroHostConfig\<lparr>hcPortBindings := bindings\<rparr>)) = Inr hc"
    by (rule containerConfig_parts [OF assms(1)]) blast
  have "hcSecurityOpt hc \<in> {[], [''no-new-privileges=true'']}"
    using c by (auto simp: zeroHostConfig_def split: option.splits dest!: applyOptions_frame)
  then have "filter (\<lambda>o'. hasPrefix o' ''seccomp='') (hcSecurityOpt hc) = []" by (auto simp: hasPrefix_def)
  moreover have "hasPrefix (''seccomp='' @ x) ''seccomp=''" for x by (simp add: hasPrefix_def)
  ultimately show ?thesis using h assms(2)
    by (cases "optionsFor opts host") (auto simp: applySecurity_def Let_def seccompSecurityOpt_def split: option.splits)
qed

definition sample_parsers :: configParsers where
  "sample_parsers = \<lparr>parsePort = Some, parseAddr = Some, ratSetString = (\<lambda>s. if s = ''1.5'' then Some (3 / 2) else None),
     ramInBytes = (\<lambda>_. None), parseUlimit = Some\<rparr>"

definition linux_host :: hostSettings where
  "linux_host = \<lparr>challengeInterface = '''', hostOSType = ''linux'', quotasEnabled = False, seccompPolicy = ''{default}''\<rparr>"

definition sample_spec :: "configError + containerSpec" where
  "sample_spec = containerConfig sample_parsers linux_host 4000 [(''http'', 4007)] [''80/tcp'' \<mapsto> ''http'']
     (chOverrides sample_challenge_options) [] True ''chal:web'' ''cmgr-7'' ''Web'' [''80/tcp'']"

lemma sample_spec_Inr: "\<exists>spec. sample_spec = Inr spec"
  by (simp add: sample_spec_def containerConfig_def sample_parsers_def linux_host_def Let_def optionsFor_def toLower_def
      sample_challenge_options_def applyOptions_def plain_options_def)

theorem container_binds_reserved_ports_witness:
  "\<exists>spec. sample_spec = Inr spec \<and> ''80/tcp'' \<in> set (csExposedPorts spec) \<and>
     map_option pbHostPort (map_of (hcPortBindings (csHost spec)) ''80/tcp'') = Some (show_int 4007)"
proof -
  obtain spec where spec: "sample_spec = Inr spec" using sample_spec_Inr by blast
  show ?thesis
    using container_binds_reserved_ports [OF spec [unfolded sample_spec_def], of "''80/tcp''" "''http''" 4007] spec
    by (intro exI [of _ spec]) (simp add: sample_parsers_def)
qed

theorem container_always_confined_witness:
  "\<exists>spec. sample_spec = Inr spec \<and>
     filter (\<lambda>o'. hasPrefix o' ''seccomp='') (hcSecurityOpt (csHost spec)) = [''seccomp='' @ strict_text]"
proof -
  obtain spec where spec: "sample_spec = Inr spec" using sample_spec_Inr by blast
  have "optionsFor (chOverrides sample_challenge_options) ''Web'' = Some (plain_options\<lparr>coSeccomp := Some strict_options\<rparr>)"
    by code_simp
  then show ?thesis
    using container_always_confined [OF spec [unfolded sample_spec_def]] spec
    by (intro exI [of _ spec]) (simp add: linux_host_def strict_options_def strict_text_def)
qed

end
