(* ===== verification/Artifact_Archive.thy ===== *)
theory Artifact_Archive
  imports Settings
begin

text \<open>
  What a build may publish (\<open>src/cork/artifacts.go\<close>): the archive a challenge produces is
  untrusted, and is rewritten entry by entry into one whose names stay below its root and whose
  size is bounded. The tar stream is the list of its entries, each with the number of bytes the
  reader takes up to and including its header; decompressed bytes are counted against a cap. The
  files around it (a temporary file, the rename into place) are in the theory of the build.
\<close>

section \<open>Paths\<close>

text \<open>
  \<open>path.Clean\<close>, component by component: empty components and \<open>.\<close> go, \<open>..\<close>
  takes back the component before it, at the root it goes too, and in front of a relative path it
  stays. The components kept so far are on the stack, last first.
\<close>

definition cleanStep :: "bool \<Rightarrow> string \<Rightarrow> string list \<Rightarrow> string list" where
  "cleanStep rooted part stack =
     (if part = '''' \<or> part = ''.'' then stack
      else if part = ''..'' then
        (case stack of
           [] \<Rightarrow> if rooted then [] else [''..'']
         | prev # below \<Rightarrow> if prev = ''..'' then ''..'' # stack else below)
      else part # stack)"

definition cleanParts :: "string \<Rightarrow> string list" where
  "cleanParts s = rev (fold (cleanStep (hasPrefix s ''/'')) (splitOn (CHR ''/'') s) [])"

definition path_Clean :: "string \<Rightarrow> string" where
  "path_Clean s =
     (if hasPrefix s ''/'' then CHR ''/'' # joinWith (CHR ''/'') (cleanParts s)
      else if cleanParts s = [] then ''.''
      else joinWith (CHR ''/'') (cleanParts s))"

section \<open>Archives\<close>

datatype tarType = TypeReg | TypeRegA | TypeDir | TypeOther nat

record tarHeader =
  thName :: string
  thLinkname :: string
  thTypeflag :: tarType
  thSize :: int
  thMode :: "64 word"
  thUid :: int
  thGid :: int
  thUname :: string
  thGname :: string
  thPAXRecords :: "(string \<times> string) list"
  thXattrs :: "(string \<times> string) list"

record artifactArchive =
  aaGzip :: "string option" \<comment> \<open>why the gzip stream could not be opened\<close>
  aaEntries :: "(nat \<times> tarHeader) list"
  aaTail :: nat \<comment> \<open>the bytes read after the last entry\<close>
  aaEnd :: "string option" \<comment> \<open>how reading ends: with io.EOF (None) or an error\<close>

datatype archiveError =
    InvalidPath string | PathTooLong string | PathEscapes string
  | GzipUndecodable string | Unreadable string | BeyondSizeLimit
  | TooManyEntries int | RepeatedPath string
  | FileTooLarge string int | ArchiveTooLarge int | UnsupportedType string

definition artifactLimits :: "managerPolicy \<Rightarrow> int \<times> int \<times> int" where
  "artifactLimits p =
     (if MaxArtifactFiles p = 0 then defaultMaxArtifactFiles else MaxArtifactFiles p,
      if MaxArtifactBytes p = 0 then defaultMaxArtifactBytes else MaxArtifactBytes p,
      if MaxArtifactFileBytes p = 0 then defaultMaxArtifactFileBytes else MaxArtifactFileBytes p)"

definition safeArchiveName :: "string \<Rightarrow> archiveError + string" where
  "safeArchiveName name =
     (if name = '''' \<or> CHR 0x00 \<in> set name \<or> CHR 0x5C \<in> set name then Inl (InvalidPath name)
      else if length name > 4096 then Inl (PathTooLong name)
      else
        (let clean = path_Clean name in
         if clean = ''.'' \<or> hasPrefix clean ''/'' \<or> clean = ''..'' \<or> hasPrefix clean ''../''
         then Inl (PathEscapes name) else Inr clean))"

definition artifactMetadataBytesPerEntry :: int where "artifactMetadataBytesPerEntry = 8 * 1024"
definition artifactTrailerSlackBytes :: int where "artifactTrailerSlackBytes = 4 * 1024"

text \<open>The decompressed cap is computed in int64.\<close>

definition decompressedLimit :: "int \<Rightarrow> int \<Rightarrow> int" where
  "decompressedLimit maxFiles maxBytes =
     wrap64 (maxBytes + maxFiles * artifactMetadataBytesPerEntry + artifactTrailerSlackBytes)"

text \<open>
  \<open>n\<close> bytes through a \<open>boundedReader\<close>: what remains of its cap, or nothing once the cap
  is passed.
\<close>

definition boundedRead :: "nat \<Rightarrow> int \<Rightarrow> int option" where
  "boundedRead n remaining =
     (if n = 0 then Some remaining else if remaining < int n then None else Some (remaining - int n))"

text \<open>Modes keep their permission bits (0777 octal).\<close>

definition cleanHeader :: "string \<Rightarrow> tarHeader \<Rightarrow> tarHeader" where
  "cleanHeader name h =
     h\<lparr>thName := name, thLinkname := '''', thMode := and (thMode h) 0x1FF, thUid := 0, thGid := 0,
       thUname := '''', thGname := '''', thPAXRecords := [], thXattrs := []\<rparr>"

fun archiveLoop ::
    "int \<times> int \<times> int \<Rightarrow> (nat \<times> tarHeader) list \<Rightarrow> nat \<Rightarrow> string option \<Rightarrow> int \<Rightarrow> int \<Rightarrow> string list \<Rightarrow> int \<Rightarrow>
     string list \<Rightarrow> tarHeader list \<Rightarrow> archiveError + (string list \<times> tarHeader list)" where
  "archiveLoop lim [] tail end remaining count seen sofar files out =
     (case boundedRead tail remaining of
        None \<Rightarrow> Inl BeyondSizeLimit
      | Some _ \<Rightarrow> (case end of Some e \<Rightarrow> Inl (Unreadable e) | None \<Rightarrow> Inr (files, out)))"
| "archiveLoop (maxFiles, maxBytes, maxFileBytes) ((pre, h) # es) tail end remaining count seen sofar files out =
     (case boundedRead pre remaining of
        None \<Rightarrow> Inl BeyondSizeLimit
      | Some remaining1 \<Rightarrow>
          if count + 1 > maxFiles then Inl (TooManyEntries maxFiles)
          else if thTypeflag h = TypeDir \<and> (thName h = ''.'' \<or> thName h = ''./'') then
            archiveLoop (maxFiles, maxBytes, maxFileBytes) es tail end remaining1 (count + 1) seen sofar files out
          else
            (case safeArchiveName (thName h) of
               Inl e \<Rightarrow> Inl e
             | Inr name \<Rightarrow>
                 if name \<in> set seen then Inl (RepeatedPath name)
                 else if thTypeflag h = TypeReg \<or> thTypeflag h = TypeRegA then
                   (if thSize h < 0 \<or> thSize h > maxFileBytes then Inl (FileTooLarge name (thSize h))
                    else if thSize h > wrap64 (maxBytes - sofar) then Inl (ArchiveTooLarge maxBytes)
                    else
                      (case boundedRead (nat (thSize h)) remaining1 of
                         None \<Rightarrow> Inl BeyondSizeLimit
                       | Some remaining2 \<Rightarrow>
                           archiveLoop (maxFiles, maxBytes, maxFileBytes) es tail end remaining2 (count + 1) (name # seen)
                             (wrap64 (sofar + thSize h)) (files @ [name]) (out @ [cleanHeader name h])))
                 else if thTypeflag h = TypeDir then
                   archiveLoop (maxFiles, maxBytes, maxFileBytes) es tail end remaining1 (count + 1) (name # seen)
                     sofar files (out @ [cleanHeader name (h\<lparr>thSize := 0\<rparr>)])
                 else Inl (UnsupportedType name)))"

text \<open>The files published and the headers of the archive written, or why it is refused.\<close>

definition copyArchive :: "managerPolicy \<Rightarrow> artifactArchive \<Rightarrow> archiveError + (string list \<times> tarHeader list)" where
  "copyArchive p a =
     (case aaGzip a of
        Some e \<Rightarrow> Inl (GzipUndecodable e)
      | None \<Rightarrow>
          (let (maxFiles, maxBytes, maxFileBytes) = artifactLimits p in
           archiveLoop (maxFiles, maxBytes, maxFileBytes) (aaEntries a) (aaTail a) (aaEnd a)
             (decompressedLimit maxFiles maxBytes) 0 [] 0 [] []))"

section \<open>Cleaned paths\<close>

text \<open>A component that names something inside the directory it is in.\<close>

definition plain_part :: "string \<Rightarrow> bool" where
  "plain_part p \<longleftrightarrow> p \<noteq> '''' \<and> p \<noteq> ''.'' \<and> p \<noteq> ''..'' \<and> CHR ''/'' \<notin> set p"

definition below_root :: "string \<Rightarrow> bool" where
  "below_root s \<longleftrightarrow> (\<forall>p\<in>set (splitOn (CHR ''/'') s). plain_part p)"

lemma cleanStep_shape:
  assumes "list_all plain_part ns" "rooted \<longrightarrow> k = 0" "CHR ''/'' \<notin> set part"
  shows "\<exists>ns' k'. cleanStep rooted part (ns @ replicate k ''..'') = ns' @ replicate k' ''..'' \<and>
           list_all plain_part ns' \<and> (rooted \<longrightarrow> k' = 0)"
proof -
  consider "part = '''' \<or> part = ''.''" | "part = ''..''" "ns = []" | n ns' where "part = ''..''" "ns = n # ns'"
    | "plain_part part"
    using assms(3) by (cases ns) (auto simp: plain_part_def)
  then show ?thesis
  proof cases
    case 1
    with assms show ?thesis by (auto simp: cleanStep_def)
  next
    case 2
    show ?thesis
    proof (cases k)
      case 0
      with 2 show ?thesis
        by (intro exI [of _ "[]"] exI [of _ "if rooted then 0 else 1"]) (simp add: cleanStep_def)
    next
      case (Suc j)
      with 2 assms(2) show ?thesis
        by (intro exI [of _ "[]"] exI [of _ "Suc k"]) (simp add: cleanStep_def)
    qed
  next
    case 3
    with assms show ?thesis
      by (intro exI [of _ ns'] exI [of _ k]) (auto simp: cleanStep_def plain_part_def)
  next
    case 4
    with assms show ?thesis
      by (intro exI [of _ "part # ns"] exI [of _ k]) (auto simp: cleanStep_def plain_part_def)
  qed
qed

lemma cleanFold_shape:
  assumes "list_all plain_part ns" "rooted \<longrightarrow> k = 0" "\<And>p. p \<in> set parts \<Longrightarrow> CHR ''/'' \<notin> set p"
  shows "\<exists>ns' k'. fold (cleanStep rooted) parts (ns @ replicate k ''..'') = ns' @ replicate k' ''..'' \<and>
           list_all plain_part ns' \<and> (rooted \<longrightarrow> k' = 0)"
  using assms
proof (induction parts arbitrary: ns k)
  case (Cons part parts)
  obtain ns1 k1 where "cleanStep rooted part (ns @ replicate k ''..'') = ns1 @ replicate k1 ''..''"
      "list_all plain_part ns1" "rooted \<longrightarrow> k1 = 0"
    using cleanStep_shape [OF Cons.prems(1,2)] Cons.prems(3) by (metis list.set_intros(1))
  then show ?case using Cons.IH [of ns1 k1] Cons.prems(3) by simp
qed auto

text \<open>A cleaned path is a run of \<open>..\<close>, none when rooted, and then plain components.\<close>

lemma cleanParts_shape:
  "\<exists>k ns. cleanParts s = replicate k ''..'' @ ns \<and> list_all plain_part ns \<and> (hasPrefix s ''/'' \<longrightarrow> k = 0)"
proof -
  obtain ns k where "fold (cleanStep (hasPrefix s ''/'')) (splitOn (CHR ''/'') s) [] = ns @ replicate k ''..''"
      "list_all plain_part ns" "hasPrefix s ''/'' \<longrightarrow> k = 0"
    using cleanFold_shape [of "[]" "hasPrefix s ''/''" 0 "splitOn (CHR ''/'') s"] splitOn_no_sep by auto
  then show ?thesis by (intro exI [of _ k] exI [of _ "rev ns"]) (simp add: cleanParts_def list_all_rev)
qed

lemma joinWith_Cons: "ss \<noteq> [] \<Longrightarrow> joinWith c (s # ss) = s @ c # joinWith c ss"
  by (cases ss) auto

lemma safeArchiveName_below_root:
  assumes "safeArchiveName name = Inr clean"
  shows "below_root clean \<and> clean \<noteq> ''''"
proof -
  obtain k ns where parts: "cleanParts name = replicate k ''..'' @ ns" "list_all plain_part ns"
    using cleanParts_shape by blast
  have clean: "clean = path_Clean name" and ok: "clean \<noteq> ''.''" "\<not> hasPrefix clean ''/''" "clean \<noteq> ''..''" "\<not> hasPrefix clean ''../''"
    using assms by (auto simp: safeArchiveName_def Let_def split: if_splits)
  have rel: "\<not> hasPrefix name ''/''"
  proof
    assume "hasPrefix name ''/''"
    then have "clean = ''/'' @ joinWith (CHR ''/'') (cleanParts name)" by (simp add: clean path_Clean_def)
    then show False using ok(2) by (auto simp: hasPrefix_iff)
  qed
  have ne: "cleanParts name \<noteq> []" and join: "clean = joinWith (CHR ''/'') (cleanParts name)"
    using clean ok(1) rel by (auto simp: path_Clean_def split: if_splits)
  have "k = 0"
  proof (rule ccontr)
    assume "k \<noteq> 0"
    then obtain j where k: "k = Suc j" by (cases k) auto
    show False
      using ok(3,4) join parts k
      by (cases "replicate j ''..'' @ ns") (auto simp: joinWith_Cons hasPrefix_iff)
  qed
  then have plain: "list_all plain_part (cleanParts name)" using parts by simp
  then have "splitOn (CHR ''/'') clean = cleanParts name"
    unfolding join by (intro splitOn_joinWith ne) (auto simp: list_all_iff plain_part_def)
  then have "below_root clean" using plain by (simp add: below_root_def list_all_iff)
  moreover have "clean \<noteq> ''''"
  proof
    assume "clean = ''''"
    with \<open>below_root clean\<close> show False by (simp add: below_root_def plain_part_def)
  qed
  ultimately show ?thesis ..
qed

section \<open>What is published\<close>

definition regular :: "tarHeader \<Rightarrow> bool" where
  "regular h \<longleftrightarrow> thTypeflag h = TypeReg \<or> thTypeflag h = TypeRegA"

text \<open>An entry as it may be handed to players.\<close>

definition harmless :: "int \<Rightarrow> tarHeader \<Rightarrow> bool" where
  "harmless maxFileBytes h \<longleftrightarrow>
     below_root (thName h) \<and> thName h \<noteq> '''' \<and> (regular h \<or> thTypeflag h = TypeDir) \<and>
     0 \<le> thSize h \<and> (regular h \<longrightarrow> thSize h \<le> maxFileBytes) \<and> (\<not> regular h \<longrightarrow> thSize h = 0) \<and>
     thLinkname h = '''' \<and> thUid h = 0 \<and> thGid h = 0 \<and> and (thMode h) 0x1FF = thMode h \<and>
     thUname h = '''' \<and> thGname h = '''' \<and> thPAXRecords h = [] \<and> thXattrs h = []"

definition archive_inv ::
    "int \<times> int \<times> int \<Rightarrow> int \<Rightarrow> string list \<Rightarrow> int \<Rightarrow> string list \<Rightarrow> tarHeader list \<Rightarrow> bool" where
  "archive_inv lim count seen sofar files out \<longleftrightarrow>
     (case lim of (maxFiles, maxBytes, maxFileBytes) \<Rightarrow>
        int (length out) \<le> count \<and> (count \<le> maxFiles \<or> count = 0) \<and> distinct seen \<and> map thName out = rev seen \<and>
        list_all (harmless maxFileBytes) out \<and> sofar = sum_list (map thSize out) \<and> 0 \<le> sofar \<and> sofar \<le> maxBytes \<and>
        files = map thName (filter regular out))"

lemma mode_bits: "and (and x 0x1FF) 0x1FF = and x (0x1FF :: 64 word)"
  by (simp add: and.assoc)

lemma harmless_cleanHeader:
  assumes "safeArchiveName (thName h) = Inr name" "0 \<le> thSize h" "regular h \<and> thSize h \<le> b \<or> thTypeflag h = TypeDir \<and> thSize h = 0"
  shows "harmless b (cleanHeader name h)"
  using safeArchiveName_below_root [OF assms(1)] assms(2,3)
  by (auto simp: harmless_def cleanHeader_def regular_def mode_bits)

lemma archiveLoop_inv:
  assumes "archiveLoop lim es tail end remaining count seen sofar files out = Inr (files', out')"
    and "archive_inv lim count seen sofar files out" "fst (snd lim) < 2 ^ 63" "0 \<le> count"
  shows "\<exists>count' seen' sofar'. archive_inv lim count' seen' sofar' files' out'"
  using assms
proof (induction lim es tail "end" remaining count seen sofar files out rule: archiveLoop.induct)
  case (1 lim tail "end" remaining count seen sofar files out)
  then show ?case by (auto split: option.splits)
next
  case (2 maxFiles maxBytes maxFileBytes pre h es tail "end" remaining count seen sofar files out)
  note inv = 2(5) [unfolded archive_inv_def]
  obtain rem1 where rem1: "boundedRead pre remaining = Some rem1" and count: "count + 1 \<le> maxFiles"
    using 2(4) by (auto split: option.splits if_splits)
  show ?case
  proof (cases "thTypeflag h = TypeDir \<and> (thName h = ''.'' \<or> thName h = ''./'')")
    case True
    have "archive_inv (maxFiles, maxBytes, maxFileBytes) (count + 1) seen sofar files out"
      using inv count by (auto simp: archive_inv_def)
    then show ?thesis using 2(1) [OF rem1 _ True] 2(4,6,7) rem1 count True by simp
  next
    case False
    obtain name where name: "safeArchiveName (thName h) = Inr name" and fresh: "name \<notin> set seen"
      using 2(4) rem1 count False by (auto split: sum.splits if_splits)
    show ?thesis
    proof (cases "regular h")
      case True
      then have reg: "thTypeflag h = TypeReg \<or> thTypeflag h = TypeRegA" by (simp add: regular_def)
      have sub: "wrap64 (maxBytes - sofar) = maxBytes - sofar"
        using inv 2(6) by (intro wrap64_id) auto
      obtain rem2 where sizes: "0 \<le> thSize h" "thSize h \<le> maxFileBytes" "thSize h \<le> maxBytes - sofar"
          and rem2: "boundedRead (nat (thSize h)) rem1 = Some rem2"
        using 2(4) rem1 count False name fresh reg sub
        by (auto split: option.splits if_splits)
      have add: "wrap64 (sofar + thSize h) = sofar + thSize h"
        using inv 2(6) sizes by (intro wrap64_id) auto
      have "harmless maxFileBytes (cleanHeader name h)"
        using name sizes True by (intro harmless_cleanHeader) auto
      then have "archive_inv (maxFiles, maxBytes, maxFileBytes) (count + 1) (name # seen) (sofar + thSize h)
                   (files @ [name]) (out @ [cleanHeader name h])"
        using inv count fresh sizes True by (auto simp: archive_inv_def cleanHeader_def regular_def)
      then show ?thesis
        using 2(2) [OF rem1 _ False name fresh reg _ _ rem2] 2(4,6,7) rem1 rem2 count False name fresh reg sizes sub add
        by auto
    next
      case nreg: False
      then have reg: "\<not> (thTypeflag h = TypeReg \<or> thTypeflag h = TypeRegA)" by (simp add: regular_def)
      have dir: "thTypeflag h = TypeDir"
        using 2(4) rem1 count False name fresh reg by (auto split: if_splits)
      have "harmless maxFileBytes (cleanHeader name (h\<lparr>thSize := 0\<rparr>))"
        using name dir by (intro harmless_cleanHeader) auto
      then have "archive_inv (maxFiles, maxBytes, maxFileBytes) (count + 1) (name # seen) sofar
                   files (out @ [cleanHeader name (h\<lparr>thSize := 0\<rparr>)])"
        using inv count fresh dir by (auto simp: archive_inv_def cleanHeader_def regular_def)
      then show ?thesis
        using 2(3) [OF rem1 _ False name fresh reg dir] 2(4,6,7) rem1 count False name fresh reg dir
        by simp
    qed
  qed
qed

text \<open>
  C25. Whatever archive a challenge's build produces, the one published from it is harmless: at most
  the configured number of entries, every name relative and without a \<open>..\<close>, \<open>.\<close> or
  empty component, no name twice, only regular files and directories, owned by root with
  permission bits alone and without links or extended records, no file above the per-file limit
  and all of them together within the total; and the files reported to the validation of the
  build are exactly the regular entries written.
\<close>

theorem copyArchive_harmless:
  assumes "copyArchive p a = Inr (files, out)"
    and "artifactLimits p = (maxFiles, maxBytes, maxFileBytes)" "0 \<le> maxFiles" "0 \<le> maxBytes" "maxBytes < 2 ^ 63"
  shows "int (length out) \<le> maxFiles \<and> distinct (map thName out) \<and> list_all (harmless maxFileBytes) out \<and>
    sum_list (map thSize out) \<le> maxBytes \<and> files = map thName (filter regular out)"
proof -
  have run: "archiveLoop (maxFiles, maxBytes, maxFileBytes) (aaEntries a) (aaTail a) (aaEnd a)
               (decompressedLimit maxFiles maxBytes) 0 [] 0 [] [] = Inr (files, out)"
    using assms(1,2) by (auto simp: copyArchive_def split: option.splits)
  have "archive_inv (maxFiles, maxBytes, maxFileBytes) 0 [] 0 [] []"
    using assms(4) by (simp add: archive_inv_def)
  with archiveLoop_inv [OF run] assms(5)
  obtain count seen sofar where "archive_inv (maxFiles, maxBytes, maxFileBytes) count seen sofar files out"
    by auto
  then show ?thesis
    using assms(3) by (auto simp: archive_inv_def)
qed

definition sample_header :: tarHeader where
  "sample_header = \<lparr>thName = ''./notes/../flag.txt'', thLinkname = ''/etc/passwd'', thTypeflag = TypeReg, thSize = 12,
     thMode = 0xDED, thUid = 1000, thGid = 1000, thUname = ''me'', thGname = ''me'', thPAXRecords = [], thXattrs = []\<rparr>"

definition sample_archive :: artifactArchive where
  "sample_archive = \<lparr>aaGzip = None, aaEntries = [(512, sample_header\<lparr>thName := ''./'', thTypeflag := TypeDir\<rparr>), (512, sample_header)],
     aaTail = 1524, aaEnd = None\<rparr>"

definition default_policy :: managerPolicy where
  "default_policy = \<lparr>MaxArtifactFiles = 10000, MaxArtifactBytes = 5 * 2 ^ 30, MaxArtifactFileBytes = 2 ^ 30\<rparr>"

theorem copyArchive_harmless_witness:
  "copyArchive default_policy sample_archive = Inr ([''flag.txt''], [cleanHeader ''flag.txt'' sample_header]) \<and>
   below_root ''flag.txt''"
proof -
  have run: "copyArchive default_policy sample_archive = Inr ([''flag.txt''], [cleanHeader ''flag.txt'' sample_header])"
    by code_simp
  have "artifactLimits default_policy = (10000, 5 * 2 ^ 30, 2 ^ 30)" by code_simp
  from copyArchive_harmless [OF run this] run show ?thesis
    by (simp add: harmless_def cleanHeader_def)
qed

text \<open>
  The cap on decompressed bytes is computed in an int64 from the number of entries allowed: with
  \<open>2 ^ 50\<close> of them it is negative, and every archive is refused.
\<close>

lemma decompressedLimit_wraps:
  assumes "artifactLimits p = (2 ^ 50, 5 * 2 ^ 30, maxFileBytes)" "aaGzip a = None" "aaEntries a = (Suc n, h) # es"
  shows "copyArchive p a = Inl BeyondSizeLimit"
proof -
  have "decompressedLimit (2 ^ 50) (5 * 2 ^ 30) = - (2 ^ 63) + 5 * 2 ^ 30 + 4096" by code_simp
  then show ?thesis using assms by (simp add: copyArchive_def boundedRead_def)
qed

end
