(* ===== verification/Manager_State.thy ===== *)
theory Manager_State
  imports Reachable_Race Container_Config Artifact_Archive
begin

text \<open>
  The state of the orchestrator: the errors of the package and how Go's \<open>errors.Is\<close> reads
  them, the tables of the SQLite database (\<open>src/cork/database.go\<close>) with their cascades, the
  \<open>Manager\<close> (\<open>src/cork/types.go\<close>), and how a statement or a transaction runs
  against it. A statement may fail: whether it does is read from the list \<open>faults\<close>, one
  entry per statement, so that every theorem quantifies over every pattern of failures.
\<close>

section \<open>Errors\<close>

datatype sqlError = SqlBusy | SqlLocked | SqlConstraint string | SqlOther string

datatype cause =
    ErrDatabaseBusy | ErrWorkerBusy | ErrWorkerUnreachable | ErrPullTimeout
  | ErrAllWorkersOverloaded | ErrAllWorkersUnresponsive | ErrAllWorkersDown
  | ErrNoWorkers | ErrExternalBuildPlane | ErrLocalBuildPlane
  | ErrHandOverInvalid | ErrNotInRegistry | ErrChallengeHasBuilds
  | DeadlineExceeded \<comment> \<open>context.DeadlineExceeded\<close>
  | ConnectionFailed \<comment> \<open>client.IsErrConnectionFailed, net.Error, url.Error\<close>
  | NotFound | Conflict \<comment> \<open>docker API errors by class\<close>
  | UnknownIdentifierError string string
  | SqlErr sqlError
  | GoPanic string \<comment> \<open>a run-time panic of the Go program\<close>
  | Msg string

text \<open>
  An error is the chain it wraps: \<open>fmt.Errorf("%w: ...", s)\<close> puts \<open>s\<close> into the chain,
  \<open>%v\<close> only its text.
\<close>

type_synonym err = "cause list"

definition errors_Is :: "err \<Rightarrow> cause \<Rightarrow> bool" where
  "errors_Is e c = (c \<in> set e)"

definition retryableDB :: "err \<Rightarrow> err" where
  "retryableDB e =
     (if errors_Is e (SqlErr SqlBusy) \<or> errors_Is e (SqlErr SqlLocked) then ErrDatabaseBusy # e else e)"

definition isTransportError :: "err \<Rightarrow> bool" where
  "isTransportError e = (errors_Is e DeadlineExceeded \<or> errors_Is e ConnectionFailed)"

definition unknownChallengeIdError :: "string \<Rightarrow> err" where
  "unknownChallengeIdError i = [UnknownIdentifierError ''challenge'' i]"

definition unknownBuildIdError :: "int \<Rightarrow> err" where
  "unknownBuildIdError i = [UnknownIdentifierError ''build'' (show_int i)]"

definition unknownInstanceIdError :: "int \<Rightarrow> err" where
  "unknownInstanceIdError i = [UnknownIdentifierError ''instance'' (show_int i)]"

definition unknownSchemaIdError :: "string \<Rightarrow> err" where
  "unknownSchemaIdError i = [UnknownIdentifierError ''schema'' i]"

fun cause_Error :: "cause \<Rightarrow> string" where
  "cause_Error (UnknownIdentifierError t n) = ''unknown '' @ t @ '' identifier: '' @ n"
| "cause_Error (Msg s) = s"
| "cause_Error DeadlineExceeded = ''context deadline exceeded''"
| "cause_Error _ = ''''"

section \<open>Tables\<close>

text \<open>
  A row of \<open>challenges\<close> together with its rows of \<open>hints\<close>, \<open>tags\<close>,
  \<open>attributes\<close>, \<open>hosts\<close> and \<open>containerOptions\<close>, which all cascade with it.
\<close>

record challengeRow =
  cId :: string
  cName :: string
  cNamespace :: string
  cType :: string
  cDescription :: string
  cDetails :: string
  cSourceChecksum :: "32 word"
  cMetadataChecksum :: "32 word"
  cPath :: string
  cSolveScript :: bool
  cTemplatable :: bool
  cMaxUsers :: int
  cCategory :: string
  cPoints :: int
  cHints :: "string list"
  cTags :: "string list"
  cAttributes :: "(string \<times> string) list"
  cHosts :: "(string \<times> string) list"
  cOverrides :: "(string \<times> ContainerOptions) list"

record portName =
  pnChallenge :: string
  pnName :: string
  pnHost :: string
  pnPort :: int

record buildRow =
  bId :: int
  bFlag :: string
  bFormat :: string
  bSeed :: int
  bChecksum :: "32 word"
  bPrevChecksum :: "32 word"
  bSourceChecksum :: "32 word"
  bHasArtifacts :: bool
  bLastSolved :: int
  bChallenge :: string
  bSchema :: string
  bInstanceCount :: int

record imageRow =
  imId :: int
  imBuild :: int
  imHost :: string
  imPorts :: "string list" \<comment> \<open>its rows of imagePorts\<close>

record instanceRow =
  iId :: int
  iBuild :: int
  iWorker :: string
  iFinalized :: bool
  iLastSolved :: int
  iCreated :: "int option" \<comment> \<open>created_at, in seconds; NULL on rows from before the column\<close>

record portRow =
  pInstance :: int
  pName :: string
  pPort :: int
  pWorker :: string

record database =
  challenges :: "challengeRow list"
  portNames :: "portName list"
  builds :: "buildRow list"
  images :: "imageRow list"
  lookupData :: "(int \<times> string \<times> string) list"
  instances :: "instanceRow list"
  instanceSeq :: int \<comment> \<open>the AUTOINCREMENT counter of instances\<close>
  portAssignments :: "portRow list"
  containers :: "(int \<times> string) list"
  workersTbl :: "(string \<times> string) list"
  preloads :: "string list"
  sqlNow :: int \<comment> \<open>what datetime('now') reads, in seconds\<close>

definition DYNAMIC_INSTANCES :: int where "DYNAMIC_INSTANCES = -1"
definition LOCKED :: int where "LOCKED = -2"

text \<open>
  Deleting instances cascades to their port assignments and containers
  (\<open>ON DELETE CASCADE\<close>).
\<close>

definition delete_instances :: "(instanceRow \<Rightarrow> bool) \<Rightarrow> database \<Rightarrow> database" where
  "delete_instances P d =
     (let dead = iId ` set (filter P (instances d)) in
      d\<lparr>instances := filter (\<lambda>r. \<not> P r) (instances d),
        portAssignments := filter (\<lambda>p. pInstance p \<notin> dead) (portAssignments d),
        containers := filter (\<lambda>c. fst c \<notin> dead) (containers d)\<rparr>)"

text \<open>
  The metadata values the operations pass around. A Go map is an association list in which
  assignment replaces the entry of its key.
\<close>

fun mapPut :: "'k \<Rightarrow> 'v \<Rightarrow> ('k \<times> 'v) list \<Rightarrow> ('k \<times> 'v) list" where
  "mapPut k v [] = [(k, v)]"
| "mapPut k v ((k', v') # xs) = (if k' = k then (k, v) # xs else (k', v') # mapPut k v xs)"

lemma map_of_mapPut [simp]: "map_of (mapPut k v xs) = (map_of xs)(k \<mapsto> v)"
  by (induction k v xs rule: mapPut.induct) (auto simp: fun_eq_iff)

lemma fst_mapPut: "fst ` set (mapPut k v xs) = insert k (fst ` set xs)"
  by (induction k v xs rule: mapPut.induct) auto

lemma distinct_mapPut: "distinct (map fst xs) \<Longrightarrow> distinct (map fst (mapPut k v xs))"
proof (induction k v xs rule: mapPut.induct)
  case (2 k v k' v' xs)
  then show ?case using fst_mapPut [of k v xs] by (auto simp flip: set_map)
qed simp

record image =
  imgHost :: string
  imgPorts :: "string list"

record instanceMeta =
  nId :: int
  nPorts :: "(string \<times> int) list"
  nContainers :: "string list"
  nLastSolved :: int
  nBuild :: int
  nWorker :: string
  nFinalized :: bool

record buildMeta =
  mId :: int
  mFlag :: string
  mLookup :: "(string \<times> string) list"
  mSeed :: int
  mFormat :: string
  mChecksum :: "32 word"
  mPrevChecksum :: "32 word"
  mSourceChecksum :: "32 word"
  mImages :: "image list"
  mHasArtifacts :: bool
  mLastSolved :: int
  mChallenge :: string
  mSchema :: string
  mInstanceCount :: int

section \<open>The manager\<close>

record daemonQueue =
  slotCap :: nat \<comment> \<open>capacity of launchSem and of teardownSem\<close>
  launchHeld :: nat \<comment> \<open>len(launchSem)\<close>
  teardownHeld :: nat \<comment> \<open>len(teardownSem)\<close>
  waiting :: int
  teardownWaiting :: int
  holdNanos :: duration

text \<open>
  Calls out of the process: to a docker daemon, to the registry, and to the file system that holds
  the artifact bundles. What is asked of whom, and the reply: an error or none, the id of a created
  container, the published ports an inspect reports (for each container port its host ports;
  \<open>None\<close>: no network settings yet), whether the deadline of the call had passed, and, should
  the failure lead to a ping, the ping's error and the clock; whether the manager's context was
  done by then; the names a listing gives; and the entries of the tree copied out of a container
  with how reading them ended (\<open>None\<close>: at their end). Of an entry, \<open>tiJson\<close> is its
  content decoded as a JSON object of strings, and \<open>tiArchive\<close> its content read as an
  artifact archive.
\<close>

record tarItem =
  tiName :: string
  tiJson :: "err + (string \<times> string) list"
  tiArchive :: artifactArchive

record imageBuildSpec =
  ibTag :: string
  ibTarget :: string
  ibArgs :: "(string \<times> string) list"
  ibCacheFrom :: "string list"
  ibLabels :: "(string \<times> string) list"

datatype dockerClient = LocalClient | WorkerClient nat

datatype dockerCall =
    NetworkCreate dockerClient string
  | NetworkRemove dockerClient string
  | ContainerCreate dockerClient containerSpec
  | ContainerStart dockerClient string
  | ContainerInspect dockerClient string
  | ContainerRemove dockerClient string
  | ImageInspect dockerClient string
  | ImagePull dockerClient string
  | ImageRemove dockerClient string
  | RegistryDelete string
  | RegistryHead string string \<comment> \<open>of this host, for this path\<close>
  | ImageBuild imageBuildSpec
  | ImagePush string
  | ImageList dockerClient
  | ImageTag dockerClient string string
  | DistributionInspect string
  | ExtractCreate string bool \<comment> \<open>a container never started, of this image, with the seccomp policy or without\<close>
  | CopyFromContainer string
  | FileOpen string | FileTemp string | FileWrite string "tarHeader list" | FileRename string string
  | FileRemove string | FileStat string | FileReadDir string
  | PinsWrite string "(string \<times> string) list" \<comment> \<open>the pin map to a temporary file\<close>

record dockerReply =
  rErr :: "err option"
  rId :: string
  rPorts :: "(string \<times> string list) list option"
  rExpired :: bool
  rPing :: "err option"
  rNow :: timestamp
  rDone :: bool
  rNames :: "string list"
  rTree :: "tarItem list"
  rTreeEnd :: "err option"
  rStatus :: int

text \<open>
  How waiting for a slot ends: with the slot, and how long it is then held; with the worker's
  unreachable channel closed, the worker having been ejected at the time given, or having come
  back since (\<open>None\<close>); or with the timer.
\<close>

datatype slotChoice = SlotTaken duration | SlotUnreachable "timestamp option" | SlotExpired

record manager =
  db :: database
  faults :: "sqlError option list"
  replies :: "dockerReply list" \<comment> \<open>the answers of the daemons to come, in order\<close>
  calls :: "(dockerCall \<times> dockerReply) list" \<comment> \<open>the calls made so far and their replies, oldest first\<close>
  slotChoices :: "slotChoice list"
  rands :: "nat list" \<comment> \<open>the draws of m.rand still to come\<close>
  portLow :: int
  portHigh :: int
  challengeRegistry :: string
  externalBuildPlane :: bool
  buildPlane :: bool
  purgeAfterPush :: bool
  artifactsDir :: string
  artifactNamespaces :: "(string \<times> string) list" \<comment> \<open>by schema\<close>
  policy :: managerPolicy
  workers :: "string \<Rightarrow> workerConn option"
  workerOrder :: "string list"
  rrCursor :: nat
  placementEnabled :: bool
  launchConcurrency :: int
  timing :: workerTiming
  nextCli :: nat \<comment> \<open>the next docker client's identity\<close>
  doneClosed :: "nat list" \<comment> \<open>clients whose done channel was closed, once per close\<close>
  queues :: "nat \<Rightarrow> daemonQueue" \<comment> \<open>the queue of each connection, by its client\<close>
  localQueue :: daemonQueue

type_synonym 'a mio = "(manager, err, 'a) io"

text \<open>One statement: it fails as \<open>faults\<close> says, or runs on the tables.\<close>

definition sql :: "(database \<Rightarrow> 'a \<times> database) \<Rightarrow> 'a mio" where
  "sql f m =
     (case faults m of
        Some e # fs \<Rightarrow> (Inl [SqlErr e], m\<lparr>faults := fs\<rparr>)
      | fs \<Rightarrow> (case f (db m) of (x, d) \<Rightarrow> (Inr x, m\<lparr>faults := tl fs, db := d\<rparr>)))"

definition query :: "(database \<Rightarrow> 'a) \<Rightarrow> 'a mio" where
  "query f = sql (\<lambda>d. (f d, d))"

definition exec :: "(database \<Rightarrow> database) \<Rightarrow> unit mio" where
  "exec f = sql (\<lambda>d. ((), f d))"

text \<open>A statement that a constraint of the tables may refuse.\<close>

definition sqlChecked :: "(database \<Rightarrow> sqlError + ('a \<times> database)) \<Rightarrow> 'a mio" where
  "sqlChecked f =
     bnd (sql (\<lambda>d. case f d of Inl e \<Rightarrow> (Inl e, d) | Inr (x, d') \<Rightarrow> (Inr x, d'))) (\<lambda>r.
     (case r of Inl e \<Rightarrow> fail [SqlErr e] | Inr x \<Rightarrow> ret x))"

text \<open>
  A transaction: the body's statements and the commit take effect together or, on an error of
  either, not at all. The commit is a statement of its own.
\<close>

definition txn :: "'a mio \<Rightarrow> 'a mio" where
  "txn body m =
     (case bnd body (\<lambda>x. bnd (exec (\<lambda>d. d)) (\<lambda>_. ret x)) m of
        (Inl e, m') \<Rightarrow> (Inl e, m'\<lparr>db := db m\<rparr>)
      | (Inr x, m') \<Rightarrow> (Inr x, m'))"

text \<open>
  The tables right after the schema is created, and a manager over them with no worker: the
  states the concrete examples of the development start from.
\<close>

definition emptyDatabase :: database where
  "emptyDatabase = \<lparr>challenges = [], portNames = [], builds = [], images = [], lookupData = [],
     instances = [], instanceSeq = 0, portAssignments = [], containers = [], workersTbl = [], preloads = [], sqlNow = 0\<rparr>"

definition freshManager :: manager where
  "freshManager = \<lparr>db = emptyDatabase, faults = [], replies = [], calls = [], slotChoices = [], rands = [], portLow = 0, portHigh = 0,
     challengeRegistry = '''', externalBuildPlane = False, buildPlane = False,
     purgeAfterPush = True, artifactsDir = ''/artifacts'', artifactNamespaces = [], policy = default_policy,
     workers = Map.empty, workerOrder = [], rrCursor = 0, placementEnabled = True, launchConcurrency = 5,
     timing = defaultWorkerTiming, nextCli = 0, doneClosed = [],
     queues = (\<lambda>_. \<lparr>slotCap = 5, launchHeld = 0, teardownHeld = 0, waiting = 0, teardownWaiting = 0, holdNanos = 0\<rparr>),
     localQueue = \<lparr>slotCap = 5, launchHeld = 0, teardownHeld = 0, waiting = 0, teardownWaiting = 0, holdNanos = 0\<rparr>\<rparr>"

section \<open>Facts\<close>

lemma sql_keeps:
  assumes "\<And>m fs. I m \<Longrightarrow> I (m\<lparr>faults := fs\<rparr>)"
    and "\<And>m fs. I m \<Longrightarrow> I (m\<lparr>faults := fs, db := snd (f (db m))\<rparr>)"
  shows "keeps I (sql f)"
proof (rule keepsI)
  fix m assume "I m"
  then show "I (snd (sql f m))"
    using assms [of m] by (cases "f (db m)") (auto simp: sql_def split: list.splits option.splits)
qed

lemma query_keeps [keeps_intros]: "(\<And>m fs. I m \<Longrightarrow> I (m\<lparr>faults := fs\<rparr>)) \<Longrightarrow> keeps I (query f)"
  unfolding query_def
proof (rule sql_keeps)
  fix m fs assume a: "\<And>m fs. I m \<Longrightarrow> I (m\<lparr>faults := fs\<rparr>)" "I m"
  have "m\<lparr>faults := fs, db := db m\<rparr> = m\<lparr>faults := fs\<rparr>" by simp
  then show "I (m\<lparr>faults := fs, db := snd (f (db m), db m)\<rparr>)" using a by simp
qed

lemma exec_keeps:
  "(\<And>m fs. I m \<Longrightarrow> I (m\<lparr>faults := fs\<rparr>)) \<Longrightarrow>
   (\<And>m fs. I m \<Longrightarrow> I (m\<lparr>faults := fs, db := f (db m)\<rparr>)) \<Longrightarrow> keeps I (exec f)"
  unfolding exec_def by (rule sql_keeps) simp_all

lemma query_no_fault [simp]: "faults m = [] \<Longrightarrow> query f m = (Inr (f (db m)), m)"
  by (simp add: query_def sql_def)

lemma exec_no_fault [simp]: "faults m = [] \<Longrightarrow> exec f m = (Inr (), m\<lparr>db := f (db m)\<rparr>)"
  by (simp add: exec_def sql_def)

lemma retryableDB_is: "errors_Is (retryableDB e) ErrDatabaseBusy \<longleftrightarrow>
   errors_Is e ErrDatabaseBusy \<or> errors_Is e (SqlErr SqlBusy) \<or> errors_Is e (SqlErr SqlLocked)"
  by (auto simp: retryableDB_def errors_Is_def)

lemma sql_frame:
  "sql f m = (r, m') \<Longrightarrow> \<exists>fs d. m' = m\<lparr>faults := fs, db := d\<rparr>"
  by (auto simp: sql_def split: list.splits option.splits prod.splits) (metis manager.surjective manager.update_convs(1,2))+

lemma txn_frame:
  assumes "bnd body (\<lambda>x. bnd (exec (\<lambda>d. d)) (\<lambda>_. ret x)) m = (r, m')"
  shows "snd (txn body m) = m' \<or> snd (txn body m) = m'\<lparr>db := db m\<rparr>"
  using assms by (auto simp: txn_def split: sum.splits)

lemma txn_keeps [keeps_intros]:
  assumes I: "\<And>m d. I (m\<lparr>db := d\<rparr>) = I m" "\<And>m fs. I (m\<lparr>faults := fs\<rparr>) = I m" and body: "keeps I body"
  shows "keeps I (txn body)"
proof (rule keepsI)
  fix m assume "I m"
  have "keeps I (bnd body (\<lambda>x. bnd (exec (\<lambda>d. d)) (\<lambda>_. ret x)))"
    by (auto intro!: keeps_intros exec_keeps body simp: I)
  then have "I (snd (bnd body (\<lambda>x. bnd (exec (\<lambda>d. d)) (\<lambda>_. ret x)) m))"
    using \<open>I m\<close> by (simp add: keeps_def)
  then show "I (snd (txn body m))"
    using txn_frame [of body m] I(1) by (metis prod.exhaust_sel)
qed

text \<open>Database work leaves the registry alone.\<close>

definition db_only :: "'a mio \<Rightarrow> bool" where
  "db_only f \<longleftrightarrow> (\<forall>m. \<exists>fs d. snd (f m) = m\<lparr>faults := fs, db := d\<rparr>)"

lemma db_only_sql [keeps_intros]: "db_only (sql f)"
  unfolding db_only_def using sql_frame by (metis prod.collapse)

lemma db_only_exec [keeps_intros]: "db_only (exec f)"
  unfolding exec_def by (rule db_only_sql)

lemma db_only_query [keeps_intros]: "db_only (query f)"
  unfolding query_def by (rule db_only_sql)

lemma db_only_ret [keeps_intros]: "db_only (ret x)"
  unfolding db_only_def by (metis manager.surjective manager.update_convs(1,2) ret_apply snd_conv)

lemma db_only_fail [keeps_intros]: "db_only (fail x)"
  unfolding db_only_def by (metis manager.surjective manager.update_convs(1,2) fail_apply snd_conv)

lemma db_only_bnd [keeps_intros]: "db_only f \<Longrightarrow> (\<And>x. db_only (g x)) \<Longrightarrow> db_only (bnd f g)"
  unfolding db_only_def
proof (intro allI)
  fix m assume f: "\<forall>m. \<exists>fs d. snd (f m) = m\<lparr>faults := fs, db := d\<rparr>"
    and g: "\<And>x. \<forall>m. \<exists>fs d. snd (g x m) = m\<lparr>faults := fs, db := d\<rparr>"
  obtain r m1 where 1: "f m = (r, m1)" by fastforce
  with f [rule_format, of m] obtain fs d where m1: "m1 = m\<lparr>faults := fs, db := d\<rparr>" by auto
  show "\<exists>fs d. snd (bnd f g m) = m\<lparr>faults := fs, db := d\<rparr>"
  proof (cases r)
    case (Inl e)
    with 1 m1 show ?thesis by (auto simp: bnd_def)
  next
    case (Inr x)
    obtain gs e where "snd (g x m1) = m1\<lparr>faults := gs, db := e\<rparr>" using g [of x] by blast
    then show ?thesis using 1 m1 Inr by (auto simp: bnd_def)
  qed
qed

lemma db_only_sqlChecked [keeps_intros]: "db_only (sqlChecked f)"
  unfolding sqlChecked_def by (intro db_only_bnd db_only_sql) (auto intro: keeps_intros split: sum.split)

lemma db_only_catch [keeps_intros]:
  assumes "db_only f" "\<And>e. db_only (h e)" shows "db_only (catch f h)"
  unfolding db_only_def
proof
  fix m
  obtain r m1 where 1: "f m = (r, m1)" by fastforce
  obtain fs d where m1: "m1 = m\<lparr>faults := fs, db := d\<rparr>" using assms(1) 1 unfolding db_only_def by (metis snd_conv)
  show "\<exists>fs d. snd (catch f h m) = m\<lparr>faults := fs, db := d\<rparr>"
  proof (cases r)
    case (Inl e)
    obtain fs' d' where "snd (h e m1) = m1\<lparr>faults := fs', db := d'\<rparr>" using assms(2) unfolding db_only_def by blast
    then have "snd (catch f h m) = m\<lparr>faults := fs', db := d'\<rparr>" using 1 m1 Inl by (simp add: catch_def)
    then show ?thesis by blast
  next
    case (Inr x)
    then have "snd (catch f h m) = m\<lparr>faults := fs, db := d\<rparr>" using 1 m1 by (simp add: catch_def)
    then show ?thesis by blast
  qed
qed

lemma sqlChecked_no_fault:
  "faults m = [] \<Longrightarrow> sqlChecked f m =
     (case f (db m) of Inl e \<Rightarrow> (Inl [SqlErr e], m) | Inr (x, d) \<Rightarrow> (Inr x, m\<lparr>db := d\<rparr>))"
  by (auto simp: sqlChecked_def bnd_def sql_def split: sum.splits prod.splits)

lemma sqlChecked_Inr:
  "sqlChecked f m = (Inr x, m') \<Longrightarrow> \<exists>fs d. f (db m) = Inr (x, d) \<and> m' = m\<lparr>faults := fs, db := d\<rparr>"
  by (auto simp: sqlChecked_def bnd_def sql_def split: sum.splits prod.splits list.splits option.splits)

lemma sqlChecked_Inl:
  "sqlChecked f m = (Inl e, m') \<Longrightarrow> db m' = db m"
  by (auto simp: sqlChecked_def bnd_def sql_def split: sum.splits prod.splits list.splits option.splits)

lemma db_only_txn [keeps_intros]: "db_only body \<Longrightarrow> db_only (txn body)"
  unfolding db_only_def
proof (intro allI)
  fix m assume b: "\<forall>m. \<exists>fs d. snd (body m) = m\<lparr>faults := fs, db := d\<rparr>"
  let ?all = "bnd body (\<lambda>x. bnd (exec (\<lambda>d. d)) (\<lambda>_. ret x))"
  have "db_only ?all" using b by (auto intro!: keeps_intros simp: db_only_def [symmetric])
  then obtain fs d where "snd (?all m) = m\<lparr>faults := fs, db := d\<rparr>" unfolding db_only_def by blast
  then show "\<exists>fs d. snd (txn body m) = m\<lparr>faults := fs, db := d\<rparr>"
  proof (cases "?all m")
    case (Pair r m')
    then have m': "m' = m\<lparr>faults := fs, db := d\<rparr>" using \<open>snd (?all m) = _\<close> by simp
    have "snd (txn body m) = (case r of Inl e \<Rightarrow> m\<lparr>faults := fs, db := db m\<rparr> | Inr x \<Rightarrow> m\<lparr>faults := fs, db := d\<rparr>)"
      using Pair m' by (cases r) (simp_all add: txn_def)
    then show ?thesis by (cases r) (simp only: sum.case, blast)+
  qed
qed

lemma db_onlyD: "db_only f \<Longrightarrow> f m = (r, m') \<Longrightarrow> \<exists>fs d. m' = m\<lparr>faults := fs, db := d\<rparr>"
  unfolding db_only_def by (metis snd_conv)

section \<open>Runs without a failing statement\<close>

lemma sql_no_fault: "faults m = [] \<Longrightarrow> sql f m = (Inr (fst (f (db m))), m\<lparr>db := snd (f (db m))\<rparr>)"
  by (simp add: sql_def split: prod.split)

lemma for_each_exec_no_fault:
  "faults m = [] \<Longrightarrow> for_each xs (\<lambda>x. exec (f x)) m = (Inr (), m\<lparr>db := fold f xs (db m)\<rparr>)"
  by (induction xs arbitrary: m) (simp_all add: bnd_def)

text \<open>A body that works on the tables alone: what it does is a function of the tables.\<close>

lemma for_each_no_fault:
  assumes "\<And>x m. faults m = [] \<Longrightarrow> f x m = (Inr (), m\<lparr>db := g x (db m)\<rparr>)" "faults m = []"
  shows "for_each xs f m = (Inr (), m\<lparr>db := fold g xs (db m)\<rparr>)"
  using assms by (induction xs arbitrary: m) (simp_all add: bnd_def)

lemma txn_no_fault_Inr:
  "body m = (Inr x, m\<lparr>db := d\<rparr>) \<Longrightarrow> faults m = [] \<Longrightarrow> txn body m = (Inr x, m\<lparr>db := d\<rparr>)"
  by (simp add: txn_def bnd_def)

lemma txn_Inl: "txn body m = (Inl e, m') \<Longrightarrow> db m' = db m"
  by (auto simp: txn_def split: prod.splits sum.splits)

lemma txn_Inr: "txn body m = (Inr x, m') \<Longrightarrow> \<exists>m1. body m = (Inr x, m1) \<and> db m' = db m1"
  by (auto simp: txn_def bnd_def exec_def sql_def split: prod.splits sum.splits list.splits option.splits)

lemma query_Inr: "query f m = (Inr x, m') \<Longrightarrow> x = f (db m) \<and> db m' = db m"
  by (auto simp: query_def sql_def split: list.splits option.splits)

lemma query_Inl: "query f m = (Inl e, m') \<Longrightarrow> db m' = db m"
  by (auto simp: query_def sql_def split: list.splits option.splits)

lemma exec_Inr: "exec f m = (Inr x, m') \<Longrightarrow> db m' = f (db m)"
  by (auto simp: exec_def sql_def split: list.splits option.splits)

lemma exec_Inl: "exec f m = (Inl e, m') \<Longrightarrow> db m' = db m"
  by (auto simp: exec_def sql_def split: list.splits option.splits)

end
