(* ===== verification/Worker_Fleet.thy ===== *)
theory Worker_Fleet
  imports Manager_State
begin

text \<open>
  The fleet (\<open>src/cork/workers.go\<close>, \<open>src/cork/worker_reconcile.go\<close>): the registry of
  worker connections, its administration (\<open>AddWorker\<close>, \<open>RemoveWorker\<close>,
  \<open>SetWorkerDown\<close>), recovery by replacing a connection, round-robin placement, and what a
  failed control call does to a worker. Building a docker client, parsing an address and
  pinging a daemon are arguments.
\<close>

section \<open>Operations\<close>

definition slots :: "int \<Rightarrow> nat" where
  "slots n = (if n < 1 then 1 else nat n)"

definition newDaemonQueue :: "nat \<Rightarrow> daemonQueue" where
  "newDaemonQueue n = \<lparr>slotCap = n, launchHeld = 0, teardownHeld = 0, waiting = 0,
     teardownWaiting = 0, holdNanos = 0\<rparr>"

text \<open>\<open>clientErr\<close> is the error of loading the TLS material or building the client, if any.\<close>

definition newWorkerConn :: "err option \<Rightarrow> timestamp \<Rightarrow> string \<Rightarrow> string \<Rightarrow> bool \<Rightarrow> workerConn mio" where
  "newWorkerConn clientErr now wip pub recovery m =
     (case clientErr of
        Some e \<Rightarrow> (Inl e, m)
      | None \<Rightarrow>
          (Inr \<lparr>ip = wip, public = pub, cli = nextCli m, reachable = workerUnresponsive,
                load = workerLoadUnknown, since = now, reason = None, ejections = 0,
                unreachCh = Some 0, retired = False, reconciled = False, fromRecovery = recovery,
                daemonFailed = False, timeouts = [], probeNow = False\<rparr>,
           m\<lparr>nextCli := Suc (nextCli m),
             queues := (queues m)(nextCli m := newDaemonQueue (slots (launchConcurrency m)))\<rparr>))"

definition closeDone :: "workerConn \<Rightarrow> manager \<Rightarrow> manager" where
  "closeDone w m = m\<lparr>doneClosed := cli w # doneClosed m\<rparr>"

definition gone :: "manager \<Rightarrow> workerConn \<Rightarrow> bool" where
  "gone m w = (cli w \<in> set (doneClosed m))"

definition EnableWorkerPlacement :: "manager \<Rightarrow> manager" where
  "EnableWorkerPlacement m = m\<lparr>placementEnabled := True\<rparr>"

fun loadWorkerRows :: "(string \<Rightarrow> err option) \<Rightarrow> timestamp \<Rightarrow> (string \<times> string) list \<Rightarrow> unit mio" where
  "loadWorkerRows clientErr now [] = ret ()"
| "loadWorkerRows clientErr now ((wip, pub) # rows) =
     bnd (newWorkerConn (clientErr wip) now wip pub False) (\<lambda>w.
     bnd (modify (\<lambda>m. m\<lparr>workers := (workers m)(wip \<mapsto> w), workerOrder := workerOrder m @ [wip]\<rparr>)) (\<lambda>_.
     loadWorkerRows clientErr now rows))"

definition initWorkers :: "(string \<Rightarrow> err option) \<Rightarrow> timestamp \<Rightarrow> unit mio" where
  "initWorkers clientErr now =
     bnd (modify (\<lambda>m. m\<lparr>workers := Map.empty\<rparr>)) (\<lambda>_.
     bnd (query workersTbl) (\<lambda>rows. loadWorkerRows clientErr now rows))"

fun upsertWorker :: "string \<Rightarrow> string \<Rightarrow> (string \<times> string) list \<Rightarrow> (string \<times> string) list" where
  "upsertWorker wip pub [] = [(wip, pub)]"
| "upsertWorker wip pub ((i, q) # rows) =
     (if i = wip then (i, if pub = '''' then q else pub) # rows else (i, q) # upsertWorker wip pub rows)"

definition registerConn :: "string \<Rightarrow> workerConn \<Rightarrow> manager \<Rightarrow> manager" where
  "registerConn wip w m =
     (case workers m wip of
        Some old \<Rightarrow> (closeDone old m)\<lparr>workers := (workers m)(wip \<mapsto> w)\<rparr>
      | None \<Rightarrow> m\<lparr>workers := (workers m)(wip \<mapsto> w), workerOrder := workerOrder m @ [wip]\<rparr>)"

definition AddWorker :: "(string \<Rightarrow> bool) \<Rightarrow> err option \<Rightarrow> timestamp \<Rightarrow> string \<Rightarrow> string \<Rightarrow> unit mio" where
  "AddWorker validAddr clientErr now wip pub =
     (if \<not> validAddr wip then fail [Msg ''invalid worker IP'']
      else
        bnd (exec (\<lambda>d. d\<lparr>workersTbl := upsertWorker wip pub (workersTbl d)\<rparr>)) (\<lambda>_.
        bnd (if pub = '''' then query (\<lambda>d. map_of (workersTbl d) wip) else ret (Some pub)) (\<lambda>stored.
        (case stored of
           None \<Rightarrow> fail [Msg ''sql: no rows in result set'']
         | Some p \<Rightarrow>
             bnd (newWorkerConn clientErr now wip p False) (\<lambda>w. modify (registerConn wip w))))))"

definition RemoveWorker :: "string \<Rightarrow> unit mio" where
  "RemoveWorker wip =
     bnd (gets (\<lambda>m. workers m wip)) (\<lambda>found.
     (case found of
        None \<Rightarrow> fail [UnknownIdentifierError ''worker'' wip]
      | Some w \<Rightarrow>
          bnd (txn (bnd (exec (delete_instances (\<lambda>r. iWorker r = wip))) (\<lambda>_.
                    exec (\<lambda>d. d\<lparr>workersTbl := filter (\<lambda>r. fst r \<noteq> wip) (workersTbl d)\<rparr>)))) (\<lambda>_.
          modify (\<lambda>m. (closeDone w m)\<lparr>workers := (workers m)(wip := None),
                        workerOrder := remove1 wip (workerOrder m)\<rparr>))))"

definition SetWorkerDown :: "timestamp \<Rightarrow> string \<Rightarrow> unit mio" where
  "SetWorkerDown now wip =
     bnd (gets (\<lambda>m. workers m wip)) (\<lambda>found.
     (case found of
        None \<Rightarrow> fail [UnknownIdentifierError ''worker'' wip]
      | Some w \<Rightarrow> modify (\<lambda>m. m\<lparr>workers := (workers m)(wip \<mapsto> markWorkerDown now w)\<rparr>)))"

text \<open>
  \<open>recoverWorker\<close> is called with the connection its poller holds, identified by
  \<open>conn\<close>; by then the registry may hold another.
\<close>

definition recoverWorker :: "err option \<Rightarrow> timestamp \<Rightarrow> string \<Rightarrow> nat \<Rightarrow> manager \<Rightarrow> manager" where
  "recoverWorker clientErr now wip client m =
     (case workers m wip of
        None \<Rightarrow> m
      | Some w \<Rightarrow>
          if cli w \<noteq> client then m
          else if reachable w = workerDown then m
          else
            (case newWorkerConn clientErr now wip (public w) True m of
               (Inl e, m') \<Rightarrow> m'
             | (Inr fresh, m') \<Rightarrow>
                 (closeDone w m')\<lparr>workers := (workers m')(wip \<mapsto> fresh\<lparr>ejections := ejections w\<rparr>)\<rparr>))"

definition noteWorkerTransportError ::
    "err option \<Rightarrow> timestamp \<Rightarrow> string \<Rightarrow> nat option \<Rightarrow> err \<Rightarrow> manager \<Rightarrow> manager" where
  "noteWorkerTransportError pingErr now wip client e m =
     (if wip = '''' \<or> \<not> isTransportError e then m
      else
        (case workers m wip of
           None \<Rightarrow> m
         | Some w \<Rightarrow>
             if client \<noteq> None \<and> client \<noteq> Some (cli w) then m
             else if \<not> reconciled w then m
             else
               (let t = timing m;
                    w' = (if errors_Is e DeadlineExceeded then
                            (if pingErr \<noteq> None
                             then eject now w ''a control call timed out and the daemon did not answer a ping''
                             else
                               (case noteTimeout now (controlTimeout t) (timeoutWindow t) (timeoutsToEject t) (timeouts w) of
                                  (ts, n, out) \<Rightarrow>
                                    if out then eject now (w\<lparr>timeouts := ts\<rparr>) ''control calls timed out in separate stalls''
                                    else w\<lparr>timeouts := ts\<rparr>))
                          else eject now w ''a control call failed'')
                in m\<lparr>workers := (workers m)(wip \<mapsto> w'\<lparr>probeNow := True\<rparr>)\<rparr>)))"

text \<open>The loop of \<open>selectWorker\<close> over the indices still to visit.\<close>

fun selectLoop :: "manager \<Rightarrow> nat list \<Rightarrow> bool \<Rightarrow> bool \<Rightarrow> (err + string) \<times> nat option" where
  "selectLoop m [] sawOverloaded sawUnresponsive =
     (if sawOverloaded then (Inl [ErrAllWorkersOverloaded], None)
      else if sawUnresponsive then (Inl [ErrAllWorkersUnresponsive], None)
      else (Inl [ErrAllWorkersDown], None))"
| "selectLoop m (idx # rest) sawOverloaded sawUnresponsive =
     (case workers m (workerOrder m ! idx) of
        None \<Rightarrow> (Inl [GoPanic ''nil worker''], None)
      | Some w \<Rightarrow>
          if placeable w then (Inr (ip w), Some idx)
          else (case reachable w of
                  workerReachableOk \<Rightarrow> selectLoop m rest True sawUnresponsive
                | workerUnresponsive \<Rightarrow> selectLoop m rest sawOverloaded True
                | workerDown \<Rightarrow> selectLoop m rest sawOverloaded sawUnresponsive))"

definition selectWorker :: "string mio" where
  "selectWorker m =
     (let n = length (workerOrder m) in
      if n = 0 then (Inr '''', m)
      else
        (case selectLoop m (map (\<lambda>i. (rrCursor m + i) mod n) [0..<n]) False False of
           (r, Some idx) \<Rightarrow> (r, m\<lparr>rrCursor := (idx + 1) mod n\<rparr>)
         | (r, None) \<Rightarrow> (r, m)))"

definition WorkersConfigured :: "manager \<Rightarrow> bool" where
  "WorkersConfigured m = (dom (workers m) \<noteq> {})"

definition workerPublicAddr :: "manager \<Rightarrow> string \<Rightarrow> string" where
  "workerPublicAddr m wip =
     (case workers m wip of
        None \<Rightarrow> ''''
      | Some w \<Rightarrow> if public w \<noteq> '''' then public w else wip)"

definition workerUnreachable :: "manager \<Rightarrow> string \<Rightarrow> bool" where
  "workerUnreachable m wip =
     (case workers m wip of
        None \<Rightarrow> True
      | Some w \<Rightarrow>
          (case reachable w of
             workerReachableOk \<Rightarrow> False
           | workerDown \<Rightarrow> True
           | workerUnresponsive \<Rightarrow> daemonFailed w))"

definition instanceClient :: "manager \<Rightarrow> string \<Rightarrow> err + dockerClient" where
  "instanceClient m worker =
     (if worker = '''' then
        (if externalBuildPlane m
         then Inl [Msg ''instance was placed on the local daemon, which an external build plane has none of'']
         else Inr LocalClient)
      else
        (case workers m worker of
           None \<Rightarrow> Inl [Msg ''instance references unknown worker'']
         | Some w \<Rightarrow> Inr (WorkerClient (cli w))))"

record workerInfo =
  wiIP :: string
  wiPublic :: string
  wiHealth :: string
  wiReachable :: string
  wiLoad :: string
  wiSince :: timestamp
  wiReason :: string
  wiInstances :: nat

definition workerInfo_of :: "database \<Rightarrow> manager \<Rightarrow> string \<Rightarrow> workerInfo option" where
  "workerInfo_of d m wip =
     map_option (\<lambda>w. \<lparr>wiIP = wip, wiPublic = public w, wiHealth = derivedHealth (reachable w) (load w),
        wiReachable = reachable_String (reachable w), wiLoad = load_String (load w), wiSince = since w,
        wiReason = (case reason w of None \<Rightarrow> '''' | Some r \<Rightarrow> r),
        wiInstances = (if wip = '''' then 0 else length (filter (\<lambda>r. iWorker r = wip) (instances d)))\<rparr>)
       (workers m wip)"

definition ListWorkers :: "workerInfo list mio" where
  "ListWorkers =
     bnd (query (\<lambda>d. d)) (\<lambda>d.
     bnd (gets (\<lambda>m. map (workerInfo_of d m) (workerOrder m))) (\<lambda>infos.
     (if None \<in> set infos then fail [GoPanic ''nil worker'']
      else ret (map the infos))))"

text \<open>
  One tick of the poller of the connection \<open>client\<close> of worker \<open>wip\<close>: the probe
  (Worker_Health), then recovery when it asks for one.
\<close>

definition pollTick ::
    "err option \<Rightarrow> probeInput \<Rightarrow> string \<Rightarrow> nat \<Rightarrow> pollState \<Rightarrow> manager \<Rightarrow> pollState \<times> manager" where
  "pollTick clientErr i wip client p m =
     (case workers m wip of
        None \<Rightarrow> (p, m)
      | Some w \<Rightarrow>
          if cli w \<noteq> client then (p, m)
          else
            (case probe (timing m) i p w of
               (p', w', rec) \<Rightarrow>
                 (let m' = m\<lparr>workers := (workers m)(wip \<mapsto> w')\<rparr>
                  in (p', if rec then recoverWorker clientErr (endTime i) wip client m' else m'))))"

section \<open>Events of the fleet\<close>

text \<open>
  Everything that changes the registry, with the answers of the environment as arguments. The
  two outcomes of \<open>runWorker\<close>'s reconcile pass are events of the connection that ran it.
\<close>

definition on_conn :: "string \<Rightarrow> nat \<Rightarrow> (workerConn \<Rightarrow> workerConn) \<Rightarrow> manager \<Rightarrow> manager" where
  "on_conn wip client f m =
     (case workers m wip of
        Some w \<Rightarrow> if cli w = client then m\<lparr>workers := (workers m)(wip \<mapsto> f w)\<rparr> else m
      | None \<Rightarrow> m)"

definition reconcileReadyStep :: "timestamp \<Rightarrow> workerConn \<Rightarrow> workerConn" where
  "reconcileReadyStep now w = fst (setReachable now (w\<lparr>reconciled := True\<rparr>) workerReachableOk '''')"

datatype fleetEvent =
    EvAdd "string \<Rightarrow> bool" "err option" timestamp string string
  | EvRemove string
  | EvDown timestamp string
  | EvSelect
  | EvRecover "err option" timestamp string nat
  | EvTransport "err option" timestamp string "nat option" err
  | EvTick "err option" probeInput string nat pollState
  | EvReady timestamp string nat
  | EvGaveUp timestamp string nat string

fun fleet_apply :: "fleetEvent \<Rightarrow> manager \<Rightarrow> manager" where
  "fleet_apply (EvAdd v ce now wip pub) m = snd (AddWorker v ce now wip pub m)"
| "fleet_apply (EvRemove wip) m = snd (RemoveWorker wip m)"
| "fleet_apply (EvDown now wip) m = snd (SetWorkerDown now wip m)"
| "fleet_apply EvSelect m = snd (selectWorker m)"
| "fleet_apply (EvRecover ce now wip c) m = recoverWorker ce now wip c m"
| "fleet_apply (EvTransport pe now wip c e) m = noteWorkerTransportError pe now wip c e m"
| "fleet_apply (EvTick ce i wip c p) m = snd (pollTick ce i wip c p m)"
| "fleet_apply (EvReady now wip c) m = on_conn wip c (reconcileReadyStep now) m"
| "fleet_apply (EvGaveUp now wip c why) m = on_conn wip c (\<lambda>w. eject now w why) m"

definition fleet_run :: "fleetEvent list \<Rightarrow> manager \<Rightarrow> manager" where
  "fleet_run es m = fold fleet_apply es m"

section \<open>The fleet invariant\<close>

definition fleet_inv :: "manager \<Rightarrow> bool" where
  "fleet_inv m \<longleftrightarrow>
     distinct (workerOrder m) \<and> set (workerOrder m) = dom (workers m) \<and>
     (\<forall>i w. workers m i = Some w \<longrightarrow>
        ip w = i \<and> conn_inv w \<and> cli w < nextCli m \<and> cli w \<notin> set (doneClosed m)) \<and>
     (\<forall>i j w v. workers m i = Some w \<longrightarrow> workers m j = Some v \<longrightarrow> cli w = cli v \<longrightarrow> i = j) \<and>
     distinct (doneClosed m) \<and> (\<forall>c\<in>set (doneClosed m). c < nextCli m)"

lemma fleet_inv_conn: "fleet_inv m \<Longrightarrow> workers m i = Some w \<Longrightarrow>
   ip w = i \<and> conn_inv w \<and> cli w < nextCli m \<and> cli w \<notin> set (doneClosed m)"
  by (simp add: fleet_inv_def)

lemma fleet_inv_cong:
  "workers m = workers m' \<Longrightarrow> workerOrder m = workerOrder m' \<Longrightarrow> nextCli m = nextCli m' \<Longrightarrow>
   doneClosed m = doneClosed m' \<Longrightarrow> fleet_inv m = fleet_inv m'"
  by (simp add: fleet_inv_def)

lemma fleet_inv_irrelevant [simp]:
  "fleet_inv (m\<lparr>db := d\<rparr>) = fleet_inv m" "fleet_inv (m\<lparr>faults := fs\<rparr>) = fleet_inv m"
  "fleet_inv (m\<lparr>rrCursor := n\<rparr>) = fleet_inv m" "fleet_inv (m\<lparr>queues := q\<rparr>) = fleet_inv m"
  "fleet_inv (m\<lparr>faults := fs, db := d\<rparr>) = fleet_inv m"
  by (simp_all add: fleet_inv_def)

lemma fleet_inv_update:
  assumes "fleet_inv m" "workers m i = Some w" "ip w' = ip w" "cli w' = cli w" "conn_inv w'"
  shows "fleet_inv (m\<lparr>workers := (workers m)(i \<mapsto> w')\<rparr>)"
proof -
  note c = fleet_inv_conn [OF assms(1,2)]
  have "dom ((workers m)(i \<mapsto> w')) = dom (workers m)" using assms(2) by auto
  then show ?thesis
    using assms c unfolding fleet_inv_def by (auto split: if_splits)
qed

lemma fleet_inv_replace:
  assumes inv: "fleet_inv m" and w: "workers m i = Some w" and w': "ip w' = i" "cli w' = nextCli m" "conn_inv w'"
  shows "fleet_inv (m\<lparr>nextCli := Suc (nextCli m), doneClosed := cli w # doneClosed m,
     workers := (workers m)(i \<mapsto> w')\<rparr>)"
proof -
  note c = fleet_inv_conn [OF inv w]
  have d: "dom ((workers m)(i \<mapsto> w')) = dom (workers m)" using w by auto
  have other: "cli v \<noteq> cli w" "cli v < nextCli m" if "workers m j = Some v" "j \<noteq> i" for j v
    using inv w that unfolding fleet_inv_def by blast+
  show ?thesis
    using inv w' c d other unfolding fleet_inv_def
    by (auto split: if_splits simp: less_Suc_eq) (metis less_irrefl_nat)+
qed

lemma fleet_inv_insert:
  assumes inv: "fleet_inv m" and w: "workers m i = None" and w': "ip w' = i" "cli w' = nextCli m" "conn_inv w'"
  shows "fleet_inv (m\<lparr>nextCli := Suc (nextCli m), workers := (workers m)(i \<mapsto> w'),
     workerOrder := workerOrder m @ [i]\<rparr>)"
proof -
  have "i \<notin> set (workerOrder m)" using inv w by (auto simp: fleet_inv_def)
  then show ?thesis
    using inv w' unfolding fleet_inv_def
    by (auto split: if_splits simp: less_Suc_eq) (metis less_irrefl_nat)+
qed

lemma fleet_inv_remove:
  assumes inv: "fleet_inv m" and w: "workers m i = Some w"
  shows "fleet_inv (m\<lparr>doneClosed := cli w # doneClosed m, workers := (workers m)(i := None),
     workerOrder := remove1 i (workerOrder m)\<rparr>)"
proof -
  note c = fleet_inv_conn [OF inv w]
  have other: "cli v \<noteq> cli w" if "workers m j = Some v" "j \<noteq> i" for j v
    using inv w that unfolding fleet_inv_def by blast
  show ?thesis
    using inv c other unfolding fleet_inv_def
    by (auto split: if_splits simp: set_remove1_eq)
qed

lemma conn_inv_new: "newWorkerConn ce now wip pub r m = (Inr w, m') \<Longrightarrow>
   conn_inv w \<and> ip w = wip \<and> cli w = nextCli m \<and> reachable w = workerUnresponsive \<and>
   m' = m\<lparr>nextCli := Suc (nextCli m), queues := (queues m)(nextCli m := newDaemonQueue (slots (launchConcurrency m)))\<rparr>"
  by (auto simp: newWorkerConn_def conn_inv_def split: option.splits)

lemma newWorkerConn_err: "newWorkerConn ce now wip pub r m = (Inl e, m') \<Longrightarrow> m' = m"
  by (auto simp: newWorkerConn_def split: option.splits)

lemma registerConn_queues:
  "registerConn wip w (m\<lparr>nextCli := n, queues := q\<rparr>) = (registerConn wip w (m\<lparr>nextCli := n\<rparr>))\<lparr>queues := q\<rparr>"
  by (simp add: registerConn_def closeDone_def split: option.split)

lemma fleet_inv_register: "keeps fleet_inv (bnd (newWorkerConn ce now wip p r) (\<lambda>w. modify (registerConn wip w)))"
proof (rule keepsI)
  fix m assume inv: "fleet_inv m"
  show "fleet_inv (snd (bnd (newWorkerConn ce now wip p r) (\<lambda>w. modify (registerConn wip w)) m))"
  proof (cases "newWorkerConn ce now wip p r m")
    case (Pair res m')
    show ?thesis
    proof (cases res)
      case (Inl e)
      with Pair inv newWorkerConn_err show ?thesis by (fastforce simp: bnd_def)
    next
      case (Inr w)
      with Pair have w: "conn_inv w" "ip w = wip" "cli w = nextCli m"
        and m': "m' = m\<lparr>nextCli := Suc (nextCli m), queues := (queues m)(nextCli m := newDaemonQueue (slots (launchConcurrency m)))\<rparr>"
        using conn_inv_new by auto
      have "fleet_inv (registerConn wip w (m\<lparr>nextCli := Suc (nextCli m)\<rparr>))"
        using fleet_inv_replace [OF inv _ w(2,3,1)] fleet_inv_insert [OF inv _ w(2,3,1)]
        by (auto simp: registerConn_def closeDone_def split: option.split)
      then show ?thesis using Pair Inr m' by (simp add: bnd_def registerConn_queues)
    qed
  qed
qed

lemma AddWorker_inv: "keeps fleet_inv (AddWorker v ce now wip pub)"
  unfolding AddWorker_def
  by (auto intro!: keeps_intros exec_keeps fleet_inv_register split: option.split)

lemma db_only_fleet: "db_only f \<Longrightarrow> keeps fleet_inv f"
  unfolding db_only_def keeps_def by (metis fleet_inv_irrelevant(5))

lemma RemoveWorker_inv: "fleet_inv m \<Longrightarrow> fleet_inv (snd (RemoveWorker wip m))"
proof (cases "workers m wip")
  case (Some w)
  assume inv: "fleet_inv m"
  let ?t = "txn (bnd (exec (delete_instances (\<lambda>r. iWorker r = wip))) (\<lambda>_.
                    exec (\<lambda>d. d\<lparr>workersTbl := filter (\<lambda>r. fst r \<noteq> wip) (workersTbl d)\<rparr>)))"
  have "db_only ?t" by (intro keeps_intros)
  then obtain r m' where t: "?t m = (r, m')" and "fleet_inv m'" "workers m' = workers m"
    using db_onlyD [of ?t m] inv by (cases "?t m") auto
  then have "fleet_inv (m'\<lparr>doneClosed := cli w # doneClosed m', workers := (workers m')(wip := None),
     workerOrder := remove1 wip (workerOrder m')\<rparr>)"
    using Some by (intro fleet_inv_remove) simp_all
  then show ?thesis using Some t \<open>fleet_inv m'\<close>
    by (cases r) (simp_all add: RemoveWorker_def bnd_def closeDone_def)
qed (simp add: RemoveWorker_def bnd_def)

lemma recoverWorker_inv: "fleet_inv m \<Longrightarrow> fleet_inv (recoverWorker ce now wip c m)"
proof (cases "workers m wip")
  case (Some w)
  assume inv: "fleet_inv m"
  show ?thesis
  proof (cases "newWorkerConn ce now wip (public w) True m")
    case (Pair r m')
    show ?thesis
    proof (cases r)
      case (Inl e)
      with Pair Some inv newWorkerConn_err show ?thesis
        by (fastforce simp: recoverWorker_def)
    next
      case (Inr fresh)
      with Pair have f: "conn_inv fresh" "ip fresh = wip" "cli fresh = nextCli m"
        and m': "m' = m\<lparr>nextCli := Suc (nextCli m), queues := (queues m)(nextCli m := newDaemonQueue (slots (launchConcurrency m)))\<rparr>"
        using conn_inv_new by auto
      have "fleet_inv (m\<lparr>nextCli := Suc (nextCli m), doneClosed := cli w # doneClosed m,
              workers := (workers m)(wip \<mapsto> fresh\<lparr>ejections := ejections w\<rparr>)\<rparr>)"
        using f by (intro fleet_inv_replace [OF inv Some]) simp_all
      then have "fleet_inv ((closeDone w m')\<lparr>workers := (workers m')(wip \<mapsto> fresh\<lparr>ejections := ejections w\<rparr>)\<rparr>)"
        by (rule fleet_inv_cong [THEN iffD1, rotated 4]) (simp_all add: m' closeDone_def)
      then show ?thesis using Pair Inr Some inv by (simp add: recoverWorker_def)
    qed
  qed
qed (simp add: recoverWorker_def)

lemma on_conn_inv:
  assumes "fleet_inv m" "\<And>w. conn_inv w \<Longrightarrow> ip (f w) = ip w \<and> cli (f w) = cli w \<and> conn_inv (f w)"
  shows "fleet_inv (on_conn wip c f m)"
proof (cases "workers m wip")
  case (Some w)
  then have "conn_inv w" using fleet_inv_conn assms(1) by blast
  with assms Some fleet_inv_update [OF assms(1) Some] show ?thesis by (auto simp: on_conn_def)
qed (simp add: on_conn_def assms(1))

lemma noteWorkerTransportError_inv:
  assumes inv: "fleet_inv m" shows "fleet_inv (noteWorkerTransportError pe now wip c e m)"
proof (cases "workers m wip")
  case (Some w)
  have cw: "conn_inv w" using fleet_inv_conn [OF inv Some] by blast
  obtain ts n out where nt: "noteTimeout now (controlTimeout (timing m)) (timeoutWindow (timing m))
      (timeoutsToEject (timing m)) (timeouts w) = (ts, n, out)" by (cases rule: prod_cases3)
  have up: "fleet_inv (m\<lparr>workers := (workers m)(wip \<mapsto> w'\<lparr>probeNow := True\<rparr>)\<rparr>)"
    if "ip w' = ip w" "cli w' = cli w" "conn_inv w'" for w'
    using that by (intro fleet_inv_update [OF inv Some]) simp_all
  show ?thesis
    using inv up [of "eject now w ''a control call timed out and the daemon did not answer a ping''"]
      up [of "eject now (w\<lparr>timeouts := ts\<rparr>) ''control calls timed out in separate stalls''"]
      up [of "w\<lparr>timeouts := ts\<rparr>"] up [of "eject now w ''a control call failed''"] cw
    by (simp add: noteWorkerTransportError_def Some nt conn_inv_eject Let_def)
qed (simp add: noteWorkerTransportError_def inv)

lemma probe_frame: "probe t i p w = (p', w', r) \<Longrightarrow> ip w' = ip w \<and> cli w' = cli w \<and> public w' = public w"
  by (auto simp: probe_def pollLoad_def setLoad_def Let_def split: prod.splits sum.splits if_splits)

lemma pollTick_inv:
  assumes inv: "fleet_inv m" shows "fleet_inv (snd (pollTick ce i wip c p m))"
proof (cases "workers m wip")
  case (Some w)
  obtain p' w' r where pr: "probe (timing m) i p w = (p', w', r)" by (cases rule: prod_cases3)
  have "conn_inv w'" using probe_conn_inv [of w "timing m" i p] fleet_inv_conn [OF inv Some] pr by simp
  then have "fleet_inv (m\<lparr>workers := (workers m)(wip \<mapsto> w')\<rparr>)"
    using probe_frame [OF pr] by (intro fleet_inv_update [OF inv Some]) auto
  then show ?thesis using Some pr inv by (simp add: pollTick_def Let_def recoverWorker_inv)
qed (simp add: pollTick_def inv)

lemma selectWorker_frame: "\<exists>n. snd (selectWorker m) = m\<lparr>rrCursor := n\<rparr>"
  by (rule exI [of _ "rrCursor (snd (selectWorker m))"])
     (simp add: selectWorker_def Let_def split: prod.split option.split)

lemma fleet_apply_inv: "fleet_inv m \<Longrightarrow> fleet_inv (fleet_apply e m)"
proof (cases e)
  case (EvAdd v ce now wip pub)
  assume "fleet_inv m"
  with AddWorker_inv EvAdd show ?thesis by (simp add: keeps_def)
next
  case (EvDown now wip)
  assume inv: "fleet_inv m"
  show ?thesis
  proof (cases "workers m wip")
    case (Some w)
    have "conn_inv (markWorkerDown now w)" "ip (markWorkerDown now w) = ip w" "cli (markWorkerDown now w) = cli w"
      using fleet_inv_conn [OF inv Some] by (simp_all add: markWorkerDown_def conn_inv_setReachable)
    then show ?thesis using EvDown Some inv fleet_inv_update [OF inv Some]
      by (simp add: SetWorkerDown_def bnd_def)
  qed (use inv EvDown in \<open>simp add: SetWorkerDown_def bnd_def\<close>)
next
  case EvSelect
  assume "fleet_inv m"
  with EvSelect selectWorker_frame [of m] show ?thesis by auto
next
  case (EvReady now wip c)
  assume "fleet_inv m"
  then show ?thesis unfolding EvReady fleet_apply.simps
    by (rule on_conn_inv) (simp add: reconcileReadyStep_def conn_inv_setReachable)
next
  case (EvGaveUp now wip c why)
  assume "fleet_inv m"
  then show ?thesis unfolding EvGaveUp fleet_apply.simps
    by (rule on_conn_inv) (simp add: conn_inv_eject)
qed (simp_all add: RemoveWorker_inv recoverWorker_inv noteWorkerTransportError_inv pollTick_inv)

interpretation fleet: event_system fleet_apply fleet_inv
  by unfold_locales (rule fleet_apply_inv)

section \<open>An asserted down sticks\<close>

definition is_down :: "string \<Rightarrow> manager \<Rightarrow> bool" where
  "is_down wip m \<longleftrightarrow> (\<exists>w. workers m wip = Some w \<and> reachable w = workerDown)"

text \<open>The events an operator uses to bring the worker at \<open>wip\<close> back or to purge it.\<close>

fun readmits :: "string \<Rightarrow> fleetEvent \<Rightarrow> bool" where
  "readmits wip (EvAdd v ce now i pub) = (i = wip)"
| "readmits wip (EvRemove i) = (i = wip)"
| "readmits wip e = False"

lemma is_down_cong: "workers m wip = workers m' wip \<Longrightarrow> is_down wip m = is_down wip m'"
  by (simp add: is_down_def)

lemma AddWorker_other: "i \<noteq> wip \<Longrightarrow> workers (snd (AddWorker v ce now i pub m)) wip = workers m wip"
proof -
  assume ne: "i \<noteq> wip"
  let ?I = "\<lambda>m'. workers m' wip = workers m wip"
  have reg: "keeps ?I (bnd (newWorkerConn ce now i p False) (\<lambda>w. modify (registerConn i w)))" for p
    using ne by (auto simp: keeps_def bnd_def newWorkerConn_def registerConn_def closeDone_def
        split: option.split prod.split sum.split)
  have "keeps ?I (AddWorker v ce now i pub)"
    unfolding AddWorker_def
    by (auto intro!: keeps_intros exec_keeps reg split: option.split)
  then show ?thesis by (simp add: keeps_def)
qed

lemma RemoveWorker_other: "i \<noteq> wip \<Longrightarrow> workers (snd (RemoveWorker i m)) wip = workers m wip"
proof -
  assume ne: "i \<noteq> wip"
  let ?I = "\<lambda>m'. workers m' wip = workers m wip"
  have "keeps ?I (RemoveWorker i)"
    unfolding RemoveWorker_def using ne
    by (auto intro!: keeps_intros exec_keeps keeps_modify simp: closeDone_def split: option.split)
  then show ?thesis by (simp add: keeps_def)
qed

lemma down_step:
  assumes "fleet_inv m" "is_down wip m" "\<not> readmits wip e"
  shows "is_down wip (fleet_apply e m)"
proof -
  obtain w where w: "workers m wip = Some w" "reachable w = workerDown" using assms(2) by (auto simp: is_down_def)
  show ?thesis
  proof (cases e)
    case (EvAdd v ce now i pub)
    with assms AddWorker_other is_down_cong show ?thesis by (metis fleet_apply.simps(1) readmits.simps(1))
  next
    case (EvRemove i)
    with assms RemoveWorker_other is_down_cong show ?thesis by (metis fleet_apply.simps(2) readmits.simps(2))
  next
    case (EvDown now i)
    with w show ?thesis
      by (cases "workers m i") (auto simp: SetWorkerDown_def bnd_def is_down_def markWorkerDown_def setReachable_reachable)
  next
    case EvSelect
    with w selectWorker_frame [of m] show ?thesis by (auto simp: is_down_def)
  next
    case (EvRecover ce now i c)
    with w show ?thesis
      by (cases "workers m i")
         (auto simp: recoverWorker_def is_down_def newWorkerConn_def closeDone_def split: option.split)
  next
    case (EvTransport pe now i c err)
    with w show ?thesis
      by (cases "workers m i")
         (auto simp: noteWorkerTransportError_def is_down_def Let_def eject_reachable split: prod.splits)
  next
    case (EvTick ce i wi c p)
    show ?thesis
    proof (cases "wi = wip")
      case True
      then have "workers (fleet_apply e m) wip = Some w" using w EvTick by (simp add: pollTick_def probe_def Let_def)
      then show ?thesis using w by (simp add: is_down_def)
    next
      case False
      then have "workers (fleet_apply e m) wip = workers m wip"
        using EvTick by (auto simp: pollTick_def recoverWorker_def newWorkerConn_def closeDone_def Let_def
            split: option.splits prod.splits)
      then show ?thesis using assms(2) is_down_cong by blast
    qed
  next
    case (EvReady now i c)
    with w show ?thesis
      by (auto simp: on_conn_def is_down_def reconcileReadyStep_def setReachable_reachable split: option.splits)
  next
    case (EvGaveUp now i c why)
    with w show ?thesis
      by (auto simp: on_conn_def is_down_def eject_reachable split: option.splits)
  qed
qed

section \<open>Selection\<close>

text \<open>The connection under a name, and whether a new instance may go there.\<close>

definition can_place :: "manager \<Rightarrow> string \<Rightarrow> bool" where
  "can_place m wip = (case workers m wip of None \<Rightarrow> False | Some w \<Rightarrow> placeable w)"

definition has_reachable :: "manager \<Rightarrow> workerReachable \<Rightarrow> string \<Rightarrow> bool" where
  "has_reachable m r wip = (case workers m wip of None \<Rightarrow> False | Some w \<Rightarrow> reachable w = r)"

text \<open>Which exhaustion it is when nobody among the names can be placed on, worst case last.\<close>

definition exhaustion :: "manager \<Rightarrow> bool \<Rightarrow> bool \<Rightarrow> string list \<Rightarrow> err" where
  "exhaustion m a b names =
     (if a \<or> list_ex (has_reachable m workerReachableOk) names then [ErrAllWorkersOverloaded]
      else if b \<or> list_ex (has_reachable m workerUnresponsive) names then [ErrAllWorkersUnresponsive]
      else [ErrAllWorkersDown])"

lemma selectLoop_spec:
  assumes "\<And>k. k \<in> set idxs \<Longrightarrow> \<exists>w. workers m (workerOrder m ! k) = Some w \<and> ip w = workerOrder m ! k"
  shows "selectLoop m idxs a b =
     (case List.find (\<lambda>k. can_place m (workerOrder m ! k)) idxs of
        Some k \<Rightarrow> (Inr (workerOrder m ! k), Some k)
      | None \<Rightarrow> (Inl (exhaustion m a b (map ((!) (workerOrder m)) idxs)), None))"
  using assms
proof (induction idxs arbitrary: a b)
  case Nil
  then show ?case by (simp add: exhaustion_def)
next
  case (Cons k ks)
  obtain w where w: "workers m (workerOrder m ! k) = Some w" "ip w = workerOrder m ! k"
    using Cons.prems [of k] by auto
  note IH = Cons.IH [OF Cons.prems, simplified]
  show ?case
  proof (cases "placeable w")
    case True
    with w show ?thesis by (simp add: can_place_def)
  next
    case False
    have step: "List.find (\<lambda>k. can_place m (workerOrder m ! k)) (k # ks) = List.find (\<lambda>k. can_place m (workerOrder m ! k)) ks"
      using False w by (simp add: can_place_def)
    have ex: "exhaustion m a b (map ((!) (workerOrder m)) (k # ks)) =
        exhaustion m (a \<or> reachable w = workerReachableOk) (b \<or> reachable w = workerUnresponsive)
          (map ((!) (workerOrder m)) ks)"
      using w by (simp add: exhaustion_def has_reachable_def)
    show ?thesis
    proof (cases "reachable w")
      case workerDown
      with w False IH step ex show ?thesis by (simp cong: option.case_cong)
    next
      case workerUnresponsive
      with w False IH step ex show ?thesis by (simp cong: option.case_cong)
    next
      case workerReachableOk
      with w False IH step ex show ?thesis by (simp cong: option.case_cong)
    qed
  qed
qed

lemma rotation_names:
  "map ((!) xs) (map (\<lambda>i. (c + i) mod length xs) [0..<length xs]) = rotate c xs"
  by (rule nth_equalityI) (simp_all add: nth_rotate)

lemma selectWorker_spec:
  assumes inv: "fleet_inv m" and ne: "workerOrder m \<noteq> []"
  shows "selectWorker m =
     (let n = length (workerOrder m) in
      case List.find (\<lambda>k. can_place m (workerOrder m ! k)) (map (\<lambda>i. (rrCursor m + i) mod n) [0..<n]) of
        Some k \<Rightarrow> (Inr (workerOrder m ! k), m\<lparr>rrCursor := (k + 1) mod n\<rparr>)
      | None \<Rightarrow> (Inl (exhaustion m False False (rotate (rrCursor m) (workerOrder m))), m))"
proof -
  let ?n = "length (workerOrder m)"
  let ?is = "map (\<lambda>i. (rrCursor m + i) mod ?n) [0..<?n]"
  have "\<exists>w. workers m (workerOrder m ! k) = Some w \<and> ip w = workerOrder m ! k" if "k \<in> set ?is" for k
  proof -
    have "workerOrder m ! k \<in> dom (workers m)"
      using that ne inv by (auto simp: fleet_inv_def)
    then show ?thesis using fleet_inv_conn [OF inv] by blast
  qed
  then have "selectLoop m ?is False False =
     (case List.find (\<lambda>k. can_place m (workerOrder m ! k)) ?is of
        Some k \<Rightarrow> (Inr (workerOrder m ! k), Some k)
      | None \<Rightarrow> (Inl (exhaustion m False False (map ((!) (workerOrder m)) ?is)), None))"
    by (rule selectLoop_spec)
  then show ?thesis
    using ne unfolding selectWorker_def Let_def rotation_names by (simp split: option.split)
qed

text \<open>
  C1. Placement is safe and its refusals mean what they say. In any state a run of fleet events can
  reach from a good one, with workers configured, \<open>selectWorker\<close> returns a registered worker
  that is answering and not overloaded if there is one, and otherwise refuses: as overloaded if
  some worker answers, else as unresponsive if some worker was not taken down, else as all down.
  It never panics on a missing connection.
\<close>

theorem selectWorker_correct:
  assumes "fleet_inv m0" and "m = fleet_run es m0" and "workerOrder m \<noteq> []"
  shows "case fst (selectWorker m) of
           Inr wip \<Rightarrow> (\<exists>w. workers m wip = Some w \<and> reachable w = workerReachableOk \<and> load w \<noteq> workerOverloaded)
         | Inl e \<Rightarrow> (\<forall>wip w. workers m wip = Some w \<longrightarrow> \<not> placeable w) \<and>
             e = (if \<exists>wip w. workers m wip = Some w \<and> reachable w = workerReachableOk then [ErrAllWorkersOverloaded]
                  else if \<exists>wip w. workers m wip = Some w \<and> reachable w = workerUnresponsive
                  then [ErrAllWorkersUnresponsive] else [ErrAllWorkersDown])"
proof -
  have inv: "fleet_inv m" using fleet.run_inv [OF assms(1), of es] assms(2) by (simp add: fleet_run_def)
  let ?n = "length (workerOrder m)"
  let ?is = "map (\<lambda>i. (rrCursor m + i) mod ?n) [0..<?n]"
  have dom: "set (workerOrder m) = dom (workers m)" using inv by (simp add: fleet_inv_def)
  have ex: "list_ex (has_reachable m r) (rotate c (workerOrder m)) =
      (\<exists>wip w. workers m wip = Some w \<and> reachable w = r)" for r c
    using dom by (auto simp: list_ex_iff has_reachable_def split: option.splits)
  show ?thesis
  proof (cases "List.find (\<lambda>k. can_place m (workerOrder m ! k)) ?is")
    case None
    have "\<not> placeable w" if "workers m wip = Some w" for wip w
    proof -
      have "wip \<in> set (rotate (rrCursor m) (workerOrder m))" using that dom by auto
      then obtain k where "k \<in> set ?is" "wip = workerOrder m ! k"
        unfolding rotation_names [symmetric] by auto
      with None have "\<not> can_place m wip" by (auto simp: find_None_iff)
      with that show ?thesis by (simp add: can_place_def)
    qed
    then show ?thesis
      using None selectWorker_spec [OF inv assms(3)] by (auto simp: Let_def exhaustion_def ex)
  next
    case (Some k)
    then have "can_place m (workerOrder m ! k)" by (auto simp: find_Some_iff)
    then show ?thesis
      using Some selectWorker_spec [OF inv assms(3)]
      by (auto simp: Let_def can_place_def placeable_def split: option.splits)
  qed
qed

section \<open>Examples\<close>

definition two_workers :: "fleetEvent list" where
  "two_workers =
     [EvAdd (\<lambda>_. True) None 0 ''10.0.0.1'' '''', EvReady 1 ''10.0.0.1'' 0,
      EvAdd (\<lambda>_. True) None 2 ''10.0.0.2'' ''play.example'', EvReady 3 ''10.0.0.2'' 1]"

lemma fleet_inv_fresh: "fleet_inv freshManager"
  by (simp add: fleet_inv_def freshManager_def)

lemmas fleet_eval = fleet_run_def two_workers_def freshManager_def emptyDatabase_def AddWorker_def bnd_def
  newWorkerConn_def registerConn_def on_conn_def reconcileReadyStep_def setReachable_def close_unreachCh_def
  SetWorkerDown_def markWorkerDown_def

lemma two_workers_state:
  "workerOrder (fleet_run two_workers freshManager) = [''10.0.0.1'', ''10.0.0.2'']"
  "rrCursor (fleet_run two_workers freshManager) = 0"
  "can_place (fleet_run two_workers freshManager) ''10.0.0.1''"
  "can_place (fleet_run two_workers freshManager) ''10.0.0.2''"
  by (simp_all add: fleet_eval can_place_def placeable_def)

theorem selectWorker_correct_witness:
  "case fst (selectWorker (fleet_run two_workers freshManager)) of
     Inr wip \<Rightarrow> (\<exists>w. workers (fleet_run two_workers freshManager) wip = Some w \<and>
                   reachable w = workerReachableOk \<and> load w \<noteq> workerOverloaded)
   | Inl e \<Rightarrow> False"
proof -
  have "fst (selectWorker (fleet_run two_workers freshManager)) = Inr ''10.0.0.1''"
    by (simp add: fleet_eval selectWorker_def placeable_def upt_rec)
  then show ?thesis
    using selectWorker_correct [OF fleet_inv_fresh refl, of two_workers] two_workers_state(1) by simp
qed

section \<open>Round robin\<close>

text \<open>Consecutive selections with nothing else happening to the fleet in between.\<close>

fun selects :: "nat \<Rightarrow> manager \<Rightarrow> (err + string) list" where
  "selects 0 m = []"
| "selects (Suc k) m = (case selectWorker m of (r, m') \<Rightarrow> r # selects k m')"

lemma can_place_cursor [simp]: "can_place (m\<lparr>rrCursor := c\<rparr>) = can_place m"
  by (rule ext) (simp add: can_place_def)

lemma find_first:
  assumes "List.find P xs = Some x"
  obtains i where "i < length xs" "xs ! i = x" "P x" "\<forall>j<i. \<not> P (xs ! j)"
  using assms by (auto simp: find_Some_iff)

lemma rotate_within: "k \<le> length ys \<Longrightarrow> rotate k ys = drop k ys @ take k ys"
  by (cases "k = length ys") (simp_all add: rotate_drop_take)

lemma filter_rotate_first:
  assumes i: "i < length xs" and p: "P (rotate c xs ! i)" and no: "\<forall>j<i. \<not> P (rotate c xs ! j)"
  shows "\<exists>R. filter P (rotate c xs) = (rotate c xs ! i) # R \<and>
             filter P (rotate (c + i + 1) xs) = R @ [rotate c xs ! i]"
proof -
  let ?r = "rotate c xs"
  have split: "?r = take i ?r @ ?r ! i # drop (Suc i) ?r" using i by (simp add: id_take_nth_drop)
  have pre: "filter P (take i ?r) = []" using no i by (auto simp: filter_empty_conv in_set_conv_nth)
  have "rotate (c + i + 1) xs = rotate (Suc i) ?r" by (simp add: rotate_rotate add.commute)
  also have "\<dots> = drop (Suc i) ?r @ take (Suc i) ?r"
    using i by (intro rotate_within) simp
  also have "take (Suc i) ?r = take i ?r @ [?r ! i]" using i by (simp add: take_Suc_conv_app_nth)
  finally have "filter P (rotate (c + i + 1) xs) = filter P (drop (Suc i) ?r) @ [?r ! i]"
    using pre p by simp
  moreover have "filter P ?r = ?r ! i # filter P (drop (Suc i) ?r)"
    using pre p by (subst split) simp
  ultimately show ?thesis by blast
qed

lemma selectWorker_next:
  assumes inv: "fleet_inv m" and F: "filter (can_place m) (rotate (rrCursor m) (workerOrder m)) = x # R"
  shows "\<exists>c. selectWorker m = (Inr x, m\<lparr>rrCursor := c\<rparr>) \<and>
             filter (can_place m) (rotate c (workerOrder m)) = R @ [x]"
proof -
  let ?o = "workerOrder m" and ?n = "length (workerOrder m)"
  let ?is = "map (\<lambda>i. (rrCursor m + i) mod ?n) [0..<?n]"
  have ne: "?o \<noteq> []" using F by auto
  have nth: "?o ! (?is ! i) = rotate (rrCursor m) ?o ! i" if "i < ?n" for i
    using that by (simp add: nth_rotate)
  show ?thesis
  proof (cases "List.find (\<lambda>k. can_place m (?o ! k)) ?is")
    case None
    have "\<not> can_place m y" if y: "y \<in> set (rotate (rrCursor m) ?o)" for y
    proof -
      obtain k where "k \<in> set ?is" "y = ?o ! k" using y unfolding rotation_names [symmetric] by auto
      with None show ?thesis by (auto simp: find_None_iff)
    qed
    then have "filter (can_place m) (rotate (rrCursor m) ?o) = []" by (auto simp: filter_empty_conv)
    with F show ?thesis by simp
  next
    case (Some k)
    then obtain i where i: "i < ?n" "?is ! i = k" "can_place m (?o ! k)" "\<forall>j<i. \<not> can_place m (?o ! (?is ! j))"
      by (elim find_first) auto
    have "can_place m (rotate (rrCursor m) ?o ! i)" using i nth [of i] by simp
    moreover have "\<forall>j<i. \<not> can_place m (rotate (rrCursor m) ?o ! j)" using i nth by simp
    ultimately obtain R' where "filter (can_place m) (rotate (rrCursor m) ?o) = rotate (rrCursor m) ?o ! i # R'"
      "filter (can_place m) (rotate (rrCursor m + i + 1) ?o) = R' @ [rotate (rrCursor m) ?o ! i]"
      using filter_rotate_first [OF i(1)] by blast
    with F have x: "x = rotate (rrCursor m) ?o ! i"
      and R: "filter (can_place m) (rotate (rrCursor m + i + 1) ?o) = R @ [x]" by auto
    have "rotate ((k + 1) mod ?n) ?o = rotate (rrCursor m + i + 1) ?o"
      using i(1,2) by (subst (2) rotate_conv_mod) (auto simp: mod_Suc_eq)
    moreover have "?o ! k = x" using nth [OF i(1)] i(2) x by simp
    ultimately show ?thesis
      using R Some selectWorker_spec [OF inv ne] by (auto simp: Let_def)
  qed
qed

text \<open>
  Placement is round robin over the workers that can take an instance: among consecutive
  selections the \<open>i\<close>-th returns entry \<open>i mod n\<close> of the \<open>n\<close> placeable workers in
  registration order starting at the cursor, so every one of them is used once before any is used
  again.
\<close>

theorem selectWorker_round_robin:
  assumes "fleet_inv m" and "F = filter (can_place m) (rotate (rrCursor m) (workerOrder m))" and "F \<noteq> []"
  shows "selects k m = map (\<lambda>i. Inr (F ! (i mod length F))) [0..<k] \<and> distinct F \<and>
         set F = {wip. can_place m wip}"
proof -
  have "selects k m = map (\<lambda>i. Inr (F ! (i mod length F))) [0..<k]"
    if "fleet_inv m" "F = filter (can_place m) (rotate (rrCursor m) (workerOrder m))" "F \<noteq> []" for F m
    using that
  proof (induction k arbitrary: F m)
    case (Suc k)
    obtain x R where F: "F = x # R" using Suc.prems(3) by (cases F) auto
    then obtain c where c: "selectWorker m = (Inr x, m\<lparr>rrCursor := c\<rparr>)"
      "filter (can_place m) (rotate c (workerOrder m)) = R @ [x]"
      using selectWorker_next [OF Suc.prems(1)] Suc.prems(2) by force
    let ?G = "R @ [x]"
    have "selects k (m\<lparr>rrCursor := c\<rparr>) = map (\<lambda>i. Inr (?G ! (i mod length ?G))) [0..<k]"
      using c Suc.prems by (intro Suc.IH) simp_all
    moreover have "?G ! (i mod length ?G) = F ! (Suc i mod length F)" for i
      using F mod_less_divisor [of "Suc (length R)" i] by (auto simp: nth_append mod_Suc nth_Cons' less_Suc_eq)
    moreover have "[0..<Suc k] = 0 # map Suc [0..<k]" by (simp add: upt_conv_Cons map_Suc_upt del: upt_Suc)
    ultimately show ?case using c F by (simp del: upt_Suc)
  qed simp
  moreover have "set F = {wip. can_place m wip}"
  proof -
    have "set (workerOrder m) = dom (workers m)" using assms(1) by (simp add: fleet_inv_def)
    then show ?thesis unfolding assms(2) by (auto simp: can_place_def split: option.splits)
  qed
  moreover have "distinct F" using assms(1,2) by (simp add: fleet_inv_def)
  ultimately show ?thesis using assms by blast
qed

theorem selectWorker_round_robin_witness:
  "selects 3 (fleet_run two_workers freshManager) = [Inr ''10.0.0.1'', Inr ''10.0.0.2'', Inr ''10.0.0.1'']"
proof -
  let ?m = "fleet_run two_workers freshManager"
  have inv: "fleet_inv ?m" unfolding fleet_run_def by (rule fleet.run_inv [OF fleet_inv_fresh])
  have F: "[''10.0.0.1'', ''10.0.0.2''] = filter (can_place ?m) (rotate (rrCursor ?m) (workerOrder ?m))"
    using two_workers_state by simp
  show ?thesis using selectWorker_round_robin [OF inv F, of 3] by (simp add: upt_rec)
qed

section \<open>What the whole life of a fleet keeps\<close>

text \<open>
  An operator's verdict sticks. Once \<open>SetWorkerDown\<close> succeeded, no sequence of fleet
  events that neither adds nor removes that worker (pollers ticking and recovering, control calls
  failing, reconcile passes ending, selections, operations on other workers) brings it back: it is
  still down, calls for it fail fast, and it is never selected.
\<close>

theorem down_sticks:
  assumes "fleet_inv m" and "fst (SetWorkerDown now wip m) = Inr ()"
    and "m' = fleet_run es (snd (SetWorkerDown now wip m))" and "list_all (\<lambda>e. \<not> readmits wip e) es"
  shows "(\<exists>w. workers m' wip = Some w \<and> reachable w = workerDown) \<and> workerUnreachable m' wip \<and>
         fst (selectWorker m') \<noteq> Inr wip"
proof -
  let ?m = "snd (SetWorkerDown now wip m)"
  have inv: "fleet_inv ?m" using fleet_apply_inv [OF assms(1), of "EvDown now wip"] by simp
  have "is_down wip ?m"
    using assms(2) by (auto simp: SetWorkerDown_def bnd_def is_down_def markWorkerDown_def setReachable_reachable
        split: option.splits)
  then have down: "is_down wip m'"
    unfolding assms(3) fleet_run_def 
    by (rule fleet.run_stable [where Q = "is_down wip", OF inv _ _ assms(4)]) (rule down_step)
  have inv': "fleet_inv m'" unfolding assms(3) fleet_run_def by (rule fleet.run_inv [OF inv])
  then have ne: "workerOrder m' \<noteq> []" using down by (auto simp: is_down_def fleet_inv_def)
  have "fst (selectWorker m') \<noteq> Inr wip"
  proof
    assume "fst (selectWorker m') = Inr wip"
    then have "can_place m' wip"
      using selectWorker_spec [OF inv' ne] by (auto simp: Let_def find_Some_iff split: option.splits)
    with down show False by (auto simp: is_down_def can_place_def placeable_def)
  qed
  then show ?thesis using down by (auto simp: is_down_def workerUnreachable_def)
qed

theorem down_sticks_witness:
  "workerUnreachable (fleet_run [EvReady 5 ''10.0.0.1'' 0, EvRecover None 6 ''10.0.0.1'' 0]
     (snd (SetWorkerDown 4 ''10.0.0.1'' (fleet_run two_workers freshManager)))) ''10.0.0.1''"
proof -
  let ?m = "fleet_run two_workers freshManager"
  have "fleet_inv ?m" unfolding fleet_run_def by (rule fleet.run_inv [OF fleet_inv_fresh])
  moreover have "fst (SetWorkerDown 4 ''10.0.0.1'' ?m) = Inr ()" by (simp add: fleet_eval)
  ultimately show ?thesis
    using down_sticks [OF _ _ refl, of ?m 4 "''10.0.0.1''" "[EvReady 5 ''10.0.0.1'' 0, EvRecover None 6 ''10.0.0.1'' 0]"]
    by simp
qed

text \<open>
  C33. The registry never leaks and never crashes on a channel: along any sequence of fleet events
  from a manager with no worker, every registered connection is open and is the only one with its
  client, a connection's done channel is closed at most once (a second close would panic), and the
  order used by placement lists exactly the registered workers, each once.
\<close>

theorem fleet_registry_sound:
  assumes "workers m0 = Map.empty" "workerOrder m0 = []" "doneClosed m0 = []" and "m = fleet_run es m0"
  shows "distinct (doneClosed m) \<and> distinct (workerOrder m) \<and> set (workerOrder m) = dom (workers m) \<and>
         (\<forall>wip w. workers m wip = Some w \<longrightarrow> ip w = wip \<and> \<not> gone m w) \<and>
         (\<forall>i j w v. workers m i = Some w \<and> workers m j = Some v \<and> cli w = cli v \<longrightarrow> i = j)"
proof -
  have "fleet_inv m0" using assms(1-3) by (simp add: fleet_inv_def)
  then have "fleet_inv m" unfolding assms(4) fleet_run_def by (rule fleet.run_inv)
  then show ?thesis unfolding fleet_inv_def gone_def by blast
qed

theorem fleet_registry_sound_witness:
  "distinct (doneClosed (fleet_run (two_workers @ [EvRecover None 6 ''10.0.0.1'' 0, EvRecover None 7 ''10.0.0.1'' 0]) freshManager))
   \<and> doneClosed (fleet_run (two_workers @ [EvRecover None 6 ''10.0.0.1'' 0, EvRecover None 7 ''10.0.0.1'' 0]) freshManager) = [0]"
proof (rule conjI)
  show "distinct (doneClosed (fleet_run (two_workers @ [EvRecover None 6 ''10.0.0.1'' 0, EvRecover None 7 ''10.0.0.1'' 0]) freshManager))"
    using fleet_registry_sound [of freshManager _ "two_workers @ [EvRecover None 6 ''10.0.0.1'' 0, EvRecover None 7 ''10.0.0.1'' 0]", OF _ _ _ refl]
    by (simp add: freshManager_def)
qed (simp add: fleet_eval recoverWorker_def closeDone_def)

end
