(* ===== verification/Worker_Reconcile.thy ===== *)
theory Worker_Reconcile
  imports Worker_Fleet
begin

text \<open>
  Reconciling a worker (\<open>src/cork/worker_reconcile.go\<close>, \<open>runWorker\<close> and
  \<open>reconcileWithRetries\<close> of \<open>src/cork/workers.go\<close>): finding and removing what instances
  that are no longer recorded left on a daemon, before anything new is placed there. The daemon's
  answers are arguments. Removals run four at a time; a schedule says in which order the loop that
  hands them out and the goroutines that carry them out move, and the theorems hold for every
  schedule.
\<close>

section \<open>Attribution\<close>

definition networkPrefix :: string where "networkPrefix = ''cmgr-''"

definition getNetworkName :: "int \<Rightarrow> string" where
  "getNetworkName iid = networkPrefix @ show_int iid"

definition networkInstance :: "string \<Rightarrow> int option" where
  "networkInstance name =
     (case cutPrefix name networkPrefix of
        None \<Rightarrow> None
      | Some digits \<Rightarrow>
          if digits = '''' then None
          else if \<not> list_all is_digit digits then None
          else atoi digits)"

text \<open>The networks of a container in the order the iteration over the map yields them.\<close>

record containerSummary =
  csID :: string
  csNetworks :: "string list option" \<comment> \<open>\<open>None\<close>: NetworkSettings is nil\<close>

fun firstInstance :: "string list \<Rightarrow> int option" where
  "firstInstance [] = None"
| "firstInstance (name # names) =
     (case networkInstance name of Some iid \<Rightarrow> Some iid | None \<Rightarrow> firstInstance names)"

definition containerInstance :: "containerSummary \<Rightarrow> int option" where
  "containerInstance c = (case csNetworks c of None \<Rightarrow> None | Some names \<Rightarrow> firstInstance names)"

definition findOrphans :: "containerSummary list \<Rightarrow> string list \<Rightarrow> (int \<Rightarrow> bool) \<Rightarrow> string list \<times> string list" where
  "findOrphans cs ns live =
     (map csID (filter (\<lambda>c. case containerInstance c of Some iid \<Rightarrow> \<not> live iid | None \<Rightarrow> False) cs),
      filter (\<lambda>n. case networkInstance n of Some iid \<Rightarrow> \<not> live iid | None \<Rightarrow> False) ns)"

section \<open>Removing orphans\<close>

datatype reconcileResult = reconcileDone | reconcileIncomplete | reconcileUnreachable

fun severity :: "reconcileResult \<Rightarrow> nat" where
  "severity reconcileDone = 0"
| "severity reconcileIncomplete = 1"
| "severity reconcileUnreachable = 2"

lemma severity_inj: "severity a = severity b \<Longrightarrow> a = b"
  by (cases a; cases b) auto

instantiation reconcileResult :: linorder
begin

definition less_eq_reconcileResult :: "reconcileResult \<Rightarrow> reconcileResult \<Rightarrow> bool" where
  "less_eq_reconcileResult a b = (severity a \<le> severity b)"

definition less_reconcileResult :: "reconcileResult \<Rightarrow> reconcileResult \<Rightarrow> bool" where
  "less_reconcileResult a b = (severity a < severity b)"

instance
  by standard (auto simp: less_eq_reconcileResult_def less_reconcileResult_def intro: severity_inj)

end

fun reconcileResult_String :: "reconcileResult \<Rightarrow> string" where
  "reconcileResult_String reconcileDone = ''done''"
| "reconcileResult_String reconcileIncomplete = ''incomplete''"
| "reconcileResult_String reconcileUnreachable = ''its daemon unreachable''"

definition reconcileFailed :: "err \<Rightarrow> reconcileResult" where
  "reconcileFailed e = (if isTransportError e then reconcileUnreachable else reconcileIncomplete)"

definition reconcileParallelism :: nat where "reconcileParallelism = 4"

record orphanRun =
  orTodo :: "string list"
  orPending :: "string option" \<comment> \<open>taken by the loop, waiting for a slot\<close>
  orRunning :: "string list"
  orRemoved :: "string list"
  orWorst :: reconcileResult
  orStopped :: bool \<comment> \<open>the loop broke off\<close>

text \<open>
  A move of the loop (its test, with what \<open>w.gone()\<close> answers; taking a slot) or of one of
  the goroutines (finishing the \<open>k\<close>-th of those in flight). A move that is not possible
  changes nothing.
\<close>

datatype orphanMove = LoopTest bool | TakeSlot | Finish nat

definition finishRemoval :: "(string \<Rightarrow> err option) \<Rightarrow> string \<Rightarrow> orphanRun \<Rightarrow> orphanRun" where
  "finishRemoval ans name s =
     (case ans name of
        Some e \<Rightarrow> if \<not> errors_Is e NotFound then s\<lparr>orWorst := max (orWorst s) (reconcileFailed e)\<rparr>
                  else s\<lparr>orRemoved := name # orRemoved s\<rparr>
      | None \<Rightarrow> s\<lparr>orRemoved := name # orRemoved s\<rparr>)"

fun orphanStep :: "(string \<Rightarrow> err option) \<Rightarrow> orphanMove \<Rightarrow> orphanRun \<Rightarrow> orphanRun" where
  "orphanStep ans (LoopTest isGone) s =
     (if orStopped s \<or> orPending s \<noteq> None then s
      else (case orTodo s of
              [] \<Rightarrow> s
            | name # rest \<Rightarrow>
                if isGone \<or> orWorst s = reconcileUnreachable then s\<lparr>orStopped := True\<rparr>
                else s\<lparr>orTodo := rest, orPending := Some name\<rparr>))"
| "orphanStep ans TakeSlot s =
     (case orPending s of
        None \<Rightarrow> s
      | Some name \<Rightarrow>
          if length (orRunning s) < reconcileParallelism
          then s\<lparr>orPending := None, orRunning := orRunning s @ [name]\<rparr> else s)"
| "orphanStep ans (Finish k) s =
     (if k < length (orRunning s)
      then finishRemoval ans (orRunning s ! k)
             (s\<lparr>orRunning := take k (orRunning s) @ drop (Suc k) (orRunning s)\<rparr>)
      else s)"

text \<open>What is left after a schedule is finished in order.\<close>

definition orphanFinal :: "orphanRun \<Rightarrow> bool" where
  "orphanFinal s = ((orTodo s = [] \<or> orStopped s) \<and> orPending s = None \<and> orRunning s = [])"

definition nextMove :: "orphanRun \<Rightarrow> orphanMove" where
  "nextMove s =
     (if orRunning s \<noteq> [] then Finish 0
      else if orPending s \<noteq> None then TakeSlot
      else LoopTest False)"

definition orphanWork :: "orphanRun \<Rightarrow> nat" where
  "orphanWork s = (if orStopped s then 0 else 3 * length (orTodo s) + (if orTodo s = [] then 0 else 1))
     + (if orPending s = None then 0 else 2) + length (orRunning s)"

lemma finishRemoval_frame [simp]:
  "orTodo (finishRemoval ans n s) = orTodo s" "orPending (finishRemoval ans n s) = orPending s"
  "orRunning (finishRemoval ans n s) = orRunning s" "orStopped (finishRemoval ans n s) = orStopped s"
  by (simp_all add: finishRemoval_def split: option.split)

lemma nextMove_progress: "\<not> orphanFinal s \<Longrightarrow> orphanWork (orphanStep ans (nextMove s) s) < orphanWork s"
  by (auto simp: orphanFinal_def nextMove_def orphanWork_def reconcileParallelism_def
      split: list.splits option.splits)

function drain :: "(string \<Rightarrow> err option) \<Rightarrow> orphanRun \<Rightarrow> orphanRun" where
  "drain ans s = (if orphanFinal s then s else drain ans (orphanStep ans (nextMove s) s))"
  by pat_completeness auto
termination
  by (relation "measure (\<lambda>(ans, s). orphanWork s)") (auto simp: nextMove_progress)

declare drain.simps [simp del]

definition removeOrphans ::
    "(string \<Rightarrow> err option) \<Rightarrow> orphanMove list \<Rightarrow> string list \<Rightarrow> string list \<times> reconcileResult" where
  "removeOrphans ans moves names =
     (let s = drain ans (fold (orphanStep ans) moves
                \<lparr>orTodo = names, orPending = None, orRunning = [], orRemoved = [], orWorst = reconcileDone,
                 orStopped = False\<rparr>)
      in (orRemoved s, orWorst s))"

section \<open>A reconcile pass\<close>

record daemonAnswers =
  daContainers :: "err + containerSummary list"
  daNetworks :: "err + string list"
  daRemoveContainer :: "string \<Rightarrow> err option"
  daRemoveNetwork :: "string \<Rightarrow> err option"

definition ignoreConflict :: "err option \<Rightarrow> err option" where
  "ignoreConflict r = (case r of Some e \<Rightarrow> if errors_Is e Conflict then None else Some e | None \<Rightarrow> None)"

record reconcilePass =
  rpResult :: reconcileResult
  rpContainers :: "string list" \<comment> \<open>containers removed\<close>
  rpNetworks :: "string list" \<comment> \<open>networks removed\<close>

text \<open>The end of the pass, once the orphans are known: containers first, then networks.\<close>

definition removeLeftovers ::
    "daemonAnswers \<Rightarrow> orphanMove list \<Rightarrow> orphanMove list \<Rightarrow> string list \<times> string list \<Rightarrow> reconcilePass" where
  "removeLeftovers a moves1 moves2 orphansFound =
     (case orphansFound of (orphanContainers, orphanNetworks) \<Rightarrow>
       if orphanContainers = [] \<and> orphanNetworks = []
       then \<lparr>rpResult = reconcileDone, rpContainers = [], rpNetworks = []\<rparr>
       else
         (case removeOrphans (\<lambda>c. ignoreConflict (daRemoveContainer a c)) moves1 orphanContainers of
            (removedContainers, result) \<Rightarrow>
              if result = reconcileUnreachable
              then \<lparr>rpResult = result, rpContainers = removedContainers, rpNetworks = []\<rparr>
              else
                (case removeOrphans (daRemoveNetwork a) moves2 orphanNetworks of
                   (removedNetworks, netResult) \<Rightarrow>
                     \<lparr>rpResult = max result netResult, rpContainers = removedContainers,
                      rpNetworks = removedNetworks\<rparr>)))"

definition reconcileWorker ::
    "daemonAnswers \<Rightarrow> orphanMove list \<Rightarrow> orphanMove list \<Rightarrow> string \<Rightarrow> reconcilePass mio" where
  "reconcileWorker a moves1 moves2 wip m =
     (case daContainers a of
        Inl e \<Rightarrow> (Inr \<lparr>rpResult = reconcileFailed e, rpContainers = [], rpNetworks = []\<rparr>, m)
      | Inr cs \<Rightarrow>
          (case daNetworks a of
             Inl e \<Rightarrow> (Inr \<lparr>rpResult = reconcileFailed e, rpContainers = [], rpNetworks = []\<rparr>, m)
           | Inr ns \<Rightarrow>
               (case query (\<lambda>d. map iId (filter (\<lambda>r. iWorker r = wip) (instances d))) m of
                  (Inl e, m') \<Rightarrow> (Inr \<lparr>rpResult = reconcileIncomplete, rpContainers = [], rpNetworks = []\<rparr>, m')
                | (Inr ids, m') \<Rightarrow>
                    (Inr (removeLeftovers a moves1 moves2 (findOrphans cs ns (\<lambda>iid. iid \<in> set ids))), m'))))"

definition reclaimAfterGC :: "(workerConn \<Rightarrow> reconcilePass mio) \<Rightarrow> string list \<Rightarrow> unit mio" where
  "reclaimAfterGC pass ips =
     for_each ips (\<lambda>i.
       bnd (gets (\<lambda>m. workers m i)) (\<lambda>found.
       (case found of
          None \<Rightarrow> ret ()
        | Some w \<Rightarrow>
            if reachable w \<noteq> workerReachableOk then ret ()
            else bnd (pass w) (\<lambda>_. ret ()))))"

section \<open>Retrying the pass\<close>

datatype reconcileOutcome = reconcileAbandoned | reconcileReady | reconcileEjected

text \<open>
  One attempt: what the pass reports, what \<open>w.gone()\<close> answers after it, the clock at the
  deadline test, and whether the wait ended because the connection's done channel was closed.
\<close>

record attempt =
  atResult :: reconcileResult
  atGone :: bool
  atNow :: timestamp
  atDone :: bool

fun reconcileLoop :: "timestamp \<Rightarrow> attempt list \<Rightarrow> workerConn \<Rightarrow> (reconcileOutcome \<times> workerConn) option" where
  "reconcileLoop deadline [] w = None"
| "reconcileLoop deadline (a # as) w =
     (if atGone a then Some (reconcileAbandoned, w)
      else if atResult a = reconcileDone then Some (reconcileReady, w)
      else if deadline \<le> atNow a then
        (if atResult a = reconcileUnreachable
         then Some (reconcileEjected,
                eject (atNow a) w ''its daemon did not answer while the worker was being reconciled'')
         else Some (reconcileReady, w))
      else if atDone a then Some (reconcileAbandoned, w)
      else reconcileLoop deadline as w)"

definition reconcileWithRetries ::
    "timestamp \<Rightarrow> duration \<Rightarrow> attempt list \<Rightarrow> workerConn \<Rightarrow> (reconcileOutcome \<times> workerConn) option" where
  "reconcileWithRetries start budget attempts w = reconcileLoop (start + budget) attempts w"

text \<open>
  \<open>runWorker\<close> up to where it hands over to the poller: whether the connection is polled, and
  the connection it leaves.
\<close>

definition runWorker :: "workerTiming \<Rightarrow> timestamp \<Rightarrow> attempt list \<Rightarrow> timestamp \<Rightarrow> workerConn \<Rightarrow> (bool \<times> workerConn) option" where
  "runWorker t start attempts now w =
     (case reconcileWithRetries start (wrap64 (maxMisses t * pollInterval t)) attempts w of
        None \<Rightarrow> None
      | Some (reconcileReady, w') \<Rightarrow> Some (True, reconcileReadyStep now w')
      | Some (reconcileEjected, w') \<Rightarrow> Some (True, w')
      | Some (reconcileAbandoned, w') \<Rightarrow> Some (False, w'))"

section \<open>Facts about attribution\<close>

lemma networkInstance_getNetworkName: "0 \<le> iid \<Longrightarrow> iid < 2 ^ 63 \<Longrightarrow> networkInstance (getNetworkName iid) = Some iid"
  using atoi_show_nat [of "nat iid"]
  by (simp add: networkInstance_def getNetworkName_def show_int_def)

lemma networkInstance_Some:
  assumes "networkInstance name = Some iid"
  shows "\<exists>ds. name = networkPrefix @ ds \<and> ds \<noteq> [] \<and> list_all is_digit ds \<and> iid = int (digits_val ds)"
proof -
  obtain ds where ds: "name = networkPrefix @ ds" "ds \<noteq> []" "list_all is_digit ds" "atoi ds = Some iid"
    using assms by (auto simp: networkInstance_def cutPrefix_Some_iff split: option.splits if_splits)
  obtain c cs where c: "ds = c # cs" "is_digit c" using ds(2,3) by (cases ds) auto
  then have "c \<noteq> CHR ''-''" "c \<noteq> CHR ''+''" by (auto simp: is_digit_def)
  then have "iid = int (digits_val ds)"
    using ds(3,4) c by (auto simp: atoi_def parse_digits_def Let_def split: if_splits)
  with ds show ?thesis by blast
qed

lemma firstInstance_mem: "firstInstance names = Some iid \<Longrightarrow> \<exists>n\<in>set names. networkInstance n = Some iid"
  by (induction names) (auto split: option.splits)

section \<open>Facts about removals\<close>

text \<open>
  What holds at every point of a run over \<open>names\<close>: each is still to do, in flight, removed,
  or was refused and the worst result shows it; and at most four are in flight.
\<close>

definition in_hand :: "orphanRun \<Rightarrow> string set" where
  "in_hand s = set (orTodo s) \<union> set_option (orPending s) \<union> set (orRunning s) \<union> set (orRemoved s)"

definition refused :: "(string \<Rightarrow> err option) \<Rightarrow> string \<Rightarrow> reconcileResult \<Rightarrow> bool" where
  "refused ans n r \<longleftrightarrow> (\<exists>e. ans n = Some e \<and> \<not> errors_Is e NotFound \<and> reconcileFailed e = r)"

definition orphan_inv :: "(string \<Rightarrow> err option) \<Rightarrow> string list \<Rightarrow> orphanRun \<Rightarrow> bool" where
  "orphan_inv ans names s \<longleftrightarrow>
     in_hand s \<subseteq> set names \<and>
     (\<forall>n\<in>set names. n \<in> in_hand s \<or> (\<exists>r. refused ans n r \<and> r \<le> orWorst s)) \<and>
     (orWorst s = reconcileDone \<or> (\<exists>n\<in>set names. refused ans n (orWorst s))) \<and>
     length (orRunning s) \<le> reconcileParallelism"

lemma done_least [simp]: "reconcileDone \<le> r" "max reconcileDone r = r" "max r reconcileDone = r"
  by (cases r; simp add: less_eq_reconcileResult_def max_def)+

lemma unreachable_greatest [simp]: "r \<le> reconcileUnreachable"
  by (cases r) (simp_all add: less_eq_reconcileResult_def)

lemma reconcileFailed_not_done [simp]: "reconcileFailed e \<noteq> reconcileDone" "reconcileDone \<noteq> reconcileFailed e"
  by (simp_all add: reconcileFailed_def)

lemma finish_inv:
  assumes inv: "orphan_inv ans names s" and k: "k < length (orRunning s)"
  shows "orphan_inv ans names (orphanStep ans (Finish k) s)"
proof -
  let ?n = "orRunning s ! k" and ?r = "take k (orRunning s) @ drop (Suc k) (orRunning s)"
  have split: "orRunning s = take k (orRunning s) @ ?n # drop (Suc k) (orRunning s)"
    using k by (simp add: id_take_nth_drop)
  have run: "set (orRunning s) = insert ?n (set ?r)" by (subst split) auto
  have n: "?n \<in> set names" using inv run by (auto simp: orphan_inv_def in_hand_def)
  have len: "length ?r \<le> reconcileParallelism" using inv k by (auto simp: orphan_inv_def)
  show ?thesis
  proof (cases "ans ?n = None \<or> (\<exists>e. ans ?n = Some e \<and> errors_Is e NotFound)")
    case True
    then have "orphanStep ans (Finish k) s = s\<lparr>orRunning := ?r, orRemoved := ?n # orRemoved s\<rparr>"
      using k by (auto simp: finishRemoval_def)
    moreover have "in_hand (s\<lparr>orRunning := ?r, orRemoved := ?n # orRemoved s\<rparr>) = in_hand s"
      using run by (auto simp: in_hand_def)
    ultimately show ?thesis using inv len by (simp add: orphan_inv_def)
  next
    case False
    then obtain e where e: "ans ?n = Some e" "\<not> errors_Is e NotFound" by auto
    let ?s = "s\<lparr>orRunning := ?r, orWorst := max (orWorst s) (reconcileFailed e)\<rparr>"
    have step: "orphanStep ans (Finish k) s = ?s" using e k by (simp add: finishRemoval_def)
    have sub: "in_hand s \<subseteq> insert ?n (in_hand ?s)" "in_hand ?s \<subseteq> in_hand s"
      using run by (auto simp: in_hand_def)
    have bad: "refused ans ?n (reconcileFailed e)" using e by (simp add: refused_def)
    have "m \<in> in_hand ?s \<or> (\<exists>r. refused ans m r \<and> r \<le> orWorst ?s)" if "m \<in> set names" for m
    proof (cases "m = ?n")
      case True
      with bad show ?thesis by auto
    next
      case False
      with that inv sub(1) show ?thesis by (fastforce simp: orphan_inv_def le_max_iff_disj)
    qed
    moreover have "orWorst ?s = reconcileDone \<or> (\<exists>m\<in>set names. refused ans m (orWorst ?s))"
      using inv bad n by (auto simp: orphan_inv_def max_def)
    ultimately show ?thesis unfolding step
      using inv sub(2) len by (simp add: orphan_inv_def) blast
  qed
qed

lemma orphanStep_inv: "orphan_inv ans names s \<Longrightarrow> orphan_inv ans names (orphanStep ans mv s)"
proof (cases mv)
  case (Finish k)
  assume "orphan_inv ans names s"
  then show ?thesis using finish_inv Finish by (cases "k < length (orRunning s)") simp_all
next
  case (LoopTest g)
  assume "orphan_inv ans names s"
  then show ?thesis using LoopTest
    by (cases "orTodo s") (auto simp: orphan_inv_def in_hand_def)
next
  case TakeSlot
  assume "orphan_inv ans names s"
  then show ?thesis using TakeSlot
    by (cases "orPending s") (auto simp: orphan_inv_def in_hand_def reconcileParallelism_def)
qed

interpretation orphans: event_system "orphanStep ans" "orphan_inv ans names" for ans names
  by unfold_locales (rule orphanStep_inv)

definition stopped_why :: "orphanRun \<Rightarrow> bool" where
  "stopped_why s \<longleftrightarrow> (orStopped s \<longrightarrow> orWorst s = reconcileUnreachable)"

lemma stopped_why_step: "mv \<noteq> LoopTest True \<Longrightarrow> stopped_why s \<Longrightarrow> stopped_why (orphanStep ans mv s)"
  by (cases mv) (auto simp: stopped_why_def finishRemoval_def max_def antisym split: option.splits list.splits)

lemma drain_keeps:
  assumes "Q s" "\<And>mv s. mv \<noteq> LoopTest True \<Longrightarrow> Q s \<Longrightarrow> Q (orphanStep ans mv s)"
  shows "Q (drain ans s)"
  using assms
proof (induction ans s rule: drain.induct)
  case (1 ans s)
  have "nextMove s \<noteq> LoopTest True" by (simp add: nextMove_def)
  with 1 show ?case by (subst drain.simps) simp
qed

lemma drain_final: "orphanFinal (drain ans s)"
  by (induction ans s rule: drain.induct) (subst drain.simps, simp)

lemma removeOrphans_facts:
  assumes "removeOrphans ans moves names = (rem, res)"
  shows "set rem \<subseteq> set names"
    and "res = reconcileDone \<or> (\<exists>n\<in>set names. refused ans n res)"
    and "LoopTest True \<notin> set moves \<Longrightarrow> res \<noteq> reconcileUnreachable \<Longrightarrow> n \<in> set names \<Longrightarrow>
         n \<in> set rem \<or> (\<exists>r. refused ans n r \<and> r \<le> res)"
proof -
  let ?s0 = "\<lparr>orTodo = names, orPending = None, orRunning = [], orRemoved = [], orWorst = reconcileDone,
      orStopped = False\<rparr>"
  let ?s1 = "fold (orphanStep ans) moves ?s0"
  define s where "s = drain ans ?s1"
  have rr: "rem = orRemoved s" "res = orWorst s" using assms by (auto simp: removeOrphans_def Let_def s_def)
  have "orphan_inv ans names ?s0" by (simp add: orphan_inv_def in_hand_def reconcileParallelism_def)
  then have "orphan_inv ans names ?s1" by (rule orphans.run_inv)
  then have inv: "orphan_inv ans names s" unfolding s_def by (rule drain_keeps) (rule orphanStep_inv)
  then show "set rem \<subseteq> set names" "res = reconcileDone \<or> (\<exists>n\<in>set names. refused ans n res)"
    by (auto simp: rr orphan_inv_def in_hand_def)
  show "n \<in> set rem \<or> (\<exists>r. refused ans n r \<and> r \<le> res)"
    if "LoopTest True \<notin> set moves" "res \<noteq> reconcileUnreachable" "n \<in> set names"
  proof -
    have "stopped_why (fold (orphanStep ans) ms t)" if "LoopTest True \<notin> set ms" "stopped_why t" for ms t
      using that by (induction ms arbitrary: t) (auto simp: stopped_why_step [OF not_sym])
    then have "stopped_why ?s1" using that(1) by (simp add: stopped_why_def)
    then have "stopped_why s" unfolding s_def by (rule drain_keeps) (rule stopped_why_step)
    moreover have "orphanFinal s" unfolding s_def by (rule drain_final)
    ultimately have "in_hand s = set (orRemoved s)"
      using that(2) rr by (auto simp: stopped_why_def orphanFinal_def in_hand_def)
    then show ?thesis using inv that(3) rr by (auto simp: orphan_inv_def)
  qed
qed

definition recorded :: "manager \<Rightarrow> string \<Rightarrow> int \<Rightarrow> bool" where
  "recorded m wip iid \<longleftrightarrow> (\<exists>r\<in>set (instances (db m)). iId r = iid \<and> iWorker r = wip)"

lemma reconcileWorker_cases:
  assumes "reconcileWorker a moves1 moves2 wip m = (Inr p, m')"
  obtains "rpContainers p = []" "rpNetworks p = []" "rpResult p \<noteq> reconcileDone"
  | cs ns where "daContainers a = Inr cs" "daNetworks a = Inr ns"
      "p = removeLeftovers a moves1 moves2 (findOrphans cs ns (recorded m wip))"
proof (cases "daContainers a")
  case (Inr cs)
  note c = this
  show ?thesis
  proof (cases "daNetworks a")
    case (Inr ns)
    let ?q = "query (\<lambda>d. map iId (filter (\<lambda>r. iWorker r = wip) (instances d))) m"
    obtain r m1 where q: "?q = (r, m1)" by fastforce
    show ?thesis
    proof (cases r)
      case (Inl e)
      with assms c Inr q show ?thesis by (intro that(1)) (auto simp: reconcileWorker_def)
    next
      case (Inr ids)
      then have ids: "ids = map iId (filter (\<lambda>r. iWorker r = wip) (instances (db m)))"
        using q by (auto simp: query_def sql_def split: list.splits option.splits)
      then have "(\<lambda>iid. iid \<in> set ids) = recorded m wip" by (auto simp: recorded_def fun_eq_iff)
      then show ?thesis
        using assms c \<open>daNetworks a = Inr ns\<close> q Inr by (intro that(2)) (auto simp: reconcileWorker_def)
    qed
  qed (use assms c in \<open>auto intro!: that(1) simp: reconcileWorker_def\<close>)
qed (use assms in \<open>auto intro!: that(1) simp: reconcileWorker_def\<close>)

lemma removeLeftovers_subset:
  "set (rpContainers (removeLeftovers a moves1 moves2 (oc, on))) \<subseteq> set oc"
  "set (rpNetworks (removeLeftovers a moves1 moves2 (oc, on))) \<subseteq> set on"
  by (auto simp: removeLeftovers_def dest: removeOrphans_facts(1) split: prod.splits if_splits)

lemma max_done: "max a b = reconcileDone \<longleftrightarrow> a = reconcileDone \<and> b = reconcileDone"
  by (cases a; cases b) (simp_all add: max_def less_eq_reconcileResult_def)

lemma not_refused_done: "refused ans n r \<Longrightarrow> r \<le> reconcileDone \<Longrightarrow> False"
  by (cases r) (auto simp: refused_def less_eq_reconcileResult_def)

lemma removeOrphans_done:
  assumes "removeOrphans ans moves names = (rem, reconcileDone)" "LoopTest True \<notin> set moves"
  shows "set rem = set names"
  using removeOrphans_facts(1) [OF assms(1)] removeOrphans_facts(3) [OF assms(1,2)] not_refused_done by blast

lemma removeLeftovers_complete:
  assumes "rpResult (removeLeftovers a moves1 moves2 (oc, on)) = reconcileDone"
    and "LoopTest True \<notin> set moves1" "LoopTest True \<notin> set moves2"
  shows "set (rpContainers (removeLeftovers a moves1 moves2 (oc, on))) = set oc \<and>
         set (rpNetworks (removeLeftovers a moves1 moves2 (oc, on))) = set on"
proof -
  obtain rc res where c: "removeOrphans (\<lambda>c. ignoreConflict (daRemoveContainer a c)) moves1 oc = (rc, res)" by fastforce
  obtain rn nres where n: "removeOrphans (daRemoveNetwork a) moves2 on = (rn, nres)" by fastforce
  show ?thesis
    using assms(1) c n removeOrphans_done [OF _ assms(2)] removeOrphans_done [OF _ assms(3)]
    by (auto simp: removeLeftovers_def max_done split: if_splits)
qed

section \<open>Properties\<close>

text \<open>
  C3. Reconciling never destroys a recorded instance. Whatever the daemon lists and answers, in
  whatever order its removals finish and at whatever point the connection is replaced, every
  container a pass removes was listed, is attached to a network \<open>cmgr-<id>\<close>, and the
  instance \<open>id\<close> has no row on that worker; the same holds of every network it removes.
\<close>

theorem reconcile_spares_recorded:
  assumes "fst (reconcileWorker a moves1 moves2 wip m) = Inr p"
  shows "(\<forall>cid\<in>set (rpContainers p). \<exists>cs c names n iid. daContainers a = Inr cs \<and> c \<in> set cs \<and> csID c = cid \<and>
            csNetworks c = Some names \<and> n \<in> set names \<and> networkInstance n = Some iid \<and>
            \<not> (\<exists>r\<in>set (instances (db m)). iId r = iid \<and> iWorker r = wip)) \<and>
         (\<forall>n\<in>set (rpNetworks p). \<exists>iid. networkInstance n = Some iid \<and>
            \<not> (\<exists>r\<in>set (instances (db m)). iId r = iid \<and> iWorker r = wip))"
proof (rule reconcileWorker_cases [OF prod_eqI, of a moves1 moves2 wip m p "snd (reconcileWorker a moves1 moves2 wip m)"])
  fix cs ns
  assume cs: "daContainers a = Inr cs" and p: "p = removeLeftovers a moves1 moves2 (findOrphans cs ns (recorded m wip))"
  obtain oc on where f: "findOrphans cs ns (recorded m wip) = (oc, on)" by fastforce
  have "\<exists>c names n iid. c \<in> set cs \<and> csID c = cid \<and> csNetworks c = Some names \<and> n \<in> set names \<and>
      networkInstance n = Some iid \<and> \<not> recorded m wip iid" if "cid \<in> set oc" for cid
    using f that firstInstance_mem
    by (fastforce simp: findOrphans_def containerInstance_def split: option.splits)
  moreover have "\<exists>iid. networkInstance n = Some iid \<and> \<not> recorded m wip iid" if "n \<in> set on" for n
    using f that by (auto simp: findOrphans_def split: option.splits)
  moreover have "set (rpContainers p) \<subseteq> set oc" "set (rpNetworks p) \<subseteq> set on"
    using removeLeftovers_subset [of a moves1 moves2 oc on] p f by simp_all
  ultimately show ?thesis using cs unfolding recorded_def by blast
qed (use assms in simp_all)

text \<open>
  A pass that reports done has done it. If the connection was not replaced meanwhile and the
  pass reports \<open>reconcileDone\<close>, then every listed container attributed to an instance with
  no row on the worker was removed, and so was every listed network of such an instance.
\<close>

theorem reconcile_done_complete:
  assumes "fst (reconcileWorker a moves1 moves2 wip m) = Inr p" and "rpResult p = reconcileDone"
    and "LoopTest True \<notin> set moves1" and "LoopTest True \<notin> set moves2"
  shows "\<exists>cs ns. daContainers a = Inr cs \<and> daNetworks a = Inr ns \<and>
           (\<forall>c\<in>set cs. \<forall>iid. containerInstance c = Some iid \<and>
              \<not> (\<exists>r\<in>set (instances (db m)). iId r = iid \<and> iWorker r = wip) \<longrightarrow> csID c \<in> set (rpContainers p)) \<and>
           (\<forall>n\<in>set ns. \<forall>iid. networkInstance n = Some iid \<and>
              \<not> (\<exists>r\<in>set (instances (db m)). iId r = iid \<and> iWorker r = wip) \<longrightarrow> n \<in> set (rpNetworks p))"
proof (rule reconcileWorker_cases [OF prod_eqI, of a moves1 moves2 wip m p "snd (reconcileWorker a moves1 moves2 wip m)"])
  fix cs ns
  assume cs: "daContainers a = Inr cs" "daNetworks a = Inr ns"
    and p: "p = removeLeftovers a moves1 moves2 (findOrphans cs ns (recorded m wip))"
  obtain oc on where f: "findOrphans cs ns (recorded m wip) = (oc, on)" by fastforce
  have rem: "set (rpContainers p) = set oc" "set (rpNetworks p) = set on"
    using removeLeftovers_complete [OF _ assms(3,4)] assms(2) p f by simp_all
  have "csID c \<in> set oc" if "c \<in> set cs" "containerInstance c = Some iid" "\<not> recorded m wip iid" for c iid
    using f that by (auto simp: findOrphans_def)
  moreover have "n \<in> set on" if "n \<in> set ns" "networkInstance n = Some iid" "\<not> recorded m wip iid" for n iid
    using f that by (auto simp: findOrphans_def)
  ultimately show ?thesis unfolding recorded_def using cs rem by metis
qed (use assms(1,2) in simp_all)

definition example_answers :: daemonAnswers where
  "example_answers = \<lparr>daContainers = Inr [\<lparr>csID = ''c1'', csNetworks = Some [''bridge'', ''cmgr-7'']\<rparr>,
      \<lparr>csID = ''c2'', csNetworks = Some [''cmgr-8'']\<rparr>, \<lparr>csID = ''c3'', csNetworks = None\<rparr>],
     daNetworks = Inr [''cmgr-7'', ''cmgr-8'', ''my-cmgr-9''],
     daRemoveContainer = (\<lambda>_. None), daRemoveNetwork = (\<lambda>_. None)\<rparr>"

definition example_manager :: manager where
  "example_manager = freshManager\<lparr>db := emptyDatabase\<lparr>instances :=
     [\<lparr>iId = 8, iBuild = 1, iWorker = ''w'', iFinalized = True, iLastSolved = 0, iCreated = Some 0\<rparr>]\<rparr>\<rparr>"

lemma example_pass:
  "fst (reconcileWorker example_answers [LoopTest False, TakeSlot] [] ''w'' example_manager) =
     Inr \<lparr>rpResult = reconcileDone, rpContainers = [''c1''], rpNetworks = [''cmgr-7'']\<rparr>"
  by code_simp

theorem reconcile_spares_recorded_witness:
  "\<exists>cs c names n iid. daContainers example_answers = Inr cs \<and> c \<in> set cs \<and> csID c = ''c1'' \<and>
     csNetworks c = Some names \<and> n \<in> set names \<and> networkInstance n = Some iid \<and>
     \<not> (\<exists>r\<in>set (instances (db example_manager)). iId r = iid \<and> iWorker r = ''w'')"
  using reconcile_spares_recorded [OF example_pass] by simp

theorem reconcile_done_complete_witness:
  "containerInstance \<lparr>csID = ''c1'', csNetworks = Some [''bridge'', ''cmgr-7'']\<rparr> = Some 7 \<and>
   (\<exists>cs ns. daContainers example_answers = Inr cs \<and> daNetworks example_answers = Inr ns \<and>
     (\<forall>n\<in>set ns. \<forall>iid. networkInstance n = Some iid \<and>
        \<not> (\<exists>r\<in>set (instances (db example_manager)). iId r = iid \<and> iWorker r = ''w'') \<longrightarrow> n \<in> {''cmgr-7''}))"
proof
  show "containerInstance \<lparr>csID = ''c1'', csNetworks = Some [''bridge'', ''cmgr-7'']\<rparr> = Some 7" by code_simp
qed (use reconcile_done_complete [OF example_pass] in auto)

lemma reconcileLoop_ready:
  "reconcileLoop deadline as w = Some (reconcileReady, w') \<Longrightarrow>
   w' = w \<and> (\<exists>a\<in>set as. \<not> atGone a \<and>
     (atResult a = reconcileDone \<or> atResult a = reconcileIncomplete \<and> deadline \<le> atNow a))"
  by (induction as) (auto split: if_splits, (metis reconcileResult.exhaust)+)

lemma reconcileLoop_other:
  "reconcileLoop deadline as w = Some (oc, w') \<Longrightarrow> oc \<noteq> reconcileReady \<Longrightarrow>
   (oc = reconcileAbandoned \<and> w' = w) \<or> (oc = reconcileEjected \<and>
     (\<exists>a\<in>set as. atResult a = reconcileUnreachable \<and> deadline \<le> atNow a \<and>
       w' = eject (atNow a) w ''its daemon did not answer while the worker was being reconciled''))"
  by (induction as) (auto split: if_splits)

lemma reconcileLoop_returns: "a \<in> set as \<Longrightarrow> deadline \<le> atNow a \<Longrightarrow> \<exists>r. reconcileLoop deadline as w = Some r"
  by (induction as) auto

text \<open>
  A worker is admitted to placement only by a reconcile pass. From a fresh connection,
  \<open>runWorker\<close> leaves it answering only if a pass reported done, or the time allowed for
  retries (\<open>maxMisses\<close> polls) had passed and the last pass had at least reached the daemon.
  And it does decide: once the clock of some attempt has passed the deadline, it has returned.
\<close>

theorem runWorker_admits_after_reconcile:
  assumes "reachable w = workerUnresponsive"
    and "deadline = start + wrap64 (maxMisses t * pollInterval t)"
  shows "(\<forall>polled w'. runWorker t start attempts now w = Some (polled, w') \<and> reachable w' = workerReachableOk \<longrightarrow>
            polled \<and> reconciled w' \<and>
            (\<exists>a\<in>set attempts. \<not> atGone a \<and>
              (atResult a = reconcileDone \<or> atResult a = reconcileIncomplete \<and> deadline \<le> atNow a))) \<and>
         ((\<exists>a\<in>set attempts. deadline \<le> atNow a) \<longrightarrow> runWorker t start attempts now w \<noteq> None)"
proof (intro conjI allI impI)
  fix polled w'
  assume r: "runWorker t start attempts now w = Some (polled, w') \<and> reachable w' = workerReachableOk"
  then obtain oc w1 where l: "reconcileLoop deadline attempts w = Some (oc, w1)"
    by (auto simp: runWorker_def reconcileWithRetries_def assms(2) split: option.splits)
  have oc: "oc = reconcileReady"
    using r l reconcileLoop_other [OF l] assms
    by (cases oc) (auto simp: runWorker_def reconcileWithRetries_def eject_reachable)
  then have w': "polled" "w' = reconcileReadyStep now w1"
    using r l by (auto simp: runWorker_def reconcileWithRetries_def assms(2))
  show "polled" by (rule w')
  have "reconciled (fst (setReachable now (w1\<lparr>reconciled := True\<rparr>) workerReachableOk ''''))"
    by (simp add: setReachable_def close_unreachCh_def Let_def)
  then show "reconciled w'" using w'(2) by (simp add: reconcileReadyStep_def)
  show "\<exists>a\<in>set attempts. \<not> atGone a \<and>
      (atResult a = reconcileDone \<or> atResult a = reconcileIncomplete \<and> deadline \<le> atNow a)"
    using reconcileLoop_ready l oc by blast
next
  assume "\<exists>a\<in>set attempts. deadline \<le> atNow a"
  then obtain oc w1 where "reconcileLoop deadline attempts w = Some (oc, w1)"
    using reconcileLoop_returns by fastforce
  then show "runWorker t start attempts now w \<noteq> None"
    by (cases oc) (simp_all add: runWorker_def reconcileWithRetries_def assms(2))
qed

theorem runWorker_admits_after_reconcile_witness:
  "runWorker defaultWorkerTiming 0
     [\<lparr>atResult = reconcileUnreachable, atGone = False, atNow = 10 ^ 13, atDone = False\<rparr>] 5
     (fresh_conn\<lparr>reachable := workerUnresponsive\<rparr>) \<noteq> None"
proof -
  have "0 + wrap64 (maxMisses defaultWorkerTiming * pollInterval defaultWorkerTiming) \<le> 10 ^ 13" by code_simp
  then show ?thesis
    using runWorker_admits_after_reconcile [where w = "fresh_conn\<lparr>reachable := workerUnresponsive\<rparr>" and
      t = defaultWorkerTiming and start = 0 and now = 5 and
      attempts = "[\<lparr>atResult = reconcileUnreachable, atGone = False, atNow = 10 ^ 13, atDone = False\<rparr>]", OF _ refl]
    by simp
qed

text \<open>
  A network name leads back to its instance, and to no other: parsing the name made for a
  non-negative instance id returns that id, so different instances never share a network name, and
  every name that parses is the prefix followed by decimal digits of that value.
\<close>

theorem network_name_roundtrip:
  "(\<forall>iid. 0 \<le> iid \<and> iid < 2 ^ 63 \<longrightarrow> networkInstance (getNetworkName iid) = Some iid) \<and>
   (\<forall>name iid. networkInstance name = Some iid \<longrightarrow>
      (\<exists>ds. name = networkPrefix @ ds \<and> ds \<noteq> [] \<and> list_all is_digit ds \<and> iid = int (digits_val ds)))"
  using networkInstance_getNetworkName networkInstance_Some by blast

theorem network_name_roundtrip_witness:
  "networkInstance (getNetworkName 42) = Some 42 \<and> getNetworkName 42 = ''cmgr-42''"
proof
  show "networkInstance (getNetworkName 42) = Some 42" using network_name_roundtrip by simp
qed code_simp

end
