(* ===== verification/Launch_Slots.thy ===== *)
theory Launch_Slots
  imports Worker_Reconcile
begin

text \<open>
  The slots of a daemon (\<open>src/cork/launch.go\<close>, \<open>daemonQueue\<close> of
  \<open>src/cork/workers.go\<close>): admission by expected wait, the running estimate of how long a slot
  is held, and the semaphore launches and teardowns queue on. Admission is modelled on Go's
  int64 arithmetic. Queueing is modelled as an interleaving: any number of launches, each a
  small program of atomic steps, move in any order while the worker may come and go.
\<close>

section \<open>Limits\<close>

record launchLimits =
  llSlotWait :: duration
  llPullTimeout :: duration
  llImagesEnsured :: bool
  llRestart :: bool

definition restartPullTimeout :: duration where
  "restartPullTimeout = 5 * minute"

definition requestLimits :: "manager \<Rightarrow> launchLimits" where
  "requestLimits m = \<lparr>llSlotWait = launchWait (timing m), llPullTimeout = pullTimeout (timing m),
     llImagesEnsured = False, llRestart = False\<rparr>"

definition restartLimits :: "manager \<Rightarrow> launchLimits" where
  "restartLimits m = \<lparr>llSlotWait = 0, llPullTimeout = max restartPullTimeout (pullTimeout (timing m)),
     llImagesEnsured = False, llRestart = True\<rparr>"

definition transportTimeout :: "manager \<Rightarrow> duration" where
  "transportTimeout m = max (llPullTimeout (restartLimits m)) (controlTimeout (timing m))"

definition envSlots :: "string option \<Rightarrow> int \<Rightarrow> int" where
  "envSlots setting def =
     (case setting of
        None \<Rightarrow> def
      | Some s \<Rightarrow> (case atoi s of
                    None \<Rightarrow> def
                  | Some n \<Rightarrow> if n < 1 \<or> n > 16 then def else n))"

section \<open>Admission\<close>

definition recordHold :: "duration \<Rightarrow> daemonQueue \<Rightarrow> daemonQueue" where
  "recordHold d q =
     (let old = holdNanos q in
      if old = 0 then q\<lparr>holdNanos := d\<rparr>
      else q\<lparr>holdNanos := wrap64 (go_div (wrap64 (old * 3)) 4 + go_div d 4)\<rparr>)"

definition expectedWait :: "daemonQueue \<Rightarrow> duration \<times> int" where
  "expectedWait q =
     (let hold = holdNanos q;
          ahead = waiting q + int (launchHeld q);
          n = int (slotCap q)
      in if hold = 0 \<or> ahead < n then (0, waiting q)
         else (go_div (wrap64 (hold * (ahead - n + 1))) n, waiting q))"

text \<open>The queue of the daemon an instance is on; \<open>workerDaemon\<close> also gives the worker's public name.\<close>

definition workerDaemon :: "manager \<Rightarrow> string \<Rightarrow> daemonQueue \<times> string" where
  "workerDaemon m worker =
     (if worker = '''' then (localQueue m, '''')
      else (case workers m worker of
              Some w \<Rightarrow> (queues m (cli w), public w)
            | None \<Rightarrow> (localQueue m, '''')))"

definition daemonQueue_of :: "manager \<Rightarrow> string \<Rightarrow> daemonQueue" where
  "daemonQueue_of m worker =
     (if worker = '''' then localQueue m
      else (case workers m worker of
              Some w \<Rightarrow> queues m (cli w)
            | None \<Rightarrow> localQueue m))"

definition daemonLabel :: "string \<Rightarrow> string" where
  "daemonLabel worker = (if worker = '''' then ''the local daemon'' else ''worker '' @ worker)"

definition admit :: "manager \<Rightarrow> string \<Rightarrow> launchLimits \<Rightarrow> err option" where
  "admit m worker limits =
     (if llSlotWait limits \<le> 0 then None
      else if fst (expectedWait (daemonQueue_of m worker)) \<le> llSlotWait limits then None
      else Some [ErrWorkerBusy])"

definition launchFailure :: "manager \<Rightarrow> string \<Rightarrow> err option \<Rightarrow> err option" where
  "launchFailure m worker failure =
     (case failure of
        None \<Rightarrow> None
      | Some e \<Rightarrow>
          if worker = '''' \<or> errors_Is e ErrWorkerUnreachable then Some e
          else if workerUnreachable m worker then Some [ErrWorkerUnreachable]
          else if errors_Is e DeadlineExceeded \<and> \<not> errors_Is e ErrWorkerBusy then Some [ErrWorkerBusy]
          else Some e)"

section \<open>Queueing\<close>

text \<open>
  Where one launch stands in \<open>acquireLaunchSlot\<close>, \<open>acquireSlot\<close> and the release:
  before \<open>waiting.Add(1)\<close>; before the first reachability test; in the select; with the slot,
  before the second test; with an error or the slot, before \<open>waiting.Add(-1)\<close>; holding the
  slot; between giving it back and \<open>recordHold\<close>; done.
\<close>

datatype slotPc =
    SlIdle | SlCounted | SlSelecting | SlGot | SlRefused err | SlWon | SlHolding | SlReleased
  | SlFailed err | SlFinished

record slotSystem =
  ssQueue :: daemonQueue
  ssUnreachable :: bool \<comment> \<open>what workerUnreachable answers now\<close>
  ssClosed :: bool \<comment> \<open>the worker's unreachable channel is closed\<close>
  ssPcs :: "slotPc list"

datatype slotMove =
    SlAdd nat | SlCheck nat | SlSlot nat | SlUnreach nat | SlExpire nat | SlRecheck nat | SlSub nat
  | SlRelease nat | SlRecord nat duration
  | SlWorld bool bool \<comment> \<open>the worker's reachability changes\<close>

definition slot_at :: "slotSystem \<Rightarrow> nat \<Rightarrow> slotPc option" where
  "slot_at s i = (if i < length (ssPcs s) then Some (ssPcs s ! i) else None)"

definition slot_goto :: "nat \<Rightarrow> slotPc \<Rightarrow> slotSystem \<Rightarrow> slotSystem" where
  "slot_goto i pc s = s\<lparr>ssPcs := (ssPcs s)[i := pc]\<rparr>"

definition slot_queue :: "(daemonQueue \<Rightarrow> daemonQueue) \<Rightarrow> slotSystem \<Rightarrow> slotSystem" where
  "slot_queue f s = s\<lparr>ssQueue := f (ssQueue s)\<rparr>"

text \<open>\<open>bounded\<close> says whether the wait has a timer. A move that is not possible changes nothing.\<close>

fun slotStep :: "bool \<Rightarrow> slotMove \<Rightarrow> slotSystem \<Rightarrow> slotSystem" where
  "slotStep bounded (SlAdd i) s =
     (if slot_at s i = Some SlIdle
      then slot_goto i SlCounted (slot_queue (\<lambda>q. q\<lparr>waiting := waiting q + 1\<rparr>) s) else s)"
| "slotStep bounded (SlCheck i) s =
     (if slot_at s i = Some SlCounted
      then slot_goto i (if ssUnreachable s then SlRefused [ErrWorkerUnreachable] else SlSelecting) s else s)"
| "slotStep bounded (SlSlot i) s =
     (if slot_at s i = Some SlSelecting \<and> launchHeld (ssQueue s) < slotCap (ssQueue s)
      then slot_goto i SlGot (slot_queue (\<lambda>q. q\<lparr>launchHeld := launchHeld q + 1\<rparr>) s) else s)"
| "slotStep bounded (SlUnreach i) s =
     (if slot_at s i = Some SlSelecting \<and> ssClosed s
      then slot_goto i (SlRefused [ErrWorkerUnreachable]) s else s)"
| "slotStep bounded (SlExpire i) s =
     (if slot_at s i = Some SlSelecting \<and> bounded then slot_goto i (SlRefused [ErrWorkerBusy]) s else s)"
| "slotStep bounded (SlRecheck i) s =
     (if slot_at s i = Some SlGot
      then (if ssUnreachable s
            then slot_goto i (SlRefused [ErrWorkerUnreachable])
                   (slot_queue (\<lambda>q. q\<lparr>launchHeld := launchHeld q - 1\<rparr>) s)
            else slot_goto i SlWon s)
      else s)"
| "slotStep bounded (SlSub i) s =
     (case slot_at s i of
        Some (SlRefused e) \<Rightarrow> slot_goto i (SlFailed e) (slot_queue (\<lambda>q. q\<lparr>waiting := waiting q - 1\<rparr>) s)
      | Some SlWon \<Rightarrow> slot_goto i SlHolding (slot_queue (\<lambda>q. q\<lparr>waiting := waiting q - 1\<rparr>) s)
      | _ \<Rightarrow> s)"
| "slotStep bounded (SlRelease i) s =
     (if slot_at s i = Some SlHolding
      then slot_goto i SlReleased (slot_queue (\<lambda>q. q\<lparr>launchHeld := launchHeld q - 1\<rparr>) s) else s)"
| "slotStep bounded (SlRecord i d) s =
     (if slot_at s i = Some SlReleased then slot_goto i SlFinished (slot_queue (recordHold d) s) else s)"
| "slotStep bounded (SlWorld u c) s = s\<lparr>ssUnreachable := u, ssClosed := c\<rparr>"

section \<open>Facts about queueing\<close>

fun owns_slot :: "slotPc \<Rightarrow> bool" where
  "owns_slot SlGot = True" | "owns_slot SlWon = True" | "owns_slot SlHolding = True" | "owns_slot _ = False"

fun is_counted :: "slotPc \<Rightarrow> bool" where
  "is_counted SlCounted = True" | "is_counted SlSelecting = True" | "is_counted SlGot = True"
| "is_counted (SlRefused e) = True" | "is_counted SlWon = True" | "is_counted _ = False"

fun is_over :: "slotPc \<Rightarrow> bool" where
  "is_over (SlFailed e) = True" | "is_over SlFinished = True" | "is_over _ = False"

definition slot_inv :: "nat \<Rightarrow> slotSystem \<Rightarrow> bool" where
  "slot_inv c s \<longleftrightarrow>
     slotCap (ssQueue s) = c \<and> launchHeld (ssQueue s) \<le> c \<and>
     launchHeld (ssQueue s) = length (filter owns_slot (ssPcs s)) \<and>
     waiting (ssQueue s) = int (length (filter is_counted (ssPcs s)))"

lemma filter_update_count:
  "i < length xs \<Longrightarrow>
   length (filter P (xs[i := v])) + (if P (xs ! i) then 1 else 0) = length (filter P xs) + (if P v then 1 else 0)"
proof (induction xs arbitrary: i)
  case (Cons x xs)
  then show ?case by (cases i) auto
qed simp

lemma slot_atD: "slot_at s i = Some pc \<Longrightarrow> i < length (ssPcs s) \<and> ssPcs s ! i = pc"
  by (simp add: slot_at_def split: if_splits)

text \<open>One launch moves on; the counters follow.\<close>

lemma slot_inv_move:
  assumes inv: "slot_inv c s" and at: "slot_at s i = Some pc"
    and q: "slotCap (f (ssQueue s)) = slotCap (ssQueue s)"
      "launchHeld (f (ssQueue s)) + (if owns_slot pc then 1 else 0) = launchHeld (ssQueue s) + (if owns_slot pc' then 1 else 0)"
      "waiting (f (ssQueue s)) + (if is_counted pc then 1 else 0) = waiting (ssQueue s) + (if is_counted pc' then 1 else 0)"
      "launchHeld (f (ssQueue s)) \<le> c"
  shows "slot_inv c (slot_goto i pc' (slot_queue f s))"
  using inv q filter_update_count [of i "ssPcs s" owns_slot pc'] filter_update_count [of i "ssPcs s" is_counted pc']
    slot_atD [OF at]
  by (auto simp: slot_inv_def slot_goto_def slot_queue_def split: if_splits)

lemma slot_inv_goto:
  assumes "slot_inv c s" "slot_at s i = Some pc" "owns_slot pc' = owns_slot pc" "is_counted pc' = is_counted pc"
  shows "slot_inv c (slot_goto i pc' s)"
proof -
  have "slot_queue (\<lambda>q. q) s = s" by (simp add: slot_queue_def)
  then show ?thesis using slot_inv_move [of c s i pc "\<lambda>q. q" pc'] assms by (simp add: slot_inv_def)
qed

lemma slot_inv_held: "slot_inv c s \<Longrightarrow> slot_at s i = Some pc \<Longrightarrow> owns_slot pc \<Longrightarrow> 0 < launchHeld (ssQueue s)"
  by (auto simp: slot_inv_def dest!: slot_atD intro!: filter_False) (metis filter_empty_conv length_greater_0_conv nth_mem)

lemma recordHold_frame [simp]:
  "slotCap (recordHold d q) = slotCap q" "launchHeld (recordHold d q) = launchHeld q" "waiting (recordHold d q) = waiting q"
  by (simp_all add: recordHold_def Let_def)

lemma slotStep_inv: "slot_inv c s \<Longrightarrow> slot_inv c (slotStep b mv s)"
proof (cases mv)
  case (SlSub i)
  assume inv: "slot_inv c s"
  show ?thesis
  proof (cases "slot_at s i")
    case (Some pc)
    let ?f = "\<lambda>q. q\<lparr>waiting := waiting q - 1\<rparr>"
    have "launchHeld (ssQueue s) \<le> c" using inv by (simp add: slot_inv_def)
    then show ?thesis
      using inv SlSub Some slot_inv_move [OF inv Some, of ?f SlHolding] slot_inv_move [OF inv Some, of ?f "SlFailed e" for e]
      by (cases pc) simp_all
  qed (use inv SlSub in simp)
next
  case (SlRecheck i)
  assume inv: "slot_inv c s"
  show ?thesis
  proof (cases "slot_at s i = Some SlGot")
    case True
    have "slot_inv c (slot_goto i (SlRefused [ErrWorkerUnreachable])
                   (slot_queue (\<lambda>q. q\<lparr>launchHeld := launchHeld q - 1\<rparr>) s))"
      using slot_inv_held [OF inv True] inv by (intro slot_inv_move [OF inv True]) (auto simp: slot_inv_def)
    then show ?thesis using SlRecheck True inv by (simp add: slot_inv_goto)
  qed (use inv SlRecheck in simp)
next
  case (SlRelease i)
  assume inv: "slot_inv c s"
  show ?thesis
  proof (cases "slot_at s i = Some SlHolding")
    case True
    have "slot_inv c (slot_goto i SlReleased (slot_queue (\<lambda>q. q\<lparr>launchHeld := launchHeld q - 1\<rparr>) s))"
      using slot_inv_held [OF inv True] inv by (intro slot_inv_move [OF inv True]) (auto simp: slot_inv_def)
    then show ?thesis using SlRelease True by simp
  qed (use inv SlRelease in simp)
next
  case (SlRecord i d)
  assume inv: "slot_inv c s"
  then show ?thesis using SlRecord slot_inv_move [OF inv, of i SlReleased "recordHold d" SlFinished]
    by (auto simp: slot_inv_def)
next
  case (SlAdd i)
  assume inv: "slot_inv c s"
  then show ?thesis using SlAdd slot_inv_move [OF inv, of i SlIdle "\<lambda>q. q\<lparr>waiting := waiting q + 1\<rparr>" SlCounted]
    by (auto simp: slot_inv_def)
next
  case (SlSlot i)
  assume inv: "slot_inv c s"
  then show ?thesis using SlSlot slot_inv_move [OF inv, of i SlSelecting "\<lambda>q. q\<lparr>launchHeld := launchHeld q + 1\<rparr>" SlGot]
    by (auto simp: slot_inv_def)
qed (auto simp: slot_inv_goto, simp add: slot_inv_def)

interpretation slots: event_system "slotStep b" "slot_inv c" for b c
  by unfold_locales (rule slotStep_inv)

definition slot_start :: "daemonQueue \<Rightarrow> nat \<Rightarrow> slotSystem" where
  "slot_start q n = \<lparr>ssQueue = q, ssUnreachable = False, ssClosed = False, ssPcs = replicate n SlIdle\<rparr>"

text \<open>How far a launch still has to go.\<close>

fun slot_rank :: "slotPc \<Rightarrow> nat" where
  "slot_rank SlIdle = 7" | "slot_rank SlCounted = 6" | "slot_rank SlSelecting = 5" | "slot_rank SlGot = 4"
| "slot_rank SlWon = 3" | "slot_rank SlHolding = 2" | "slot_rank (SlRefused e) = 1" | "slot_rank SlReleased = 1"
| "slot_rank (SlFailed e) = 0" | "slot_rank SlFinished = 0"

definition slot_work :: "slotSystem \<Rightarrow> nat" where
  "slot_work s = sum_list (map slot_rank (ssPcs s))"

lemma sum_list_update_less:
  fixes f :: "'a \<Rightarrow> nat"
  shows "i < length xs \<Longrightarrow> f v < f (xs ! i) \<Longrightarrow> sum_list (map f (xs[i := v])) < sum_list (map f xs)"
proof (induction xs arbitrary: i)
  case (Cons x xs)
  then show ?case by (cases i) auto
qed simp

lemma slot_work_goto:
  "slot_at s i = Some pc \<Longrightarrow> slot_rank pc' < slot_rank pc \<Longrightarrow> slot_work (slot_goto i pc' (slot_queue f s)) < slot_work s"
  "slot_at s i = Some pc \<Longrightarrow> slot_rank pc' < slot_rank pc \<Longrightarrow> slot_work (slot_goto i pc' s) < slot_work s"
  using sum_list_update_less [of i "ssPcs s" slot_rank pc']
  by (auto simp: slot_work_def slot_goto_def slot_queue_def dest: slot_atD)

text \<open>The move a launch can always make, except in the select while no slot is free.\<close>

fun own_move :: "nat \<Rightarrow> slotPc \<Rightarrow> slotMove" where
  "own_move i SlIdle = SlAdd i" | "own_move i SlCounted = SlCheck i" | "own_move i SlSelecting = SlSlot i"
| "own_move i SlGot = SlRecheck i" | "own_move i (SlRefused e) = SlSub i" | "own_move i SlWon = SlSub i"
| "own_move i SlHolding = SlRelease i" | "own_move i SlReleased = SlRecord i 0"
| "own_move i (SlFailed e) = SlAdd i" | "own_move i SlFinished = SlAdd i"

lemma own_move_progress:
  assumes "slot_at s i = Some pc" "\<not> is_over pc" "pc = SlSelecting \<longrightarrow> launchHeld (ssQueue s) < slotCap (ssQueue s)"
  shows "slot_work (slotStep b (own_move i pc) s) < slot_work s"
  using assms by (cases pc) (auto simp: slot_work_goto)

section \<open>Properties\<close>

text \<open>
  C32. The slots of a daemon bound it and never leak. However many launches queue on a daemon with
  at least one slot, in whatever order their steps interleave, and however the worker's
  reachability changes meanwhile: at most \<open>slotCap\<close> of them hold a slot at any time; once all
  of them have returned, by a launch or by a refusal, no slot is held and none is counted as
  waiting; and as long as one has not returned, some launch can take a step that brings the whole
  nearer its end.
\<close>

theorem launch_slots_sound:
  assumes "slotCap q = c" "0 < c" "launchHeld q = 0" "waiting q = 0"
    and "s = fold (slotStep b) moves (slot_start q n)"
  shows "length (filter owns_slot (ssPcs s)) \<le> c \<and>
         (list_all is_over (ssPcs s) \<longrightarrow> launchHeld (ssQueue s) = 0 \<and> waiting (ssQueue s) = 0) \<and>
         (list_all is_over (ssPcs s) \<or> (\<exists>mv. slot_work (slotStep b mv s) < slot_work s))"
proof -
  have "slot_inv c (slot_start q n)" using assms(1-4) by (simp add: slot_inv_def slot_start_def)
  then have inv: "slot_inv c s" unfolding assms(5) by (rule slots.run_inv)
  have over: "filter owns_slot xs = [] \<and> filter is_counted xs = []" if "list_all is_over xs" for xs
    using that by (induction xs) (auto elim: is_over.elims)
  have "\<exists>mv. slot_work (slotStep b mv s) < slot_work s" if "\<not> list_all is_over (ssPcs s)"
  proof (cases "launchHeld (ssQueue s) < slotCap (ssQueue s)")
    case True
    obtain i where "i < length (ssPcs s)" "\<not> is_over (ssPcs s ! i)" using \<open>\<not> list_all is_over (ssPcs s)\<close>
      by (auto simp: list_all_length)
    then show ?thesis using own_move_progress [of s i "ssPcs s ! i"] True by (auto simp: slot_at_def)
  next
    case False
    then have "filter owns_slot (ssPcs s) \<noteq> []" using inv assms(1,2) by (auto simp: slot_inv_def)
    then obtain i where i: "i < length (ssPcs s)" "owns_slot (ssPcs s ! i)"
      by (auto simp: filter_empty_conv in_set_conv_nth)
    moreover have "\<not> is_over (ssPcs s ! i)" "ssPcs s ! i \<noteq> SlSelecting"
      using i(2) by (cases "ssPcs s ! i"; simp)+
    ultimately have "slot_work (slotStep b (own_move i (ssPcs s ! i)) s) < slot_work s"
      by (intro own_move_progress) (simp_all add: slot_at_def)
    then show ?thesis by blast
  qed
  then show ?thesis using inv over [of "ssPcs s"] by (auto simp: slot_inv_def)
qed

theorem launch_slots_sound_witness:
  "length (filter owns_slot (ssPcs (fold (slotStep True)
     [SlAdd 0, SlAdd 1, SlAdd 2, SlCheck 0, SlCheck 1, SlCheck 2, SlSlot 0, SlSlot 1, SlSlot 2, SlRecheck 0, SlExpire 2]
     (slot_start (newDaemonQueue 2) 3)))) \<le> 2"
  by (rule launch_slots_sound [of "newDaemonQueue 2" 2 _ True _ 3, OF _ _ _ _ refl, THEN conjunct1])
    (simp_all add: newDaemonQueue_def)

text \<open>
  A launch never keeps a slot on a worker known to be unreachable: a launch that is refused
  after it took a slot gives it back in the same step, and a launch that wins its slot saw the
  worker reachable after taking it.
\<close>

theorem slot_recheck:
  assumes "slot_inv c s" and "slot_at s i = Some SlGot"
  shows "(ssUnreachable s \<longrightarrow>
            slot_at (slotStep b (SlRecheck i) s) i = Some (SlRefused [ErrWorkerUnreachable]) \<and>
            Suc (launchHeld (ssQueue (slotStep b (SlRecheck i) s))) = launchHeld (ssQueue s)) \<and>
         (\<not> ssUnreachable s \<longrightarrow> slot_at (slotStep b (SlRecheck i) s) i = Some SlWon)"
  using slot_inv_held [OF assms] slot_atD [OF assms(2)] assms(2)
  by (auto simp: slot_at_def slot_goto_def slot_queue_def)

definition got_slot :: slotSystem where
  "got_slot = \<lparr>ssQueue = (newDaemonQueue 2)\<lparr>launchHeld := 1, waiting := 1\<rparr>, ssUnreachable = True, ssClosed = True,
     ssPcs = [SlGot]\<rparr>"

theorem slot_recheck_witness:
  "slot_at (slotStep True (SlRecheck 0) got_slot) 0 = Some (SlRefused [ErrWorkerUnreachable])"
  using slot_recheck [of 2 got_slot 0 True]
  by (simp add: got_slot_def slot_inv_def slot_at_def newDaemonQueue_def)

lemma recordHold_bounds:
  assumes "0 \<le> holdNanos q" "holdNanos q \<le> B" "0 \<le> d" "d \<le> B" "B \<le> 2 ^ 61"
  shows "0 \<le> holdNanos (recordHold d q) \<and> holdNanos (recordHold d q) \<le> B \<and>
         (holdNanos q \<noteq> 0 \<longrightarrow> holdNanos (recordHold d q) = holdNanos q * 3 div 4 + d div 4)"
proof -
  have w: "wrap64 (holdNanos q * 3) = holdNanos q * 3" using assms by (intro wrap64_id) auto
  have s: "holdNanos q * 3 div 4 + d div 4 \<le> B" using assms by linarith
  have "wrap64 (holdNanos q * 3 div 4 + d div 4) = holdNanos q * 3 div 4 + d div 4"
    using assms s by (intro wrap64_id) auto
  then show ?thesis using assms s w by (simp add: recordHold_def Let_def go_div_nonneg)
qed

lemma recordHolds_bounds:
  "0 \<le> holdNanos q \<Longrightarrow> holdNanos q \<le> B \<Longrightarrow> list_all (\<lambda>d. 0 \<le> d \<and> d \<le> B) ds \<Longrightarrow> B \<le> 2 ^ 61 \<Longrightarrow>
   0 \<le> holdNanos (fold recordHold ds q) \<and> holdNanos (fold recordHold ds q) \<le> B"
proof (induction ds arbitrary: q)
  case (Cons d ds)
  have "0 \<le> holdNanos (recordHold d q) \<and> holdNanos (recordHold d q) \<le> B"
    using recordHold_bounds [of q B d] Cons.prems by simp
  then show ?case using Cons by simp
qed simp

lemma recordHolds_slotCap: "slotCap (fold recordHold ds q) = slotCap q"
  by (induction ds arbitrary: q) simp_all

text \<open>
  Admission refuses exactly when the estimate says the wait would be exceeded, and its
  arithmetic does not overflow. If every hold ever measured lies between 0 and \<open>B\<close> and the
  queue is so short that \<open>B\<close> times its length fits an int64, then the estimate kept is
  between 0 and \<open>B\<close>, a launch with a bounded wait is refused (as busy) iff the launches ahead
  beyond the slots, at the estimated hold and spread over the slots, exceed that wait, and a
  daemon with a free slot and nobody waiting is always open.
\<close>

theorem admit_correct:
  assumes q: "q = (fold recordHold ds (newDaemonQueue n))\<lparr>launchHeld := h, waiting := k\<rparr>"
    and queue: "daemonQueue_of m worker = q" and n: "0 < n" and k: "0 \<le> k"
    and ds: "list_all (\<lambda>d. 0 \<le> d \<and> d \<le> B) ds" "B \<le> 2 ^ 61" "0 \<le> B" "B * (k + int h + 1) < 2 ^ 63"
  shows "0 \<le> holdNanos q \<and> holdNanos q \<le> B \<and>
         (admit m worker limits \<noteq> None \<longleftrightarrow>
            0 < llSlotWait limits \<and> int n \<le> k + int h \<and>
            llSlotWait limits < holdNanos q * (k + int h - int n + 1) div int n) \<and>
         (admit m worker limits \<noteq> None \<longrightarrow> admit m worker limits = Some [ErrWorkerBusy])"
proof -
  have frame: "slotCap q = n" "launchHeld q = h" "waiting q = k"
    using q by (simp_all add: recordHolds_slotCap) (simp add: newDaemonQueue_def)
  have "0 \<le> holdNanos (fold recordHold ds (newDaemonQueue n)) \<and> holdNanos (fold recordHold ds (newDaemonQueue n)) \<le> B"
    using ds by (intro recordHolds_bounds) (simp_all add: newDaemonQueue_def)
  then have hold: "0 \<le> holdNanos q" "holdNanos q \<le> B" by (simp_all add: q)
  show ?thesis
  proof (cases "holdNanos q = 0 \<or> k + int h < int n")
    case True
    then show ?thesis using hold queue frame by (auto simp: admit_def expectedWait_def Let_def)
  next
    case False
    let ?a = "k + int h - int n + 1"
    have "holdNanos q * ?a \<le> B * (k + int h + 1)"
      using False hold n by (intro mult_mono) auto
    then have w: "wrap64 (holdNanos q * ?a) = holdNanos q * ?a"
      using False hold ds(4) by (intro wrap64_id) (auto intro: order_trans [of _ 0])
    have "go_div (holdNanos q * ?a) (int n) = holdNanos q * ?a div int n"
      using False hold n by (intro go_div_nonneg) auto
    then show ?thesis using False hold queue frame w by (auto simp: admit_def expectedWait_def Let_def)
  qed
qed


theorem admit_correct_witness:
  "admit (freshManager\<lparr>localQueue := (fold recordHold [8, 4] (newDaemonQueue 2))\<lparr>launchHeld := 2, waiting := 5\<rparr>\<rparr>) ''''
     \<lparr>llSlotWait = 20, llPullTimeout = 0, llImagesEnsured = False, llRestart = False\<rparr> = Some [ErrWorkerBusy]"
proof -
  let ?q = "(fold recordHold [8, 4] (newDaemonQueue 2))\<lparr>launchHeld := 2, waiting := 5\<rparr>"
  have "holdNanos ?q = 7" by code_simp
  then show ?thesis
    using admit_correct [where ds = "[8, 4]" and n = 2 and h = 2 and k = 5 and B = 8 and
        m = "freshManager\<lparr>localQueue := ?q\<rparr>" and worker = "''''" and
        limits = "\<lparr>llSlotWait = 20, llPullTimeout = 0, llImagesEnsured = False, llRestart = False\<rparr>", OF refl]
    by (simp add: daemonQueue_of_def)
qed

end
