(* ===== verification/Launch_Metrics.thy ===== *)
theory Launch_Metrics
  imports Launch_Slots "HOL-Library.Multiset" "HOL-Library.Sublist"
begin

text \<open>
  Launch metrics (\<open>src/cork/launchmetrics.go\<close>): the ring of recent launch durations of a daemon
  and its quantiles, the timer that splits a launch into stages, the queue and the emitter that
  export a record per operation, and the records themselves. Clock readings are arguments. The
  emitter is a step function on its state, with what it does to the outside as a list of effects.
\<close>

section \<open>Outcomes\<close>

definition launchOK :: string where "launchOK = ''ok''"

definition launchOutcomeOf :: "err option \<Rightarrow> string" where
  "launchOutcomeOf e =
     (case e of
        None \<Rightarrow> launchOK
      | Some e' \<Rightarrow>
          if errors_Is e' ErrAllWorkersOverloaded \<or> errors_Is e' ErrAllWorkersUnresponsive \<or>
             errors_Is e' ErrAllWorkersDown \<or> errors_Is e' ErrNoWorkers then ''no-worker''
          else if errors_Is e' ErrWorkerBusy then ''busy''
          else if errors_Is e' ErrWorkerUnreachable then ''unreachable''
          else if errors_Is e' ErrPullTimeout then ''pull-timeout''
          else ''error'')"

definition launchTriggerRequest :: string where "launchTriggerRequest = ''request''"
definition launchTriggerRestart :: string where "launchTriggerRestart = ''restart''"

section \<open>The ring\<close>

definition launchRingSize :: nat where "launchRingSize = 256"

record launchRing =
  rgBuf :: "duration list"
  rgNext :: nat
  rgFilled :: nat
  rgTotal :: int
  rgFailed :: int

definition newRing :: launchRing where
  "newRing = \<lparr>rgBuf = replicate launchRingSize 0, rgNext = 0, rgFilled = 0, rgTotal = 0, rgFailed = 0\<rparr>"

definition ring_add :: "duration \<Rightarrow> bool \<Rightarrow> launchRing \<Rightarrow> launchRing" where
  "ring_add d ok r0 =
     (let r = r0\<lparr>rgTotal := rgTotal r0 + 1\<rparr> in
      if ok
      then r\<lparr>rgBuf := (rgBuf r)[rgNext r := d], rgNext := (rgNext r + 1) mod launchRingSize,
             rgFilled := (if rgFilled r < launchRingSize then rgFilled r + 1 else rgFilled r)\<rparr>
      else r\<lparr>rgFailed := rgFailed r + 1\<rparr>)"

record LaunchStats =
  lsCount :: int
  lsFailed :: int
  lsSamples :: int
  lsP50Ms :: int
  lsP90Ms :: int
  lsMaxMs :: int

definition Milliseconds :: "duration \<Rightarrow> int" where
  "Milliseconds d = go_div d 1000000"

definition quantileIndex :: "int \<Rightarrow> int \<Rightarrow> int" where
  "quantileIndex n pct =
     (let i = go_div (n * pct + 99) 100;
          i1 = (if i < 1 then 1 else i);
          i2 = (if i1 > n then n else i1)
      in i2 - 1)"

text \<open>\<open>None\<close>: there is no ring.\<close>

definition ring_stats :: "launchRing option \<Rightarrow> LaunchStats" where
  "ring_stats ring =
     (case ring of
        None \<Rightarrow> \<lparr>lsCount = 0, lsFailed = 0, lsSamples = 0, lsP50Ms = 0, lsP90Ms = 0, lsMaxMs = 0\<rparr>
      | Some r \<Rightarrow>
          (let n = rgFilled r;
               sorted = sort (take n (rgBuf r));
               stats = \<lparr>lsCount = rgTotal r, lsFailed = rgFailed r, lsSamples = int n, lsP50Ms = 0, lsP90Ms = 0, lsMaxMs = 0\<rparr>
           in if n = 0 then stats
              else stats\<lparr>lsP50Ms := Milliseconds (sorted ! nat (quantileIndex (int n) 50)),
                         lsP90Ms := Milliseconds (sorted ! nat (quantileIndex (int n) 90)),
                         lsMaxMs := Milliseconds (sorted ! (n - 1))\<rparr>))"

section \<open>Samples\<close>

datatype sampleKind = sampleLaunch | sampleTeardown

record launchSample =
  sKind :: sampleKind
  sWorker :: string
  sWorkerIP :: string
  sChallenge :: string
  sBuild :: int
  sInstance :: int
  sOutcome :: string
  sTotal :: duration
  sImageWait :: duration
  sSlotWait :: duration
  sNetCreate :: duration
  sContainers :: duration
  sCtrCreate :: duration
  sCtrStart :: duration
  sPortRead :: duration
  sFinalize :: duration
  sCtrCount :: int
  sWaiting :: int
  sTeardownsWaiting :: int
  sSlotsBusy :: int
  sPulled :: bool
  sTrigger :: string
  sAt :: timestamp

definition zeroSample :: launchSample where
  "zeroSample = \<lparr>sKind = sampleLaunch, sWorker = '''', sWorkerIP = '''', sChallenge = '''', sBuild = 0, sInstance = 0, sOutcome = '''',
     sTotal = 0, sImageWait = 0, sSlotWait = 0, sNetCreate = 0, sContainers = 0, sCtrCreate = 0, sCtrStart = 0, sPortRead = 0,
     sFinalize = 0, sCtrCount = 0, sWaiting = 0, sTeardownsWaiting = 0, sSlotsBusy = 0, sPulled = False, sTrigger = '''', sAt = 0\<rparr>"

record containerSplits =
  csCreate :: duration
  csStart :: duration
  csPortRead :: duration
  csFinalize :: duration
  csCount :: int

section \<open>Timing a launch\<close>

text \<open>The limits of a launch with what restarting measured before it began.\<close>

record timedLimits = launchLimits +
  llEnsuredImageWait :: duration
  llEnsuredPulled :: bool

record launchTimer =
  ltWorker :: string
  ltLimits :: timedLimits
  ltBegun :: timestamp
  ltMark :: timestamp
  ltSample :: launchSample

definition beginLaunch :: "manager \<Rightarrow> timestamp \<Rightarrow> buildMeta option \<Rightarrow> instanceMeta \<Rightarrow> timedLimits \<Rightarrow> launchTimer" where
  "beginLaunch m now build inst limits =
     (let (q, pub) = workerDaemon m (nWorker inst);
          s1 = zeroSample\<lparr>sWorker := (if pub = '''' then nWorker inst else pub), sWorkerIP := nWorker inst,
                 sTrigger := (if llRestart limits then launchTriggerRestart else launchTriggerRequest), sInstance := nId inst\<rparr>;
          s2 = (case build of None \<Rightarrow> s1 | Some b \<Rightarrow> s1\<lparr>sChallenge := mChallenge b, sBuild := mId b\<rparr>);
          s3 = s2\<lparr>sWaiting := snd (expectedWait q), sSlotsBusy := int (launchHeld q), sTeardownsWaiting := teardownWaiting q\<rparr>
      in \<lparr>ltWorker = nWorker inst, ltLimits = limits, ltBegun = now - llEnsuredImageWait limits, ltMark = now, ltSample = s3\<rparr>)"

definition timer_split :: "timestamp \<Rightarrow> launchTimer \<Rightarrow> duration \<times> launchTimer" where
  "timer_split now t = (now - ltMark t, t\<lparr>ltMark := now\<rparr>)"

definition timer_images :: "timestamp \<Rightarrow> bool \<Rightarrow> launchTimer \<Rightarrow> launchTimer" where
  "timer_images now pulled t =
     (let (d, t1) = timer_split now t;
          s1 = (ltSample t1)\<lparr>sImageWait := d, sPulled := pulled\<rparr>;
          s2 = (if llImagesEnsured (ltLimits t1)
                then s1\<lparr>sImageWait := sImageWait s1 + llEnsuredImageWait (ltLimits t1), sPulled := llEnsuredPulled (ltLimits t1)\<rparr>
                else s1)
      in t1\<lparr>ltSample := s2\<rparr>)"

definition timer_slot :: "timestamp \<Rightarrow> launchTimer \<Rightarrow> launchTimer" where
  "timer_slot now t = (let (d, t1) = timer_split now t in t1\<lparr>ltSample := (ltSample t1)\<lparr>sSlotWait := d\<rparr>\<rparr>)"

definition timer_network :: "timestamp \<Rightarrow> launchTimer \<Rightarrow> launchTimer" where
  "timer_network now t = (let (d, t1) = timer_split now t in t1\<lparr>ltSample := (ltSample t1)\<lparr>sNetCreate := d\<rparr>\<rparr>)"

definition timer_containers :: "timestamp \<Rightarrow> containerSplits \<Rightarrow> launchTimer \<Rightarrow> launchTimer" where
  "timer_containers now cs t =
     (let (d, t1) = timer_split now t in
      t1\<lparr>ltSample := (ltSample t1)\<lparr>sContainers := d, sCtrCreate := csCreate cs, sCtrStart := csStart cs,
            sPortRead := csPortRead cs, sFinalize := csFinalize cs, sCtrCount := csCount cs\<rparr>\<rparr>)"

text \<open>The daemon whose ring a sample belongs in, if it is still there; its queue, and so its ring, goes by the connection.\<close>

definition timer_ring :: "manager \<Rightarrow> launchTimer \<Rightarrow> dockerClient option" where
  "timer_ring m t =
     (if ltWorker t = '''' then Some LocalClient
      else (case workers m (ltWorker t) of None \<Rightarrow> None | Some w \<Rightarrow> Some (WorkerClient (cli w))))"

text \<open>The rings afterwards and the sample handed to the exporter.\<close>

definition timer_finish ::
    "manager \<Rightarrow> timestamp \<Rightarrow> err option \<Rightarrow> launchTimer \<Rightarrow> (dockerClient \<Rightarrow> launchRing) \<Rightarrow> (dockerClient \<Rightarrow> launchRing) \<times> launchSample" where
  "timer_finish m now e t rings =
     (let s = (ltSample t)\<lparr>sTotal := now - ltBegun t, sAt := now, sOutcome := launchOutcomeOf e\<rparr> in
      (case timer_ring m t of
         None \<Rightarrow> rings
       | Some c \<Rightarrow> if llRestart (ltLimits t) then rings else rings(c := ring_add (sTotal s) (sOutcome s = launchOK) (rings c)),
       s))"

record queueDepth =
  qdWaiting :: int
  qdTeardownsWaiting :: int
  qdSlotsBusy :: int

definition recordTeardown ::
    "queueDepth \<Rightarrow> string \<Rightarrow> instanceMeta \<Rightarrow> string \<Rightarrow> duration \<Rightarrow> duration \<Rightarrow> err option \<Rightarrow> timestamp \<Rightarrow> launchSample" where
  "recordTeardown depth pub inst trigger slotWait removal e now =
     zeroSample\<lparr>sKind := sampleTeardown, sWorker := (if pub = '''' then nWorker inst else pub), sWorkerIP := nWorker inst,
       sInstance := nId inst, sOutcome := launchOutcomeOf e, sTrigger := trigger, sSlotWait := slotWait, sTotal := removal, sAt := now,
       sWaiting := qdWaiting depth, sTeardownsWaiting := qdTeardownsWaiting depth, sSlotsBusy := qdSlotsBusy depth\<rparr>"

definition recordUnplaced :: "buildMeta option \<Rightarrow> err option \<Rightarrow> timestamp \<Rightarrow> launchSample" where
  "recordUnplaced build e now =
     (let s = zeroSample\<lparr>sWorker := ''unplaced'', sOutcome := launchOutcomeOf e, sTrigger := launchTriggerRequest, sAt := now\<rparr> in
      (case build of None \<Rightarrow> s | Some b \<Rightarrow> s\<lparr>sChallenge := mChallenge b, sBuild := mId b\<rparr>))"

section \<open>The exporter\<close>

definition emfQueueDepth :: nat where "emfQueueDepth = 1024"
definition emfRedialInterval :: duration where "emfRedialInterval = 30 * second"
definition refusedReportInterval :: duration where "refusedReportInterval = 5 * minute"
definition dropReportInterval :: duration where "dropReportInterval = minute"

record launchMetrics =
  lmQueue :: "launchSample list"
  lmDropped :: int
  lmSent :: int
  lmConn :: bool \<comment> \<open>there is a socket\<close>
  lmNextDial :: "timestamp option" \<comment> \<open>None: the zero time\<close>
  lmRefused :: bool
  lmSinceDial :: nat
  lmEncodeFailed :: bool
  lmReportedDrops :: int
  lmNextDropReport :: "timestamp option"
  lmNextRefusedReport :: "timestamp option"

definition newLaunchMetrics :: "string option \<Rightarrow> launchMetrics option" where
  "newLaunchMetrics endpoint =
     (case endpoint of
        None \<Rightarrow> None
      | Some e \<Rightarrow>
          if e = '''' then None
          else Some \<lparr>lmQueue = [], lmDropped = 0, lmSent = 0, lmConn = False, lmNextDial = None, lmRefused = False, lmSinceDial = 0,
                     lmEncodeFailed = False, lmReportedDrops = 0, lmNextDropReport = None, lmNextRefusedReport = None\<rparr>)"

text \<open>What the emitter does to the outside.\<close>

datatype emitEffect =
    Dialed timestamp
  | Wrote launchSample
  | SaidRefused timestamp
  | SaidAccepting
  | SaidDropped int int
  | SaidUnencodable

definition before :: "timestamp \<Rightarrow> timestamp option \<Rightarrow> bool" where
  "before now z = (case z of None \<Rightarrow> False | Some t \<Rightarrow> now < t)"

definition lm_record :: "launchSample \<Rightarrow> launchMetrics \<Rightarrow> launchMetrics" where
  "lm_record s lm =
     (if length (lmQueue lm) < emfQueueDepth then lm\<lparr>lmQueue := lmQueue lm @ [s]\<rparr>
      else lm\<lparr>lmDropped := lmDropped lm + 1\<rparr>)"

text \<open>
  What happens while one sample is emitted: the readings of the clock in \<open>reportDrops\<close>,
  \<open>socket\<close> and \<open>fail\<close>, whether the sample can be encoded, whether the endpoint can be dialed
  and whether the write succeeds.
\<close>

record emitInput =
  eiDrops :: timestamp
  eiDropsNext :: timestamp
  eiDial :: timestamp
  eiFail :: timestamp
  eiEncodes :: bool
  eiDials :: bool
  eiWrites :: bool

definition reportDrops :: "emitInput \<Rightarrow> launchMetrics \<Rightarrow> launchMetrics \<times> emitEffect list" where
  "reportDrops i lm =
     (if lmDropped lm = lmReportedDrops lm \<or> before (eiDrops i) (lmNextDropReport lm) then (lm, [])
      else (lm\<lparr>lmReportedDrops := lmDropped lm, lmNextDropReport := Some (eiDropsNext i + dropReportInterval)\<rparr>,
            [SaidDropped (lmDropped lm - lmReportedDrops lm) (lmDropped lm)]))"

definition lm_fail :: "timestamp \<Rightarrow> launchMetrics \<Rightarrow> launchMetrics \<times> emitEffect list" where
  "lm_fail now lm0 =
     (let lm = lm0\<lparr>lmConn := False, lmNextDial := Some (now + emfRedialInterval), lmSinceDial := 0\<rparr> in
      if lmRefused lm \<and> before now (lmNextRefusedReport lm) then (lm, [])
      else (lm\<lparr>lmRefused := True, lmNextRefusedReport := Some (now + refusedReportInterval)\<rparr>, [SaidRefused now]))"

definition lm_socket :: "emitInput \<Rightarrow> launchMetrics \<Rightarrow> bool \<times> launchMetrics \<times> emitEffect list" where
  "lm_socket i lm =
     (if lmConn lm then (True, lm, [])
      else if before (eiDial i) (lmNextDial lm) then (False, lm, [])
      else if \<not> eiDials i then (case lm_fail (eiFail i) lm of (lm1, said) \<Rightarrow> (False, lm1, Dialed (eiDial i) # said))
      else (True, lm\<lparr>lmConn := True, lmSinceDial := 0\<rparr>, [Dialed (eiDial i)]))"

definition lm_emit :: "emitInput \<Rightarrow> launchSample \<Rightarrow> launchMetrics \<Rightarrow> launchMetrics \<times> emitEffect list" where
  "lm_emit i s lm =
     (if \<not> eiEncodes i then
        (if lmEncodeFailed lm then (lm, []) else (lm\<lparr>lmEncodeFailed := True\<rparr>, [SaidUnencodable]))
      else
        (case lm_socket i lm of (ready, lm1, dialed) \<Rightarrow>
           if \<not> ready then (lm1, dialed)
           else if \<not> eiWrites i then (case lm_fail (eiFail i) lm1 of (lm2, said) \<Rightarrow> (lm2, dialed @ said))
           else
             (let lm2 = lm1\<lparr>lmSinceDial := lmSinceDial lm1 + 1, lmSent := lmSent lm1 + 1\<rparr> in
              if lmRefused lm2 \<and> 2 \<le> lmSinceDial lm2
              then (lm2\<lparr>lmRefused := False, lmNextRefusedReport := None\<rparr>, dialed @ [Wrote s, SaidAccepting])
              else (lm2, dialed @ [Wrote s]))))"

text \<open>Launches record from any goroutine; the emitter takes the oldest sample off the queue and emits it.\<close>

datatype metricEvent = Record launchSample | Take emitInput

fun metricStep :: "metricEvent \<Rightarrow> launchMetrics \<Rightarrow> launchMetrics \<times> emitEffect list" where
  "metricStep (Record s) lm = (lm_record s lm, [])"
| "metricStep (Take i) lm =
     (case lmQueue lm of
        [] \<Rightarrow> (lm, [])
      | s # rest \<Rightarrow>
          (case reportDrops i (lm\<lparr>lmQueue := rest\<rparr>) of (lm1, drops) \<Rightarrow>
             (case lm_emit i s lm1 of (lm2, emitted) \<Rightarrow> (lm2, drops @ emitted))))"

fun metricRun :: "metricEvent list \<Rightarrow> launchMetrics \<Rightarrow> launchMetrics \<times> emitEffect list" where
  "metricRun [] lm = (lm, [])"
| "metricRun (e # es) lm =
     (case metricStep e lm of (lm1, out) \<Rightarrow> (case metricRun es lm1 of (lm2, out2) \<Rightarrow> (lm2, out @ out2)))"

section \<open>The records\<close>

record emfMetricDirective =
  emNamespace :: string
  emDimensions :: "string list list"
  emMetrics :: "(string \<times> string) list" \<comment> \<open>name and unit\<close>

record emfEvent =
  evTimestamp :: int
  evLogGroup :: string
  evDirectives :: "emfMetricDirective list"
  evWorker :: string
  evWorkerIP :: string
  evLaunchFailed :: int
  evLaunchDuration :: int
  evImageWait :: int
  evSlotWait :: int
  evNetworkCreate :: int
  evContainerStart :: int
  evTeardownFailed :: int
  evTeardownDuration :: int
  evTeardownWait :: int
  evDockerCreate :: int
  evDockerStart :: int
  evPortReadback :: int
  evFinalize :: int
  evOperation :: string
  evOutcome :: string
  evChallenge :: string
  evBuild :: int
  evInstance :: int
  evWaiting :: int
  evSlotsBusy :: int
  evImagePulled :: bool
  evContainerCount :: int
  evTeardownsWaiting :: int
  evTrigger :: string

definition zeroEvent :: emfEvent where
  "zeroEvent = \<lparr>evTimestamp = 0, evLogGroup = '''', evDirectives = [], evWorker = '''', evWorkerIP = '''', evLaunchFailed = 0, evLaunchDuration = 0,
     evImageWait = 0, evSlotWait = 0, evNetworkCreate = 0, evContainerStart = 0, evTeardownFailed = 0, evTeardownDuration = 0, evTeardownWait = 0,
     evDockerCreate = 0, evDockerStart = 0, evPortReadback = 0, evFinalize = 0, evOperation = '''', evOutcome = '''', evChallenge = '''', evBuild = 0,
     evInstance = 0, evWaiting = 0, evSlotsBusy = 0, evImagePulled = False, evContainerCount = 0, evTeardownsWaiting = 0, evTrigger = ''''\<rparr>"

definition perWorkerDimensions :: "string list list" where "perWorkerDimensions = [[''Worker''], []]"
definition fleetDimensions :: "string list list" where "fleetDimensions = [[]]"

definition stageMetrics :: "(string \<times> string) list" where
  "stageMetrics = map (\<lambda>name. (name, ''Milliseconds''))
     [''ImageWait'', ''SlotWait'', ''NetworkCreate'', ''ContainerStart'', ''DockerCreate'', ''DockerStart'', ''PortReadback'', ''Finalize'']"

definition teardownPayload :: "string \<Rightarrow> string \<Rightarrow> launchSample \<Rightarrow> string \<Rightarrow> emfEvent" where
  "teardownPayload logGroup namespace s worker =
     (let metrics = [(''TeardownFailed'', ''Count'')] @
            (if sTrigger s \<noteq> launchTriggerRestart then [(''TeardownWait'', ''Milliseconds'')] else []) @
            (if sOutcome s = launchOK then [(''TeardownDuration'', ''Milliseconds'')] else [])
      in zeroEvent\<lparr>evTimestamp := Milliseconds (sAt s), evLogGroup := logGroup,
           evDirectives := [\<lparr>emNamespace = namespace, emDimensions = perWorkerDimensions, emMetrics = metrics\<rparr>],
           evWorker := worker, evWorkerIP := sWorkerIP s, evOperation := ''teardown'', evTrigger := sTrigger s,
           evTeardownFailed := (if sOutcome s = launchOK then 0 else 1), evTeardownDuration := Milliseconds (sTotal s),
           evTeardownWait := Milliseconds (sSlotWait s), evOutcome := sOutcome s, evInstance := sInstance s, evWaiting := sWaiting s,
           evTeardownsWaiting := sTeardownsWaiting s, evSlotsBusy := sSlotsBusy s\<rparr>)"

definition payload :: "string \<Rightarrow> string \<Rightarrow> launchSample \<Rightarrow> emfEvent" where
  "payload logGroup namespace s =
     (let worker = (if sWorker s = '''' then ''local'' else sWorker s) in
      if sKind s = sampleTeardown then teardownPayload logGroup namespace s worker
      else
        (let headline = [(''LaunchFailed'', ''Count'')] @ (if sOutcome s = launchOK then [(''LaunchDuration'', ''Milliseconds'')] else []);
             directives = [\<lparr>emNamespace = namespace, emDimensions = perWorkerDimensions, emMetrics = headline\<rparr>] @
               (if sOutcome s = launchOK then [\<lparr>emNamespace = namespace, emDimensions = fleetDimensions, emMetrics = stageMetrics\<rparr>] else [])
         in zeroEvent\<lparr>evTimestamp := Milliseconds (sAt s), evLogGroup := logGroup, evDirectives := directives,
              evWorker := worker, evWorkerIP := sWorkerIP s, evOperation := ''launch'', evLaunchFailed := (if sOutcome s = launchOK then 0 else 1),
              evLaunchDuration := Milliseconds (sTotal s), evImageWait := Milliseconds (sImageWait s), evSlotWait := Milliseconds (sSlotWait s),
              evNetworkCreate := Milliseconds (sNetCreate s), evContainerStart := Milliseconds (sContainers s),
              evDockerCreate := Milliseconds (sCtrCreate s), evDockerStart := Milliseconds (sCtrStart s),
              evPortReadback := Milliseconds (sPortRead s), evFinalize := Milliseconds (sFinalize s), evContainerCount := sCtrCount s,
              evTeardownsWaiting := sTeardownsWaiting s, evOutcome := sOutcome s, evChallenge := sChallenge s, evBuild := sBuild s,
              evInstance := sInstance s, evWaiting := sWaiting s, evSlotsBusy := sSlotsBusy s, evImagePulled := sPulled s, evTrigger := sTrigger s\<rparr>))"

text \<open>The members of the object a record is written as: those marked \<open>omitempty\<close> only when they are not empty.\<close>

definition fixedMembers :: "string list" where
  "fixedMembers =
     [''_aws'', ''Worker'', ''LaunchFailed'', ''LaunchDuration'', ''ImageWait'', ''SlotWait'', ''NetworkCreate'', ''ContainerStart'',
      ''TeardownFailed'', ''TeardownDuration'', ''TeardownWait'', ''DockerCreate'', ''DockerStart'', ''PortReadback'', ''Finalize'',
      ''Operation'', ''Outcome'', ''Waiting'', ''SlotsBusy'', ''ImagePulled'', ''ContainerCount'', ''TeardownsWaiting'']"

definition emfMembers :: "emfEvent \<Rightarrow> string list" where
  "emfMembers e =
     fixedMembers @
     (if evWorkerIP e = '''' then [] else [''WorkerIP'']) @ (if evChallenge e = '''' then [] else [''Challenge'']) @
     (if evBuild e = 0 then [] else [''Build'']) @ (if evInstance e = 0 then [] else [''Instance'']) @
     (if evTrigger e = '''' then [] else [''Trigger''])"

section \<open>The ring holds the most recent launches\<close>

definition ringRun :: "(duration \<times> bool) list \<Rightarrow> launchRing" where
  "ringRun history = fold (\<lambda>(d, ok). ring_add d ok) history newRing"

definition successes :: "(duration \<times> bool) list \<Rightarrow> duration list" where
  "successes history = map fst (filter snd history)"

definition recent :: "(duration \<times> bool) list \<Rightarrow> duration list" where
  "recent history = drop (length (successes history) - launchRingSize) (successes history)"

text \<open>The \<open>j\<close>-th success is at place \<open>j mod 256\<close> until 256 more have come.\<close>

definition ring_rep :: "duration list \<Rightarrow> launchRing \<Rightarrow> bool" where
  "ring_rep xs r \<longleftrightarrow> length (rgBuf r) = launchRingSize \<and> rgNext r = length xs mod launchRingSize \<and> rgFilled r = min launchRingSize (length xs) \<and>
     (\<forall>j<length xs. length xs \<le> j + launchRingSize \<longrightarrow> rgBuf r ! (j mod launchRingSize) = xs ! j)"

lemma mod_apart: "j < n \<Longrightarrow> n < j + k \<Longrightarrow> j mod k \<noteq> n mod (k :: nat)"
  by (metis add_diff_cancel_left' less_imp_le_nat mod_eq_dvd_iff_nat nat_dvd_not_less le_add_diff_inverse less_add_eq_less zero_less_diff less_diff_conv2 add.commute)

lemma ring_add_fields:
  "rgBuf (ring_add d ok r) = (if ok then (rgBuf r)[rgNext r := d] else rgBuf r)"
  "rgNext (ring_add d ok r) = (if ok then Suc (rgNext r) mod launchRingSize else rgNext r)"
  "rgFilled (ring_add d ok r) = (if ok \<and> rgFilled r < launchRingSize then Suc (rgFilled r) else rgFilled r)"
  "rgTotal (ring_add d ok r) = rgTotal r + 1" "rgFailed (ring_add d ok r) = (if ok then rgFailed r else rgFailed r + 1)"
  by (simp_all add: ring_add_def Let_def)

lemma ring_rep_success: "ring_rep xs r \<Longrightarrow> ring_rep (xs @ [d]) (ring_add d True r)"
  unfolding ring_rep_def
proof (elim conjE, intro conjI allI impI, goal_cases)
  case (4 j)
  show ?case
  proof (cases "j = length xs")
    case True
    then show ?thesis using 4 by (simp add: ring_add_fields launchRingSize_def)
  next
    case False
    then have j: "j < length xs" using 4 by simp
    moreover have "length xs < j + launchRingSize" using 4 by simp
    ultimately have "j mod launchRingSize \<noteq> length xs mod launchRingSize" by (rule mod_apart)
    then show ?thesis using 4 j by (simp add: ring_add_fields nth_append)
  qed
qed (auto simp: ring_add_fields mod_Suc launchRingSize_def)

lemma ring_rep_failure: "ring_rep xs r \<Longrightarrow> ring_rep xs (ring_add d False r)"
  by (simp add: ring_rep_def ring_add_fields)

lemma ringRun_rep:
  "ring_rep (successes history) (ringRun history) \<and> rgTotal (ringRun history) = int (length history) \<and>
     rgFailed (ringRun history) = int (length (filter (\<lambda>(d, ok). \<not> ok) history))"
proof (induction history rule: rev_induct)
  case Nil
  show ?case by (simp add: ringRun_def successes_def ring_rep_def newRing_def)
next
  case (snoc x history)
  obtain d ok where x: "x = (d, ok)" by fastforce
  have run: "ringRun (history @ [x]) = ring_add d ok (ringRun history)" by (simp add: ringRun_def x)
  show ?case
  proof (cases ok)
    case True
    then have "successes (history @ [x]) = successes history @ [d]" by (simp add: successes_def x)
    then show ?thesis unfolding run using snoc True ring_rep_success [of "successes history" "ringRun history" d] by (simp add: x ring_add_fields)
  next
    case False
    then have "successes (history @ [x]) = successes history" by (simp add: successes_def x)
    then show ?thesis unfolding run using snoc False ring_rep_failure [of "successes history" "ringRun history" d] by (simp add: x ring_add_fields)
  qed
qed

text \<open>The places of a run of consecutive successes are the places of the ring, each once.\<close>

lemma window_places:
  "mset (map (\<lambda>j. j mod width) [n - min width n..<n]) = mset [0..<min width n]"
proof (cases "n \<le> width")
  case True
  then have "map (\<lambda>j. j mod width) [n - min width n..<n] = [0..<n]" by (cases "n = width") (auto intro!: map_idI nth_equalityI)
  then show ?thesis using True by (simp add: min_def)
next
  case False
  let ?f = "\<lambda>j. j mod width" and ?w = "[n - width..<n]"
  have inj: "inj_on ?f (set ?w)"
  proof (rule inj_onI)
    fix i j assume ij: "i \<in> set ?w" "j \<in> set ?w" "i mod width = j mod width"
    then have "i < j + width" "j < i + width" using False by auto
    then show "i = j" using mod_apart [of i j width] mod_apart [of j i width] ij(3) by (cases i j rule: linorder_cases) auto
  qed
  have "?f ` set ?w \<subseteq> {0..<width}" using False by (auto intro!: mod_less_divisor)
  moreover have "card (?f ` set ?w) = width" using False inj by (simp add: card_image)
  ultimately have "?f ` set ?w = {0..<width}" by (intro card_subset_eq) auto
  then have "set (map ?f ?w) = set [0..<width]" by simp
  moreover have "distinct (map ?f ?w)" using inj by (simp add: distinct_map)
  ultimately have "mset (map ?f ?w) = mset [0..<width]" using set_eq_iff_mset_eq_distinct [of "map ?f ?w" "[0..<width]"] distinct_upt by blast
  then show ?thesis using False by simp
qed

lemma ring_contents: "ring_rep xs r \<Longrightarrow> mset (take (rgFilled r) (rgBuf r)) = mset (drop (length xs - launchRingSize) xs)"
proof -
  assume r: "ring_rep xs r"
  let ?n = "length xs" and ?k = "min launchRingSize (length xs)"
  have "take (rgFilled r) (rgBuf r) = map (\<lambda>i. rgBuf r ! i) [0..<?k]"
    using r by (intro nth_equalityI) (auto simp: ring_rep_def)
  then have "mset (take (rgFilled r) (rgBuf r)) = image_mset (\<lambda>i. rgBuf r ! i) (mset [0..<?k])" by simp
  also have "\<dots> = image_mset (\<lambda>i. rgBuf r ! i) (mset (map (\<lambda>j. j mod launchRingSize) [?n - ?k..<?n]))" by (simp only: window_places)
  also have "\<dots> = mset (map (\<lambda>j. rgBuf r ! (j mod launchRingSize)) [?n - ?k..<?n])" by (simp add: image_mset.compositionality comp_def)
  also have "map (\<lambda>j. rgBuf r ! (j mod launchRingSize)) [?n - ?k..<?n] = map (\<lambda>j. xs ! j) [?n - ?k..<?n]"
    using r by (intro map_cong) (auto simp: ring_rep_def)
  also have "map (\<lambda>j. xs ! j) [?n - ?k..<?n] = drop (?n - launchRingSize) xs"
    by (intro nth_equalityI) (auto simp: min_def)
  finally show ?thesis .
qed

section \<open>Quantiles\<close>

lemma quantileIndex_rank:
  assumes "0 < n" "0 < pct" "pct \<le> 100"
  shows "nat (quantileIndex (int n) pct) < n" "pct * int n \<le> 100 * (int (nat (quantileIndex (int n) pct)) + 1)"
    "100 * int (nat (quantileIndex (int n) pct)) < pct * int n"
proof -
  define p where "p = pct * int n"
  have p: "0 < p" "p \<le> 100 * int n" using assms by (simp_all add: p_def)
  then have d: "1 \<le> (p + 99) div 100" "(p + 99) div 100 \<le> int n" by linarith+
  have "quantileIndex (int n) pct = (p + 99) div 100 - 1"
    using p(1) d by (simp add: quantileIndex_def Let_def go_div_nonneg mult.commute p_def)
  then have q: "int (nat (quantileIndex (int n) pct)) = (p + 99) div 100 - 1" using d by simp
  show "nat (quantileIndex (int n) pct) < n" using q d by linarith
  show "pct * int n \<le> 100 * (int (nat (quantileIndex (int n) pct)) + 1)" "100 * int (nat (quantileIndex (int n) pct)) < pct * int n"
    unfolding q p_def [symmetric] using p by presburger+
qed

text \<open>What the value at a percentile is: a sample with so many at or below it, and fewer below it.\<close>

definition percentile :: "int \<Rightarrow> duration list \<Rightarrow> duration \<Rightarrow> bool" where
  "percentile pct xs v \<longleftrightarrow> v \<in> set xs \<and> pct * int (length xs) \<le> 100 * int (length (filter (\<lambda>x. x \<le> v) xs)) \<and>
     100 * int (length (filter (\<lambda>x. x < v) xs)) < pct * int (length xs)"

lemma percentile_mset: "mset xs = mset ys \<Longrightarrow> percentile pct xs v = percentile pct ys v"
proof -
  assume eq: "mset xs = mset ys"
  have "length (filter P xs) = length (filter P ys)" for P using eq by (metis mset_filter size_mset)
  then show ?thesis unfolding percentile_def using mset_eq_setD [OF eq] mset_eq_length [OF eq] by simp
qed

lemma sorted_rank:
  fixes xs :: "int list"
  assumes "sorted xs" "i < length xs"
  shows "Suc i \<le> length (filter (\<lambda>x. x \<le> xs ! i) xs)" "length (filter (\<lambda>x. x < xs ! i) xs) \<le> i"
proof -
  have low: "filter (\<lambda>x. x \<le> xs ! i) (take (Suc i) xs) = take (Suc i) xs"
    using assms by (auto simp: filter_id_conv in_set_conv_nth intro!: sorted_nth_mono)
  have "length (filter (\<lambda>x. x \<le> xs ! i) (take (Suc i) xs)) \<le> length (filter (\<lambda>x. x \<le> xs ! i) xs)"
    by (metis append_take_drop_id filter_append le_add1 length_append)
  then show "Suc i \<le> length (filter (\<lambda>x. x \<le> xs ! i) xs)" unfolding low using assms by simp
  have high: "filter (\<lambda>x. x < xs ! i) (drop i xs) = []"
    using assms by (auto simp: filter_empty_conv in_set_conv_nth not_less intro!: sorted_nth_mono)
  have "length (filter (\<lambda>x. x < xs ! i) xs) = length (filter (\<lambda>x. x < xs ! i) (take i xs)) + length (filter (\<lambda>x. x < xs ! i) (drop i xs))"
    by (metis append_take_drop_id filter_append length_append)
  then show "length (filter (\<lambda>x. x < xs ! i) xs) \<le> i" unfolding high
    using length_filter_le [of "\<lambda>x. x < xs ! i" "take i xs"] by simp
qed

lemma percentile_sorted:
  assumes "xs \<noteq> []" "0 < pct" "pct \<le> 100"
  shows "percentile pct xs (sort xs ! nat (quantileIndex (int (length xs)) pct))"
proof -
  let ?i = "nat (quantileIndex (int (length xs)) pct)" and ?s = "sort xs"
  have n: "0 < length xs" using assms(1) by simp
  note rank = quantileIndex_rank [OF n assms(2,3)]
  have i: "?i < length ?s" using rank(1) assms(1) by simp
  have "100 * (int ?i + 1) \<le> 100 * int (length (filter (\<lambda>x. x \<le> ?s ! ?i) ?s))" using sorted_rank(1) [OF sorted_sort i, folded of_nat_le_iff [where 'a = int]] by (intro mult_left_mono) (simp_all only: of_nat_Suc add.commute zero_le_numeral)
  then have "pct * int (length ?s) \<le> 100 * int (length (filter (\<lambda>x. x \<le> ?s ! ?i) ?s))"
    unfolding length_sort by (rule order_trans [OF rank(2)])
  moreover have "100 * int (length (filter (\<lambda>x. x < ?s ! ?i) ?s)) \<le> 100 * int ?i" using sorted_rank(2) [OF sorted_sort i, folded of_nat_le_iff [where 'a = int]] by (intro mult_left_mono) (simp_all only: zero_le_numeral)
  then have "100 * int (length (filter (\<lambda>x. x < ?s ! ?i) ?s)) < pct * int (length ?s)"
    unfolding length_sort by (rule le_less_trans [OF _ rank(3)])
  ultimately have "percentile pct ?s (?s ! ?i)" using nth_mem [OF i] unfolding percentile_def by blast
  then show ?thesis using percentile_mset [of ?s xs] by simp
qed

text \<open>
  What a worker's launch statistics say. Over any history of launches the counts are all
  launches, those that failed and the successes still in the window of 256; the quantiles are over
  exactly the most recent successes: at least half (nine tenths) of them took no longer, fewer
  took less, and the maximum is theirs.
\<close>

theorem launch_stats_exact:
  "lsCount (ring_stats (Some (ringRun history))) = int (length history) \<and>
   lsFailed (ring_stats (Some (ringRun history))) = int (length (filter (\<lambda>(d, ok). \<not> ok) history)) \<and>
   lsSamples (ring_stats (Some (ringRun history))) = int (length (recent history)) \<and>
   (recent history = [] \<or>
     (\<exists>p50 p90 longest. percentile 50 (recent history) p50 \<and> percentile 90 (recent history) p90 \<and> longest = Max (set (recent history)) \<and>
        lsP50Ms (ring_stats (Some (ringRun history))) = Milliseconds p50 \<and> lsP90Ms (ring_stats (Some (ringRun history))) = Milliseconds p90 \<and>
        lsMaxMs (ring_stats (Some (ringRun history))) = Milliseconds longest))"
proof -
  let ?r = "ringRun history" and ?xs = "recent history"
  have rep: "ring_rep (successes history) ?r" and counts: "rgTotal ?r = int (length history)"
    "rgFailed ?r = int (length (filter (\<lambda>(d, ok). \<not> ok) history))" using ringRun_rep by blast+
  have same: "mset (take (rgFilled ?r) (rgBuf ?r)) = mset ?xs" unfolding recent_def by (rule ring_contents [OF rep])
  have len: "rgFilled ?r = length ?xs" using rep by (auto simp: ring_rep_def recent_def min_def)
  have sorted: "sort (take (rgFilled ?r) (rgBuf ?r)) = sort ?xs" using same by (metis sorted_list_of_multiset_mset)
  have longest: "sort ?xs ! (length ?xs - 1) = Max (set ?xs)" if "?xs \<noteq> []"
  proof (rule Max_eqI [symmetric])
    fix y assume "y \<in> set ?xs"
    then obtain i where "i < length (sort ?xs)" "y = sort ?xs ! i" by (metis in_set_conv_nth set_sort)
    then show "y \<le> sort ?xs ! (length ?xs - 1)" by (auto intro!: sorted_nth_mono)
  next
    have "sort ?xs ! (length ?xs - 1) \<in> set (sort ?xs)" using that by (intro nth_mem) simp
    then show "sort ?xs ! (length ?xs - 1) \<in> set ?xs" by simp
  qed simp
  show ?thesis using counts longest percentile_sorted [of ?xs 50] percentile_sorted [of ?xs 90]
    by (auto simp: ring_stats_def Let_def sorted [unfolded len] len)
qed

section \<open>Exporting\<close>

definition offered :: "metricEvent list \<Rightarrow> launchSample list" where
  "offered es = concat (map (\<lambda>e. case e of Record s \<Rightarrow> [s] | Take _ \<Rightarrow> []) es)"

definition wrote :: "emitEffect list \<Rightarrow> launchSample list" where
  "wrote out = concat (map (\<lambda>x. case x of Wrote s \<Rightarrow> [s] | _ \<Rightarrow> []) out)"

lemma offered_simps [simp]: "offered [] = []" "offered (Record s # es) = s # offered es" "offered (Take i # es) = offered es"
  by (simp_all add: offered_def)

lemma wrote_simps [simp]:
  "wrote [] = []" "wrote (x @ y) = wrote x @ wrote y" "wrote (Wrote s # out) = s # wrote out" "wrote (Dialed t # out) = wrote out"
  "wrote (SaidRefused t # out) = wrote out" "wrote (SaidAccepting # out) = wrote out" "wrote (SaidDropped a b # out) = wrote out"
  "wrote (SaidUnencodable # out) = wrote out"
  by (simp_all add: wrote_def)

text \<open>Emitting one sample leaves the queue alone, and writes that sample or nothing.\<close>

lemma lm_fail_frame: "lm_fail now lm = (lm', out) \<Longrightarrow> lmQueue lm' = lmQueue lm \<and> lmDropped lm' = lmDropped lm \<and> lmSent lm' = lmSent lm \<and> wrote out = []"
  by (auto simp: lm_fail_def Let_def split: if_splits)

lemma lm_socket_frame:
  "lm_socket i lm = (ready, lm', out) \<Longrightarrow> lmQueue lm' = lmQueue lm \<and> lmDropped lm' = lmDropped lm \<and> lmSent lm' = lmSent lm \<and> wrote out = []"
  by (auto simp: lm_socket_def split: if_splits prod.splits dest!: lm_fail_frame)

lemma lm_emit_frame:
  "lm_emit i s lm = (lm', out) \<Longrightarrow> lmQueue lm' = lmQueue lm \<and> lmDropped lm' = lmDropped lm \<and>
    (wrote out = [] \<or> wrote out = [s]) \<and> lmSent lm' = lmSent lm + int (length (wrote out))"
  by (auto simp: lm_emit_def Let_def split: if_splits prod.splits dest!: lm_fail_frame lm_socket_frame)

lemma reportDrops_frame:
  "reportDrops i lm = (lm', out) \<Longrightarrow> lmQueue lm' = lmQueue lm \<and> lmDropped lm' = lmDropped lm \<and> lmSent lm' = lmSent lm \<and> wrote out = []"
  by (auto simp: reportDrops_def split: if_splits)

lemma metricStep_take:
  assumes "lmQueue lm = s # rest" "metricStep (Take i) lm = (lm', out)"
  shows "lmQueue lm' = rest \<and> lmDropped lm' = lmDropped lm \<and> (wrote out = [] \<or> wrote out = [s]) \<and> lmSent lm' = lmSent lm + int (length (wrote out))"
  using assms by (auto split: prod.splits dest!: reportDrops_frame lm_emit_frame)

lemma metricStep_queue:
  assumes "metricStep e lm = (lm', out)" "length (lmQueue lm) \<le> emfQueueDepth"
  shows "length (lmQueue lm') \<le> emfQueueDepth \<and> subseq (wrote out @ lmQueue lm' @ xs) (lmQueue lm @ offered [e] @ xs) \<and>
    lmSent lm' = lmSent lm + int (length (wrote out))"
proof (cases e)
  case (Record s)
  then have "lm' = lm_record s lm" "out = []" using assms(1) by auto
  then show ?thesis using assms(2) Record by (auto simp: lm_record_def intro: list_emb_append_mono)
next
  case (Take i)
  show ?thesis
  proof (cases "lmQueue lm")
    case Nil
    then show ?thesis using assms Take by simp
  next
    case (Cons s queued)
    show ?thesis using metricStep_take [OF Cons assms(1) [unfolded Take]] assms(2) Cons Take by auto
  qed
qed

lemma metricRun_account:
  assumes "metricRun es lm = (lm', out)" "length (lmQueue lm) \<le> emfQueueDepth"
  shows "length (lmQueue lm') \<le> emfQueueDepth \<and> subseq (wrote out @ lmQueue lm') (lmQueue lm @ offered es) \<and>
    lmSent lm' = lmSent lm + int (length (wrote out))"
  using assms
proof (induction es arbitrary: lm out)
  case (Cons e es)
  obtain lm1 out1 where step: "metricStep e lm = (lm1, out1)" by fastforce
  obtain out2 where rest: "metricRun es lm1 = (lm', out2)" "out = out1 @ out2" using Cons.prems(1) step by (auto split: prod.splits)
  note one = metricStep_queue [OF step Cons.prems(2), of "offered es"]
  then have ih: "length (lmQueue lm') \<le> emfQueueDepth" "subseq (wrote out2 @ lmQueue lm') (lmQueue lm1 @ offered es)"
    "lmSent lm' = lmSent lm1 + int (length (wrote out2))" using Cons.IH [OF rest(1)] by blast+
  have "offered (e # es) = offered [e] @ offered es" by (simp add: offered_def)
  moreover have "subseq (wrote out1 @ wrote out2 @ lmQueue lm') (wrote out1 @ lmQueue lm1 @ offered es)" using list_emb_append_mono [OF subseq_order.order_refl ih(2)] .
  ultimately show ?case using one ih rest(2) by (auto intro: subseq_order.trans)
qed simp

text \<open>An endpoint that answers: a sample taken off the queue is written.\<close>

fun answering :: "metricEvent \<Rightarrow> bool" where
  "answering (Record s) = True"
| "answering (Take i) = (eiEncodes i \<and> eiDials i \<and> eiWrites i)"

definition connected :: "launchMetrics \<Rightarrow> bool" where
  "connected lm \<longleftrightarrow> lmConn lm \<or> lmNextDial lm = None"

lemma metricStep_answering:
  assumes "metricStep e lm = (lm', out)" "answering e" "connected lm"
  shows "connected lm' \<and> int (length (lmQueue lm)) + int (length (offered [e])) - (lmDropped lm' - lmDropped lm) =
    int (length (wrote out)) + int (length (lmQueue lm'))"
proof (cases e)
  case (Record s)
  then show ?thesis using assms by (auto simp: lm_record_def connected_def split: if_splits)
next
  case (Take i)
  then show ?thesis using assms
    by (auto simp: lm_emit_def lm_socket_def reportDrops_def connected_def before_def Let_def split: list.splits if_splits prod.splits)
qed

lemma metricRun_answering:
  assumes "metricRun es lm = (lm', out)" "list_all answering es" "connected lm"
  shows "int (length (lmQueue lm)) + int (length (offered es)) - (lmDropped lm' - lmDropped lm) = int (length (wrote out)) + int (length (lmQueue lm'))"
  using assms
proof (induction es arbitrary: lm out)
  case (Cons e es)
  obtain lm1 out1 where step: "metricStep e lm = (lm1, out1)" by fastforce
  obtain out2 where rest: "metricRun es lm1 = (lm', out2)" "out = out1 @ out2" using Cons.prems(1) step by (auto split: prod.splits)
  have one: "connected lm1" "int (length (lmQueue lm)) + int (length (offered [e])) - (lmDropped lm1 - lmDropped lm) =
    int (length (wrote out1)) + int (length (lmQueue lm1))" using metricStep_answering [OF step] Cons.prems(2,3) by auto
  have "offered (e # es) = offered [e] @ offered es" by (simp add: offered_def)
  then show ?case using one(2) Cons.IH [OF rest(1) _ one(1)] Cons.prems(2) rest(2) by simp
qed simp

text \<open>
  The export accounts for its samples. However records and the emitter interleave, what is
  written and then what is still queued are, in order, among the samples recorded, the queue never
  exceeds its depth and the count of samples sent is that of samples written. While the endpoint
  answers, every sample recorded has been written, is queued, or is counted as dropped.
\<close>

theorem launch_metrics_accounted:
  assumes "newLaunchMetrics endpoint = Some lm" "metricRun es lm = (lm', out)"
  shows "subseq (wrote out @ lmQueue lm') (offered es) \<and> length (lmQueue lm') \<le> emfQueueDepth \<and> lmSent lm' = int (length (wrote out)) \<and>
    (list_all answering es \<longrightarrow> int (length (offered es)) = int (length (wrote out)) + int (length (lmQueue lm')) + lmDropped lm')"
proof -
  have fresh: "lmQueue lm = []" "lmDropped lm = 0" "lmSent lm = 0" "connected lm"
    using assms(1) by (auto simp: newLaunchMetrics_def connected_def split: option.splits if_splits)
  show ?thesis using metricRun_account [OF assms(2)] metricRun_answering [OF assms(2) _ fresh(4)] fresh by auto
qed

text \<open>
  What a log and a network see of the emitter: the last dial, and the last complaint of an outage
  that nothing has ended.
\<close>

fun considerate :: "timestamp option \<Rightarrow> timestamp option \<Rightarrow> emitEffect list \<Rightarrow> bool" where
  "considerate dialed complained [] = True"
| "considerate dialed complained (Dialed t # out) =
     ((case dialed of None \<Rightarrow> True | Some t0 \<Rightarrow> t0 + emfRedialInterval \<le> t) \<and> considerate (Some t) complained out)"
| "considerate dialed complained (SaidRefused t # out) =
     ((case complained of None \<Rightarrow> True | Some t0 \<Rightarrow> t0 + refusedReportInterval \<le> t) \<and> considerate dialed (Some t) out)"
| "considerate dialed complained (SaidAccepting # out) = (complained \<noteq> None \<and> considerate dialed None out)"
| "considerate dialed complained (Wrote s # out) = considerate dialed complained out"
| "considerate dialed complained (SaidDropped a b # out) = considerate dialed complained out"
| "considerate dialed complained (SaidUnencodable # out) = considerate dialed complained out"

text \<open>The clock does not run backwards: the readings while one sample is emitted, and from one to the next.\<close>

fun clockRuns :: "timestamp \<Rightarrow> metricEvent list \<Rightarrow> bool" where
  "clockRuns now [] = True"
| "clockRuns now (Record s # es) = clockRuns now es"
| "clockRuns now (Take i # es) = (now \<le> eiDial i \<and> eiDial i \<le> eiFail i \<and> clockRuns (eiFail i) es)"

definition dialing :: "timestamp option \<Rightarrow> timestamp \<Rightarrow> launchMetrics \<Rightarrow> bool" where
  "dialing dialed now lm \<longleftrightarrow>
     (case dialed of
        None \<Rightarrow> \<not> lmConn lm
      | Some t \<Rightarrow> t \<le> now \<and> (lmConn lm \<or> (\<exists>u. lmNextDial lm = Some u \<and> t + emfRedialInterval \<le> u)))"

definition complaining :: "timestamp option \<Rightarrow> launchMetrics \<Rightarrow> bool" where
  "complaining complained lm \<longleftrightarrow>
     (case complained of
        None \<Rightarrow> \<not> lmRefused lm
      | Some t \<Rightarrow> lmRefused lm \<and> (\<exists>u. lmNextRefusedReport lm = Some u \<and> t + refusedReportInterval \<le> u))"

lemma intervals_cong:
  "lmConn lm' = lmConn lm \<Longrightarrow> lmNextDial lm' = lmNextDial lm \<Longrightarrow> dialing dialed now lm' = dialing dialed now lm"
  "lmRefused lm' = lmRefused lm \<Longrightarrow> lmNextRefusedReport lm' = lmNextRefusedReport lm \<Longrightarrow> complaining complained lm' = complaining complained lm"
  by (auto simp: dialing_def complaining_def split: option.splits)

text \<open>A step of the emitter keeps to both intervals, whatever it does next.\<close>

definition keepsTo :: "timestamp option \<Rightarrow> timestamp option \<Rightarrow> timestamp \<Rightarrow> launchMetrics \<times> emitEffect list \<Rightarrow> bool" where
  "keepsTo dialed complained now r \<longleftrightarrow> (\<exists>dialed' complained'. dialing dialed' now (fst r) \<and> complaining complained' (fst r) \<and>
     (\<forall>later. considerate dialed' complained' later \<longrightarrow> considerate dialed complained (snd r @ later)))"

lemma lm_fail_keeps: "d \<le> now \<Longrightarrow> complaining complained lm \<Longrightarrow> keepsTo (Some d) complained now (lm_fail now lm)"
  unfolding keepsTo_def
  by (intro exI [of _ "Some d"] exI [of _ "if snd (lm_fail now lm) = [] then complained else Some now"])
    (auto simp: lm_fail_def Let_def dialing_def complaining_def before_def split: option.splits)

lemma keepsTo_after:
  assumes "keepsTo dialed' complained' now (lm, out)" "\<And>later. considerate dialed' complained' later \<Longrightarrow> considerate dialed complained (first @ later)"
  shows "keepsTo dialed complained now (lm, first @ out)"
  using assms by (auto simp: keepsTo_def)

lemma keepsTo_quiet: "dialing dialed now lm \<Longrightarrow> complaining complained lm \<Longrightarrow> keepsTo dialed complained now (lm, [])"
  by (auto simp: keepsTo_def)

text \<open>Writing on a socket that was dialed.\<close>

definition lm_write :: "emitInput \<Rightarrow> launchSample \<Rightarrow> launchMetrics \<Rightarrow> launchMetrics \<times> emitEffect list" where
  "lm_write i s lm1 =
     (if \<not> eiWrites i then lm_fail (eiFail i) lm1
      else
        (let lm2 = lm1\<lparr>lmSinceDial := lmSinceDial lm1 + 1, lmSent := lmSent lm1 + 1\<rparr> in
         if lmRefused lm2 \<and> 2 \<le> lmSinceDial lm2
         then (lm2\<lparr>lmRefused := False, lmNextRefusedReport := None\<rparr>, [Wrote s, SaidAccepting])
         else (lm2, [Wrote s])))"

lemma lm_write_keeps:
  assumes "d \<le> eiFail i" "lmConn lm" "complaining complained lm"
  shows "keepsTo (Some d) complained (eiFail i) (lm_write i s lm)"
proof (cases "eiWrites i")
  case False
  then show ?thesis using lm_fail_keeps [OF assms(1,3)] by (simp add: lm_write_def)
next
  case True
  let ?up = "lmRefused lm \<and> 1 \<le> lmSinceDial lm"
  show ?thesis unfolding keepsTo_def
    by (rule exI [of _ "Some d"], rule exI [of _ "if ?up then None else complained"])
      (use True assms in \<open>auto simp: lm_write_def Let_def dialing_def complaining_def split: option.splits\<close>)
qed

lemma lm_emit_keeps:
  assumes "dialing dialed now lm" "complaining complained lm" "now \<le> eiDial i" "eiDial i \<le> eiFail i"
  shows "keepsTo dialed complained (eiFail i) (lm_emit i s lm)"
proof -
  have later: "dialing dialed (eiFail i) lm" using assms(1,3,4) by (auto simp: dialing_def split: option.splits)
  consider "\<not> eiEncodes i" | "eiEncodes i" "lmConn lm" | "eiEncodes i" "\<not> lmConn lm" "before (eiDial i) (lmNextDial lm)"
    | "eiEncodes i" "\<not> lmConn lm" "\<not> before (eiDial i) (lmNextDial lm)" by blast
  then show ?thesis
  proof cases
    case 1
    have flagged: "dialing dialed (eiFail i) (lm\<lparr>lmEncodeFailed := True\<rparr>)" "complaining complained (lm\<lparr>lmEncodeFailed := True\<rparr>)"
      using later assms(2) intervals_cong [of "lm\<lparr>lmEncodeFailed := True\<rparr>" lm] by simp_all
    have "keepsTo dialed complained (eiFail i) (lm\<lparr>lmEncodeFailed := True\<rparr>, [SaidUnencodable] @ [])"
      by (rule keepsTo_after [OF keepsTo_quiet [OF flagged]]) simp
    then show ?thesis using 1 keepsTo_quiet [OF later assms(2)] by (simp add: lm_emit_def)
  next
    case 2
    then obtain d where d: "dialed = Some d" "d \<le> eiFail i" using later by (auto simp: dialing_def split: option.splits)
    have "lm_emit i s lm = lm_write i s lm" using 2 by (auto simp: lm_emit_def lm_socket_def lm_write_def Let_def split: prod.split)
    then show ?thesis using lm_write_keeps [OF d(2) 2(2) assms(2)] d(1) by simp
  next
    case 3
    then show ?thesis using later assms(2) by (auto simp: lm_emit_def lm_socket_def intro: keepsTo_quiet)
  next
    case 4
    let ?lm1 = "lm\<lparr>lmConn := True, lmSinceDial := 0\<rparr>" and ?d = "eiDial i"
    let ?r = "if eiDials i then lm_write i s ?lm1 else lm_fail (eiFail i) lm"
    have emit: "lm_emit i s lm = (fst ?r, [Dialed ?d] @ snd ?r)"
      using 4 by (auto simp: lm_emit_def lm_socket_def lm_write_def Let_def split: prod.split)
    have "keepsTo (Some ?d) complained (eiFail i) ?r"
      using lm_write_keeps [of ?d i ?lm1 complained s] lm_fail_keeps [of ?d "eiFail i" complained lm] assms(2,4) intervals_cong(2) [of ?lm1 lm] by simp
    moreover have "considerate dialed complained ([Dialed ?d] @ out)" if "considerate (Some ?d) complained out" for out
      using that assms(1) 4(2,3) by (auto simp: dialing_def before_def split: option.splits)
    ultimately show ?thesis unfolding emit by (intro keepsTo_after [of "Some ?d" complained]) (simp_all only: prod.collapse)
  qed
qed

lemma metricRun_considerate:
  "dialing dialed now lm \<Longrightarrow> complaining complained lm \<Longrightarrow> clockRuns now es \<Longrightarrow> considerate dialed complained (snd (metricRun es lm))"
proof (induction es arbitrary: dialed complained now lm)
  case (Cons e es)
  show ?case
  proof (cases e)
    case (Record s)
    have "dialing dialed now (lm_record s lm)" "complaining complained (lm_record s lm)"
      using Cons.prems(1,2) intervals_cong [of "lm_record s lm" lm] by (simp_all add: lm_record_def)
    then show ?thesis using Cons.IH [of dialed now "lm_record s lm" complained] Cons.prems(3) Record by (auto split: prod.splits)
  next
    case (Take i)
    note clock = Cons.prems(3) [unfolded Take clockRuns.simps]
    show ?thesis
    proof (cases "lmQueue lm")
      case Nil
      have "dialing dialed (eiFail i) lm" using Cons.prems(1) clock by (auto simp: dialing_def split: option.splits)
      then show ?thesis using Cons.IH [OF _ Cons.prems(2)] clock Take Nil by (auto split: prod.splits)
    next
      case (Cons s rest)
      obtain lm1 drops where drops: "reportDrops i (lm\<lparr>lmQueue := rest\<rparr>) = (lm1, drops)" by fastforce
      have same: "dialing dialed now lm1" "complaining complained lm1" and quiet: "considerate dialed complained (drops @ out) = considerate dialed complained out" for out
        using drops Cons.prems(1,2) intervals_cong [of lm1 lm] by (auto simp: reportDrops_def split: if_splits)
      obtain lm2 emitted where emit: "lm_emit i s lm1 = (lm2, emitted)" by fastforce
      from lm_emit_keeps [OF same, of i s] clock emit obtain dialed' complained' where
        next_state: "dialing dialed' (eiFail i) lm2" "complaining complained' lm2"
        and out: "\<And>later. considerate dialed' complained' later \<Longrightarrow> considerate dialed complained (emitted @ later)"
        by (auto simp: keepsTo_def)
      have "snd (metricRun (e # es) lm) = drops @ emitted @ snd (metricRun es lm2)"
        using Take Cons drops emit by (auto split: prod.splits)
      then show ?thesis using quiet out Cons.IH [OF next_state] clock by simp
    qed
  qed
qed simp

text \<open>
  The exporter is considerate. Along any run under a clock that does not run backwards,
  consecutive dials are at least thirty seconds apart, complaints about an endpoint that does not
  answer are at least five minutes apart until it answers again, and that it answers again is
  said only to end such an outage.
\<close>

theorem launch_metrics_considerate:
  assumes "newLaunchMetrics endpoint = Some lm" "clockRuns start es"
  shows "considerate None None (snd (metricRun es lm))"
proof -
  have "dialing None start lm" "complaining None lm"
    using assms(1) by (auto simp: newLaunchMetrics_def dialing_def complaining_def split: option.splits if_splits)
  then show ?thesis using assms(2) by (rule metricRun_considerate)
qed

section \<open>The records\<close>

definition metricNames :: "launchSample \<Rightarrow> string list" where
  "metricNames s =
     (if sKind s = sampleTeardown
      then ''TeardownFailed'' # (if sTrigger s \<noteq> launchTriggerRestart then [''TeardownWait''] else []) @
           (if sOutcome s = launchOK then [''TeardownDuration''] else [])
      else ''LaunchFailed'' # (if sOutcome s = launchOK then ''LaunchDuration'' # map fst stageMetrics else []))"

definition published :: "emfEvent \<Rightarrow> string list" where
  "published ev = concat (map (map fst \<circ> emMetrics) (evDirectives ev))"

lemma published_payload: "published (payload logGroup namespace s) = metricNames s"
  by (simp add: published_def payload_def teardownPayload_def metricNames_def Let_def)

lemma dimensions_payload: "dir \<in> set (evDirectives (payload logGroup namespace s)) \<Longrightarrow> dims \<in> set (emDimensions dir) \<Longrightarrow> set dims \<subseteq> {''Worker''}"
  by (auto simp: payload_def teardownPayload_def Let_def perWorkerDimensions_def fleetDimensions_def split: if_splits)

lemma stage_names:
  "list_all (\<lambda>name. name \<in> set fixedMembers) (''Worker'' # ''LaunchFailed'' # ''LaunchDuration'' # ''TeardownFailed'' # ''TeardownWait'' # ''TeardownDuration'' # map fst stageMetrics)"
  "''LaunchDuration'' \<notin> set (map fst stageMetrics)" "''TeardownDuration'' \<notin> set (map fst stageMetrics)" "''TeardownWait'' \<notin> set (map fst stageMetrics)"
  by code_simp+

lemma metricNames_carried: "set (metricNames s) \<subseteq> set fixedMembers" "''Worker'' \<in> set fixedMembers"
  using stage_names(1) by (auto simp: metricNames_def list_all_iff simp del: set_map)

text \<open>
  A record never names what it does not carry. CloudWatch drops an event whose directives name
  a metric or a dimension that is not a member of it: every one a record names is, whatever the
  sample, and the dimension \<open>Worker\<close> is never empty. A duration is published exactly for an
  operation that succeeded, and the wait of a teardown exactly when it was not a rebuild's.
\<close>

theorem payload_well_formed:
  "let ev = payload logGroup namespace s in set (published ev) \<subseteq> set (emfMembers ev) \<and> \<Union> (set ` \<Union> (set ` emDimensions ` set (evDirectives ev))) \<subseteq> set (emfMembers ev) \<and> evWorker ev \<noteq> '''' \<and>
    (''LaunchDuration'' \<in> set (published ev) \<longleftrightarrow> sKind s = sampleLaunch \<and> sOutcome s = launchOK) \<and>
    (''TeardownDuration'' \<in> set (published ev) \<longleftrightarrow> sKind s = sampleTeardown \<and> sOutcome s = launchOK) \<and>
    (''TeardownWait'' \<in> set (published ev) \<longleftrightarrow> sKind s = sampleTeardown \<and> sTrigger s \<noteq> launchTriggerRestart)"
proof -
  define ev where "ev = payload logGroup namespace s"
  have carried: "set fixedMembers \<subseteq> set (emfMembers ev)" by (simp add: emfMembers_def)
  have "set (published ev) \<subseteq> set (emfMembers ev)" using carried metricNames_carried(1) unfolding ev_def published_payload by blast
  moreover have "\<Union> (set ` \<Union> (set ` emDimensions ` set (evDirectives ev))) \<subseteq> {''Worker''}" unfolding ev_def using dimensions_payload by blast
  then have "\<Union> (set ` \<Union> (set ` emDimensions ` set (evDirectives ev))) \<subseteq> set (emfMembers ev)" using carried metricNames_carried(2) by blast
  moreover have "evWorker ev \<noteq> ''''" by (simp add: ev_def payload_def teardownPayload_def Let_def)
  moreover have "''LaunchDuration'' \<in> set (published ev) \<longleftrightarrow> sKind s = sampleLaunch \<and> sOutcome s = launchOK"
    "''TeardownDuration'' \<in> set (published ev) \<longleftrightarrow> sKind s = sampleTeardown \<and> sOutcome s = launchOK"
    "''TeardownWait'' \<in> set (published ev) \<longleftrightarrow> sKind s = sampleTeardown \<and> sTrigger s \<noteq> launchTriggerRestart"
    unfolding ev_def published_payload using stage_names(2-4) by (cases "sKind s"; simp add: metricNames_def del: set_map)+
  ultimately show ?thesis unfolding Let_def ev_def [symmetric] by blast
qed

text \<open>A launch that goes through all its stages, with the readings of the clock.\<close>

definition timedLaunch ::
    "manager \<Rightarrow> buildMeta option \<Rightarrow> instanceMeta \<Rightarrow> timedLimits \<Rightarrow> bool \<Rightarrow> containerSplits \<Rightarrow> err option \<Rightarrow>
     timestamp \<times> timestamp \<times> timestamp \<times> timestamp \<times> timestamp \<times> timestamp \<Rightarrow> launchSample" where
  "timedLaunch m build inst limits pulled cs e =
     (\<lambda>(t0, t1, t2, t3, t4, t5).
        snd (timer_finish m t5 e
          (timer_containers t4 cs (timer_network t3 (timer_slot t2 (timer_images t1 pulled (beginLaunch m t0 build inst limits))))) (\<lambda>_. newRing)))"

text \<open>
  The stages of a launch fit into it. With the clock not running backwards, each stage of a
  launch that went through them all takes no negative time and together they take no more than the
  launch, also when its images were brought before it began.
\<close>

theorem launch_stages_within_total:
  assumes "t0 \<le> t1" "t1 \<le> t2" "t2 \<le> t3" "t3 \<le> t4" "t4 \<le> t5" "0 \<le> llEnsuredImageWait limits"
    "s = timedLaunch m build inst limits pulled cs e (t0, t1, t2, t3, t4, t5)"
  shows "0 \<le> sImageWait s \<and> 0 \<le> sSlotWait s \<and> 0 \<le> sNetCreate s \<and> 0 \<le> sContainers s \<and>
    sImageWait s + sSlotWait s + sNetCreate s + sContainers s \<le> sTotal s"
proof -
  define t where "t = beginLaunch m t0 build inst limits"
  have t: "ltBegun t = t0 - llEnsuredImageWait limits" "ltMark t = t0" "ltLimits t = limits"
    by (simp_all add: t_def beginLaunch_def Let_def split: prod.split)
  have "sTotal s = t5 - (t0 - llEnsuredImageWait limits)" "sSlotWait s = t2 - t1" "sNetCreate s = t3 - t2" "sContainers s = t4 - t3"
    "sImageWait s = t1 - t0 + (if llImagesEnsured limits then llEnsuredImageWait limits else 0)"
    unfolding assms(7) timedLaunch_def prod.case t_def [symmetric]
    by (simp_all add: timer_finish_def timer_containers_def timer_network_def timer_slot_def timer_images_def timer_split_def Let_def t)
  then show ?thesis using assms(1-6) by simp
qed

section \<open>Runs\<close>

definition sample_metrics :: launchMetrics where
  "sample_metrics = \<lparr>lmQueue = [], lmDropped = 0, lmSent = 0, lmConn = False, lmNextDial = None, lmRefused = False, lmSinceDial = 0,
     lmEncodeFailed = False, lmReportedDrops = 0, lmNextDropReport = None, lmNextRefusedReport = None\<rparr>"

definition answered_at :: "timestamp \<Rightarrow> bool \<Rightarrow> emitInput" where
  "answered_at t ok = \<lparr>eiDrops = t, eiDropsNext = t, eiDial = t, eiFail = t, eiEncodes = True, eiDials = True, eiWrites = ok\<rparr>"

definition metrics_events :: "metricEvent list" where
  "metrics_events = [Record zeroSample, Record (zeroSample\<lparr>sInstance := 2\<rparr>), Take (answered_at second True)]"

definition outage_events :: "metricEvent list" where
  "outage_events = [Record zeroSample, Take (answered_at second False), Record zeroSample, Take (answered_at (40 * second) False)]"

lemma metrics_runs:
  "newLaunchMetrics (Some ''udp'') = Some sample_metrics" "list_all answering metrics_events" "clockRuns 0 outage_events"
  "wrote (snd (metricRun metrics_events sample_metrics)) = [zeroSample]" "offered metrics_events = [zeroSample, zeroSample\<lparr>sInstance := 2\<rparr>]"
  "snd (metricRun outage_events sample_metrics) = [Dialed second, SaidRefused second, Dialed (40 * second)]"
  by code_simp+

theorem launch_metrics_accounted_witness:
  "int (length (lmQueue (fst (metricRun metrics_events sample_metrics)))) + lmDropped (fst (metricRun metrics_events sample_metrics)) = 1"
  using launch_metrics_accounted [OF metrics_runs(1), of metrics_events "fst (metricRun metrics_events sample_metrics)" "snd (metricRun metrics_events sample_metrics)"]
    metrics_runs(2,4,5) by simp

theorem launch_metrics_considerate_witness:
  "considerate None None [Dialed second, SaidRefused second, Dialed (40 * second)]"
  using launch_metrics_considerate [OF metrics_runs(1) metrics_runs(3)] metrics_runs(6) by simp

definition restart_limits :: timedLimits where
  "restart_limits = \<lparr>llSlotWait = 0, llPullTimeout = minute, llImagesEnsured = True, llRestart = True, llEnsuredImageWait = 90 * second, llEnsuredPulled = True\<rparr>"

definition restart_instance :: instanceMeta where
  "restart_instance = \<lparr>nId = 4, nPorts = [], nContainers = [], nLastSolved = 0, nBuild = 1, nWorker = '''', nFinalized = True\<rparr>"

theorem launch_stages_within_total_witness:
  "let s = timedLaunch freshManager None restart_instance restart_limits False \<lparr>csCreate = 1, csStart = 1, csPortRead = 0, csFinalize = 1, csCount = 1\<rparr> None
       (10, 11, 12, 13, 14, 15)
   in sImageWait s + sSlotWait s + sNetCreate s + sContainers s \<le> sTotal s"
  unfolding Let_def
  using launch_stages_within_total [OF _ _ _ _ _ _ refl, of 10 11 12 13 14 15 restart_limits]
  by (simp add: restart_limits_def second_def millisecond_def)

end
