(* ===== verification/Port_Pool.thy ===== *)
theory Port_Pool
  imports Launch_Slots
begin

unbundle bit_operations_syntax

text \<open>
  Host ports (\<open>src/cork/database_instances.go\<close>, \<open>src/cork/database.go\<close>,
  \<open>getPortRange\<close> of \<open>src/cork/docker.go\<close>): the configured range, the bitset of ports in
  use on one daemon, the search for a free one from a random start, the atomic claim, and the
  reclaiming of an instance's ports across a restart. Pools are per worker. The draws of the
  random source are the list \<open>rands\<close> of the manager; what other requests do to the tables
  between two statements of a reservation is an argument of it.
\<close>

section \<open>The range\<close>

definition PORTS_ENV :: string where "PORTS_ENV = ''CORK_PORTS''"

definition getPortRange :: "environment \<Rightarrow> err + int \<times> int" where
  "getPortRange os =
     (let portRange = Getenv os PORTS_ENV in
      if portRange = '''' then Inr (0, 0)
      else
        (case splitOn (CHR ''-'') portRange of
           [l, h] \<Rightarrow>
             (case atoi l of
                None \<Rightarrow> Inl [Msg ''invalid syntax'']
              | Some low \<Rightarrow>
                  (case atoi h of
                     None \<Rightarrow> Inl [Msg ''invalid syntax'']
                   | Some high \<Rightarrow>
                       if low < 1024 \<or> high > 65536 \<or> high < low then Inl [Msg ''bad port range'']
                       else Inr (low, high)))
         | _ \<Rightarrow> Inl [Msg ''malformed port range'']))"

section \<open>The bitset\<close>

definition portBit :: "nat \<Rightarrow> 64 word" where
  "portBit p = push_bit (p mod 64) 1"

definition markPort :: "nat \<Rightarrow> 64 word list \<Rightarrow> 64 word list" where
  "markPort p bs = bs[p div 64 := (bs ! (p div 64)) OR portBit p]"

definition portFree :: "64 word list \<Rightarrow> nat \<Rightarrow> bool" where
  "portFree bs p = ((bs ! (p div 64)) AND portBit p = 0)"

definition usedPortBitset :: "string \<Rightarrow> 64 word list mio" where
  "usedPortBitset worker =
     bnd (gets (\<lambda>m. (portLow m, portHigh m))) (\<lambda>(low, high).
     (if low = 0 then ret []
      else
        bnd (query (\<lambda>d. map pPort (filter (\<lambda>r. pWorker r = worker \<and> low \<le> pPort r \<and> pPort r \<le> high)
                                     (portAssignments d)))) (\<lambda>ports.
        ret (fold (\<lambda>port. markPort (nat (port - low))) ports
               (replicate (nat ((high - low + 1 + 63) div 64)) 0)))))"

section \<open>Claiming and reserving\<close>

text \<open>
  \<open>INSERT ... WHERE NOT EXISTS\<close> in one statement, with the table's CHECK and its foreign key.
\<close>

definition claimRow :: "int \<Rightarrow> string \<Rightarrow> string \<Rightarrow> int \<Rightarrow> database \<Rightarrow> sqlError + (bool \<times> database)" where
  "claimRow iid worker name port d =
     (if list_ex (\<lambda>r. pPort r = port \<and> pWorker r = worker) (portAssignments d) then Inr (False, d)
      else if \<not> (0 < port \<and> port < 65536) then Inl (SqlConstraint ''CHECK'')
      else if \<not> list_ex (\<lambda>r. iId r = iid) (instances d) then Inl (SqlConstraint ''FOREIGN KEY'')
      else Inr (True, d\<lparr>portAssignments := portAssignments d @
                  [\<lparr>pInstance = iid, pName = name, pPort = port, pWorker = worker\<rparr>]\<rparr>))"

definition claimPort :: "int \<Rightarrow> string \<Rightarrow> string \<Rightarrow> int \<Rightarrow> bool mio" where
  "claimPort iid worker name port =
     catch (sqlChecked (claimRow iid worker name port)) (\<lambda>e. fail (retryableDB e))"

definition drawPort :: "nat \<Rightarrow> nat mio" where
  "drawPort n m = (Inr (hd (rands m @ [0]) mod n), m\<lparr>rands := tl (rands m)\<rparr>)"

text \<open>The inner loop: at most \<open>i\<close> ports from \<open>port\<close> on, wrapping at the end of the range.\<close>

fun scanPorts :: "64 word list \<Rightarrow> int \<Rightarrow> int \<Rightarrow> nat \<Rightarrow> int \<Rightarrow> int" where
  "scanPorts bs low high 0 port = 0"
| "scanPorts bs low high (Suc i) port =
     (if portFree bs (nat (port - low)) then port
      else scanPorts bs low high i (if port + 1 > high then low else port + 1))"

text \<open>
  The attempts, \<open>k\<close> of them still allowed; \<open>others k\<close> is what other requests did to the
  tables before this attempt's claim.
\<close>

fun reserveLoop :: "(nat \<Rightarrow> database \<Rightarrow> database) \<Rightarrow> int \<Rightarrow> string \<Rightarrow> string \<Rightarrow> nat \<Rightarrow> 64 word list \<Rightarrow> int mio" where
  "reserveLoop others iid worker name 0 bs =
     fail [Msg ''failed to reserve a port after 50 attempts due to high contention'']"
| "reserveLoop others iid worker name (Suc k) bs =
     bnd (gets (\<lambda>m. (portLow m, portHigh m))) (\<lambda>(low, high).
     bnd (drawPort (nat (high - low + 1))) (\<lambda>r.
     let candidate = scanPorts bs low high (nat (high - low + 1)) (int r + low) in
     if candidate = 0 then fail [Msg ''All ports are in use'']
     else
       bnd (modify (\<lambda>m. m\<lparr>db := others k (db m)\<rparr>)) (\<lambda>_.
       bnd (claimPort iid worker name candidate) (\<lambda>claimed.
       if claimed then ret candidate
       else reserveLoop others iid worker name k (markPort (nat (candidate - low)) bs)))))"

definition reservePort :: "(nat \<Rightarrow> database \<Rightarrow> database) \<Rightarrow> int \<Rightarrow> string \<Rightarrow> string \<Rightarrow> int mio" where
  "reservePort others iid worker name =
     bnd (gets portLow) (\<lambda>low.
     if low = 0 then fail [Msg ''port reservation disabled'']
     else bnd (usedPortBitset worker) (reserveLoop others iid worker name 50))"

section \<open>Across a restart\<close>

text \<open>\<open>releasePorts\<close> logs a failure of its statement and goes on.\<close>

definition releasePorts :: "instanceMeta \<Rightarrow> instanceMeta mio" where
  "releasePorts inst =
     bnd (catch (exec (\<lambda>d. d\<lparr>portAssignments := filter (\<lambda>r. pInstance r \<noteq> nId inst) (portAssignments d)\<rparr>))
            (\<lambda>e. ret ())) (\<lambda>_.
     ret (inst\<lparr>nPorts := []\<rparr>))"

definition reassignOne :: "(string \<Rightarrow> string option) \<Rightarrow> (string \<times> int) list \<Rightarrow> string \<Rightarrow> instanceMeta \<Rightarrow> instanceMeta mio" where
  "reassignOne revPortMap previous portStr inst =
     (case revPortMap portStr of
        None \<Rightarrow> fail [Msg ''no published port name'']
      | Some name \<Rightarrow>
          if name = '''' then fail [Msg ''no published port name'']
          else
            bnd (gets (\<lambda>m. (portLow m, portHigh m))) (\<lambda>(low, high).
            bnd (case map_of previous name of
                   Some prev \<Rightarrow>
                     if low \<le> prev \<and> prev \<le> high
                     then bnd (claimPort (nId inst) (nWorker inst) name prev) (\<lambda>claimed.
                            ret (if claimed then Some prev else None))
                     else ret None
                 | None \<Rightarrow> ret None) (\<lambda>kept.
            (case kept of
               Some prev \<Rightarrow> ret (inst\<lparr>nPorts := mapPut name prev (nPorts inst)\<rparr>)
             | None \<Rightarrow>
                 bnd (reservePort (\<lambda>_ d. d) (nId inst) (nWorker inst) name) (\<lambda>port.
                 ret (inst\<lparr>nPorts := mapPut name port (nPorts inst)\<rparr>))))))"

text \<open>The two nested loops visit the ports of every image but the builder's.\<close>

definition publishedPorts :: "image list \<Rightarrow> string list" where
  "publishedPorts imgs = concat (map imgPorts (filter (\<lambda>i. imgHost i \<noteq> ''builder'') imgs))"

text \<open>The metadata is updated in place, so a failure keeps what was assigned before it.\<close>

fun reassignPortsUnchecked ::
    "(string \<Rightarrow> string option) \<Rightarrow> (string \<times> int) list \<Rightarrow> string list \<Rightarrow> instanceMeta \<Rightarrow> (err option \<times> instanceMeta) mio" where
  "reassignPortsUnchecked revPortMap previous [] inst = ret (None, inst)"
| "reassignPortsUnchecked revPortMap previous (portStr # rest) inst =
     (\<lambda>m. case reassignOne revPortMap previous portStr inst m of
            (Inl e, m') \<Rightarrow> (Inr (Some e, inst), m')
          | (Inr inst', m') \<Rightarrow> reassignPortsUnchecked revPortMap previous rest inst' m')"

definition reassignPorts ::
    "buildMeta \<Rightarrow> (string \<Rightarrow> string option) \<Rightarrow> (string \<times> int) list \<Rightarrow> instanceMeta \<Rightarrow> (err option \<times> instanceMeta) mio" where
  "reassignPorts build revPortMap previous inst =
     bnd (gets portLow) (\<lambda>low.
     if low = 0 then ret (None, inst)
     else
       bnd (reassignPortsUnchecked revPortMap previous (publishedPorts (mImages build)) (inst\<lparr>nPorts := []\<rparr>)) (\<lambda>(failure, inst').
       (case failure of
          None \<Rightarrow> ret (None, inst')
        | Some e \<Rightarrow> bnd (releasePorts inst') (\<lambda>inst''. ret (Some e, inst'')))))"

definition portsAlreadyKnown :: "int \<Rightarrow> string list \<Rightarrow> (string \<times> int) list \<Rightarrow> (string \<Rightarrow> string option) \<Rightarrow> bool" where
  "portsAlreadyKnown low imagePorts ports revPortMap =
     (low \<noteq> 0 \<and>
      list_all (\<lambda>portStr. case revPortMap portStr of
                 None \<Rightarrow> False
               | Some name \<Rightarrow> name \<noteq> '''' \<and> (case map_of ports name of Some p \<Rightarrow> p \<noteq> 0 | None \<Rightarrow> False)) imagePorts)"

definition getReversePortMap :: "string \<Rightarrow> (string \<Rightarrow> string option) mio" where
  "getReversePortMap challenge =
     bnd (query (\<lambda>d. filter (\<lambda>p. pnChallenge p = challenge) (portNames d))) (\<lambda>rows.
     ret (\<lambda>s. map_of (fold (\<lambda>p. mapPut (show_int (pnPort p) @ ''/tcp'') (pnName p)) rows []) s))"

section \<open>Facts about the bitset\<close>

lemma portFree_iff: "portFree bs p \<longleftrightarrow> \<not> bit (bs ! (p div 64)) (p mod 64)"
  by (simp add: portFree_def portBit_def push_bit_eq_mult and_exp_eq_0_iff_not_bit)

lemma length_markPort [simp]: "length (markPort p bs) = length bs"
  by (simp add: markPort_def)

lemma portFree_markPort:
  assumes "p div 64 < length bs"
  shows "portFree (markPort p bs) q \<longleftrightarrow> portFree bs q \<and> p \<noteq> q"
proof (cases "p div 64 = q div 64")
  case True
  have "bit (bs ! (q div 64) OR portBit p) (q mod 64) \<longleftrightarrow> bit (bs ! (q div 64)) (q mod 64) \<or> p mod 64 = q mod 64"
    by (auto simp: bit_or_iff portBit_def push_bit_eq_mult bit_exp_iff possible_bit_word)
  moreover have "p mod 64 = q mod 64 \<longleftrightarrow> p = q" using True by (metis div_mult_mod_eq)
  ultimately show ?thesis using True assms by (auto simp: portFree_iff markPort_def)
next
  case False
  then show ?thesis by (auto simp: portFree_iff markPort_def)
qed

lemma portFree_marks:
  assumes "\<forall>p\<in>set ps. p div 64 < length bs"
  shows "portFree (fold markPort ps bs) q \<longleftrightarrow> portFree bs q \<and> q \<notin> set ps"
    and "length (fold markPort ps bs) = length bs"
proof -
  show "portFree (fold markPort ps bs) q \<longleftrightarrow> portFree bs q \<and> q \<notin> set ps"
    using assms by (induction ps arbitrary: bs) (auto simp: portFree_markPort)
  show "length (fold markPort ps bs) = length bs" by (induction ps arbitrary: bs) auto
qed

text \<open>The bitset over a range says which of its ports are taken.\<close>

definition represents :: "int \<Rightarrow> int \<Rightarrow> 64 word list \<Rightarrow> (int \<Rightarrow> bool) \<Rightarrow> bool" where
  "represents low high bs taken \<longleftrightarrow>
     int (length bs) * 64 \<ge> high - low + 1 \<and>
     (\<forall>p. low \<le> p \<and> p \<le> high \<longrightarrow> (portFree bs (nat (p - low)) \<longleftrightarrow> \<not> taken p))"

lemma represents_index:
  assumes "represents low high bs taken" "low \<le> p" "p \<le> high" shows "nat (p - low) div 64 < length bs"
proof -
  have "nat (p - low) < length bs * 64" using assms by (auto simp: represents_def)
  then show ?thesis by (simp add: less_mult_imp_div_less)
qed

lemma represents_mark:
  assumes "represents low high bs taken" "low \<le> p" "p \<le> high"
  shows "represents low high (markPort (nat (p - low)) bs) (\<lambda>q. taken q \<or> q = p)"
  using assms represents_index [OF assms] by (auto simp: represents_def portFree_markPort)

definition port_taken :: "database \<Rightarrow> string \<Rightarrow> int \<Rightarrow> bool" where
  "port_taken d worker port \<longleftrightarrow> (\<exists>r\<in>set (portAssignments d). pWorker r = worker \<and> pPort r = port)"

lemma usedPortBitset_represents:
  assumes "usedPortBitset worker m = (Inr bs, m')" "portLow m \<noteq> 0" "portLow m \<le> portHigh m"
  shows "represents (portLow m) (portHigh m) bs (port_taken (db m) worker)"
proof -
  let ?low = "portLow m" and ?high = "portHigh m"
  let ?ports = "map pPort (filter (\<lambda>r. pWorker r = worker \<and> ?low \<le> pPort r \<and> pPort r \<le> ?high) (portAssignments (db m)))"
  let ?z = "replicate (nat ((?high - ?low + 1 + 63) div 64)) (0::64 word)"
  have bs: "bs = fold markPort (map (\<lambda>p. nat (p - ?low)) ?ports) ?z"
    using assms by (auto simp: usedPortBitset_def bnd_def query_def sql_def fold_map o_def split: list.splits option.splits)
  have len: "int (length ?z) * 64 \<ge> ?high - ?low + 1" using assms(3) by simp (linarith?)
  have in_z: "nat (p - ?low) div 64 < length ?z" if "?low \<le> p" "p \<le> ?high" for p
  proof -
    have "nat (p - ?low) < length ?z * 64" using len that by linarith
    then show ?thesis by (simp add: less_mult_imp_div_less)
  qed
  have all: "\<forall>p\<in>set (map (\<lambda>p. nat (p - ?low)) ?ports). p div 64 < length ?z" using in_z by auto
  have "portFree bs (nat (p - ?low)) \<longleftrightarrow> \<not> port_taken (db m) worker p" if "?low \<le> p" "p \<le> ?high" for p
  proof -
    have "portFree ?z (nat (p - ?low))" using in_z [OF that] by (simp add: portFree_iff)
    moreover have "nat (p - ?low) \<in> set (map (\<lambda>p. nat (p - ?low)) ?ports) \<longleftrightarrow> port_taken (db m) worker p"
      using that by (auto simp: port_taken_def eq_nat_nat_iff intro!: image_eqI)
    moreover have "portFree bs (nat (p - ?low)) \<longleftrightarrow>
        portFree ?z (nat (p - ?low)) \<and> nat (p - ?low) \<notin> set (map (\<lambda>p. nat (p - ?low)) ?ports)"
      unfolding bs by (rule portFree_marks(1) [OF all])
    ultimately show ?thesis by blast
  qed
  moreover have "length bs = length ?z" unfolding bs by (rule portFree_marks(2) [OF all])
  ultimately show ?thesis unfolding represents_def using len by metis
qed

section \<open>Facts about the search\<close>

lemma scanPorts_find:
  assumes "low \<le> high" "n = nat (high - low + 1)"
  shows "scanPorts bs low high i (low + int (k mod n)) =
     (case List.find (\<lambda>j. portFree bs ((k + j) mod n)) [0..<i] of
        None \<Rightarrow> 0 | Some j \<Rightarrow> low + int ((k + j) mod n))"
proof (induction i arbitrary: k)
  case (Suc i)
  have n: "0 < n" using assms by simp
  have nxt: "(if low + int (k mod n) + 1 > high then low else low + int (k mod n) + 1) = low + int (Suc k mod n)"
  proof (cases "Suc (k mod n) = n")
    case True
    then show ?thesis using assms by (auto simp: mod_Suc)
  next
    case False
    then have "Suc (k mod n) < n" using n by (meson Suc_leI le_neq_implies_less mod_less_divisor)
    then show ?thesis using assms False by (auto simp: mod_Suc)
  qed
  have up: "[0..<Suc i] = 0 # map Suc [0..<i]" by (simp add: upt_conv_Cons map_Suc_upt del: upt_Suc)
  have fm: "List.find P (map f xs) = map_option f (List.find (P \<circ> f) xs)" for P f and xs :: "nat list"
    by (induction xs) auto
  show ?case
    using Suc.IH [of "Suc k"] unfolding up scanPorts.simps nxt
    by (auto simp: fm o_def split: option.split simp del: upt_Suc)
qed simp

lemma scanPorts_spec:
  assumes rep: "represents low high bs taken" and r: "low \<le> high" "0 < low" "x < nat (high - low + 1)"
  defines "c \<equiv> scanPorts bs low high (nat (high - low + 1)) (int x + low)"
  shows "if \<exists>p. low \<le> p \<and> p \<le> high \<and> \<not> taken p then low \<le> c \<and> c \<le> high \<and> \<not> taken c else c = 0"
proof -
  let ?n = "nat (high - low + 1)"
  have c: "c = (case List.find (\<lambda>j. portFree bs ((x + j) mod ?n)) [0..<?n] of
        None \<Rightarrow> 0 | Some j \<Rightarrow> low + int ((x + j) mod ?n))"
    unfolding c_def using scanPorts_find [OF r(1) refl, of bs ?n x] r by (simp add: add.commute)
  have free: "portFree bs q \<longleftrightarrow> \<not> taken (low + int q)" if "q < ?n" for q
  proof -
    have "low + int q \<le> high" using that by linarith
    moreover have "low \<le> low + int q \<and> low + int q \<le> high \<longrightarrow>
        (portFree bs (nat (low + int q - low)) \<longleftrightarrow> \<not> taken (low + int q))"
      using rep unfolding represents_def by blast
    ultimately show ?thesis by simp
  qed
  show ?thesis
  proof (cases "List.find (\<lambda>j. portFree bs ((x + j) mod ?n)) [0..<?n]")
    case None
    have "taken p" if "low \<le> p" "p \<le> high" for p
    proof -
      define q where "q = nat (p - low)"
      have q: "q < ?n" "p = low + int q" using that by (auto simp: q_def)
      have "(x + (q + ?n - x) mod ?n) mod ?n = q"
        using q(1) r(3) by (metis add.commute add_diff_inverse_nat less_imp_le mod_add_right_eq mod_add_self2
            mod_less not_less trans_le_add2)
      moreover have "(q + ?n - x) mod ?n \<in> set [0..<?n]" using q(1) by simp
      ultimately have "\<not> portFree bs q" using None unfolding find_None_iff by metis
      then show ?thesis using free q by simp
    qed
    then show ?thesis using None c by auto
  next
    case (Some j)
    then have "portFree bs ((x + j) mod ?n)" by (auto simp: find_Some_iff)
    moreover have "(x + j) mod ?n < ?n" using r by simp
    ultimately have "low \<le> c" "c \<le> high" "\<not> taken c" using Some c free by (auto simp: nat_less_iff)
    then show ?thesis by auto
  qed
qed

section \<open>Facts about claims\<close>

definition portRow_of :: "int \<Rightarrow> string \<Rightarrow> string \<Rightarrow> int \<Rightarrow> portRow" where
  "portRow_of iid worker name port = \<lparr>pInstance = iid, pName = name, pPort = port, pWorker = worker\<rparr>"

lemma claimRow_Inr:
  "claimRow iid worker name port d = Inr (c, d') \<Longrightarrow>
   (if c then \<not> port_taken d worker port \<and> 0 < port \<and> port < 65536 \<and> (\<exists>r\<in>set (instances d). iId r = iid) \<and>
              d' = d\<lparr>portAssignments := portAssignments d @ [portRow_of iid worker name port]\<rparr>
    else port_taken d worker port \<and> d' = d)"
  by (auto simp: claimRow_def port_taken_def portRow_of_def list_ex_iff split: if_splits)

lemma claimPort_Inr:
  assumes "claimPort iid worker name port m = (Inr c, m')"
  obtains fs d where "claimRow iid worker name port (db m) = Inr (c, d)" "m' = m\<lparr>faults := fs, db := d\<rparr>"
  using assms sqlChecked_Inr [of "claimRow iid worker name port" m c]
  by (auto simp: claimPort_def catch_def split: prod.splits sum.splits)

lemma claimPort_no_fault:
  assumes "faults m = []"
  shows "claimPort iid worker name port m =
     (case claimRow iid worker name port (db m) of
        Inl e \<Rightarrow> (Inl (retryableDB [SqlErr e]), m) | Inr (c, d) \<Rightarrow> (Inr c, m\<lparr>db := d\<rparr>))"
  using assms by (auto simp: claimPort_def catch_def sqlChecked_no_fault split: sum.splits prod.splits)

lemma db_only_claimPort [keeps_intros]: "db_only (claimPort iid worker name port)"
  unfolding claimPort_def by (intro keeps_intros)

definition nextCandidate :: "64 word list \<Rightarrow> manager \<Rightarrow> int" where
  "nextCandidate bs m =
     (let n = nat (portHigh m - portLow m + 1)
      in scanPorts bs (portLow m) (portHigh m) n (int (hd (rands m @ [0]) mod n) + portLow m))"

lemma reserveLoop_step:
  "reserveLoop others iid worker name (Suc k) bs m =
     (if nextCandidate bs m = 0 then (Inl [Msg ''All ports are in use''], m\<lparr>rands := tl (rands m)\<rparr>)
      else bnd (claimPort iid worker name (nextCandidate bs m)) (\<lambda>claimed.
             if claimed then ret (nextCandidate bs m)
             else reserveLoop others iid worker name k (markPort (nat (nextCandidate bs m - portLow m)) bs))
           (m\<lparr>rands := tl (rands m), db := others k (db m)\<rparr>))"
  unfolding nextCandidate_def Let_def by (simp add: bnd_def drawPort_def Let_def)

lemma nextCandidate_spec:
  assumes "represents (portLow m) (portHigh m) bs taken" "0 < portLow m" "portLow m \<le> portHigh m"
  shows "if \<exists>p. portLow m \<le> p \<and> p \<le> portHigh m \<and> \<not> taken p
         then portLow m \<le> nextCandidate bs m \<and> nextCandidate bs m \<le> portHigh m \<and> \<not> taken (nextCandidate bs m)
         else nextCandidate bs m = 0"
  unfolding nextCandidate_def Let_def using assms by (intro scanPorts_spec) simp_all

lemma reserveLoop_Inr:
  assumes "reserveLoop others iid worker name k bs m = (Inr port, m')"
    and "represents (portLow m) (portHigh m) bs taken" "0 < portLow m" "portLow m \<le> portHigh m"
  shows "portLow m \<le> port \<and> port \<le> portHigh m \<and>
         (\<exists>d. \<not> port_taken d worker port \<and>
              db m' = d\<lparr>portAssignments := portAssignments d @ [portRow_of iid worker name port]\<rparr>)"
  using assms
proof (induction k arbitrary: bs m taken)
  case (Suc k)
  let ?low = "portLow m" and ?high = "portHigh m"
  define c where "c = nextCandidate bs m"
  define m1 where "m1 = m\<lparr>rands := tl (rands m), db := others k (db m)\<rparr>"
  have m1: "portLow m1 = ?low" "portHigh m1 = ?high" by (simp_all add: m1_def)
  have "c \<noteq> 0" using Suc.prems(1) unfolding reserveLoop_step c_def by auto
  then have c: "?low \<le> c" "c \<le> ?high"
    using nextCandidate_spec [OF Suc.prems(2-4)] by (auto simp: c_def split: if_splits)
  have run: "bnd (claimPort iid worker name c) (\<lambda>claimed.
       if claimed then ret c else reserveLoop others iid worker name k (markPort (nat (c - ?low)) bs)) m1 = (Inr port, m')"
    using Suc.prems(1) \<open>c \<noteq> 0\<close> unfolding reserveLoop_step c_def [symmetric] m1_def [symmetric] by simp
  then obtain claimed m2 where cl: "claimPort iid worker name c m1 = (Inr claimed, m2)"
    and rest: "(if claimed then ret c else reserveLoop others iid worker name k (markPort (nat (c - ?low)) bs)) m2 = (Inr port, m')"
    by (elim bnd_InrE) auto
  obtain fs d where cr: "claimRow iid worker name c (db m1) = Inr (claimed, d)" and m2: "m2 = m1\<lparr>faults := fs, db := d\<rparr>"
    using claimPort_Inr [OF cl] by blast
  show ?case
  proof (cases claimed)
    case True
    then show ?thesis using rest claimRow_Inr [OF cr] c m2 by auto
  next
    case False
    have low: "portLow m2 = ?low" "portHigh m2 = ?high" by (simp_all add: m2 m1)
    then have "represents (portLow m2) (portHigh m2) (markPort (nat (c - ?low)) bs) (\<lambda>q. taken q \<or> q = c)"
      using represents_mark [OF Suc.prems(2) c] by simp
    then have "portLow m2 \<le> port \<and> port \<le> portHigh m2 \<and> (\<exists>d. \<not> port_taken d worker port \<and>
              db m' = d\<lparr>portAssignments := portAssignments d @ [portRow_of iid worker name port]\<rparr>)"
      using Suc.IH [of "markPort (nat (c - ?low)) bs" m2] rest False low Suc.prems by auto
    then show ?thesis using low by simp
  qed
qed simp

lemma usedPortBitset_frame: "usedPortBitset worker m = (r, m1) \<Longrightarrow> \<exists>fs. m1 = m\<lparr>faults := fs\<rparr>"
proof -
  assume a: "usedPortBitset worker m = (r, m1)"
  have self: "\<exists>fs. m = m\<lparr>faults := fs\<rparr>" by (rule exI [of _ "faults m"]) simp
  show ?thesis
    using a self by (auto simp: usedPortBitset_def bnd_def query_def sql_def split: list.splits option.splits if_splits)
qed

lemma reservePort_Inr:
  assumes "reservePort others iid worker name m = (Inr port, m')" "0 \<le> portLow m" "portLow m \<le> portHigh m"
  shows "portLow m \<noteq> 0 \<and> portLow m \<le> port \<and> port \<le> portHigh m \<and>
         (\<exists>d. \<not> port_taken d worker port \<and>
              db m' = d\<lparr>portAssignments := portAssignments d @ [portRow_of iid worker name port]\<rparr>)"
proof -
  have low: "portLow m \<noteq> 0" using assms(1) by (auto simp: reservePort_def bnd_def)
  then obtain bs m1 where u: "usedPortBitset worker m = (Inr bs, m1)"
    and l: "reserveLoop others iid worker name 50 bs m1 = (Inr port, m')"
    using assms(1) by (auto simp: reservePort_def bnd_def split: prod.splits sum.splits)
  obtain fs where m1: "m1 = m\<lparr>faults := fs\<rparr>" using usedPortBitset_frame [OF u] by blast
  have "represents (portLow m1) (portHigh m1) bs (port_taken (db m) worker)"
    using usedPortBitset_represents [OF u low assms(3)] m1 by simp
  then show ?thesis using reserveLoop_Inr [OF l] low assms m1 by simp
qed

section \<open>No port is held twice on one daemon\<close>

definition ports_unique :: "manager \<Rightarrow> bool" where
  "ports_unique m = distinct (map (\<lambda>r. (pWorker r, pPort r)) (portAssignments (db m)))"

lemma ports_unique_frame [simp]:
  "ports_unique (m\<lparr>faults := fs\<rparr>) = ports_unique m" "ports_unique (m\<lparr>rands := rs\<rparr>) = ports_unique m"
  by (simp_all add: ports_unique_def)

lemma ports_unique_add:
  "ports_unique m \<Longrightarrow> \<not> port_taken (db m) worker port \<Longrightarrow>
   ports_unique (m\<lparr>db := (db m)\<lparr>portAssignments := portAssignments (db m) @ [portRow_of iid worker name port]\<rparr>\<rparr>)"
  by (auto simp: ports_unique_def port_taken_def portRow_of_def)

lemma ports_unique_filter:
  "ports_unique m \<Longrightarrow> portAssignments d = filter P (portAssignments (db m)) \<Longrightarrow> ports_unique (m\<lparr>db := d\<rparr>)"
  by (simp add: ports_unique_def distinct_map_filter)

lemma claimPort_unique [keeps_intros]: "keeps ports_unique (claimPort iid worker name port)"
proof (rule keepsI)
  fix m assume u: "ports_unique m"
  obtain r m' where c: "claimPort iid worker name port m = (r, m')" by fastforce
  show "ports_unique (snd (claimPort iid worker name port m))"
  proof (cases r)
    case (Inl e)
    then have "db m' = db m"
      using c by (auto simp: claimPort_def catch_def dest: sqlChecked_Inl split: prod.splits sum.splits)
    then show ?thesis using c u by (simp add: ports_unique_def)
  next
    case (Inr b)
    then obtain fs d where cr: "claimRow iid worker name port (db m) = Inr (b, d)" and m': "m' = m\<lparr>faults := fs, db := d\<rparr>"
      using claimPort_Inr c by metis
    show ?thesis
    proof (cases b)
      case True
      then show ?thesis using claimRow_Inr [OF cr] m' c ports_unique_add [OF u, of worker port iid name]
        by (simp add: ports_unique_def)
    next
      case False
      then show ?thesis using claimRow_Inr [OF cr] m' c u by (simp add: ports_unique_def)
    qed
  qed
qed

lemma drawPort_unique [keeps_intros]: "keeps ports_unique (drawPort n)"
  by (simp add: keeps_def drawPort_def)

lemma reserveLoop_unique:
  assumes "\<And>k m. ports_unique m \<Longrightarrow> ports_unique (m\<lparr>db := others k (db m)\<rparr>)"
  shows "keeps ports_unique (reserveLoop others iid worker name k bs)"
proof (induction k arbitrary: bs)
  case (Suc k)
  then show ?case
    by (auto intro!: keeps_intros keeps_modify assms simp: Let_def split: prod.split)
qed (simp add: keeps_intros)

lemma usedPortBitset_unique [keeps_intros]: "keeps ports_unique (usedPortBitset worker)"
  unfolding usedPortBitset_def by (auto intro!: keeps_intros)

lemma reservePort_unique:
  assumes "\<And>k m. ports_unique m \<Longrightarrow> ports_unique (m\<lparr>db := others k (db m)\<rparr>)"
  shows "keeps ports_unique (reservePort others iid worker name)"
  unfolding reservePort_def by (intro keeps_intros reserveLoop_unique assms)

lemma reservePort_alone_unique [keeps_intros]: "keeps ports_unique (reservePort (\<lambda>_ d. d) iid worker name)"
  by (rule reservePort_unique) simp

lemma releasePorts_unique [keeps_intros]: "keeps ports_unique (releasePorts inst)"
  unfolding releasePorts_def
  by (auto intro!: keeps_intros exec_keeps) (auto simp: ports_unique_def distinct_map_filter)

lemma reassignOne_unique: "keeps ports_unique (reassignOne rpm previous portStr inst)"
  unfolding reassignOne_def by (auto intro!: keeps_intros split: option.split prod.split)

lemma reassignPortsUnchecked_unique: "keeps ports_unique (reassignPortsUnchecked rpm previous ps inst)"
proof (induction ps arbitrary: inst)
  case (Cons p ps)
  show ?case
  proof (rule keepsI)
    fix m assume u: "ports_unique m"
    obtain r m' where 1: "reassignOne rpm previous p inst m = (r, m')" by fastforce
    have "ports_unique m'" by (rule keepsD [OF reassignOne_unique u 1])
    then show "ports_unique (snd (reassignPortsUnchecked rpm previous (p # ps) inst m))"
      using 1 Cons by (cases r) (simp_all add: keeps_def)
  qed
qed (simp add: keeps_intros)

lemma reassignPorts_unique [keeps_intros]: "keeps ports_unique (reassignPorts build rpm previous inst)"
  unfolding reassignPorts_def
  by (auto intro!: keeps_intros reassignPortsUnchecked_unique split: prod.split option.split)

section \<open>Properties\<close>

text \<open>
  C2. A reserved port is held by nobody else. Whatever other requests do to the tables between the
  reading of the bitset and each of the claims, and whichever statements fail: a port
  \<open>reservePort\<close> returns lies in the configured range, and afterwards the only assignment of
  that port on that worker is the one just made, for that instance under that name.
\<close>

theorem reservePort_exclusive:
  assumes "reservePort others iid worker name m = (Inr port, m')"
    and "0 \<le> portLow m" "portLow m \<le> portHigh m"
  shows "portLow m \<le> port \<and> port \<le> portHigh m \<and>
         filter (\<lambda>r. pWorker r = worker \<and> pPort r = port) (portAssignments (db m')) =
           [\<lparr>pInstance = iid, pName = name, pPort = port, pWorker = worker\<rparr>]"
proof -
  obtain d where p: "portLow m \<le> port" "port \<le> portHigh m" and d: "\<not> port_taken d worker port"
    "db m' = d\<lparr>portAssignments := portAssignments d @ [portRow_of iid worker name port]\<rparr>"
    using reservePort_Inr [OF assms] by blast
  have "filter (\<lambda>r. pWorker r = worker \<and> pPort r = port) (portAssignments d) = []"
    using d(1) by (auto simp: port_taken_def filter_empty_conv)
  then show ?thesis using p d(2) by (simp add: portRow_of_def)
qed

text \<open>
  The search misses nothing. With the tables to itself and no failing statement,
  \<open>reservePort\<close> for a recorded instance succeeds exactly when some port of the range is free
  on that worker, whatever the random start; otherwise it reports all ports in use. So the bitset
  over 64-bit words and the wrapping scan decide the same question as the set of assignments.
\<close>

theorem reservePort_complete:
  assumes "faults m = []" "0 < portLow m" "portLow m \<le> portHigh m" "portHigh m < 65536"
    and "\<exists>r\<in>set (instances (db m)). iId r = iid"
  shows "((\<exists>port. fst (reservePort (\<lambda>_ d. d) iid worker name m) = Inr port) \<longleftrightarrow>
         (\<exists>p. portLow m \<le> p \<and> p \<le> portHigh m \<and>
              \<not> (\<exists>r\<in>set (portAssignments (db m)). pWorker r = worker \<and> pPort r = p))) \<and>
         ((\<forall>port. fst (reservePort (\<lambda>_ d. d) iid worker name m) \<noteq> Inr port) \<longrightarrow>
         fst (reservePort (\<lambda>_ d. d) iid worker name m) = Inl [Msg ''All ports are in use''])"
proof -
  obtain r m1 where u: "usedPortBitset worker m = (r, m1)" by fastforce
  obtain bs where bs: "r = Inr bs" and m1: "m1 = m"
    using u assms(1,2) by (auto simp: usedPortBitset_def bnd_def)
  have rep: "represents (portLow m) (portHigh m) bs (port_taken (db m) worker)"
    using usedPortBitset_represents [of worker m bs m1] u bs assms by simp
  note cand = nextCandidate_spec [OF rep assms(2,3)]
  have run: "reservePort (\<lambda>_ d. d) iid worker name m = reserveLoop (\<lambda>_ d. d) iid worker name (Suc 49) bs m"
    using assms(2) u bs m1 by (simp add: reservePort_def bnd_def numeral_eq_Suc)
  have "fst (reserveLoop (\<lambda>_ d. d) iid worker name (Suc 49) bs m) =
      (if \<exists>p. portLow m \<le> p \<and> p \<le> portHigh m \<and> \<not> port_taken (db m) worker p
       then Inr (nextCandidate bs m) else Inl [Msg ''All ports are in use''])"
  proof (cases "\<exists>p. portLow m \<le> p \<and> p \<le> portHigh m \<and> \<not> port_taken (db m) worker p")
    case True
    then have c: "portLow m \<le> nextCandidate bs m" "nextCandidate bs m \<le> portHigh m"
      "\<not> port_taken (db m) worker (nextCandidate bs m)" using cand by auto
    have "claimRow iid worker name (nextCandidate bs m) (db m) =
        Inr (True, (db m)\<lparr>portAssignments := portAssignments (db m) @ [portRow_of iid worker name (nextCandidate bs m)]\<rparr>)"
      using c assms by (auto simp: claimRow_def port_taken_def portRow_of_def list_ex_iff)
    then have "claimPort iid worker name (nextCandidate bs m) (m\<lparr>rands := tl (rands m), db := db m\<rparr>) =
        (Inr True, m\<lparr>rands := tl (rands m), db := (db m)\<lparr>portAssignments := portAssignments (db m) @ [portRow_of iid worker name (nextCandidate bs m)]\<rparr>\<rparr>)"
      using assms(1) by (simp add: claimPort_no_fault)
    then show ?thesis using True c assms(2) unfolding reserveLoop_step by (simp add: bnd_def)
  next
    case False
    then show ?thesis using cand unfolding reserveLoop_step by auto
  qed
  then show ?thesis unfolding run by (simp add: port_taken_def)
qed

lemma claimPort_free:
  assumes "faults m = []" "\<not> port_taken (db m) worker port" "0 < port" "port < 65536"
    "\<exists>r\<in>set (instances (db m)). iId r = iid"
  shows "claimPort iid worker name port m =
     (Inr True, m\<lparr>db := (db m)\<lparr>portAssignments := portAssignments (db m) @ [portRow_of iid worker name port]\<rparr>\<rparr>)"
proof -
  have "claimRow iid worker name port (db m) =
      Inr (True, (db m)\<lparr>portAssignments := portAssignments (db m) @ [portRow_of iid worker name port]\<rparr>)"
    using assms by (auto simp: claimRow_def port_taken_def portRow_of_def list_ex_iff)
  then show ?thesis using assms(1) by (simp add: claimPort_no_fault)
qed

lemma reassign_keeps:
  assumes "faults m = []" "0 < portLow m" "portHigh m < 65536" "\<exists>r\<in>set (instances (db m)). iId r = nId inst"
    and "\<forall>s\<in>set ps. \<exists>n p. rpm s = Some n \<and> n \<noteq> '''' \<and> map_of previous n = Some p \<and>
           portLow m \<le> p \<and> p \<le> portHigh m \<and> \<not> port_taken (db m) (nWorker inst) p"
    and "distinct (map (\<lambda>s. map_of previous (the (rpm s))) ps)"
  shows "\<exists>inst' m'. reassignPortsUnchecked rpm previous ps inst m = (Inr (None, inst'), m') \<and>
           (\<forall>n. n \<notin> set (map (\<lambda>s. the (rpm s)) ps) \<longrightarrow> map_of (nPorts inst') n = map_of (nPorts inst) n) \<and>
           (\<forall>s\<in>set ps. map_of (nPorts inst') (the (rpm s)) = map_of previous (the (rpm s)))"
  using assms
proof (induction ps arbitrary: inst m)
  case (Cons s ps)
  obtain n p where n: "rpm s = Some n" "n \<noteq> ''''" "map_of previous n = Some p"
    "portLow m \<le> p" "p \<le> portHigh m" "\<not> port_taken (db m) (nWorker inst) p"
    using Cons.prems(5) by auto
  define m1 where "m1 = m\<lparr>db := (db m)\<lparr>portAssignments := portAssignments (db m) @ [portRow_of (nId inst) (nWorker inst) n p]\<rparr>\<rparr>"
  define inst1 where "inst1 = inst\<lparr>nPorts := mapPut n p (nPorts inst)\<rparr>"
  have "claimPort (nId inst) (nWorker inst) n p m = (Inr True, m1)"
    unfolding m1_def using Cons.prems n by (intro claimPort_free) auto
  then have one: "reassignOne rpm previous s inst m = (Inr inst1, m1)"
    using n by (simp add: reassignOne_def bnd_def inst1_def)
  have other: "map_of previous (the (rpm s')) \<noteq> Some p" if "s' \<in> set ps" for s'
    using Cons.prems(6) that n by (auto simp: image_iff)
  have "\<exists>inst' m'. reassignPortsUnchecked rpm previous ps inst1 m1 = (Inr (None, inst'), m') \<and>
           (\<forall>x. x \<notin> set (map (\<lambda>s. the (rpm s)) ps) \<longrightarrow> map_of (nPorts inst') x = map_of (nPorts inst1) x) \<and>
           (\<forall>s\<in>set ps. map_of (nPorts inst') (the (rpm s)) = map_of previous (the (rpm s)))"
  proof (rule Cons.IH)
    show "\<forall>s\<in>set ps. \<exists>n p. rpm s = Some n \<and> n \<noteq> '''' \<and> map_of previous n = Some p \<and>
           portLow m1 \<le> p \<and> p \<le> portHigh m1 \<and> \<not> port_taken (db m1) (nWorker inst1) p"
    proof
      fix s' assume s': "s' \<in> set ps"
      then obtain n' p' where n': "rpm s' = Some n'" "n' \<noteq> ''''" "map_of previous n' = Some p'"
        "portLow m \<le> p'" "p' \<le> portHigh m" "\<not> port_taken (db m) (nWorker inst) p'"
        using Cons.prems(5) by auto
      moreover have "p' \<noteq> p" using other [OF s'] n' by auto
      ultimately show "\<exists>n p. rpm s' = Some n \<and> n \<noteq> '''' \<and> map_of previous n = Some p \<and>
           portLow m1 \<le> p \<and> p \<le> portHigh m1 \<and> \<not> port_taken (db m1) (nWorker inst1) p"
        by (auto simp: m1_def inst1_def port_taken_def portRow_of_def)
    qed
  qed (use Cons.prems in \<open>auto simp: m1_def inst1_def\<close>)
  then obtain inst' m' where r: "reassignPortsUnchecked rpm previous ps inst1 m1 = (Inr (None, inst'), m')"
    and new: "\<And>x. x \<notin> set (map (\<lambda>s. the (rpm s)) ps) \<Longrightarrow> map_of (nPorts inst') x = map_of (nPorts inst1) x"
    and kept: "\<And>s. s \<in> set ps \<Longrightarrow> map_of (nPorts inst') (the (rpm s)) = map_of previous (the (rpm s))"
    by blast
  have "map_of (nPorts inst') n = map_of previous n"
  proof (cases "n \<in> set (map (\<lambda>s. the (rpm s)) ps)")
    case True
    then show ?thesis using kept by auto
  next
    case False
    then show ?thesis using new n(3) by (simp add: inst1_def)
  qed
  moreover have "map_of (nPorts inst') x = map_of (nPorts inst) x" if "x \<notin> set (map (\<lambda>s. the (rpm s)) (s # ps))" for x
    using that new [of x] n(1) by (simp add: inst1_def)
  moreover have "reassignPortsUnchecked rpm previous (s # ps) inst m = (Inr (None, inst'), m')"
    using one r by simp
  ultimately show ?case using kept n(1) by (intro exI [of _ inst'] exI [of _ m']) simp
qed simp

text \<open>
  A restart keeps the addresses players were given. If every published port of the build has
  its name, its earlier number lies in the configured range and is free on the instance's worker,
  and no statement fails, then \<open>reassignPorts\<close> succeeds and every name has exactly the number
  it had.
\<close>

theorem reassignPorts_keeps_address:
  assumes "faults m = []" "0 < portLow m" "portHigh m < 65536" "\<exists>r\<in>set (instances (db m)). iId r = nId inst"
    and "\<forall>s\<in>set (publishedPorts (mImages build)). \<exists>n p. rpm s = Some n \<and> n \<noteq> '''' \<and>
           map_of previous n = Some p \<and> portLow m \<le> p \<and> p \<le> portHigh m \<and>
           \<not> (\<exists>r\<in>set (portAssignments (db m)). pWorker r = nWorker inst \<and> pPort r = p)"
    and "distinct (map (\<lambda>s. map_of previous (the (rpm s))) (publishedPorts (mImages build)))"
  shows "\<exists>inst' m'. reassignPorts build rpm previous inst m = (Inr (None, inst'), m') \<and>
           (\<forall>s\<in>set (publishedPorts (mImages build)).
              map_of (nPorts inst') (the (rpm s)) = map_of previous (the (rpm s)))"
proof -
  obtain inst' m' where "reassignPortsUnchecked rpm previous (publishedPorts (mImages build)) (inst\<lparr>nPorts := []\<rparr>) m = (Inr (None, inst'), m')"
    "\<forall>s\<in>set (publishedPorts (mImages build)). map_of (nPorts inst') (the (rpm s)) = map_of previous (the (rpm s))"
    using reassign_keeps [of m "inst\<lparr>nPorts := []\<rparr>" "publishedPorts (mImages build)" rpm previous] assms
    by (auto simp: port_taken_def)
  then show ?thesis using assms(2) by (simp add: reassignPorts_def bnd_def)
qed

text \<open>
  A configured range may end in a port that does not exist. The range check accepts 65536 as
  the upper end, although the table refuses any port above 65535: with the range
  \<open>65536-65536\<close> accepted, every reservation fails on the CHECK constraint instead of
  reporting that no port is left.
\<close>

theorem port_65536_accepted_never_claimable:
  "getPortRange [''CORK_PORTS'' \<mapsto> ''65536-65536''] = Inr (65536, 65536) \<and>
   (\<forall>m iid worker name. portLow m = 65536 \<and> portHigh m = 65536 \<and> faults m = [] \<and>
      \<not> (\<exists>r\<in>set (portAssignments (db m)). pPort r = 65536) \<longrightarrow>
      fst (reservePort (\<lambda>_ d. d) iid worker name m) = Inl [SqlErr (SqlConstraint ''CHECK'')])"
proof (intro conjI allI impI)
  show "getPortRange [''CORK_PORTS'' \<mapsto> ''65536-65536''] = Inr (65536, 65536)"
    by (simp add: getPortRange_def Getenv_def LookupEnv_def PORTS_ENV_def atoi_def parse_digits_def
        digits_val_def digit_val_def is_digit_def)
next
  fix m :: manager and iid worker name
  assume a: "portLow m = 65536 \<and> portHigh m = 65536 \<and> faults m = [] \<and> \<not> (\<exists>r\<in>set (portAssignments (db m)). pPort r = 65536)"
  obtain r m1 where u: "usedPortBitset worker m = (r, m1)" by fastforce
  obtain bs where bs: "r = Inr bs" and m1: "m1 = m"
    using u a by (auto simp: usedPortBitset_def bnd_def)
  have rep: "represents (portLow m) (portHigh m) bs (port_taken (db m) worker)"
    using usedPortBitset_represents [of worker m bs m1] u bs a by simp
  have c: "nextCandidate bs m = 65536"
    using nextCandidate_spec [OF rep] a by (auto simp: port_taken_def split: if_splits)
  have "reservePort (\<lambda>_ d. d) iid worker name m = reserveLoop (\<lambda>_ d. d) iid worker name (Suc 49) bs m"
    using a u bs m1 by (simp add: reservePort_def bnd_def numeral_eq_Suc)
  moreover have "claimRow iid worker name 65536 (db m) = Inl (SqlConstraint ''CHECK'')"
    using a by (auto simp: claimRow_def list_ex_iff)
  then have "claimPort iid worker name 65536 (m\<lparr>rands := tl (rands m), db := db m\<rparr>) =
      (Inl [SqlErr (SqlConstraint ''CHECK'')], m\<lparr>rands := tl (rands m), db := db m\<rparr>)"
    using a by (simp add: claimPort_no_fault retryableDB_def errors_Is_def)
  ultimately show "fst (reservePort (\<lambda>_ d. d) iid worker name m) = Inl [SqlErr (SqlConstraint ''CHECK'')]"
    using c unfolding reserveLoop_step by (simp add: bnd_def)
qed

definition pool_manager :: manager where
  "pool_manager = freshManager\<lparr>portLow := 20000, portHigh := 20100, rands := [99], db := emptyDatabase\<lparr>
     instances := [\<lparr>iId = 1, iBuild = 1, iWorker = ''w'', iFinalized = True, iLastSolved = 0, iCreated = Some 0\<rparr>,
                   \<lparr>iId = 2, iBuild = 1, iWorker = ''w'', iFinalized = False, iLastSolved = 0, iCreated = Some 0\<rparr>],
     portAssignments := [\<lparr>pInstance = 1, pName = ''web'', pPort = 20099, pWorker = ''w''\<rparr>,
                         \<lparr>pInstance = 1, pName = ''ssh'', pPort = 20100, pWorker = ''w''\<rparr>]\<rparr>\<rparr>"

lemma pool_manager_simps [simp]:
  "faults pool_manager = []" "portLow pool_manager = 20000" "portHigh pool_manager = 20100"
  "\<exists>r\<in>set (instances (db pool_manager)). iId r = 2"
  "portAssignments (db pool_manager) = [\<lparr>pInstance = 1, pName = ''web'', pPort = 20099, pWorker = ''w''\<rparr>,
                         \<lparr>pInstance = 1, pName = ''ssh'', pPort = 20100, pWorker = ''w''\<rparr>]"
  by (simp_all add: pool_manager_def freshManager_def)

lemma pool_manager_run: "fst (reservePort (\<lambda>_ d. d) 2 ''w'' ''web'' pool_manager) = Inr 20000"
  by code_simp

theorem reservePort_exclusive_witness:
  "filter (\<lambda>r. pWorker r = ''w'' \<and> pPort r = 20000)
     (portAssignments (db (snd (reservePort (\<lambda>_ d. d) 2 ''w'' ''web'' pool_manager)))) =
   [\<lparr>pInstance = 2, pName = ''web'', pPort = 20000, pWorker = ''w''\<rparr>]"
  using reservePort_exclusive [of "\<lambda>_ d. d" 2 "''w''" "''web''" pool_manager 20000
      "snd (reservePort (\<lambda>_ d. d) 2 ''w'' ''web'' pool_manager)", OF prod_eqI] pool_manager_run
  by simp

theorem reservePort_complete_witness:
  "\<exists>port. fst (reservePort (\<lambda>_ d. d) 2 ''w'' ''web'' pool_manager) = Inr port"
proof -
  have "\<exists>p. portLow pool_manager \<le> p \<and> p \<le> portHigh pool_manager \<and>
      \<not> (\<exists>r\<in>set (portAssignments (db pool_manager)). pWorker r = ''w'' \<and> pPort r = p)"
    by (rule exI [of _ 20050]) simp
  then show ?thesis using reservePort_complete [of pool_manager 2 "''w''" "''web''"] by simp
qed

definition pool_build :: buildMeta where
  "pool_build = \<lparr>mId = 1, mFlag = ''f'', mLookup = [], mSeed = 1, mFormat = ''f'', mChecksum = 0, mPrevChecksum = 0,
     mSourceChecksum = 0, mImages = [\<lparr>imgHost = ''challenge'', imgPorts = [''80/tcp'', ''22/tcp'']\<rparr>],
     mHasArtifacts = False, mLastSolved = 0, mChallenge = ''c'', mSchema = ''s'', mInstanceCount = 1\<rparr>"

definition pool_instance :: instanceMeta where
  "pool_instance = \<lparr>nId = 2, nPorts = [], nContainers = [], nLastSolved = 0, nBuild = 1, nWorker = ''w'', nFinalized = False\<rparr>"

theorem reassignPorts_keeps_address_witness:
  "\<exists>inst' m'. reassignPorts pool_build [''80/tcp'' \<mapsto> ''web'', ''22/tcp'' \<mapsto> ''ssh'']
     [(''web'', 20007), (''ssh'', 20008)] pool_instance pool_manager = (Inr (None, inst'), m') \<and>
     map_of (nPorts inst') ''web'' = Some 20007"
proof -
  have pub: "publishedPorts (mImages pool_build) = [''80/tcp'', ''22/tcp'']"
    by (simp add: pool_build_def publishedPorts_def)
  show ?thesis
    using reassignPorts_keeps_address [of pool_manager pool_instance pool_build
        "[''80/tcp'' \<mapsto> ''web'', ''22/tcp'' \<mapsto> ''ssh'']" "[(''web'', 20007), (''ssh'', 20008)]"]
    by (auto simp: pub pool_instance_def)
qed

theorem port_65536_accepted_never_claimable_witness:
  "fst (reservePort (\<lambda>_ d. d) 2 ''w'' ''web'' (pool_manager\<lparr>portLow := 65536, portHigh := 65536\<rparr>)) =
     Inl [SqlErr (SqlConstraint ''CHECK'')]"
  using port_65536_accepted_never_claimable by simp

end
