(* ===== verification/Content_Identity.thy ===== *)
theory Content_Identity
  imports Manager_State
begin

unbundle bit_operations_syntax

text \<open>
  What a build's images are called (\<open>src/cork/docker.go\<close>): the content checksum over the
  source generation, the flag format, the base pins and the type's template (a CRC-32, as
  \<open>hash/crc32\<close> computes it), the tag made of seed, checksum and host, and the retention pair a
  rebuild rotates (\<open>src/cork/database_challenges.go\<close>).
\<close>

section \<open>CRC-32\<close>

text \<open>One bit of the reflected algorithm with the IEEE polynomial, then one byte, then a string of bytes.\<close>

definition crcBit :: "32 word \<Rightarrow> 32 word" where
  "crcBit c = (if bit c 0 then drop_bit 1 c XOR 0xEDB88320 else drop_bit 1 c)"

definition crcByte :: "8 word \<Rightarrow> 32 word \<Rightarrow> 32 word" where
  "crcByte b c = (crcBit ^^ 8) (c XOR ucast b)"

definition crc32 :: "8 word list \<Rightarrow> 32 word" where
  "crc32 bs = NOT (fold crcByte bs (NOT 0))"

definition bytes_of_string :: "string \<Rightarrow> 8 word list" where
  "bytes_of_string s = map of_char s"

text \<open>\<open>binary.BigEndian.PutUint32\<close>.\<close>

definition bigEndian32 :: "32 word \<Rightarrow> 8 word list" where
  "bigEndian32 w = [ucast (drop_bit 24 w), ucast (drop_bit 16 w), ucast (drop_bit 8 w), ucast w]"

section \<open>The content checksum\<close>

definition contentChecksum :: "32 word \<Rightarrow> string \<Rightarrow> 32 word \<Rightarrow> 32 word \<Rightarrow> 32 word" where
  "contentChecksum sourceChecksum format basePins template =
     (let sum = crc32 (bigEndian32 sourceChecksum @ bytes_of_string format @
                       (if basePins \<noteq> 0 then bigEndian32 basePins else []) @
                       (if template \<noteq> 0 then bigEndian32 template else []))
      in if sum = 0 then 1 else sum)"

text \<open>The built-in Dockerfile of a type (\<open>GetDockerfile\<close>, empty for a custom challenge) is an argument.\<close>

definition templateChecksum :: "(string \<Rightarrow> 8 word list) \<Rightarrow> string \<Rightarrow> 32 word" where
  "templateChecksum getDockerfile challengeType =
     (let template = getDockerfile challengeType in if template \<noteq> [] then crc32 template else 0)"

definition ContentChecksum ::
    "(string \<Rightarrow> 8 word list) \<Rightarrow> 32 word \<Rightarrow> string \<Rightarrow> 32 word \<Rightarrow> string \<Rightarrow> 32 word" where
  "ContentChecksum getDockerfile sourceChecksum format pinFingerprint challengeType =
     contentChecksum sourceChecksum format pinFingerprint (templateChecksum getDockerfile challengeType)"

section \<open>Names\<close>

definition hex_char :: "nat \<Rightarrow> char" where
  "hex_char d = (if d < 10 then char_of (48 + d) else char_of (87 + d))"

text \<open>\<open>%x\<close> of a non-negative number.\<close>

fun show_hex :: "nat \<Rightarrow> string" where
  "show_hex n = (if n < 16 then [hex_char n] else show_hex (n div 16) @ [hex_char (n mod 16)])"

declare show_hex.simps [simp del]

definition dockerId :: "int \<Rightarrow> 32 word \<Rightarrow> string \<Rightarrow> string" where
  "dockerId seed checksum host = ''s'' @ show_int seed @ ''-'' @ show_hex (unat checksum) @ ''-'' @ host"

definition imageRepository :: "string \<Rightarrow> string \<Rightarrow> string" where
  "imageRepository registry challenge =
     (if registry \<noteq> '''' then registry @ ''/'' @ challenge else challenge)"

definition instanceImageName :: "string \<Rightarrow> string \<Rightarrow> int \<Rightarrow> 32 word \<Rightarrow> string \<Rightarrow> string" where
  "instanceImageName registry challenge seed checksum host =
     imageRepository registry challenge @ '':'' @ dockerId seed checksum host"

definition cacheRefsFor :: "string \<Rightarrow> string \<Rightarrow> string \<Rightarrow> string \<Rightarrow> string list" where
  "cacheRefsFor registry host imageName priorImageName =
     (if registry = '''' then []
      else if host = ''builder'' then []
      else if priorImageName = '''' \<or> priorImageName = imageName then [imageName]
      else [priorImageName, imageName])"

definition getArtifactsFilename :: "int \<Rightarrow> string" where
  "getArtifactsFilename build = show_int build @ ''.tar.gz''"

section \<open>Retention\<close>

definition rotatedPrevChecksum :: "32 word \<Rightarrow> 32 word \<Rightarrow> 32 word \<Rightarrow> 32 word" where
  "rotatedPrevChecksum oldChecksum newChecksum currentPrev =
     (if newChecksum \<noteq> oldChecksum then oldChecksum else currentPrev)"

definition displacedPruneCandidate :: "32 word \<Rightarrow> 32 word \<Rightarrow> 32 word \<Rightarrow> bool" where
  "displacedPruneCandidate oldChecksum newChecksum displaced =
     (newChecksum \<noteq> oldChecksum \<and> displaced \<noteq> 0 \<and> displaced \<noteq> newChecksum)"

section \<open>Facts about printed numbers\<close>

definition is_hex :: "char \<Rightarrow> bool" where
  "is_hex c = (is_digit c \<or> (97 \<le> (of_char c :: nat) \<and> (of_char c :: nat) \<le> 102))"

definition hex_val :: "char \<Rightarrow> nat" where
  "hex_val c = (if is_digit c then of_char c - 48 else of_char c - 87)"

lemma hex_char_val: "d < 16 \<Longrightarrow> is_hex (hex_char d) \<and> hex_val (hex_char d) = d"
  by (auto simp: hex_char_def is_hex_def hex_val_def is_digit_def of_char_of)

definition hexs_val :: "string \<Rightarrow> nat" where
  "hexs_val s = foldl (\<lambda>acc c. 16 * acc + hex_val c) 0 s"

lemma hexs_show_hex: "list_all is_hex (show_hex n) \<and> hexs_val (show_hex n) = n"
proof (induction n rule: show_hex.induct)
  case (1 n)
  show ?case
  proof (cases "n < 16")
    case True
    then show ?thesis using hex_char_val [of n] by (simp add: show_hex.simps [of n] hexs_val_def)
  next
    case False
    with 1 show ?thesis using hex_char_val [of "n mod 16"] by (simp add: show_hex.simps [of n] hexs_val_def)
  qed
qed

lemma not_hex_dash: "list_all is_hex s \<Longrightarrow> CHR ''-'' \<notin> set s"
  by (auto simp: list_all_iff is_hex_def is_digit_def)

lemma not_digit_dash: "list_all is_digit s \<Longrightarrow> CHR ''-'' \<notin> set s"
  by (auto simp: list_all_iff is_digit_def)

lemma append_dash_inj:
  assumes "CHR ''-'' \<notin> set a" "CHR ''-'' \<notin> set b" "a @ CHR ''-'' # x = b @ CHR ''-'' # y"
  shows "a = b \<and> x = y"
  using assms by (auto simp: append_eq_append_conv2 Cons_eq_append_conv append_eq_Cons_conv)

lemma show_nat_inj: "show_nat a = show_nat b \<Longrightarrow> a = b"
  by (metis digits_val_show_nat)

lemma show_hex_inj: "show_hex a = show_hex b \<Longrightarrow> a = b"
  by (metis hexs_show_hex)

lemma show_int_dash_inj:
  assumes "show_int a @ CHR ''-'' # x = show_int b @ CHR ''-'' # y"
  shows "a = b \<and> x = y"
proof -
  have d: "CHR ''-'' \<notin> set (show_nat n)" for n by (rule not_digit_dash) simp
  have h: "\<exists>c cs. show_nat n = c # cs \<and> c \<noteq> CHR ''-''" for n
    using show_nat_head_digit [of n] by (auto simp: is_digit_def)
  consider "a < 0" "b < 0" | "0 \<le> a" "0 \<le> b" | "a < 0" "0 \<le> b" | "0 \<le> a" "b < 0" by linarith
  then show ?thesis
  proof cases
    case 1
    then have "show_nat (nat (- a)) @ CHR ''-'' # x = show_nat (nat (- b)) @ CHR ''-'' # y"
      using assms by (simp add: show_int_def)
    then have "show_nat (nat (- a)) = show_nat (nat (- b)) \<and> x = y" by (rule append_dash_inj [OF d d])
    then show ?thesis using 1 show_nat_inj by fastforce
  next
    case 2
    then have "show_nat (nat a) @ CHR ''-'' # x = show_nat (nat b) @ CHR ''-'' # y"
      using assms by (simp add: show_int_def)
    then have "show_nat (nat a) = show_nat (nat b) \<and> x = y" by (rule append_dash_inj [OF d d])
    then show ?thesis using 2 show_nat_inj by fastforce
  next
    case 3
    then show ?thesis using assms h [of "nat b"] by (auto simp: show_int_def)
  next
    case 4
    then show ?thesis using assms h [of "nat a"] by (auto simp: show_int_def)
  qed
qed

lemma image_name_inj:
  assumes "instanceImageName registry challenge seed checksum host = instanceImageName registry challenge seed' checksum' host'"
  shows "seed = seed' \<and> checksum = checksum' \<and> host = host'"
proof -
  have "show_int seed @ CHR ''-'' # (show_hex (unat checksum) @ CHR ''-'' # host) =
        show_int seed' @ CHR ''-'' # (show_hex (unat checksum') @ CHR ''-'' # host')"
    using assms by (simp add: instanceImageName_def dockerId_def)
  then have s: "seed = seed'" and r: "show_hex (unat checksum) @ CHR ''-'' # host = show_hex (unat checksum') @ CHR ''-'' # host'"
    using show_int_dash_inj by blast+
  have "CHR ''-'' \<notin> set (show_hex n)" for n using hexs_show_hex not_hex_dash by blast
  then have "show_hex (unat checksum) = show_hex (unat checksum')" "host = host'"
    using append_dash_inj [OF _ _ r] by blast+
  then show ?thesis using s show_hex_inj by (metis unsigned_word_eqI)
qed

section \<open>Properties\<close>

text \<open>
  A tag names its content: two images have the same name in a repository only if they have the
  same seed, the same content checksum and the same host, negative seeds included.
\<close>

theorem dockerId_injective:
  assumes "instanceImageName registry challenge seed checksum host = instanceImageName registry challenge seed' checksum' host'"
  shows "seed = seed' \<and> checksum = checksum' \<and> host = host'"
  using assms by (rule image_name_inj)

theorem dockerId_injective_witness:
  "instanceImageName ''reg:5000'' ''pico/a'' (-3) 0xAB ''challenge'' \<noteq>
   instanceImageName ''reg:5000'' ''pico/a'' 3 0xAB ''challenge''"
  using dockerId_injective [of "''reg:5000''" "''pico/a''" "-3" "0xAB" "''challenge''" 3 "0xAB" "''challenge''"] by auto

lemma crcByte_unfold:
  "crcByte b c = crcBit (crcBit (crcBit (crcBit (crcBit (crcBit (crcBit (crcBit (c XOR ucast b))))))))"
  by (simp add: crcByte_def eval_nat_numeral)

text \<open>
  The checksum 0 keeps its meaning of unset: no generation is ever stamped 0, and the example
  the source gives, whose CRC-32 is 0, is stamped 1.
\<close>

theorem contentChecksum_never_unset:
  "contentChecksum sourceChecksum format basePins template \<noteq> 0 \<and>
   crc32 (bigEndian32 0x05f16712 @ bytes_of_string ''flag{%s}'') = 0 \<and>
   contentChecksum 0x05f16712 ''flag{%s}'' 0 0 = 1"
proof -
  have zero: "crc32 (bigEndian32 0x05f16712 @ bytes_of_string ''flag{%s}'') = 0"
    by (simp add: crc32_def bigEndian32_def bytes_of_string_def crcByte_unfold crcBit_def)
  then have "contentChecksum 0x05f16712 ''flag{%s}'' 0 0 = 1" by (simp add: contentChecksum_def)
  moreover have "contentChecksum sourceChecksum format basePins template \<noteq> 0"
    by (simp add: contentChecksum_def Let_def)
  ultimately show ?thesis using zero by blast
qed

text \<open>One rebuild's effect on a row's retention pair, with the generation it prunes, if any.\<close>

definition rebuildPair :: "32 word \<Rightarrow> 32 word \<times> 32 word \<Rightarrow> (32 word \<times> 32 word) \<times> 32 word option" where
  "rebuildPair newChecksum pair =
     (case pair of (old, prev) \<Rightarrow>
        ((newChecksum, rotatedPrevChecksum old newChecksum prev),
         if displacedPruneCandidate old newChecksum prev then Some prev else None))"

definition pair_after :: "32 word list \<Rightarrow> 32 word \<times> 32 word \<Rightarrow> 32 word \<times> 32 word" where
  "pair_after gens pair = fold (\<lambda>g p. fst (rebuildPair g p)) gens pair"

lemma pair_after_distinct: "fst p \<noteq> snd p \<Longrightarrow> fst (pair_after gens p) \<noteq> snd (pair_after gens p)"
proof (induction gens arbitrary: p)
  case (Cons g gens)
  have "fst (fst (rebuildPair g p)) \<noteq> snd (fst (rebuildPair g p))"
    using Cons.prems by (auto simp: rebuildPair_def rotatedPrevChecksum_def split: prod.splits)
  then show ?case using Cons.IH by (simp add: pair_after_def)
qed (simp add: pair_after_def)

text \<open>
  Pruning never removes a generation in use. Starting from a build with no rollback target,
  after any sequence of rebuilds (returns to earlier content included), the current and the
  rollback generation differ, and the generation the next rebuild gives up for pruning is neither
  the one it makes current nor the one it retains for rollback.
\<close>

theorem prune_spares_retained:
  assumes "pair = pair_after gens (c, 0)" and "c \<noteq> 0"
  shows "fst pair \<noteq> snd pair \<and>
         (\<forall>g. snd (rebuildPair newChecksum pair) = Some g \<longrightarrow>
              g \<noteq> fst (fst (rebuildPair newChecksum pair)) \<and> g \<noteq> snd (fst (rebuildPair newChecksum pair)))"
  using pair_after_distinct [of "(c, 0)" gens] assms
  by (auto simp: rebuildPair_def rotatedPrevChecksum_def displacedPruneCandidate_def split: prod.splits)

theorem prune_spares_retained_witness:
  "snd (rebuildPair 7 (pair_after [6, 5] (5, 0))) = Some 6 \<and> fst (pair_after [6, 5] (5, 0)) = 5 \<and>
   (6 :: 32 word) \<noteq> fst (fst (rebuildPair 7 (pair_after [6, 5] (5, 0))))"
proof -
  have "pair_after [6, 5] (5, 0) = (5, 6)"
    by (simp add: pair_after_def rebuildPair_def rotatedPrevChecksum_def)
  moreover have "snd (rebuildPair 7 (pair_after [6, 5] (5, 0))) = Some 6"
    by (simp add: pair_after_def rebuildPair_def rotatedPrevChecksum_def displacedPruneCandidate_def)
  ultimately show ?thesis
    using prune_spares_retained [OF refl, of 5 "[6, 5]" 7] by simp
qed

end
