(* ===== verification/Build_Store.thy ===== *)
theory Build_Store
  imports Content_Identity
begin

text \<open>
  The records of builds (\<open>src/cork/database_builds.go\<close>): opening a row (an insert that on a
  known build only sets its instance count), finalizing it with its flag, checksums, lookups and
  images in one transaction, reading it back, removing it, and the questions other components ask
  of the table (is this content still referenced, which builds are stale, which belong to a
  schema). Beginning a transaction is not a statement of its own here: \<open>MustBegin\<close> panics
  when it fails.
\<close>

section \<open>Opening a build\<close>

definition same_build :: "buildMeta \<Rightarrow> buildRow \<Rightarrow> bool" where
  "same_build b r = (bSchema r = mSchema b \<and> bFormat r = mFormat b \<and> bChallenge r = mChallenge b \<and> bSeed r = mSeed b)"

text \<open>SQLite draws one more than the largest row id.\<close>

definition nextRowId :: "int list \<Rightarrow> int" where
  "nextRowId ids = (case ids of [] \<Rightarrow> 1 | i # is \<Rightarrow> fold max is i + 1)"

definition insertBuild :: "buildMeta \<Rightarrow> database \<Rightarrow> sqlError + (unit \<times> database)" where
  "insertBuild b d =
     (if list_ex (same_build b) (builds d) then
        Inr ((), d\<lparr>builds := map (\<lambda>r. if same_build b r then r\<lparr>bInstanceCount := mInstanceCount b\<rparr> else r) (builds d)\<rparr>)
      else if mId b \<noteq> 0 \<and> list_ex (\<lambda>r. bId r = mId b) (builds d) then Inl (SqlConstraint ''UNIQUE builds.id'')
      else if \<not> list_ex (\<lambda>c. cId c = mChallenge b) (challenges d) then Inl (SqlConstraint ''FOREIGN KEY'')
      else Inr ((), d\<lparr>builds := builds d @
        [\<lparr>bId = (if mId b \<noteq> 0 then mId b else nextRowId (map bId (builds d))), bFlag = mFlag b, bFormat = mFormat b,
          bSeed = mSeed b, bChecksum = mChecksum b, bPrevChecksum = 0, bSourceChecksum = 0,
          bHasArtifacts = mHasArtifacts b, bLastSolved = mLastSolved b, bChallenge = mChallenge b,
          bSchema = mSchema b, bInstanceCount = mInstanceCount b\<rparr>]\<rparr>))"

text \<open>\<open>sumOf\<close> is \<open>buildContentChecksum\<close>: the content checksum with the pins and templates of the process.\<close>

definition stampChecksum :: "(32 word \<Rightarrow> string \<Rightarrow> string \<Rightarrow> 32 word) \<Rightarrow> buildMeta \<Rightarrow> buildMeta mio" where
  "stampChecksum sumOf b =
     (if mChecksum b = 0 then
        catch (bnd (query (\<lambda>d. List.find (\<lambda>c. cId c = mChallenge b) (challenges d))) (\<lambda>found.
               ret (case found of
                      None \<Rightarrow> b
                    | Some c \<Rightarrow> b\<lparr>mChecksum := sumOf (cSourceChecksum c) (mFormat b) (cType c)\<rparr>)))
              (\<lambda>e. ret b)
      else ret b)"

definition buildContentChecksum ::
    "32 word \<Rightarrow> (string \<Rightarrow> 8 word list) \<Rightarrow> 32 word \<Rightarrow> string \<Rightarrow> string \<Rightarrow> 32 word" where
  "buildContentChecksum pins getDockerfile sourceChecksum format challengeType =
     contentChecksum sourceChecksum format pins (templateChecksum getDockerfile challengeType)"

text \<open>Naming the build that holds an id already taken.\<close>

definition idTaken :: "buildMeta \<Rightarrow> err \<Rightarrow> unit mio" where
  "idTaken b e =
     (if mId b \<noteq> 0 \<and> errors_Is e (SqlErr (SqlConstraint ''UNIQUE builds.id'')) then
        bnd (catch (bnd (query (\<lambda>d. List.find (\<lambda>r. bId r = mId b) (builds d))) (\<lambda>holder.
                    ret (case holder of
                           Some r \<Rightarrow> ''build id is already a build of '' @ bChallenge r @ '' in schema '' @ bSchema r
                         | None \<Rightarrow> ''build id is already another build's'')))
                   (\<lambda>e'. ret ''build id is already another build's'')) (\<lambda>msg. fail [Msg msg])
      else fail e)"

definition openRow :: "buildMeta \<Rightarrow> buildMeta mio" where
  "openRow b =
     bnd (catch (sqlChecked (insertBuild b)) (idTaken b)) (\<lambda>_.
     bnd (query (\<lambda>d. filter (same_build b) (builds d))) (\<lambda>rows.
     (case rows of
        [] \<Rightarrow> fail [Msg ''found no rows when exactly one expected'']
      | r # _ \<Rightarrow> ret (b\<lparr>mId := bId r, mFlag := bFlag r, mHasArtifacts := bHasArtifacts r, mLastSolved := bLastSolved r,
                       mChecksum := bChecksum r, mPrevChecksum := bPrevChecksum r,
                       mSourceChecksum := bSourceChecksum r\<rparr>))))"

definition openBuild :: "(32 word \<Rightarrow> string \<Rightarrow> string \<Rightarrow> 32 word) \<Rightarrow> buildMeta \<Rightarrow> buildMeta mio" where
  "openBuild sumOf build = bnd (stampChecksum sumOf build) openRow"

section \<open>Finalizing\<close>

definition finalizeRow :: "buildMeta \<Rightarrow> buildRow \<Rightarrow> buildRow" where
  "finalizeRow b r = r\<lparr>bFlag := mFlag b, bHasArtifacts := mHasArtifacts b, bChecksum := mChecksum b,
     bPrevChecksum := mPrevChecksum b, bSourceChecksum := mSourceChecksum b, bLastSolved := 0\<rparr>"

definition insertImage :: "int \<Rightarrow> string \<Rightarrow> database \<Rightarrow> int \<times> database" where
  "insertImage build host d =
     (let iid = nextRowId (map imId (images d))
      in (iid, d\<lparr>images := images d @ [\<lparr>imId = iid, imBuild = build, imHost = host, imPorts = []\<rparr>]\<rparr>))"

definition addImagePort :: "int \<Rightarrow> string \<Rightarrow> database \<Rightarrow> database" where
  "addImagePort iid port d =
     d\<lparr>images := map (\<lambda>r. if imId r = iid then r\<lparr>imPorts := imPorts r @ [port]\<rparr> else r) (images d)\<rparr>"

definition finalizeImage :: "int \<Rightarrow> image \<Rightarrow> unit mio" where
  "finalizeImage build img =
     bnd (sql (insertImage build (imgHost img))) (\<lambda>iid.
     for_each (imgPorts img) (\<lambda>port. exec (addImagePort iid port)))"

definition finalizeBuild :: "buildMeta \<Rightarrow> unit mio" where
  "finalizeBuild build =
     txn (
       bnd (sql (\<lambda>d. (length (filter (\<lambda>r. bId r = mId build) (builds d)),
                      d\<lparr>builds := map (\<lambda>r. if bId r = mId build then finalizeRow build r else r) (builds d)\<rparr>))) (\<lambda>rowCount.
       if rowCount \<noteq> 1 then fail [Msg ''finalized an unexpected number of builds'']
       else
         bnd (exec (\<lambda>d. d\<lparr>lookupData := filter (\<lambda>l. fst l \<noteq> mId build) (lookupData d)\<rparr>)) (\<lambda>_.
         bnd (for_each (mLookup build) (\<lambda>(k, v). exec (\<lambda>d. d\<lparr>lookupData := lookupData d @ [(mId build, k, v)]\<rparr>))) (\<lambda>_.
         bnd (exec (\<lambda>d. d\<lparr>images := filter (\<lambda>i. imBuild i \<noteq> mId build) (images d)\<rparr>)) (\<lambda>_.
         for_each (mImages build) (finalizeImage (mId build)))))))"

section \<open>Reading\<close>

text \<open>
  The loop over the images assigns the error of each read over the one before; only the last
  one's is looked at.
\<close>

fun readPorts :: "imageRow list \<Rightarrow> err option \<Rightarrow> image list \<Rightarrow> (err option \<times> image list) mio" where
  "readPorts [] failure imgs = ret (failure, imgs)"
| "readPorts (r # rs) failure imgs =
     (\<lambda>m. case query (\<lambda>d. concat (map imPorts (filter (\<lambda>i. imId i = imId r) (images d)))) m of
            (Inl e, m') \<Rightarrow> readPorts rs (Some e) (imgs @ [\<lparr>imgHost = imHost r, imgPorts = []\<rparr>]) m'
          | (Inr ports, m') \<Rightarrow> readPorts rs None (imgs @ [\<lparr>imgHost = imHost r, imgPorts = ports\<rparr>]) m')"

definition lookupMap :: "(string \<times> string) list \<Rightarrow> (string \<times> string) list" where
  "lookupMap rows = fold (\<lambda>(k, v). mapPut k v) rows []"

definition buildMeta_of :: "buildRow \<Rightarrow> (string \<times> string) list \<Rightarrow> image list \<Rightarrow> buildMeta" where
  "buildMeta_of r lookups imgs =
     \<lparr>mId = bId r, mFlag = bFlag r, mLookup = lookups, mSeed = bSeed r, mFormat = bFormat r, mChecksum = bChecksum r,
      mPrevChecksum = bPrevChecksum r, mSourceChecksum = bSourceChecksum r, mImages = imgs,
      mHasArtifacts = bHasArtifacts r, mLastSolved = bLastSolved r, mChallenge = bChallenge r, mSchema = bSchema r,
      mInstanceCount = bInstanceCount r\<rparr>"

definition lookupBuildMetadata :: "int \<Rightarrow> buildMeta mio" where
  "lookupBuildMetadata build =
     txn (
       bnd (query (\<lambda>d. List.find (\<lambda>r. bId r = build) (builds d))) (\<lambda>found.
       (case found of
          None \<Rightarrow> fail (unknownBuildIdError build)
        | Some r \<Rightarrow>
            bnd (query (\<lambda>d. map snd (filter (\<lambda>l. fst l = build) (lookupData d)))) (\<lambda>lookups.
            bnd (query (\<lambda>d. filter (\<lambda>i. imBuild i = build) (images d))) (\<lambda>rows.
            bnd (readPorts rows None []) (\<lambda>(failure, imgs).
            (case failure of
               Some e \<Rightarrow> fail e
             | None \<Rightarrow> ret (buildMeta_of r (lookupMap lookups) imgs))))))))"

section \<open>Removing, and questions about the table\<close>

definition contentReferenced :: "string \<Rightarrow> int \<Rightarrow> 32 word \<Rightarrow> int \<Rightarrow> bool mio" where
  "contentReferenced challenge seed checksum excludeBuild =
     catch (query (\<lambda>d. list_ex (\<lambda>r. bChallenge r = challenge \<and> bSeed r = seed \<and>
              (bChecksum r = checksum \<or> bPrevChecksum r = checksum) \<and> bId r \<noteq> excludeBuild) (builds d)))
           (\<lambda>e. ret True)"

definition deleteBuild :: "int \<Rightarrow> database \<Rightarrow> sqlError + (unit \<times> database)" where
  "deleteBuild build d =
     (if list_ex (\<lambda>r. bId r = build) (builds d) \<and> list_ex (\<lambda>i. iBuild i = build) (instances d)
      then Inl (SqlConstraint ''FOREIGN KEY'')
      else Inr ((), d\<lparr>builds := filter (\<lambda>r. bId r \<noteq> build) (builds d),
                     images := filter (\<lambda>i. imBuild i \<noteq> build) (images d),
                     lookupData := filter (\<lambda>l. fst l \<noteq> build) (lookupData d)\<rparr>))"

definition removeBuildMetadata :: "int \<Rightarrow> unit mio" where
  "removeBuildMetadata build =
     txn (bnd (exec (\<lambda>d. d\<lparr>images := filter (\<lambda>i. imBuild i \<noteq> build) (images d)\<rparr>)) (\<lambda>_.
          sqlChecked (deleteBuild build)))"

definition schemaExists :: "string \<Rightarrow> bool mio" where
  "schemaExists schema = query (\<lambda>d. list_ex (\<lambda>r. bSchema r = schema) (builds d))"

definition removedSchemaBuilds :: "string \<Rightarrow> int list mio" where
  "removedSchemaBuilds schema =
     query (\<lambda>d. map bId (filter (\<lambda>r. bSchema r = schema \<and> bInstanceCount r = LOCKED) (builds d)))"

definition lockSchema :: "string \<Rightarrow> unit mio" where
  "lockSchema schema =
     exec (\<lambda>d. d\<lparr>builds := map (\<lambda>r. if bSchema r = schema then r\<lparr>bInstanceCount := LOCKED\<rparr> else r) (builds d)\<rparr>)"

fun insertBy :: "('a \<Rightarrow> 'a \<Rightarrow> bool) \<Rightarrow> 'a \<Rightarrow> 'a list \<Rightarrow> 'a list" where
  "insertBy le x [] = [x]"
| "insertBy le x (y # ys) = (if le x y then x # y # ys else y # insertBy le x ys)"

definition sortBy :: "('a \<Rightarrow> 'a \<Rightarrow> bool) \<Rightarrow> 'a list \<Rightarrow> 'a list" where
  "sortBy le xs = foldr (insertBy le) xs []"

definition getSchemaBuilds :: "string \<Rightarrow> int list mio" where
  "getSchemaBuilds schema =
     query (\<lambda>d. map bId (sortBy (\<lambda>a b. string_le (bChallenge a) (bChallenge b))
                           (filter (\<lambda>r. bSchema r = schema) (builds d))))"

definition queryForSchemas :: "string list mio" where
  "queryForSchemas = query (\<lambda>d. remdups (map bSchema (builds d)))"

definition staleBuildIds :: "string \<Rightarrow> 32 word \<Rightarrow> int list mio" where
  "staleBuildIds challenge sourceChecksum =
     query (\<lambda>d. sort (map bId (filter (\<lambda>r. bChallenge r = challenge \<and> bFlag r \<noteq> '''' \<and> bSourceChecksum r \<noteq> sourceChecksum)
                                 (builds d))))"

definition allBuildIds :: "string \<Rightarrow> int list mio" where
  "allBuildIds challenge = query (\<lambda>d. sort (map bId (filter (\<lambda>r. bChallenge r = challenge) (builds d))))"

definition is_stale :: "database \<Rightarrow> buildRow \<Rightarrow> bool" where
  "is_stale d r = (bFlag r \<noteq> '''' \<and> list_ex (\<lambda>c. cId c = bChallenge r \<and> bSourceChecksum r \<noteq> cSourceChecksum c) (challenges d))"

definition challengeHasStaleBuild :: "string \<Rightarrow> bool mio" where
  "challengeHasStaleBuild challenge =
     query (\<lambda>d. list_ex (\<lambda>r. bChallenge r = challenge \<and> is_stale d r) (builds d))"

definition staleChallengeSet :: "string list mio" where
  "staleChallengeSet = query (\<lambda>d. remdups (map bChallenge (filter (is_stale d) (builds d))))"

definition storedGeneration :: "int \<Rightarrow> (32 word \<times> 32 word) mio" where
  "storedGeneration build =
     bnd (query (\<lambda>d. List.find (\<lambda>r. bId r = build) (builds d))) (\<lambda>found.
     (case found of
        None \<Rightarrow> fail [Msg ''sql: no rows in result set'']
      | Some r \<Rightarrow> ret (if bFlag r = '''' then (0, 0) else (bChecksum r, bPrevChecksum r))))"

section \<open>Facts\<close>

lemma txn_rollback: "fst (txn body m) = Inl e \<Longrightarrow> db (snd (txn body m)) = db m"
  using txn_Inl [of body m] by (cases "txn body m") auto

lemma fold_max_upper: "(a::int) \<le> fold max xs a \<and> (\<forall>x\<in>set xs. x \<le> fold max xs a)"
proof (induction xs arbitrary: a)
  case (Cons y ys)
  then show ?case using Cons [of "max y a"] by fastforce
qed simp

lemma nextRowId_fresh: "x \<in> set ids \<Longrightarrow> x < nextRowId ids"
proof (cases ids)
  case (Cons i rest)
  assume "x \<in> set ids"
  then have "x \<le> fold max rest i" using fold_max_upper [of i rest] Cons by auto
  then show ?thesis by (simp add: nextRowId_def Cons)
qed simp

lemma filter_key_unique: "distinct (map f xs) \<Longrightarrow> x \<in> set xs \<Longrightarrow> filter (\<lambda>y. f y = f x) xs = [x]"
proof (induction xs)
  case (Cons y ys)
  show ?case
  proof (cases "x = y")
    case True
    then have "filter (\<lambda>z. f z = f x) ys = []" using Cons.prems(1) by (auto simp: filter_empty_conv image_iff)
    then show ?thesis using True by simp
  next
    case False
    then have "f y \<noteq> f x" using Cons.prems by force
    then show ?thesis using Cons False by simp
  qed
qed simp

lemma lookupMap_id: "distinct (map fst xs) \<Longrightarrow> lookupMap xs = xs"
proof -
  have put: "k \<notin> fst ` set acc \<Longrightarrow> mapPut k v acc = acc @ [(k, v)]" for k :: string and v :: string and acc
    by (induction acc) auto
  have "distinct (map fst (acc @ xs)) \<Longrightarrow> fold (\<lambda>(k, v). mapPut k v) xs acc = acc @ xs" for acc
  proof (induction xs arbitrary: acc)
    case (Cons x xs)
    then show ?case using put [of "fst x" acc "snd x"] Cons.IH [of "acc @ [x]"] by (cases x) auto
  qed simp
  from this [of "[]"] show "distinct (map fst xs) \<Longrightarrow> lookupMap xs = xs" by (simp add: lookupMap_def)
qed

definition image_of :: "imageRow \<Rightarrow> image" where
  "image_of r = \<lparr>imgHost = imHost r, imgPorts = imPorts r\<rparr>"

lemma readPorts_no_fault:
  assumes "faults m = []" "distinct (map imId (images (db m)))" "set rows \<subseteq> set (images (db m))"
  shows "readPorts rows None imgs m = (Inr (None, imgs @ map image_of rows), m)"
  using assms(3)
proof (induction rows arbitrary: imgs)
  case (Cons r rows)
  have "filter (\<lambda>i. imId i = imId r) (images (db m)) = [r]"
    using Cons.prems by (intro filter_key_unique assms(2)) simp
  then show ?case using Cons assms(1) by (simp add: image_of_def)
qed simp

text \<open>What finalizing does to the tables when nothing fails.\<close>

definition appendImage :: "int \<Rightarrow> image \<Rightarrow> database \<Rightarrow> database" where
  "appendImage build img d =
     d\<lparr>images := images d @ [\<lparr>imId = nextRowId (map imId (images d)), imBuild = build, imHost = imgHost img,
                             imPorts = imgPorts img\<rparr>]\<rparr>"

lemma addImagePorts:
  assumes "iid \<notin> imId ` set rows"
  shows "fold (addImagePort iid) ports (d\<lparr>images := rows @ [\<lparr>imId = iid, imBuild = b, imHost = h, imPorts = ps\<rparr>]\<rparr>) =
         d\<lparr>images := rows @ [\<lparr>imId = iid, imBuild = b, imHost = h, imPorts = ps @ ports\<rparr>]\<rparr>"
proof (induction ports arbitrary: ps)
  case (Cons p ports)
  have "map (\<lambda>r. if imId r = iid then r\<lparr>imPorts := imPorts r @ [p]\<rparr> else r) rows = rows"
    using assms by (auto intro!: map_idI)
  then have "addImagePort iid p (d\<lparr>images := rows @ [\<lparr>imId = iid, imBuild = b, imHost = h, imPorts = ps\<rparr>]\<rparr>) =
      d\<lparr>images := rows @ [\<lparr>imId = iid, imBuild = b, imHost = h, imPorts = ps @ [p]\<rparr>]\<rparr>"
    by (simp add: addImagePort_def)
  then show ?case using Cons by simp
qed simp

lemma finalizeImage_no_fault:
  "faults m = [] \<Longrightarrow> finalizeImage build img m = (Inr (), m\<lparr>db := appendImage build img (db m)\<rparr>)"
proof -
  assume f: "faults m = []"
  let ?iid = "nextRowId (map imId (images (db m)))"
  have fresh: "?iid \<notin> imId ` set (images (db m))"
    using nextRowId_fresh [of ?iid "map imId (images (db m))"] by auto
  have "for_each (imgPorts img) (\<lambda>port. exec (addImagePort ?iid port)) (m\<lparr>db := snd (insertImage build (imgHost img) (db m))\<rparr>) =
      (Inr (), m\<lparr>db := appendImage build img (db m)\<rparr>)"
    using f addImagePorts [OF fresh, where ports = "imgPorts img" and d = "db m" and ps = "[]"]
    by (simp add: for_each_exec_no_fault insertImage_def appendImage_def Let_def)
  then show ?thesis using f by (simp add: finalizeImage_def bnd_def sql_no_fault insertImage_def Let_def)
qed

lemma appendImages:
  "map image_of (filter (\<lambda>i. imBuild i = build) (images (fold (appendImage build) imgs d))) =
     map image_of (filter (\<lambda>i. imBuild i = build) (images d)) @ imgs"
  "distinct (map imId (images d)) \<Longrightarrow> distinct (map imId (images (fold (appendImage build) imgs d)))"
  "builds (fold (appendImage build) imgs d) = builds d" "lookupData (fold (appendImage build) imgs d) = lookupData d"
proof -
  show "map image_of (filter (\<lambda>i. imBuild i = build) (images (fold (appendImage build) imgs d))) =
     map image_of (filter (\<lambda>i. imBuild i = build) (images d)) @ imgs"
    by (induction imgs arbitrary: d) (simp_all add: appendImage_def image_of_def)
  show "distinct (map imId (images d)) \<Longrightarrow> distinct (map imId (images (fold (appendImage build) imgs d)))"
  proof (induction imgs arbitrary: d)
    case (Cons img imgs)
    have "nextRowId (map imId (images d)) \<notin> imId ` set (images d)"
      using nextRowId_fresh [of "nextRowId (map imId (images d))" "map imId (images d)"] by auto
    then have "distinct (map imId (images (appendImage build img d)))" using Cons.prems by (simp add: appendImage_def)
    then show ?case using Cons.IH by simp
  qed simp
  show "builds (fold (appendImage build) imgs d) = builds d" "lookupData (fold (appendImage build) imgs d) = lookupData d"
    by (induction imgs arbitrary: d) (simp_all add: appendImage_def)
qed

definition finalized :: "buildMeta \<Rightarrow> database \<Rightarrow> database" where
  "finalized b d =
     fold (appendImage (mId b)) (mImages b)
       (d\<lparr>builds := map (\<lambda>r. if bId r = mId b then finalizeRow b r else r) (builds d),
          lookupData := filter (\<lambda>l. fst l \<noteq> mId b) (lookupData d) @ map (\<lambda>(k, v). (mId b, k, v)) (mLookup b),
          images := filter (\<lambda>i. imBuild i \<noteq> mId b) (images d)\<rparr>)"

lemma addLookups:
  "fold (\<lambda>(k, v) d. d\<lparr>lookupData := lookupData d @ [(b, k, v)]\<rparr>) ls d =
   d\<lparr>lookupData := lookupData d @ map (\<lambda>(k, v). (b, k, v)) ls\<rparr>"
  by (induction ls arbitrary: d) auto

lemma finalizeBuild_no_fault:
  assumes f: "faults m = []" and one: "length (filter (\<lambda>r. bId r = mId b) (builds (db m))) = 1"
  shows "finalizeBuild b m = (Inr (), m\<lparr>db := finalized b (db m)\<rparr>)"
proof -
  have lk: "for_each (mLookup b) (\<lambda>(k, v). exec (\<lambda>d. d\<lparr>lookupData := lookupData d @ [(mId b, k, v)]\<rparr>)) m' =
      (Inr (), m'\<lparr>db := (db m')\<lparr>lookupData := lookupData (db m') @ map (\<lambda>(k, v). (mId b, k, v)) (mLookup b)\<rparr>\<rparr>)"
    if "faults m' = []" for m'
    using for_each_no_fault [of "\<lambda>(k, v). exec (\<lambda>d. d\<lparr>lookupData := lookupData d @ [(mId b, k, v)]\<rparr>)"
        "\<lambda>(k, v) d. d\<lparr>lookupData := lookupData d @ [(mId b, k, v)]\<rparr>" m' "mLookup b"] that
    by (auto simp: addLookups)
  have im: "for_each (mImages b) (finalizeImage (mId b)) m' = (Inr (), m'\<lparr>db := fold (appendImage (mId b)) (mImages b) (db m')\<rparr>)"
    if "faults m' = []" for m'
    using that by (intro for_each_no_fault finalizeImage_no_fault)
  show ?thesis
    unfolding finalizeBuild_def
    by (rule txn_no_fault_Inr) (use f one in \<open>simp_all add: bnd_def sql_no_fault lk im finalized_def\<close>)
qed

lemma lookupBuildMetadata_no_fault:
  assumes "faults m = []" "distinct (map imId (images (db m)))"
  shows "lookupBuildMetadata build m =
     (case List.find (\<lambda>r. bId r = build) (builds (db m)) of
        None \<Rightarrow> (Inl (unknownBuildIdError build), m)
      | Some r \<Rightarrow> (Inr (buildMeta_of r (lookupMap (map snd (filter (\<lambda>l. fst l = build) (lookupData (db m)))))
                    (map image_of (filter (\<lambda>i. imBuild i = build) (images (db m))))), m))"
proof -
  have "readPorts (filter (\<lambda>i. imBuild i = build) (images (db m))) None [] m =
      (Inr (None, map image_of (filter (\<lambda>i. imBuild i = build) (images (db m)))), m)"
    using readPorts_no_fault [OF assms, of "filter (\<lambda>i. imBuild i = build) (images (db m))" "[]"] by auto
  then show ?thesis
    using assms(1) by (simp add: lookupBuildMetadata_def txn_def bnd_def split: option.split)
qed

lemma find_unique: "distinct (map f xs) \<Longrightarrow> x \<in> set xs \<Longrightarrow> List.find (\<lambda>y. f y = f x) xs = Some x"
  by (induction xs) (auto simp: image_iff)

text \<open>The keys the table declares: row ids and (schema, format, challenge, seed).\<close>

definition build_key :: "buildRow \<Rightarrow> string \<times> string \<times> string \<times> int" where
  "build_key r = (bSchema r, bFormat r, bChallenge r, bSeed r)"

definition builds_keyed :: "manager \<Rightarrow> bool" where
  "builds_keyed m \<longleftrightarrow> distinct (map bId (builds (db m))) \<and> distinct (map build_key (builds (db m))) \<and>
     distinct (map imId (images (db m)))"

lemma same_build_key: "same_build b r \<longleftrightarrow> build_key r = (mSchema b, mFormat b, mChallenge b, mSeed b)"
  by (auto simp: same_build_def build_key_def)

section \<open>Properties\<close>

text \<open>
  C9. What is finalized is what is read. Finalizing is all or nothing whatever statement fails;
  and when none fails, reading the build back returns the flag, the checksums, the lookups and the
  images with their ports exactly as they were given, under the schema, seed and count of its row.
\<close>

theorem finalizeBuild_roundtrip:
  assumes "builds_keyed m" and "r \<in> set (builds (db m))" "bId r = mId b" and "distinct (map fst (mLookup b))"
  shows "(\<forall>e. fst (finalizeBuild b m) = Inl e \<longrightarrow> db (snd (finalizeBuild b m)) = db m) \<and>
         (faults m = [] \<longrightarrow> fst (finalizeBuild b m) = Inr () \<and>
            fst (lookupBuildMetadata (mId b) (snd (finalizeBuild b m))) =
              Inr (b\<lparr>mSeed := bSeed r, mFormat := bFormat r, mLastSolved := 0, mChallenge := bChallenge r,
                     mSchema := bSchema r, mInstanceCount := bInstanceCount r\<rparr>))"
proof (intro conjI allI impI)
  fix e assume "fst (finalizeBuild b m) = Inl e"
  then show "db (snd (finalizeBuild b m)) = db m"
    unfolding finalizeBuild_def by (rule txn_rollback)
next
  assume f: "faults m = []"
  have ids: "distinct (map bId (builds (db m)))" and im: "distinct (map imId (images (db m)))"
    using assms(1) by (simp_all add: builds_keyed_def)
  have one: "filter (\<lambda>x. bId x = mId b) (builds (db m)) = [r]"
    using filter_key_unique [OF ids assms(2)] assms(3) by simp
  have run: "finalizeBuild b m = (Inr (), m\<lparr>db := finalized b (db m)\<rparr>)"
    using f one by (intro finalizeBuild_no_fault) simp_all
  then show "fst (finalizeBuild b m) = Inr ()" by simp
  let ?d = "(db m)\<lparr>builds := map (\<lambda>r. if bId r = mId b then finalizeRow b r else r) (builds (db m)),
          lookupData := filter (\<lambda>l. fst l \<noteq> mId b) (lookupData (db m)) @ map (\<lambda>(k, v). (mId b, k, v)) (mLookup b),
          images := filter (\<lambda>i. imBuild i \<noteq> mId b) (images (db m))\<rparr>"
  have ids': "distinct (map imId (images (finalized b (db m))))"
    unfolding finalized_def by (rule appendImages(2)) (simp add: distinct_map_filter [OF im])
  have images': "map image_of (filter (\<lambda>i. imBuild i = mId b) (images (finalized b (db m)))) = mImages b"
    unfolding finalized_def by (simp add: appendImages(1))
  have bs: "builds (finalized b (db m)) = map (\<lambda>r. if bId r = mId b then finalizeRow b r else r) (builds (db m))"
    by (simp add: finalized_def appendImages(3))
  have "distinct (map bId (builds (finalized b (db m))))"
    unfolding bs map_map using ids by (auto simp: finalizeRow_def o_def intro: back_subst [of distinct])
  moreover have "finalizeRow b r \<in> set (builds (finalized b (db m)))" using assms(2,3) by (auto simp: bs)
  ultimately have find: "List.find (\<lambda>x. bId x = mId b) (builds (finalized b (db m))) = Some (finalizeRow b r)"
    using find_unique [of bId "builds (finalized b (db m))" "finalizeRow b r"] assms(3) by (simp add: finalizeRow_def)
  have "map snd (filter (\<lambda>l. fst l = mId b) (lookupData (finalized b (db m)))) = mLookup b"
    by (simp add: finalized_def appendImages(4) filter_map o_def case_prod_unfold)
  then show "fst (lookupBuildMetadata (mId b) (snd (finalizeBuild b m))) =
      Inr (b\<lparr>mSeed := bSeed r, mFormat := bFormat r, mLastSolved := 0, mChallenge := bChallenge r,
             mSchema := bSchema r, mInstanceCount := bInstanceCount r\<rparr>)"
    using f ids' images' find assms(3,4)
    by (simp add: run lookupBuildMetadata_no_fault lookupMap_id buildMeta_of_def finalizeRow_def)
qed

text \<open>
  Images are untagged only when nothing else needs them. If \<open>contentReferenced\<close> answers
  no, then no other build row resolves, for any host, to the same image name, neither by the
  generation it serves nor by the one it keeps for rollback. When the table cannot be read it
  answers yes.
\<close>

theorem contentReferenced_safe:
  assumes "fst (contentReferenced challenge seed checksum exclude m) = Inr False"
  shows "\<forall>r\<in>set (builds (db m)). bId r \<noteq> exclude \<and> bChallenge r = challenge \<longrightarrow>
           (\<forall>registry host host'.
              instanceImageName registry (bChallenge r) (bSeed r) (bChecksum r) host' \<noteq>
                instanceImageName registry challenge seed checksum host \<and>
              instanceImageName registry (bChallenge r) (bSeed r) (bPrevChecksum r) host' \<noteq>
                instanceImageName registry challenge seed checksum host)"
proof -
  have no: "\<not> list_ex (\<lambda>r. bChallenge r = challenge \<and> bSeed r = seed \<and>
      (bChecksum r = checksum \<or> bPrevChecksum r = checksum) \<and> bId r \<noteq> exclude) (builds (db m))"
    using assms by (auto simp: contentReferenced_def catch_def dest!: query_Inr split: prod.splits sum.splits)
  show ?thesis
  proof (intro ballI impI allI)
    fix r registry host host'
    assume r: "r \<in> set (builds (db m))" "bId r \<noteq> exclude \<and> bChallenge r = challenge"
    then have "bSeed r \<noteq> seed \<or> bChecksum r \<noteq> checksum \<and> bPrevChecksum r \<noteq> checksum"
      using no by (auto simp: list_ex_iff)
    then show "instanceImageName registry (bChallenge r) (bSeed r) (bChecksum r) host' \<noteq>
                instanceImageName registry challenge seed checksum host \<and>
              instanceImageName registry (bChallenge r) (bSeed r) (bPrevChecksum r) host' \<noteq>
                instanceImageName registry challenge seed checksum host"
      using r(2) image_name_inj by metis
  qed
qed

lemma stampChecksum_frame:
  assumes "stampChecksum sumOf b m = (r, m1)"
  shows "\<exists>c fs. r = Inr (b\<lparr>mChecksum := c\<rparr>) \<and> m1 = m\<lparr>faults := fs\<rparr>"
proof -
  have b: "b = b\<lparr>mChecksum := mChecksum b\<rparr>" and m: "m = m\<lparr>faults := faults m\<rparr>" by simp_all
  show ?thesis
  proof (cases "mChecksum b = 0")
    case False
    then show ?thesis using assms b m by (auto simp: stampChecksum_def intro: exI [of _ "mChecksum b"] exI [of _ "faults m"])
  next
    case True
    obtain q m2 where q: "query (\<lambda>d. List.find (\<lambda>c. cId c = mChallenge b) (challenges d)) m = (q, m2)" by fastforce
    have m2: "\<exists>fs. m2 = m\<lparr>faults := fs\<rparr>"
      using q m by (auto simp: query_def sql_def split: list.splits option.splits)
    show ?thesis
    proof (cases q)
      case (Inl e)
      then show ?thesis using assms True q m2 b by (auto simp: stampChecksum_def bnd_def catch_def intro: exI [of _ "mChecksum b"])
    next
      case (Inr found)
      then show ?thesis using assms True q m2 b
        by (cases found) (auto simp: stampChecksum_def bnd_def catch_def intro: exI [of _ "mChecksum b"])
    qed
  qed
qed

lemma idTaken_fails: "\<exists>e' m'. idTaken b e m = (Inl e', m')"
  by (auto simp: idTaken_def bnd_def catch_def split: prod.splits sum.splits)

lemma openRow_Inr:
  assumes "openRow b m = (Inr b', m')"
  obtains r rs where "insertBuild b (db m) = Inr ((), db m')"
    and "filter (same_build b) (builds (db m')) = r # rs"
    and "b' = b\<lparr>mId := bId r, mFlag := bFlag r, mHasArtifacts := bHasArtifacts r, mLastSolved := bLastSolved r,
                mChecksum := bChecksum r, mPrevChecksum := bPrevChecksum r, mSourceChecksum := bSourceChecksum r\<rparr>"
proof -
  obtain m2 rows m3 where 2: "catch (sqlChecked (insertBuild b)) (idTaken b) m = (Inr (), m2)"
    and 3: "query (\<lambda>d. filter (same_build b) (builds d)) m2 = (Inr rows, m3)"
    and k3: "(case rows of
        [] \<Rightarrow> fail [Msg ''found no rows when exactly one expected'']
      | r # _ \<Rightarrow> ret (b\<lparr>mId := bId r, mFlag := bFlag r, mHasArtifacts := bHasArtifacts r, mLastSolved := bLastSolved r,
                       mChecksum := bChecksum r, mPrevChecksum := bPrevChecksum r,
                       mSourceChecksum := bSourceChecksum r\<rparr>)) m3 = (Inr b', m')"
    using assms unfolding openRow_def by (elim bnd_InrE) auto
  have "sqlChecked (insertBuild b) m = (Inr (), m2)"
    using 2 idTaken_fails [of b] by (auto simp: catch_def split: prod.splits sum.splits) (metis Inl_Inr_False Pair_inject)
  then have ins: "insertBuild b (db m) = Inr ((), db m2)" using sqlChecked_Inr by fastforce
  have rows: "rows = filter (same_build b) (builds (db m2))" "db m3 = db m2" using query_Inr [OF 3] by simp_all
  show ?thesis
  proof (cases rows)
    case Nil
    then show ?thesis using k3 by simp
  next
    case (Cons r rs)
    then show ?thesis using k3 rows ins by (intro that [of r rs]) auto
  qed
qed

lemma openBuild_Inr:
  assumes "openBuild sumOf b m = (Inr b', m')"
  obtains c r rs where "insertBuild (b\<lparr>mChecksum := c\<rparr>) (db m) = Inr ((), db m')"
    and "filter (same_build b) (builds (db m')) = r # rs"
    and "b' = b\<lparr>mId := bId r, mFlag := bFlag r, mHasArtifacts := bHasArtifacts r, mLastSolved := bLastSolved r,
                mChecksum := bChecksum r, mPrevChecksum := bPrevChecksum r, mSourceChecksum := bSourceChecksum r\<rparr>"
proof -
  obtain b1 m1 where 1: "stampChecksum sumOf b m = (Inr b1, m1)" "openRow b1 m1 = (Inr b', m')"
    using assms unfolding openBuild_def by (elim bnd_InrE)
  obtain c where b1: "b1 = b\<lparr>mChecksum := c\<rparr>" and m1: "db m1 = db m" using stampChecksum_frame [OF 1(1)] by auto
  have "same_build b1 = same_build b" by (simp add: b1 same_build_def fun_eq_iff)
  with openRow_Inr [OF 1(2)] obtain r rs where "insertBuild b1 (db m) = Inr ((), db m')" "filter (same_build b) (builds (db m')) = r # rs"
    "b' = b1\<lparr>mId := bId r, mFlag := bFlag r, mHasArtifacts := bHasArtifacts r, mLastSolved := bLastSolved r,
                mChecksum := bChecksum r, mPrevChecksum := bPrevChecksum r, mSourceChecksum := bSourceChecksum r\<rparr>"
    using m1 by metis
  then show ?thesis by (intro that [of c r rs]) (simp_all add: b1)
qed

text \<open>
  Opening a build is an upsert on what identifies it. If a build of the same schema, format,
  challenge and seed is on record, opening succeeds only by returning that row's id, flag and
  generations, and changes nothing in the table but that row's instance count; otherwise it adds
  exactly one row, under an id no other build has. Row ids and keys stay unique.
\<close>

theorem openBuild_upsert:
  assumes "openBuild sumOf b m = (Inr b', m')" and "builds_keyed m"
  shows "builds_keyed m' \<and>
         (\<forall>r\<in>set (builds (db m)). same_build b r \<longrightarrow>
            mId b' = bId r \<and> mFlag b' = bFlag r \<and> mChecksum b' = bChecksum r \<and> mPrevChecksum b' = bPrevChecksum r \<and>
            builds (db m') = map (\<lambda>x. if x = r then r\<lparr>bInstanceCount := mInstanceCount b\<rparr> else x) (builds (db m))) \<and>
         ((\<forall>r\<in>set (builds (db m)). \<not> same_build b r) \<longrightarrow>
            mId b' \<notin> bId ` set (builds (db m)) \<and> mFlag b' = mFlag b \<and>
            (\<exists>row. same_build b row \<and> bId row = mId b' \<and> builds (db m') = builds (db m) @ [row]))"
proof -
  obtain c r rs where ins: "insertBuild (b\<lparr>mChecksum := c\<rparr>) (db m) = Inr ((), db m')"
    and rows: "filter (same_build b) (builds (db m')) = r # rs"
    and b': "b' = b\<lparr>mId := bId r, mFlag := bFlag r, mHasArtifacts := bHasArtifacts r, mLastSolved := bLastSolved r,
                mChecksum := bChecksum r, mPrevChecksum := bPrevChecksum r, mSourceChecksum := bSourceChecksum r\<rparr>"
    using openBuild_Inr [OF assms(1)] by blast
  have sb: "same_build (b\<lparr>mChecksum := c\<rparr>) = same_build b" by (simp add: same_build_def fun_eq_iff)
  have keyed: "distinct (map bId (builds (db m)))" "distinct (map build_key (builds (db m)))"
    "distinct (map imId (images (db m)))" using assms(2) by (simp_all add: builds_keyed_def)
  show ?thesis
  proof (cases "\<exists>r0\<in>set (builds (db m)). same_build b r0")
    case True
    then obtain r0 where r0: "r0 \<in> set (builds (db m))" "same_build b r0" by blast
    have uniq: "same_build b x \<longleftrightarrow> x = r0" if "x \<in> set (builds (db m))" for x
      using that r0 keyed(2) unfolding same_build_key by (metis inj_onD distinct_map)
    have d': "db m' = (db m)\<lparr>builds := map (\<lambda>x. if same_build b x then x\<lparr>bInstanceCount := mInstanceCount b\<rparr> else x) (builds (db m))\<rparr>"
    proof -
      have "mInstanceCount (b\<lparr>mChecksum := c\<rparr>) = mInstanceCount b" by simp
      then show ?thesis using ins True sb unfolding insertBuild_def by (simp only:) (simp add: list_ex_iff)
    qed
    have bs: "builds (db m') = map (\<lambda>x. if x = r0 then r0\<lparr>bInstanceCount := mInstanceCount b\<rparr> else x) (builds (db m))"
      using uniq by (auto simp: d' intro!: map_cong)
    have ids: "map bId (builds (db m')) = map bId (builds (db m))" "map build_key (builds (db m')) = map build_key (builds (db m))"
      by (auto simp: bs build_key_def intro!: map_cong)
    have "r \<in> set (filter (same_build b) (builds (db m')))" by (simp add: rows)
    then have "r \<in> set (builds (db m'))" "same_build b r" by simp_all
    then have "r = r0\<lparr>bInstanceCount := mInstanceCount b\<rparr>" using uniq by (auto simp: d' same_build_def)
    moreover have "builds_keyed m'" unfolding builds_keyed_def ids using keyed by (simp add: d')
    ultimately show ?thesis using uniq r0 bs b' by auto
  next
    case False
    let ?new = "\<lparr>bId = (if mId b \<noteq> 0 then mId b else nextRowId (map bId (builds (db m)))), bFlag = mFlag b, bFormat = mFormat b,
          bSeed = mSeed b, bChecksum = c, bPrevChecksum = 0, bSourceChecksum = 0,
          bHasArtifacts = mHasArtifacts b, bLastSolved = mLastSolved b, bChallenge = mChallenge b,
          bSchema = mSchema b, bInstanceCount = mInstanceCount b\<rparr>"
    have d': "db m' = (db m)\<lparr>builds := builds (db m) @ [?new]\<rparr>"
      and free: "mId b \<noteq> 0 \<longrightarrow> mId b \<notin> bId ` set (builds (db m))"
      using ins False sb by (auto simp: insertBuild_def list_ex_iff split: if_splits)
    have fresh: "bId ?new \<notin> bId ` set (builds (db m))"
      using free nextRowId_fresh [of "nextRowId (map bId (builds (db m)))" "map bId (builds (db m))"]
      by (cases "mId b = 0") auto
    have new: "same_build b ?new" by (simp add: same_build_def)
    have "filter (same_build b) (builds (db m)) = []" using False by (auto simp: filter_empty_conv)
    then have r: "r = ?new" using rows new d' by simp
    have "build_key ?new \<notin> build_key ` set (builds (db m))"
      using False new unfolding same_build_key by auto
    then show ?thesis using keyed fresh new r False d' b' by (simp add: builds_keyed_def)
  qed
qed

section \<open>Examples\<close>

definition sample_challenge :: challengeRow where
  "sample_challenge = \<lparr>cId = ''pico/a'', cName = ''A'', cNamespace = ''pico'', cType = ''custom'', cDescription = '''', cDetails = '''',
     cSourceChecksum = 9, cMetadataChecksum = 4, cPath = ''/a'', cSolveScript = False, cTemplatable = True, cMaxUsers = 0,
     cCategory = '''', cPoints = 100, cHints = [''look''], cTags = [''web''], cAttributes = [], cHosts = [(''web'', '''')],
     cOverrides = chOverrides sample_challenge_options\<rparr>"

definition sample_row :: buildRow where
  "sample_row = \<lparr>bId = 1, bFlag = '''', bFormat = ''flag{%s}'', bSeed = 7, bChecksum = 5, bPrevChecksum = 0,
     bSourceChecksum = 0, bHasArtifacts = False, bLastSolved = 0, bChallenge = ''pico/a'', bSchema = ''event'',
     bInstanceCount = -1\<rparr>"

definition sample_build :: buildMeta where
  "sample_build = \<lparr>mId = 1, mFlag = ''flag{x}'', mLookup = [(''k'', ''v'')], mSeed = 7, mFormat = ''flag{%s}'',
     mChecksum = 5, mPrevChecksum = 0, mSourceChecksum = 9,
     mImages = [\<lparr>imgHost = ''challenge'', imgPorts = [''80/tcp'']\<rparr>, \<lparr>imgHost = ''db'', imgPorts = []\<rparr>],
     mHasArtifacts = True, mLastSolved = 3, mChallenge = ''pico/a'', mSchema = ''event'', mInstanceCount = -1\<rparr>"

definition sample_store :: manager where
  "sample_store = freshManager\<lparr>db := emptyDatabase\<lparr>challenges := [sample_challenge], builds := [sample_row]\<rparr>\<rparr>"

lemma sample_store_simps [simp]:
  "faults sample_store = []" "builds (db sample_store) = [sample_row]" "images (db sample_store) = []"
  "builds_keyed sample_store" "bId sample_row = 1" "mId sample_build = 1"
  by (simp_all add: sample_store_def freshManager_def emptyDatabase_def sample_row_def sample_build_def builds_keyed_def)

theorem finalizeBuild_roundtrip_witness:
  "fst (lookupBuildMetadata 1 (snd (finalizeBuild sample_build sample_store))) = Inr (sample_build\<lparr>mLastSolved := 0\<rparr>)"
  using finalizeBuild_roundtrip [of sample_store sample_row sample_build]
  by (simp add: sample_build_def sample_row_def)

theorem contentReferenced_safe_witness:
  "instanceImageName ''reg'' ''pico/a'' 7 5 ''challenge'' \<noteq> instanceImageName ''reg'' ''pico/a'' 7 6 ''challenge''"
proof -
  have "fst (contentReferenced ''pico/a'' 7 6 0 sample_store) = Inr False" by code_simp
  from contentReferenced_safe [OF this]
  show ?thesis by (auto simp: sample_row_def)
qed

theorem openBuild_upsert_witness:
  "\<exists>b' m'. openBuild (\<lambda>_ _ _. 5) (sample_build\<lparr>mInstanceCount := 2, mFlag := ''other''\<rparr>) sample_store = (Inr b', m') \<and>
     mId b' = 1 \<and> mFlag b' = '''' \<and> builds (db m') = [sample_row\<lparr>bInstanceCount := 2\<rparr>]"
proof -
  let ?b = "sample_build\<lparr>mInstanceCount := 2, mFlag := ''other''\<rparr>"
  have same: "same_build ?b sample_row" by (simp add: same_build_def sample_build_def sample_row_def)
  obtain b' m' where run: "openBuild (\<lambda>_ _ _. 5) ?b sample_store = (Inr b', m')"
    by (simp add: openBuild_def openRow_def stampChecksum_def sample_build_def sample_store_def freshManager_def emptyDatabase_def
        bnd_def catch_def sqlChecked_no_fault insertBuild_def same_build_def sample_row_def)
  then show ?thesis using openBuild_upsert [OF run] same by (auto simp: sample_row_def)
qed

text \<open>
  A failed read can go unnoticed. The loop that reads the ports of a build's images keeps only
  the error of the last one: when reading the first image's ports fails and the second's succeeds,
  \<open>lookupBuildMetadata\<close> returns the build as if the first image published nothing.
\<close>

theorem lookupBuildMetadata_masks_error:
  "fst (lookupBuildMetadata 1 ((snd (finalizeBuild sample_build sample_store))\<lparr>faults := [None, None, None, Some SqlBusy]\<rparr>)) =
     Inr (sample_build\<lparr>mLastSolved := 0,
       mImages := [\<lparr>imgHost = ''challenge'', imgPorts = []\<rparr>, \<lparr>imgHost = ''db'', imgPorts = []\<rparr>]\<rparr>)"
  by code_simp

end
