(* ===== verification/Instance_Store.thy ===== *)
theory Instance_Store
  imports Port_Pool Build_Store
begin

text \<open>
  The records of instances (\<open>src/cork/database_instances.go\<close>): a row is opened under a fresh
  id before anything is created on a daemon, finalized with its containers (and, without a port
  range, its ports) once it runs, and deleted with its port assignments and containers when it is
  stopped.
\<close>

section \<open>Writing\<close>

definition insertInstance :: "instanceMeta \<Rightarrow> database \<Rightarrow> sqlError + (int \<times> database)" where
  "insertInstance meta d =
     (if \<not> list_ex (\<lambda>r. bId r = nBuild meta) (builds d) then Inl (SqlConstraint ''FOREIGN KEY'')
      else
        (let iid = instanceSeq d + 1
         in Inr (iid, d\<lparr>instanceSeq := iid,
              instances := instances d @ [\<lparr>iId = iid, iBuild = nBuild meta, iWorker = nWorker meta, iFinalized = False,
                                          iLastSolved = nLastSolved meta, iCreated = Some (sqlNow d)\<rparr>]\<rparr>)))"

definition openInstance :: "instanceMeta \<Rightarrow> instanceMeta mio" where
  "openInstance meta =
     bnd (catch (sqlChecked (insertInstance meta)) (\<lambda>e. fail (retryableDB e))) (\<lambda>iid.
     ret (meta\<lparr>nId := iid\<rparr>))"

definition recordPort :: "instanceMeta \<Rightarrow> string \<times> int \<Rightarrow> database \<Rightarrow> sqlError + (unit \<times> database)" where
  "recordPort meta np d =
     (if \<not> (0 < snd np \<and> snd np < 65536) then Inl (SqlConstraint ''CHECK'')
      else if \<not> list_ex (\<lambda>r. iId r = nId meta) (instances d) then Inl (SqlConstraint ''FOREIGN KEY'')
      else Inr ((), d\<lparr>portAssignments := portAssignments d @
             [\<lparr>pInstance = nId meta, pName = fst np, pPort = snd np, pWorker = nWorker meta\<rparr>]\<rparr>))"

definition recordContainer :: "instanceMeta \<Rightarrow> string \<Rightarrow> database \<Rightarrow> sqlError + (unit \<times> database)" where
  "recordContainer meta cid d =
     (if list_ex (\<lambda>c. snd c = cid) (containers d) then Inl (SqlConstraint ''UNIQUE containers.id'')
      else if \<not> list_ex (\<lambda>r. iId r = nId meta) (instances d) then Inl (SqlConstraint ''FOREIGN KEY'')
      else Inr ((), d\<lparr>containers := containers d @ [(nId meta, cid)]\<rparr>))"

definition finalizeInstance :: "instanceMeta \<Rightarrow> unit mio" where
  "finalizeInstance meta =
     bnd (gets portLow) (\<lambda>low.
     txn (
       bnd (if low = 0 then for_each (nPorts meta) (\<lambda>np. sqlChecked (recordPort meta np)) else ret ()) (\<lambda>_.
       bnd (for_each (nContainers meta) (\<lambda>cid. sqlChecked (recordContainer meta cid))) (\<lambda>_.
       exec (\<lambda>d. d\<lparr>instances := map (\<lambda>r. if iId r = nId meta then r\<lparr>iFinalized := True\<rparr> else r) (instances d)\<rparr>)))))"

text \<open>The metadata is emptied whether or not the transaction went through.\<close>

definition removeContainersMetadata :: "instanceMeta \<Rightarrow> (err option \<times> instanceMeta) mio" where
  "removeContainersMetadata inst m =
     (case txn (bnd (exec (\<lambda>d. d\<lparr>portAssignments := filter (\<lambda>r. pInstance r \<noteq> nId inst) (portAssignments d)\<rparr>)) (\<lambda>_.
                exec (\<lambda>d. d\<lparr>containers := filter (\<lambda>c. fst c \<noteq> nId inst) (containers d)\<rparr>))) m of
        (Inl e, m') \<Rightarrow> (Inr (Some e, inst\<lparr>nContainers := [], nPorts := []\<rparr>), m')
      | (Inr _, m') \<Rightarrow> (Inr (None, inst\<lparr>nContainers := [], nPorts := []\<rparr>), m'))"

definition removeInstanceMetadata :: "int \<Rightarrow> unit mio" where
  "removeInstanceMetadata iid =
     catch (exec (delete_instances (\<lambda>r. iId r = iid))) (\<lambda>e. fail (retryableDB e))"

definition clearInstanceRecords :: "int \<Rightarrow> unit mio" where
  "clearInstanceRecords iid = catch (removeInstanceMetadata iid) (\<lambda>e. ret ())"

section \<open>Reading\<close>

definition instanceMeta_of :: "instanceRow \<Rightarrow> (string \<times> int) list \<Rightarrow> string list \<Rightarrow> instanceMeta" where
  "instanceMeta_of r ports cids =
     \<lparr>nId = iId r, nPorts = fold (\<lambda>(k, v). mapPut k v) ports [], nContainers = cids, nLastSolved = iLastSolved r,
      nBuild = iBuild r, nWorker = iWorker r, nFinalized = iFinalized r\<rparr>"

definition lookupInstanceMetadata :: "int \<Rightarrow> instanceMeta mio" where
  "lookupInstanceMetadata iid =
     txn (
       bnd (query (\<lambda>d. List.find (\<lambda>r. iId r = iid) (instances d))) (\<lambda>found.
       (case found of
          None \<Rightarrow> fail (unknownInstanceIdError iid)
        | Some r \<Rightarrow>
            bnd (query (\<lambda>d. map (\<lambda>p. (pName p, pPort p)) (filter (\<lambda>p. pInstance p = iid) (portAssignments d)))) (\<lambda>ports.
            bnd (query (\<lambda>d. map snd (filter (\<lambda>c. fst c = iid) (containers d)))) (\<lambda>cids.
            ret (instanceMeta_of r ports cids))))))"

definition removedSchemaInstances :: "string \<Rightarrow> int list mio" where
  "removedSchemaInstances schema =
     query (\<lambda>d. map iId (filter (\<lambda>i. list_ex (\<lambda>r. bId r = iBuild i \<and> bSchema r = schema \<and> bInstanceCount r = LOCKED)
                                         (builds d)) (instances d)))"

definition getBuildInstances :: "int \<Rightarrow> int list mio" where
  "getBuildInstances build = query (\<lambda>d. map iId (filter (\<lambda>i. iBuild i = build) (instances d)))"

text \<open>All instances of a build from three statements; ports and containers are grouped afterwards.\<close>

definition lookupBuildInstances :: "int \<Rightarrow> instanceMeta list mio" where
  "lookupBuildInstances build =
     txn (
       bnd (query (\<lambda>d. filter (\<lambda>i. iBuild i = build) (instances d))) (\<lambda>rows.
       bnd (if rows \<noteq> []
            then query (\<lambda>d. filter (\<lambda>p. list_ex (\<lambda>i. iId i = pInstance p \<and> iBuild i = build) (instances d)) (portAssignments d))
            else ret []) (\<lambda>ports.
       bnd (if rows \<noteq> []
            then query (\<lambda>d. filter (\<lambda>c. list_ex (\<lambda>i. iId i = fst c \<and> iBuild i = build) (instances d)) (containers d))
            else ret []) (\<lambda>conts.
       ret (map (\<lambda>r. instanceMeta_of r (map (\<lambda>p. (pName p, pPort p)) (filter (\<lambda>p. pInstance p = iId r) ports))
                       (map snd (filter (\<lambda>c. fst c = iId r) conts))) rows)))))"

section \<open>Solves\<close>

definition solveInstance :: "int \<Rightarrow> int \<Rightarrow> database \<Rightarrow> database" where
  "solveInstance iid solved d =
     d\<lparr>instances := map (\<lambda>r. if iId r = iid \<and> iLastSolved r < solved then r\<lparr>iLastSolved := solved\<rparr> else r) (instances d)\<rparr>"

definition solveBuild :: "int \<Rightarrow> int \<Rightarrow> database \<Rightarrow> database" where
  "solveBuild build solved d =
     d\<lparr>builds := map (\<lambda>r. if bId r = build \<and> bLastSolved r < solved then r\<lparr>bLastSolved := solved\<rparr> else r) (builds d)\<rparr>"

definition recordBuildSolve :: "int \<Rightarrow> int \<Rightarrow> unit mio" where
  "recordBuildSolve build solved = exec (solveBuild build solved)"

definition recordSolve :: "instanceMeta \<Rightarrow> unit mio" where
  "recordSolve inst =
     txn (bnd (exec (solveInstance (nId inst) (nLastSolved inst))) (\<lambda>_.
          exec (solveBuild (nBuild inst) (nLastSolved inst))))"

section \<open>The tables as one map\<close>

text \<open>
  What the three tables say of an instance, as one partial function of its id: the abstract
  state the operations above are about.
\<close>

definition inst_abs :: "database \<Rightarrow> int \<Rightarrow> instanceMeta option" where
  "inst_abs d iid =
     map_option (\<lambda>r. instanceMeta_of r (map (\<lambda>p. (pName p, pPort p)) (filter (\<lambda>p. pInstance p = iid) (portAssignments d)))
                       (map snd (filter (\<lambda>c. fst c = iid) (containers d))))
       (List.find (\<lambda>r. iId r = iid) (instances d))"

definition store_inv :: "database \<Rightarrow> bool" where
  "store_inv d \<longleftrightarrow>
     distinct (map iId (instances d)) \<and> 0 \<le> instanceSeq d \<and>
     (\<forall>r\<in>set (instances d). 0 < iId r \<and> iId r \<le> instanceSeq d) \<and>
     pInstance ` set (portAssignments d) \<subseteq> iId ` set (instances d) \<and>
     fst ` set (containers d) \<subseteq> iId ` set (instances d)"

lemma inst_abs_None: "inst_abs d iid = None \<longleftrightarrow> iid \<notin> iId ` set (instances d)"
  by (auto simp: inst_abs_def find_None_iff)

lemma inst_abs_worker:
  "inst_abs d iid = Some x \<Longrightarrow> \<exists>r\<in>set (instances d). iId r = iid \<and> iWorker r = nWorker x \<and> iBuild r = nBuild x \<and> nId x = iid"
  by (auto simp: inst_abs_def instanceMeta_of_def find_Some_iff)

lemma find_filter_other: "iid \<noteq> j \<Longrightarrow> List.find (\<lambda>r. iId r = j) (filter (\<lambda>r. iId r \<noteq> iid) xs) = List.find (\<lambda>r. iId r = j) xs"
  by (induction xs) auto

lemma delete_one:
  "delete_instances (\<lambda>r. iId r = iid) d =
     (if iid \<in> iId ` set (instances d)
      then d\<lparr>instances := filter (\<lambda>r. iId r \<noteq> iid) (instances d),
             portAssignments := filter (\<lambda>p. pInstance p \<noteq> iid) (portAssignments d),
             containers := filter (\<lambda>c. fst c \<noteq> iid) (containers d)\<rparr>
      else d)"
proof -
  have dead: "iId ` set (filter (\<lambda>r. iId r = iid) (instances d)) = (if iid \<in> iId ` set (instances d) then {iid} else {})"
    by auto
  show ?thesis
  proof (cases "iid \<in> iId ` set (instances d)")
    case False
    then have "filter (\<lambda>r. iId r \<noteq> iid) (instances d) = instances d" by (auto simp: filter_id_conv)
    then show ?thesis using False dead by (simp add: delete_instances_def Let_def)
  next
    case True
    then have "(\<lambda>p. pInstance p \<notin> {iid}) = (\<lambda>p. pInstance p \<noteq> iid)" by auto
    then show ?thesis using True dead by (simp add: delete_instances_def Let_def)
  qed
qed

lemma abs_delete: "inst_abs (delete_instances (\<lambda>r. iId r = iid) d) = (inst_abs d)(iid := None)"
proof
  fix j
  show "inst_abs (delete_instances (\<lambda>r. iId r = iid) d) j = ((inst_abs d)(iid := None)) j"
  proof (cases "j = iid")
    case True
    then show ?thesis by (auto simp: inst_abs_None delete_one)
  next
    case False
    then have "filter (\<lambda>x. pInstance x = j) (filter (\<lambda>p. pInstance p \<noteq> iid) ps) = filter (\<lambda>x. pInstance x = j) ps"
      "filter (\<lambda>x. fst x = j) (filter (\<lambda>p. fst p \<noteq> iid) cs) = filter (\<lambda>x. fst x = j) cs" for ps :: "portRow list" and cs :: "(int \<times> string) list"
      by (auto intro!: filter_cong)
    then show ?thesis using False by (simp add: inst_abs_def delete_one find_filter_other)
  qed
qed

lemma store_inv_add:
  assumes "store_inv d" "iid \<in> iId ` set (instances d)"
  shows "pInstance row = iid \<Longrightarrow> store_inv (d\<lparr>portAssignments := portAssignments d @ [row]\<rparr>)"
    and "store_inv (d\<lparr>containers := containers d @ [(iid, cid)]\<rparr>)"
  using assms by (simp_all add: store_inv_def)

lemma store_inv_map:
  assumes "store_inv d" "\<And>r. iId (f r) = iId r"
  shows "store_inv (d\<lparr>instances := map f (instances d)\<rparr>)"
proof -
  have ids: "map iId (map f (instances d)) = map iId (instances d)" using assms(2) by simp
  then have img: "iId ` set (map f (instances d)) = iId ` set (instances d)" by (metis set_map)
  have "\<forall>r\<in>set (map f (instances d)). 0 < iId r \<and> iId r \<le> instanceSeq d"
    using assms by (auto simp: store_inv_def)
  moreover have "distinct (map iId (map f (instances d)))" unfolding ids using assms(1) by (simp add: store_inv_def)
  ultimately show ?thesis using assms(1) img unfolding store_inv_def by simp
qed

lemma store_inv_delete: "store_inv d \<Longrightarrow> store_inv (delete_instances (\<lambda>r. iId r = iid) d)"
  by (auto simp: store_inv_def delete_one distinct_map_filter)

lemma abs_insert:
  assumes "insertInstance meta d = Inr (iid, d')" "store_inv d"
  shows "inst_abs d iid = None" "instanceSeq d' = iid" "instanceSeq d < iid"
    "inst_abs d' = (inst_abs d)(iid \<mapsto> meta\<lparr>nId := iid, nPorts := [], nContainers := [], nFinalized := False\<rparr>)" "store_inv d'"
proof -
  have iid: "iid = instanceSeq d + 1"
    and d': "d' = d\<lparr>instanceSeq := iid, instances := instances d @
        [\<lparr>iId = iid, iBuild = nBuild meta, iWorker = nWorker meta, iFinalized = False, iLastSolved = nLastSolved meta, iCreated = Some (sqlNow d)\<rparr>]\<rparr>"
    using assms(1) by (auto simp: insertInstance_def Let_def split: if_splits)
  have fresh: "iid \<notin> iId ` set (instances d)" using assms(2) iid by (force simp: store_inv_def)
  then show "inst_abs d iid = None" by (simp add: inst_abs_None)
  show "instanceSeq d' = iid" "instanceSeq d < iid" using iid d' by simp_all
  have none: "filter (\<lambda>p. pInstance p = iid) (portAssignments d) = []" "filter (\<lambda>c. fst c = iid) (containers d) = []"
    using fresh assms(2) by (auto simp: store_inv_def filter_empty_conv)
  have fa: "List.find P (xs @ ys) = (case List.find P xs of None \<Rightarrow> List.find P ys | r \<Rightarrow> r)" for P and xs ys :: "instanceRow list"
    by (induction xs) auto
  have "List.find (\<lambda>r. iId r = iid) (instances d) = None" using fresh by (auto simp: find_None_iff)
  then show "inst_abs d' = (inst_abs d)(iid \<mapsto> meta\<lparr>nId := iid, nPorts := [], nContainers := [], nFinalized := False\<rparr>)"
    using none by (auto simp: inst_abs_def d' fa instanceMeta_of_def fun_eq_iff split: option.split)
  show "store_inv d'" using assms(2) fresh iid by (auto simp: store_inv_def d')
qed

lemma lookupInstance_no_fault:
  "faults m = [] \<Longrightarrow> lookupInstanceMetadata iid m =
     (case inst_abs (db m) iid of None \<Rightarrow> Inl (unknownInstanceIdError iid) | Some x \<Rightarrow> Inr x, m)"
  by (simp add: lookupInstanceMetadata_def txn_def bnd_def inst_abs_def split: option.split)

lemma lookupInstance_Inr: "lookupInstanceMetadata iid m = (Inr x, m') \<Longrightarrow> inst_abs (db m) iid = Some x \<and> db m' = db m"
  unfolding lookupInstanceMetadata_def
  by (auto simp: inst_abs_def dest!: txn_Inr elim!: bnd_InrE dest!: query_Inr split: option.splits)

section \<open>Every write keeps the tables consistent\<close>

abbreviation "kept_store \<equiv> keeps (\<lambda>m :: manager. store_inv (db m))"

lemma exec_store: "(\<And>d. store_inv d \<Longrightarrow> store_inv (f d)) \<Longrightarrow> kept_store (exec f)"
  by (rule exec_keeps) simp_all

lemma sqlChecked_store:
  assumes "\<And>d x d'. store_inv d \<Longrightarrow> f d = Inr (x, d') \<Longrightarrow> store_inv d'"
  shows "kept_store (sqlChecked f)"
proof (rule keepsI)
  fix m :: manager assume inv: "store_inv (db m)"
  obtain r m' where r: "sqlChecked f m = (r, m')" by fastforce
  show "store_inv (db (snd (sqlChecked f m)))"
  proof (cases r)
    case (Inl e)
    then show ?thesis using r inv sqlChecked_Inl [of f m e m'] by simp
  next
    case (Inr x)
    then obtain fs d where "f (db m) = Inr (x, d)" "m' = m\<lparr>faults := fs, db := d\<rparr>"
      using r sqlChecked_Inr [of f m x m'] by auto
    then show ?thesis using r assms [OF inv] by simp
  qed
qed

lemma txn_store: "kept_store body \<Longrightarrow> kept_store (txn body)"
proof (rule keepsI)
  fix m :: manager assume b: "kept_store body" and inv: "store_inv (db m)"
  obtain r m' where r: "txn body m = (r, m')" by fastforce
  show "store_inv (db (snd (txn body m)))"
  proof (cases r)
    case (Inl e)
    then show ?thesis using r inv txn_Inl [of body m e m'] by simp
  next
    case (Inr x)
    then obtain m1 where m1: "body m = (Inr x, m1)" "db m' = db m1" using r txn_Inr [of body m x m'] by auto
    have "store_inv (db m1)" by (rule keepsD [OF b inv m1(1)])
    then show ?thesis using r m1(2) by simp
  qed
qed

lemma query_store: "kept_store (query f)"
  by (rule query_keeps) simp

lemmas store_intros = keeps_ret keeps_fail keeps_gets keeps_bnd keeps_catch keeps_for_each keeps_if
  query_store txn_store

lemma openInstance_store: "kept_store (openInstance meta)"
  unfolding openInstance_def by (intro store_intros sqlChecked_store) (rule abs_insert(5))

lemma claimPort_store: "kept_store (claimPort iid worker name port)"
  unfolding claimPort_def
  by (intro store_intros sqlChecked_store)
     (force dest!: claimRow_Inr intro!: store_inv_add(1) simp: portRow_of_def split: if_splits)

lemma finalizeInstance_store: "kept_store (finalizeInstance meta)"
proof -
  have p: "kept_store (sqlChecked (recordPort meta np))" for np
    by (rule sqlChecked_store) (force simp: recordPort_def list_ex_iff intro!: store_inv_add(1) split: if_splits)
  have c: "kept_store (sqlChecked (recordContainer meta cid))" for cid
    by (rule sqlChecked_store) (force simp: recordContainer_def list_ex_iff intro!: store_inv_add(2) split: if_splits)
  show ?thesis unfolding finalizeInstance_def
    by (intro store_intros p c exec_store store_inv_map) simp_all
qed

lemma removeContainers_store: "kept_store (removeContainersMetadata inst)"
proof -
  let ?t = "txn (bnd (exec (\<lambda>d. d\<lparr>portAssignments := filter (\<lambda>r. pInstance r \<noteq> nId inst) (portAssignments d)\<rparr>)) (\<lambda>_.
                exec (\<lambda>d. d\<lparr>containers := filter (\<lambda>c. fst c \<noteq> nId inst) (containers d)\<rparr>))) :: unit mio"
  have "kept_store ?t" by (intro store_intros exec_store) (auto simp: store_inv_def)
  then show ?thesis by (auto simp: keeps_def removeContainersMetadata_def split: prod.splits sum.splits)
qed

lemma removeInstance_store: "kept_store (removeInstanceMetadata iid)"
  unfolding removeInstanceMetadata_def by (intro store_intros exec_store store_inv_delete)

lemma clearInstance_store: "kept_store (clearInstanceRecords iid)"
  unfolding clearInstanceRecords_def by (intro store_intros removeInstance_store)

section \<open>Properties\<close>

lemma openInstance_Inr:
  assumes "openInstance meta m = (Inr x, m')"
  obtains iid where "insertInstance meta (db m) = Inr (iid, db m')" "x = meta\<lparr>nId := iid\<rparr>"
proof -
  obtain iid m1 where "catch (sqlChecked (insertInstance meta)) (\<lambda>e. fail (retryableDB e)) m = (Inr iid, m1)"
    "x = meta\<lparr>nId := iid\<rparr>" "m' = m1"
    using assms unfolding openInstance_def by (elim bnd_InrE) auto
  then show ?thesis
    by (intro that [of iid]) (auto simp: catch_def dest!: sqlChecked_Inr split: prod.splits sum.splits)
qed

lemma removeInstance_Inr: "removeInstanceMetadata iid m = (Inr x, m') \<Longrightarrow> db m' = delete_instances (\<lambda>r. iId r = iid) (db m)"
  by (auto simp: removeInstanceMetadata_def catch_def dest!: exec_Inr split: prod.splits sum.splits)

lemma removeInstance_Inl: "removeInstanceMetadata iid m = (Inl e, m') \<Longrightarrow> db m' = db m"
  by (auto simp: removeInstanceMetadata_def catch_def dest!: exec_Inl split: prod.splits sum.splits)


definition sample_instance :: instanceMeta where
  "sample_instance = \<lparr>nId = 0, nPorts = [], nContainers = [], nLastSolved = 0, nBuild = 1, nWorker = ''w'', nFinalized = False\<rparr>"

lemma sample_store_inv: "store_inv (db sample_store)"
  by (simp add: store_inv_def sample_store_def emptyDatabase_def)


end
