(* ===== verification/Instance_Runtime.thy ===== *)
theory Instance_Runtime
  imports Instance_Store
begin

text \<open>
  Running an instance on its daemon (\<open>src/cork/docker.go\<close>, \<open>src/cork/launch.go\<close>): the
  image stage, the launch slot, network and containers, reading bound ports back, and tearing all
  of it down. Every call to a daemon is a step that consumes the next of the manager's
  \<open>replies\<close> and is appended to its \<open>calls\<close>. What a container is created with comes from
  \<open>containerConfig\<close>; the settings and parsers it needs are collected in \<open>launchEnv\<close>.
  The metadata of an instance is mutated in place by the code; here it is returned, also next to
  an error.
\<close>

section \<open>Calls\<close>

definition okReply :: dockerReply where
  "okReply = \<lparr>rErr = None, rId = '''', rPorts = Some [], rExpired = False, rPing = None, rNow = 0,
     rDone = False, rNames = [], rTree = [], rTreeEnd = None, rStatus = 200\<rparr>"

definition dockerDo :: "dockerCall \<Rightarrow> dockerReply mio" where
  "dockerDo c m =
     (let r = (case replies m of [] \<Rightarrow> okReply | x # _ \<Rightarrow> x)
      in (Inr r, m\<lparr>replies := tl (replies m), calls := calls m @ [(c, r)]\<rparr>))"

definition clientId :: "dockerClient \<Rightarrow> nat option" where
  "clientId c = (case c of LocalClient \<Rightarrow> None | WorkerClient n \<Rightarrow> Some n)"

definition noteFailure :: "string \<Rightarrow> dockerClient \<Rightarrow> dockerReply \<Rightarrow> err \<Rightarrow> unit mio" where
  "noteFailure worker client r e = modify (noteWorkerTransportError (rPing r) (rNow r) worker (clientId client) e)"

definition clientFor :: "instanceMeta \<Rightarrow> dockerClient mio" where
  "clientFor inst = bnd (gets (\<lambda>m. instanceClient m (nWorker inst))) (\<lambda>c. case c of Inl e \<Rightarrow> fail e | Inr client \<Rightarrow> ret client)"

section \<open>Images\<close>

fun startsWith :: "string \<Rightarrow> string \<Rightarrow> bool" where
  "startsWith s [] = True"
| "startsWith [] (p # ps) = False"
| "startsWith (c # cs) (p # ps) = (c = p \<and> startsWith cs ps)"

fun contains :: "string \<Rightarrow> string \<Rightarrow> bool" where
  "contains [] sub = (sub = [])"
| "contains (c # cs) sub = (startsWith (c # cs) sub \<or> contains cs sub)"

definition registryTimedOut :: "err \<Rightarrow> bool" where
  "registryTimedOut e =
     list_ex (\<lambda>marker. list_ex (\<lambda>c. contains (cause_Error c) marker) e)
       [''Client.Timeout exceeded'', ''context deadline exceeded'', ''TLS handshake timeout'', ''i/o timeout'']"

definition pullImage :: "dockerClient \<Rightarrow> string \<Rightarrow> (err option \<times> dockerReply) mio" where
  "pullImage client name =
     bnd (dockerDo (ImagePull client name)) (\<lambda>r.
     ret (case rErr r of
            None \<Rightarrow> None
          | Some e \<Rightarrow> if rExpired r \<or> registryTimedOut e then Some [ErrPullTimeout] else Some e, r))"

definition imagePresent :: "dockerClient \<Rightarrow> string \<Rightarrow> string \<Rightarrow> bool mio" where
  "imagePresent client worker name =
     bnd (dockerDo (ImageInspect client name)) (\<lambda>r.
     (case rErr r of
        None \<Rightarrow> ret True
      | Some e \<Rightarrow> if errors_Is e NotFound then ret False
                  else bnd (noteFailure worker client r e) (\<lambda>_. fail e)))"

definition imageName :: "manager \<Rightarrow> buildMeta \<Rightarrow> string \<Rightarrow> string" where
  "imageName m build host = instanceImageName (challengeRegistry m) (mChallenge build) (mSeed build) (mChecksum build) host"

fun ensureLoop :: "dockerClient \<Rightarrow> buildMeta \<Rightarrow> string \<Rightarrow> image list \<Rightarrow> bool \<Rightarrow> bool mio" where
  "ensureLoop client build worker [] pulled = ret pulled"
| "ensureLoop client build worker (img # imgs) pulled =
     (if imgHost img = ''builder'' then ensureLoop client build worker imgs pulled
      else
        bnd (gets (\<lambda>m. imageName m build (imgHost img))) (\<lambda>name.
        bnd (imagePresent client worker name) (\<lambda>present.
        if present then ensureLoop client build worker imgs pulled
        else
          bnd (pullImage client name) (\<lambda>(failure, r).
          (case failure of
             None \<Rightarrow> ensureLoop client build worker imgs True
           | Some e \<Rightarrow>
               bnd (if errors_Is e ErrPullTimeout then ret () else noteFailure worker client r e) (\<lambda>_. fail e))))))"

definition ensureImages :: "dockerClient \<Rightarrow> buildMeta \<Rightarrow> instanceMeta \<Rightarrow> launchLimits \<Rightarrow> bool mio" where
  "ensureImages client build inst limits =
     bnd (gets challengeRegistry) (\<lambda>registry.
     if llImagesEnsured limits \<or> registry = '''' then ret False
     else ensureLoop client build (nWorker inst) (mImages build) False)"

section \<open>Networks and containers\<close>

definition startNetwork :: "instanceMeta \<Rightarrow> unit mio" where
  "startNetwork inst =
     bnd (clientFor inst) (\<lambda>client.
     let netname = getNetworkName (nId inst) in
     bnd (dockerDo (NetworkCreate client netname)) (\<lambda>r1.
     bnd (case rErr r1 of
            Some e \<Rightarrow>
              if errors_Is e Conflict then
                bnd (dockerDo (NetworkRemove client netname)) (\<lambda>r2.
                (case rErr r2 of
                   Some rmErr \<Rightarrow> ret (Some (e @ rmErr), r2)
                 | None \<Rightarrow> bnd (dockerDo (NetworkCreate client netname)) (\<lambda>r3. ret (rErr r3, r3))))
              else ret (Some e, r1)
          | None \<Rightarrow> ret (None, r1)) (\<lambda>(failure, r).
     (case failure of
        None \<Rightarrow> ret ()
      | Some e \<Rightarrow> bnd (noteFailure (nWorker inst) client r e) (\<lambda>_. fail e)))))"

definition stopNetwork :: "instanceMeta \<Rightarrow> unit mio" where
  "stopNetwork inst =
     bnd (clientFor inst) (\<lambda>client.
     bnd (dockerDo (NetworkRemove client (getNetworkName (nId inst)))) (\<lambda>r.
     (case rErr r of
        None \<Rightarrow> ret ()
      | Some e \<Rightarrow> if errors_Is e NotFound then ret ()
                  else bnd (noteFailure (nWorker inst) client r e) (\<lambda>_. fail e))))"

text \<open>The ports an inspect reports: stop at the first with no binding; an unreadable number is an error.\<close>

fun portsLoop :: "(string \<Rightarrow> string option) \<Rightarrow> (string \<times> string list) list \<Rightarrow> instanceMeta \<Rightarrow> err option \<times> bool \<times> instanceMeta" where
  "portsLoop revPortMap [] inst = (None, True, inst)"
| "portsLoop revPortMap ((cPort, hPorts) # rest) inst =
     (case hPorts of
        [] \<Rightarrow> (None, False, inst)
      | hPort # _ \<Rightarrow>
          (case atoi hPort of
             None \<Rightarrow> (Some [Msg ''invalid syntax''], False, inst)
           | Some p \<Rightarrow>
               (case revPortMap cPort of
                  None \<Rightarrow> portsLoop revPortMap rest inst
                | Some name \<Rightarrow> portsLoop revPortMap rest (inst\<lparr>nPorts := mapPut name p (nPorts inst)\<rparr>))))"

text \<open>
  Reading ports back, with a wait that doubles from a millisecond for as long as it stays under a
  second.
\<close>

function readBack ::
    "dockerClient \<Rightarrow> string \<Rightarrow> (string \<Rightarrow> string option) \<Rightarrow> duration \<Rightarrow> instanceMeta \<Rightarrow> (err option \<times> instanceMeta) mio" where
  "readBack client cid revPortMap backoff inst =
     (if backoff \<le> 0 \<or> second \<le> backoff then ret (None, inst)
      else
        bnd (dockerDo (ContainerInspect client cid)) (\<lambda>r.
        (case rErr r of
           Some e \<Rightarrow> bnd (noteFailure (nWorker inst) client r e) (\<lambda>_. ret (Some e, inst))
         | None \<Rightarrow>
             (case rPorts r of
                None \<Rightarrow> readBack client cid revPortMap (2 * backoff) inst
              | Some ports \<Rightarrow>
                  (case portsLoop revPortMap ports inst of
                     (Some e, _, inst') \<Rightarrow> ret (Some e, inst')
                   | (None, True, inst') \<Rightarrow> ret (None, inst')
                   | (None, False, inst') \<Rightarrow> readBack client cid revPortMap (2 * backoff) inst')))))"
  by pat_completeness auto
termination
  by (relation "measure (\<lambda>(_, _, _, backoff, _). nat (second - backoff))") auto

declare readBack.simps [simp del]

definition createContainer :: "dockerClient \<Rightarrow> containerSpec \<Rightarrow> (err option \<times> dockerReply) mio" where
  "createContainer client spec =
     bnd (dockerDo (ContainerCreate client spec)) (\<lambda>r.
     bnd (gets challengeRegistry) (\<lambda>registry.
     (case rErr r of
        None \<Rightarrow> ret (None, r)
      | Some e \<Rightarrow>
          if errors_Is e NotFound \<and> registry \<noteq> '''' then
            bnd (pullImage client (csImage spec)) (\<lambda>(failure, rp).
            (case failure of
               Some pe \<Rightarrow> ret (Some pe, rp)
             | None \<Rightarrow> bnd (dockerDo (ContainerCreate client spec)) (\<lambda>r2. ret (rErr r2, r2))))
          else ret (Some e, r))))"

text \<open>What \<open>startContainers\<close> takes besides the build and the instance.\<close>

record launchEnv =
  leParsers :: configParsers
  leSettings :: hostSettings
  leOverrides :: "(string \<times> ContainerOptions) list"
  leEnvVars :: "(string \<times> string) list"

definition configFor ::
    "launchEnv \<Rightarrow> manager \<Rightarrow> buildMeta \<Rightarrow> (string \<Rightarrow> string option) \<Rightarrow> image \<Rightarrow> instanceMeta \<Rightarrow> configError + containerSpec" where
  "configFor env m build revPortMap img inst =
     containerConfig (leParsers env) (leSettings env) (portLow m) (nPorts inst) revPortMap (leOverrides env) (leEnvVars env)
       (mInstanceCount build = DYNAMIC_INSTANCES) (imageName m build (imgHost img)) (getNetworkName (nId inst)) (imgHost img) (imgPorts img)"

text \<open>One image's container: created, started, its ports read back when they are not known yet.\<close>

definition startContainer ::
    "launchEnv \<Rightarrow> dockerClient \<Rightarrow> buildMeta \<Rightarrow> (string \<Rightarrow> string option) \<Rightarrow> image \<Rightarrow> instanceMeta \<Rightarrow> (err option \<times> instanceMeta) mio" where
  "startContainer env client build revPortMap img inst =
     bnd (gets (\<lambda>m. (configFor env m build revPortMap img inst, portLow m))) (\<lambda>(config, low).
     (case config of
        Inl _ \<Rightarrow> ret (Some [Msg ''invalid container configuration''], inst)
      | Inr spec \<Rightarrow>
          bnd (createContainer client spec) (\<lambda>(failure, r).
          (case failure of
             Some e \<Rightarrow> bnd (noteFailure (nWorker inst) client r e) (\<lambda>_. ret (Some e, inst))
           | None \<Rightarrow>
               (let cid = rId r; inst1 = inst\<lparr>nContainers := nContainers inst @ [cid]\<rparr> in
                bnd (dockerDo (ContainerStart client cid)) (\<lambda>rs.
                (case rErr rs of
                   Some e \<Rightarrow> bnd (noteFailure (nWorker inst) client rs e) (\<lambda>_. ret (Some e, inst1))
                 | None \<Rightarrow>
                     if portsAlreadyKnown low (imgPorts img) (nPorts inst1) revPortMap then ret (None, inst1)
                     else readBack client cid revPortMap millisecond inst1)))))))"

fun startLoop ::
    "launchEnv \<Rightarrow> dockerClient \<Rightarrow> buildMeta \<Rightarrow> (string \<Rightarrow> string option) \<Rightarrow> image list \<Rightarrow> instanceMeta \<Rightarrow> (err option \<times> instanceMeta) mio" where
  "startLoop env client build revPortMap [] inst = ret (None, inst)"
| "startLoop env client build revPortMap (img # imgs) inst =
     (if imgHost img = ''builder'' then startLoop env client build revPortMap imgs inst
      else
        bnd (startContainer env client build revPortMap img inst) (\<lambda>(failure, inst').
        (case failure of
           Some e \<Rightarrow> ret (Some e, inst')
         | None \<Rightarrow> startLoop env client build revPortMap imgs inst')))"

text \<open>Running an operation for its error.\<close>

definition tryIO :: "'a mio \<Rightarrow> (err + 'a) mio" where
  "tryIO f m = (case f m of (r, m') \<Rightarrow> (Inr r, m'))"

definition startContainers ::
    "launchEnv \<Rightarrow> buildMeta \<Rightarrow> (string \<Rightarrow> string option) \<Rightarrow> instanceMeta \<Rightarrow> (err option \<times> instanceMeta) mio" where
  "startContainers env build revPortMap inst =
     bnd (tryIO (clientFor inst)) (\<lambda>c.
     (case c of
        Inl e \<Rightarrow> ret (Some e, inst)
      | Inr client \<Rightarrow>
          bnd (startLoop env client build revPortMap (mImages build) inst) (\<lambda>(failure, inst').
          (case failure of
             Some e \<Rightarrow> ret (Some e, inst')
           | None \<Rightarrow>
               bnd (tryIO (finalizeInstance inst')) (\<lambda>f.
               (case f of
                  Inl e \<Rightarrow> ret (Some (retryableDB e), inst')
                | Inr _ \<Rightarrow> ret (None, inst')))))))"

section \<open>Stopping containers\<close>

text \<open>
  The removal loop: every failure is kept, a container that is gone or already going is not one,
  and an unreachable worker ends the loop.
\<close>

fun stopLoop :: "dockerClient \<Rightarrow> string \<Rightarrow> string list \<Rightarrow> bool \<Rightarrow> err list \<Rightarrow> (bool \<times> err list) mio" where
  "stopLoop client worker [] inFlight errs = ret (inFlight, errs)"
| "stopLoop client worker (cid # cids) inFlight errs =
     bnd (dockerDo (ContainerRemove client cid)) (\<lambda>r.
     (case rErr r of
        None \<Rightarrow> stopLoop client worker cids inFlight errs
      | Some rmErr \<Rightarrow>
          if errors_Is rmErr NotFound then stopLoop client worker cids inFlight errs
          else if errors_Is rmErr Conflict then stopLoop client worker cids True errs
          else
            bnd (noteFailure worker client r rmErr) (\<lambda>_.
            bnd (gets (\<lambda>m. workerUnreachable m worker)) (\<lambda>unreach.
            if isTransportError rmErr \<and> unreach then ret (inFlight, errs @ [rmErr])
            else stopLoop client worker cids inFlight (errs @ [rmErr])))))"

text \<open>\<open>errors.Join\<close>: nil when there is nothing to join; \<open>errors.Is\<close> sees every part.\<close>

definition errors_Join :: "err list \<Rightarrow> err option" where
  "errors_Join es = (if es = [] then None else Some (concat es))"

definition stopContainers :: "instanceMeta \<Rightarrow> (bool \<times> err option \<times> instanceMeta) mio" where
  "stopContainers inst =
     bnd (tryIO (clientFor inst)) (\<lambda>c.
     (case c of
        Inl e \<Rightarrow> ret (False, Some e, inst)
      | Inr client \<Rightarrow>
          bnd (stopLoop client (nWorker inst) (nContainers inst) False []) (\<lambda>(inFlight, errs).
          bnd (removeContainersMetadata inst) (\<lambda>(mdErr, inst').
          ret (inFlight, errors_Join (errs @ (case mdErr of None \<Rightarrow> [] | Some e \<Rightarrow> [retryableDB e])), inst')))))"

section \<open>Slots\<close>

text \<open>
  One launch or teardown alone on the queue of its daemon: how its wait ends is the next of
  \<open>slotChoices\<close>. What any number of them do to each other is the interleaving model of
  \<open>Launch_Slots\<close>. A choice the select could not make is not made: the wait of the local
  daemon never ends as unreachable, and an unbounded wait never expires.
\<close>

definition ejectedSince :: "timestamp option \<Rightarrow> string \<Rightarrow> manager \<Rightarrow> manager" where
  "ejectedSince tm worker m =
     (case (tm, workers m worker) of
        (Some now, Some w) \<Rightarrow> m\<lparr>workers := (workers m)(worker \<mapsto> eject now w ''unreachable'')\<rparr>
      | _ \<Rightarrow> m)"

definition nextSlotChoice :: "slotChoice mio" where
  "nextSlotChoice m =
     (Inr (case slotChoices m of [] \<Rightarrow> SlotTaken 0 | c # _ \<Rightarrow> c), m\<lparr>slotChoices := tl (slotChoices m)\<rparr>)"

definition acquireSlot :: "instanceMeta \<Rightarrow> duration \<Rightarrow> duration mio" where
  "acquireSlot inst wait =
     bnd (gets (\<lambda>m. nWorker inst \<noteq> '''' \<and> workerUnreachable m (nWorker inst))) (\<lambda>out.
     if out then fail [ErrWorkerUnreachable]
     else
       bnd nextSlotChoice (\<lambda>choice.
       bnd (case choice of
          SlotUnreachable tm \<Rightarrow>
            if nWorker inst = '''' then ret 0
            else bnd (modify (ejectedSince tm (nWorker inst))) (\<lambda>_. fail [ErrWorkerUnreachable])
        | SlotExpired \<Rightarrow> if wait \<le> 0 then ret 0 else fail [ErrWorkerBusy]
        | SlotTaken hold \<Rightarrow> ret hold) (\<lambda>hold.
       bnd (gets (\<lambda>m. nWorker inst \<noteq> '''' \<and> workerUnreachable m (nWorker inst))) (\<lambda>out'.
       if out' then fail [ErrWorkerUnreachable] else ret hold))))"

text \<open>
  \<open>withLaunchSlot\<close> and \<open>withTeardownSlot\<close> run a stage between acquiring a slot and
  giving it back: the counters of the queue of the daemon resolved at the start, the stage, the
  release, and for a launch the hold time folded into the estimate.
\<close>

definition queueUpdate :: "nat option \<Rightarrow> (daemonQueue \<Rightarrow> daemonQueue) \<Rightarrow> manager \<Rightarrow> manager" where
  "queueUpdate which f m =
     (case which of
        None \<Rightarrow> m\<lparr>localQueue := f (localQueue m)\<rparr>
      | Some c \<Rightarrow> m\<lparr>queues := (queues m)(c := f (queues m c))\<rparr>)"

definition queueKey :: "manager \<Rightarrow> string \<Rightarrow> nat option" where
  "queueKey m worker = (if worker = '''' then None else map_option cli (workers m worker))"

definition withLaunchSlot :: "instanceMeta \<Rightarrow> duration \<Rightarrow> 'a mio \<Rightarrow> (err + 'a) mio" where
  "withLaunchSlot inst wait stage =
     bnd (gets (\<lambda>m. queueKey m (nWorker inst))) (\<lambda>q.
     bnd (modify (queueUpdate q (\<lambda>d. d\<lparr>waiting := waiting d + 1\<rparr>))) (\<lambda>_.
     bnd (tryIO (acquireSlot inst wait)) (\<lambda>got.
     bnd (modify (queueUpdate q (\<lambda>d. d\<lparr>waiting := waiting d - 1\<rparr>))) (\<lambda>_.
     (case got of
        Inl e \<Rightarrow> ret (Inl e)
      | Inr hold \<Rightarrow>
          bnd (modify (queueUpdate q (\<lambda>d. d\<lparr>launchHeld := launchHeld d + 1\<rparr>))) (\<lambda>_.
          bnd stage (\<lambda>x.
          bnd (modify (queueUpdate q (\<lambda>d. recordHold hold (d\<lparr>launchHeld := launchHeld d - 1\<rparr>)))) (\<lambda>_.
          ret (Inr x)))))))))"

definition withTeardownSlot :: "instanceMeta \<Rightarrow> duration \<Rightarrow> 'a mio \<Rightarrow> (err + 'a) mio" where
  "withTeardownSlot inst wait stage =
     bnd (gets (\<lambda>m. queueKey m (nWorker inst))) (\<lambda>q.
     bnd (modify (queueUpdate q (\<lambda>d. d\<lparr>teardownWaiting := teardownWaiting d + 1\<rparr>))) (\<lambda>_.
     bnd (tryIO (acquireSlot inst wait)) (\<lambda>got.
     bnd (modify (queueUpdate q (\<lambda>d. d\<lparr>teardownWaiting := teardownWaiting d - 1\<rparr>))) (\<lambda>_.
     (case got of
        Inl e \<Rightarrow> ret (Inl e)
      | Inr _ \<Rightarrow>
          bnd (modify (queueUpdate q (\<lambda>d. d\<lparr>teardownHeld := teardownHeld d + 1\<rparr>))) (\<lambda>_.
          bnd stage (\<lambda>x.
          bnd (modify (queueUpdate q (\<lambda>d. d\<lparr>teardownHeld := teardownHeld d - 1\<rparr>))) (\<lambda>_.
          ret (Inr x)))))))))"

section \<open>Teardown and launch\<close>

definition teardown :: "instanceMeta \<Rightarrow> duration \<Rightarrow> (err option \<times> instanceMeta) mio" where
  "teardown inst wait =
     bnd (withTeardownSlot inst wait (
       bnd (stopContainers inst) (\<lambda>(inFlight, cErr, inst').
       bnd (gets (\<lambda>m. workerUnreachable m (nWorker inst))) (\<lambda>unreach.
       if (case cErr of None \<Rightarrow> False | Some e \<Rightarrow> isTransportError e) \<and> unreach then ret (cErr, inst')
       else
         bnd (tryIO (stopNetwork inst')) (\<lambda>net.
         let nErr = (case net of
                       Inr _ \<Rightarrow> None
                     | Inl e \<Rightarrow> if inFlight \<and> errors_Is e Conflict then None else Some e)
         in ret (errors_Join ((case cErr of None \<Rightarrow> [] | Some e \<Rightarrow> [e]) @ (case nErr of None \<Rightarrow> [] | Some e \<Rightarrow> [e])), inst')))))) (\<lambda>r.
     (case r of
        Inl e \<Rightarrow> ret (Some e, inst)
      | Inr x \<Rightarrow> ret x))"

text \<open>Whether the launch slot was taken, the error, and the instance as it is left.\<close>

definition launchStages ::
    "launchEnv \<Rightarrow> buildMeta \<Rightarrow> (string \<Rightarrow> string option) \<Rightarrow> launchLimits \<Rightarrow> instanceMeta \<Rightarrow> (bool \<times> err option \<times> instanceMeta) mio" where
  "launchStages env build revPortMap limits inst =
     bnd (tryIO (clientFor inst)) (\<lambda>c.
     (case c of
        Inl e \<Rightarrow> ret (False, Some e, inst)
      | Inr client \<Rightarrow>
          bnd (gets (\<lambda>m. nWorker inst \<noteq> '''' \<and> workerUnreachable m (nWorker inst))) (\<lambda>out.
          if out then ret (False, Some [ErrWorkerUnreachable], inst)
          else
            bnd (tryIO (ensureImages client build inst limits)) (\<lambda>images.
            (case images of
               Inl e \<Rightarrow> ret (False, Some e, inst)
             | Inr _ \<Rightarrow>
                 bnd (withLaunchSlot inst (llSlotWait limits) (
                   bnd (tryIO (startNetwork inst)) (\<lambda>net.
                   (case net of
                      Inl e \<Rightarrow> ret (Some e, inst)
                    | Inr _ \<Rightarrow> startContainers env build revPortMap inst)))) (\<lambda>r.
                 (case r of
                    Inl e \<Rightarrow> ret (False, Some e, inst)
                  | Inr (failure, inst') \<Rightarrow> ret (True, failure, inst'))))))))"

definition launch ::
    "launchEnv \<Rightarrow> buildMeta \<Rightarrow> (string \<Rightarrow> string option) \<Rightarrow> launchLimits \<Rightarrow> instanceMeta \<Rightarrow> (bool \<times> err option \<times> instanceMeta) mio" where
  "launch env build revPortMap limits inst =
     bnd (launchStages env build revPortMap limits inst) (\<lambda>(started, failure, inst').
     bnd (gets (\<lambda>m. launchFailure m (nWorker inst) failure)) (\<lambda>failure'.
     ret (started, failure', inst')))"

end
