(* ===== verification/Challenge_Store.thy ===== *)
theory Challenge_Store
  imports Build_Store
begin

text \<open>
  Challenges in the database (\<open>src/cork/database_challenges.go\<close>) and what a scan of the
  tree means against them (\<open>src/cork/api.go\<close>: \<open>classifyChallenge\<close>,
  \<open>DetectChanges\<close>, \<open>UpdateWithOptions\<close>). Adding, updating and removing are written
  statement by statement, with the transaction's own state where the code keeps using one it has
  rolled back. The inventory of the tree and the rebuild of builds are arguments.
\<close>

section \<open>Metadata\<close>

datatype DeliveryType = DeliveryUnset | DeliveryService | DeliveryArtifactOnly | DeliveryFlagOnly

definition deriveDeliveryType :: "string \<Rightarrow> nat \<Rightarrow> DeliveryType" where
  "deriveDeliveryType challengeType publishedPorts =
     (if challengeType = ''flag-only'' then DeliveryFlagOnly
      else if publishedPorts = 0 then DeliveryArtifactOnly
      else DeliveryService)"

text \<open>The metadata of a challenge: its row, with the port map and the delivery type.\<close>

record challengeMeta = challengeRow +
  hPortMap :: "(string \<times> string \<times> int) list" \<comment> \<open>name, host and port\<close>
  hDelivery :: DeliveryType

definition NeedsInstance :: "challengeMeta \<Rightarrow> bool" where
  "NeedsInstance c = (hDelivery c = DeliveryUnset \<or> hDelivery c = DeliveryService)"

definition findChallenge :: "string \<Rightarrow> database \<Rightarrow> challengeRow option" where
  "findChallenge cid d = List.find (\<lambda>r. cId r = cid) (challenges d)"

definition portMapOf :: "portName list \<Rightarrow> (string \<times> string \<times> int) list" where
  "portMapOf ports = fold (\<lambda>p. mapPut (pnName p) (pnHost p, pnPort p)) ports []"

definition challengeMeta_of :: "challengeRow \<Rightarrow> (string \<times> string \<times> int) list \<Rightarrow> challengeMeta" where
  "challengeMeta_of r ports =
     challengeRow.extend r \<lparr>hPortMap = ports, hDelivery = deriveDeliveryType (cType r) (length ports)\<rparr>"

definition lookupChallengeMetadata :: "string \<Rightarrow> challengeMeta mio" where
  "lookupChallengeMetadata cid =
     txn (
       bnd (query (findChallenge cid)) (\<lambda>found.
       (case found of
          None \<Rightarrow> fail (unknownChallengeIdError cid)
        | Some r \<Rightarrow>
            bnd (query (\<lambda>_. cHints r)) (\<lambda>hints.
            bnd (query (\<lambda>_. cTags r)) (\<lambda>tags.
            bnd (query (\<lambda>_. cHosts r)) (\<lambda>hosts.
            bnd (query (\<lambda>d. filter (\<lambda>p. pnChallenge p = cid) (portNames d))) (\<lambda>ports.
            bnd (query (\<lambda>_. cAttributes r)) (\<lambda>attributes.
            bnd (query (\<lambda>_. fold (\<lambda>(h, o'). mapPut h o') (cOverrides r) [])) (\<lambda>options.
            ret (challengeMeta_of (r\<lparr>cHints := hints, cTags := tags, cHosts := hosts, cAttributes := attributes, cOverrides := options\<rparr>)
                  (portMapOf ports)))))))))))"

section \<open>Listing and searching\<close>

text \<open>The columns of a listing; the rest of the metadata keeps its zero values.\<close>

definition listRow :: "database \<Rightarrow> challengeRow \<Rightarrow> challengeMeta" where
  "listRow d r =
     challengeRow.extend
       (r\<lparr>cNamespace := '''', cDescription := '''', cDetails := '''', cTemplatable := False, cMaxUsers := 0, cCategory := '''', cPoints := 0,
          cHints := [], cTags := [], cAttributes := [], cHosts := [], cOverrides := []\<rparr>)
       \<lparr>hPortMap = [],
        hDelivery = deriveDeliveryType (cType r) (length (filter (\<lambda>p. pnChallenge p = cId r) (portNames d)))\<rparr>"

definition orderById :: "challengeRow list \<Rightarrow> challengeRow list" where
  "orderById = sortBy (\<lambda>a b. string_le (cId a) (cId b))"

definition listChallenges :: "challengeMeta list mio" where
  "listChallenges = query (\<lambda>d. map (listRow d) (orderById (challenges d)))"

text \<open>SQLite's \<open>LIKE\<close>: \<open>%\<close> matches any text, \<open>_\<close> any character, ASCII letters in either case.\<close>

fun like :: "string \<Rightarrow> string \<Rightarrow> bool" where
  "like [] s = (s = [])"
| "like (p # ps) s =
     (if p = CHR ''%'' then like ps s \<or> (case s of [] \<Rightarrow> False | _ # cs \<Rightarrow> like (p # ps) cs)
      else (case s of
              [] \<Rightarrow> False
            | c # cs \<Rightarrow> (p = CHR ''_'' \<or> toLower [p] = toLower [c]) \<and> like ps cs))"

definition searchChallenges :: "string list \<Rightarrow> challengeMeta list mio" where
  "searchChallenges tags =
     (if tags = [] then listChallenges
      else
        query (\<lambda>d. map (listRow d) (orderById (filter (\<lambda>r.
          list_all (\<lambda>t. list_ex (like (map (\<lambda>c. if c = CHR ''*'' then CHR ''%'' else c) t)) (cTags r)) tags) (challenges d)))))"

section \<open>Statements\<close>

definition onChallenge ::
    "string \<Rightarrow> (challengeRow \<Rightarrow> sqlError option) \<Rightarrow> (challengeRow \<Rightarrow> challengeRow) \<Rightarrow> database \<Rightarrow> sqlError + (unit \<times> database)" where
  "onChallenge cid check upd d =
     (case findChallenge cid d of
        None \<Rightarrow> Inl (SqlConstraint ''FOREIGN KEY'')
      | Some r \<Rightarrow>
          (case check r of
             Some e \<Rightarrow> Inl e
           | None \<Rightarrow> Inr ((), d\<lparr>challenges := map (\<lambda>x. if cId x = cid then upd x else x) (challenges d)\<rparr>)))"

definition unique :: "bool \<Rightarrow> sqlError option" where
  "unique taken = (if taken then Some (SqlConstraint ''UNIQUE'') else None)"

definition challengeCheck :: "challengeMeta \<Rightarrow> bool" where
  "challengeCheck c = (0 \<le> cMaxUsers c \<and> 0 \<le> cPoints c)"

definition insertChallenge :: "challengeMeta \<Rightarrow> database \<Rightarrow> sqlError + (unit \<times> database)" where
  "insertChallenge c d =
     (if findChallenge (cId c) d \<noteq> None then Inl (SqlConstraint ''UNIQUE'')
      else if \<not> challengeCheck c then Inl (SqlConstraint ''CHECK'')
      else Inr ((), d\<lparr>challenges := challenges d @
             [(challengeRow.truncate c)\<lparr>cHints := [], cTags := [], cAttributes := [], cHosts := [], cOverrides := []\<rparr>]\<rparr>))"

text \<open>The update leaves the id, the namespace and the dependent rows alone.\<close>

definition updateRow :: "challengeMeta \<Rightarrow> challengeRow \<Rightarrow> challengeRow" where
  "updateRow c r =
     r\<lparr>cName := cName c, cType := cType c, cDescription := cDescription c, cDetails := cDetails c,
       cSourceChecksum := cSourceChecksum c, cMetadataChecksum := cMetadataChecksum c, cPath := cPath c,
       cSolveScript := cSolveScript c, cTemplatable := cTemplatable c, cMaxUsers := cMaxUsers c,
       cCategory := cCategory c, cPoints := cPoints c\<rparr>"

definition updateChallenge :: "challengeMeta \<Rightarrow> database \<Rightarrow> sqlError + (unit \<times> database)" where
  "updateChallenge c d =
     (if findChallenge (cId c) d \<noteq> None \<and> \<not> challengeCheck c then Inl (SqlConstraint ''CHECK'')
      else Inr ((), d\<lparr>challenges := map (\<lambda>r. if cId r = cId c then updateRow c r else r) (challenges d)\<rparr>))"

definition insertHint :: "string \<Rightarrow> string \<Rightarrow> database \<Rightarrow> sqlError + (unit \<times> database)" where
  "insertHint cid h = onChallenge cid (\<lambda>_. None) (\<lambda>r. r\<lparr>cHints := cHints r @ [h]\<rparr>)"

definition insertTag :: "string \<Rightarrow> string \<Rightarrow> database \<Rightarrow> sqlError + (unit \<times> database)" where
  "insertTag cid t = onChallenge cid (\<lambda>r. unique (t \<in> set (cTags r))) (\<lambda>r. r\<lparr>cTags := cTags r @ [t]\<rparr>)"

definition insertAttribute :: "string \<Rightarrow> string \<times> string \<Rightarrow> database \<Rightarrow> sqlError + (unit \<times> database)" where
  "insertAttribute cid kv =
     onChallenge cid (\<lambda>r. unique (fst kv \<in> fst ` set (cAttributes r))) (\<lambda>r. r\<lparr>cAttributes := cAttributes r @ [kv]\<rparr>)"

definition insertHost :: "string \<Rightarrow> string \<times> string \<Rightarrow> database \<Rightarrow> sqlError + (unit \<times> database)" where
  "insertHost cid h =
     onChallenge cid (\<lambda>r. unique (fst h \<in> fst ` set (cHosts r))) (\<lambda>r. r\<lparr>cHosts := cHosts r @ [h]\<rparr>)"

definition insertPortName :: "string \<Rightarrow> string \<times> string \<times> int \<Rightarrow> database \<Rightarrow> sqlError + (unit \<times> database)" where
  "insertPortName cid np d =
     (case np of (name, host, port) \<Rightarrow>
        if \<not> (0 < port \<and> port < 65536) then Inl (SqlConstraint ''CHECK'')
        else (case findChallenge cid d of
                None \<Rightarrow> Inl (SqlConstraint ''FOREIGN KEY'')
              | Some r \<Rightarrow>
                  if host \<notin> fst ` set (cHosts r) then Inl (SqlConstraint ''FOREIGN KEY'')
                  else Inr ((), d\<lparr>portNames := portNames d @
                         [\<lparr>pnChallenge = cid, pnName = name, pnHost = host, pnPort = port\<rparr>]\<rparr>)))"

text \<open>Options come back as they were stored; a seccomp entry that says nothing is stored as none.\<close>

definition persistedOptions :: "ContainerOptions \<Rightarrow> ContainerOptions" where
  "persistedOptions o' =
     o'\<lparr>coSeccomp := (case coSeccomp o' of
                       None \<Rightarrow> None
                     | Some s \<Rightarrow> if soProfile s = '''' \<and> effectiveProfile s = '''' then None else Some s)\<rparr>"

definition insertOptions :: "string \<Rightarrow> string \<times> ContainerOptions \<Rightarrow> database \<Rightarrow> sqlError + (unit \<times> database)" where
  "insertOptions cid ho =
     onChallenge cid (\<lambda>_. None)
       (\<lambda>r. r\<lparr>cOverrides := cOverrides r @ [(fst ho, persistedOptions (snd ho))]\<rparr>)"

section \<open>Adding\<close>

text \<open>
  \<open>txnRollback\<close>: whatever it reports, the transaction's work is gone. A statement on a
  transaction that is over fails with \<open>errTxDone\<close>, and so does rolling it back again.
\<close>

definition errTxDone :: err where
  "errTxDone = [Msg ''sql: transaction has already been committed or rolled back'']"

definition txnRollback :: "database \<Rightarrow> err option mio" where
  "txnRollback saved m =
     (case exec (\<lambda>d. d) m of
        (Inl e, m') \<Rightarrow> (Inr (Some e), m'\<lparr>db := saved\<rparr>)
      | (Inr _, m') \<Rightarrow> (Inr None, m'\<lparr>db := saved\<rparr>))"

type_synonym statement = "database \<Rightarrow> sqlError + (unit \<times> database)"

text \<open>
  One insert loop of \<open>addChallenges\<close>. A failing statement rolls back and assigns the rollback's
  own error to \<open>err\<close>, so when the rollback succeeds the loop is left with \<open>err == nil\<close>
  and the code below goes on with a transaction that is over. The result is whether it is still
  open, or the error the whole function returns with.
\<close>

fun addStage :: "database \<Rightarrow> statement list \<Rightarrow> bool \<Rightarrow> (err + bool) mio" where
  "addStage saved [] isOpen = ret (Inr isOpen)"
| "addStage saved (s # ss) isOpen =
     (if \<not> isOpen then ret (Inl errTxDone)
      else
        bnd (catch (bnd (sqlChecked s) (\<lambda>_. ret None)) (\<lambda>e. ret (Some e))) (\<lambda>failure.
        (case failure of
           None \<Rightarrow> addStage saved ss True
         | Some _ \<Rightarrow>
             bnd (txnRollback saved) (\<lambda>rb.
             (case rb of
                Some e \<Rightarrow> ret (Inl e)
              | None \<Rightarrow> ret (Inr False))))))"

fun addStages :: "database \<Rightarrow> statement list list \<Rightarrow> bool \<Rightarrow> (err + bool) mio" where
  "addStages saved [] isOpen = ret (Inr isOpen)"
| "addStages saved (st # sts) isOpen =
     bnd (addStage saved st isOpen) (\<lambda>r.
     (case r of Inl e \<Rightarrow> ret (Inl e) | Inr isOpen' \<Rightarrow> addStages saved sts isOpen'))"

text \<open>The options' loop keeps its error; \<open>Inl\<close>: errors to return with, \<open>Inr\<close>: errors of this challenge, and whether its transaction is still open.\<close>

fun addOptions :: "database \<Rightarrow> statement list \<Rightarrow> bool \<Rightarrow> (err list + err list \<times> bool) mio" where
  "addOptions saved [] isOpen = ret (Inr ([], isOpen))"
| "addOptions saved (s # ss) isOpen =
     (if \<not> isOpen then ret (Inl [errTxDone, errTxDone])
      else
        bnd (catch (bnd (sqlChecked s) (\<lambda>_. ret None)) (\<lambda>e. ret (Some e))) (\<lambda>failure.
        (case failure of
           None \<Rightarrow> addOptions saved ss True
         | Some e \<Rightarrow>
             bnd (txnRollback saved) (\<lambda>rb.
             (case rb of
                Some rbErr \<Rightarrow> ret (Inl [e, rbErr])
              | None \<Rightarrow> ret (Inr ([e], False)))))))"

definition txnCommit :: "database \<Rightarrow> err option mio" where
  "txnCommit saved m =
     (case exec (\<lambda>d. d) m of
        (Inl e, m') \<Rightarrow> (Inr (Some e), m'\<lparr>db := saved\<rparr>)
      | (Inr _, m') \<Rightarrow> (Inr None, m'))"

definition addStatements :: "challengeMeta \<Rightarrow> statement list list" where
  "addStatements c =
     [map (insertHint (cId c)) (cHints c), map (insertTag (cId c)) (cTags c), map (insertAttribute (cId c)) (cAttributes c),
      map (insertHost (cId c)) (cHosts c), map (insertPortName (cId c)) (hPortMap c)]"

text \<open>One challenge: whether \<open>addChallenges\<close> returns at once, and the errors it adds.\<close>

definition addChallenge :: "challengeMeta \<Rightarrow> (bool \<times> err list) mio" where
  "addChallenge c =
     bnd (gets db) (\<lambda>saved.
     bnd (catch (bnd (sqlChecked (insertChallenge c)) (\<lambda>_. ret None)) (\<lambda>e. ret (Some e))) (\<lambda>failure.
     (case failure of
        Some _ \<Rightarrow> bnd (txnRollback saved) (\<lambda>rb. (case rb of Some e \<Rightarrow> ret (True, [e]) | None \<Rightarrow> ret (False, [])))
      | None \<Rightarrow>
          bnd (addStages saved (addStatements c) True) (\<lambda>stages.
          (case stages of
             Inl e \<Rightarrow> ret (True, [e])
           | Inr isOpen \<Rightarrow>
               bnd (addOptions saved (map (insertOptions (cId c)) (cOverrides c)) isOpen) (\<lambda>opts.
               (case opts of
                  Inl es \<Rightarrow> ret (True, es)
                | Inr (e # es, _) \<Rightarrow> ret (False, e # es)
                | Inr ([], isOpen') \<Rightarrow>
                    if \<not> isOpen' then ret (False, [errTxDone])
                    else
                      bnd (txnCommit saved) (\<lambda>commit.
                      (case commit of Some e \<Rightarrow> ret (False, [e]) | None \<Rightarrow> ret (False, []))))))))))"

fun addChallenges :: "challengeMeta list \<Rightarrow> err list \<Rightarrow> err list mio" where
  "addChallenges [] errs = ret errs"
| "addChallenges (c # cs) errs =
     bnd (addChallenge c) (\<lambda>(stop, es). if stop then ret (errs @ es) else addChallenges cs (errs @ es))"

section \<open>Updating and removing\<close>

definition clearOf :: "string \<Rightarrow> (challengeRow \<Rightarrow> challengeRow) \<Rightarrow> database \<Rightarrow> database" where
  "clearOf cid upd d = d\<lparr>challenges := map (\<lambda>r. if cId r = cid then upd r else r) (challenges d)\<rparr>"

definition deletePortNames :: "string \<Rightarrow> database \<Rightarrow> database" where
  "deletePortNames cid d = d\<lparr>portNames := filter (\<lambda>p. pnChallenge p \<noteq> cid) (portNames d)\<rparr>"

text \<open>Deleting the hosts takes the port names on them along (\<open>ON DELETE CASCADE\<close>).\<close>

definition persistChallenge :: "challengeMeta \<Rightarrow> unit mio" where
  "persistChallenge c =
     (let cid = cId c in
      bnd (sqlChecked (updateChallenge c)) (\<lambda>_.
      bnd (exec (clearOf cid (\<lambda>r. r\<lparr>cHints := []\<rparr>))) (\<lambda>_.
      bnd (for_each (cHints c) (\<lambda>h. sqlChecked (insertHint cid h))) (\<lambda>_.
      bnd (exec (clearOf cid (\<lambda>r. r\<lparr>cTags := []\<rparr>))) (\<lambda>_.
      bnd (for_each (cTags c) (\<lambda>t. sqlChecked (insertTag cid t))) (\<lambda>_.
      bnd (exec (clearOf cid (\<lambda>r. r\<lparr>cAttributes := []\<rparr>))) (\<lambda>_.
      bnd (for_each (cAttributes c) (\<lambda>kv. sqlChecked (insertAttribute cid kv))) (\<lambda>_.
      bnd (exec (\<lambda>d. deletePortNames cid (clearOf cid (\<lambda>r. r\<lparr>cHosts := []\<rparr>) d))) (\<lambda>_.
      bnd (for_each (cHosts c) (\<lambda>h. sqlChecked (insertHost cid h))) (\<lambda>_.
      bnd (exec (deletePortNames cid)) (\<lambda>_.
      bnd (for_each (hPortMap c) (\<lambda>np. sqlChecked (insertPortName cid np))) (\<lambda>_.
      bnd (exec (clearOf cid (\<lambda>r. r\<lparr>cOverrides := []\<rparr>))) (\<lambda>_.
      for_each (cOverrides c) (\<lambda>ho. sqlChecked (insertOptions cid ho)))))))))))))))"

text \<open>
  One challenge of \<open>updateChallenges\<close>: whether it returns at once, whether the metadata
  landed, and the errors it adds.
\<close>

definition updateOne :: "challengeMeta \<Rightarrow> (bool \<times> bool \<times> err list) mio" where
  "updateOne c =
     bnd (gets db) (\<lambda>saved.
     bnd (catch (bnd (persistChallenge c) (\<lambda>_. ret None)) (\<lambda>e. ret (Some e))) (\<lambda>failure.
     (case failure of
        Some e \<Rightarrow>
          bnd (txnRollback saved) (\<lambda>rb.
          (case rb of Some rbErr \<Rightarrow> ret (True, False, [e, rbErr]) | None \<Rightarrow> ret (False, False, [e])))
      | None \<Rightarrow>
          bnd (txnCommit saved) (\<lambda>commit.
          (case commit of Some e \<Rightarrow> ret (False, False, [e]) | None \<Rightarrow> ret (False, True, []))))))"

fun updateChallenges ::
    "(challengeMeta \<Rightarrow> int list \<Rightarrow> err list mio) \<Rightarrow> (challengeMeta \<Rightarrow> int list mio) option \<Rightarrow> challengeMeta list \<Rightarrow> err list \<Rightarrow> err list mio" where
  "updateChallenges rebuild selectBuilds [] errs = ret errs"
| "updateChallenges rebuild selectBuilds (c # cs) errs =
     bnd (updateOne c) (\<lambda>(stop, landed, es).
     if stop then ret (errs @ es)
     else if \<not> landed then updateChallenges rebuild selectBuilds cs (errs @ es)
     else
       (case selectBuilds of
          None \<Rightarrow> updateChallenges rebuild selectBuilds cs (errs @ es)
        | Some select \<Rightarrow>
            bnd (catch (bnd (select c) (\<lambda>ids. rebuild c ids)) (\<lambda>e. ret [e])) (\<lambda>es'.
            updateChallenges rebuild selectBuilds cs (errs @ es @ es'))))"

definition deleteChallenge :: "string \<Rightarrow> database \<Rightarrow> sqlError + (unit \<times> database)" where
  "deleteChallenge cid d =
     (if list_ex (\<lambda>b. bChallenge b = cid) (builds d) then Inl (SqlConstraint ''FOREIGN KEY'')
      else Inr ((), d\<lparr>challenges := filter (\<lambda>r. cId r \<noteq> cid) (challenges d),
                     portNames := filter (\<lambda>p. pnChallenge p \<noteq> cid) (portNames d)\<rparr>))"

definition removeChallenges :: "challengeMeta list \<Rightarrow> unit mio" where
  "removeChallenges cs = txn (for_each cs (\<lambda>c. sqlChecked (deleteChallenge (cId c))))"

section \<open>What changed\<close>

text \<open>\<open>reflect.DeepEqual\<close> on two maps of options.\<close>

definition sameOverrides :: "(string \<times> ContainerOptions) list \<Rightarrow> (string \<times> ContainerOptions) list \<Rightarrow> bool" where
  "sameOverrides xs ys = list_all (\<lambda>k. map_of xs k = map_of ys k) (map fst xs @ map fst ys)"

definition safeToRefresh :: "challengeMeta \<Rightarrow> bool mio" where
  "safeToRefresh new =
     catch (bnd (lookupChallengeMetadata (cId new)) (\<lambda>old.
            ret (cType old = cType new \<and> sameOverrides (cOverrides old) (cOverrides new))))
           (\<lambda>e. ret False)"

datatype challengeVerdict = verdictAdded | verdictUpdated | verdictRefreshed | verdictStale | verdictUnmodified

definition classifyChallenge :: "challengeMeta option \<Rightarrow> challengeMeta \<Rightarrow> bool \<Rightarrow> challengeVerdict mio" where
  "classifyChallenge current new stale =
     (case current of
        None \<Rightarrow> ret verdictAdded
      | Some cur \<Rightarrow>
          if cSourceChecksum cur \<noteq> cSourceChecksum new then ret verdictUpdated
          else if cMetadataChecksum cur \<noteq> cMetadataChecksum new \<or> cSolveScript cur \<noteq> cSolveScript new then
            bnd (safeToRefresh new) (\<lambda>safe. ret (if safe then verdictRefreshed else verdictUpdated))
          else
            bnd (safeToRefresh new) (\<lambda>safe.
            ret (if \<not> safe then verdictRefreshed else if stale then verdictStale else verdictUnmodified)))"

record ChallengeUpdates =
  cuAdded :: "challengeMeta list"
  cuRefreshed :: "challengeMeta list"
  cuUpdated :: "challengeMeta list"
  cuStale :: "challengeMeta list"
  cuRemoved :: "challengeMeta list"
  cuUnmodified :: "challengeMeta list"
  cuErrors :: "err list"

definition noUpdates :: ChallengeUpdates where
  "noUpdates = \<lparr>cuAdded = [], cuRefreshed = [], cuUpdated = [], cuStale = [], cuRemoved = [], cuUnmodified = [], cuErrors = []\<rparr>"

definition fileVerdict :: "challengeVerdict \<Rightarrow> challengeMeta \<Rightarrow> challengeMeta \<Rightarrow> ChallengeUpdates \<Rightarrow> ChallengeUpdates" where
  "fileVerdict v cur new cu =
     (case v of
        verdictUpdated \<Rightarrow> cu\<lparr>cuUpdated := cuUpdated cu @ [new]\<rparr>
      | verdictRefreshed \<Rightarrow> cu\<lparr>cuRefreshed := cuRefreshed cu @ [new]\<rparr>
      | verdictStale \<Rightarrow> cu\<lparr>cuStale := cuStale cu @ [new]\<rparr>
      | verdictUnmodified \<Rightarrow> cu\<lparr>cuUnmodified := cuUnmodified cu @ [cur]\<rparr>
      | verdictAdded \<Rightarrow> cu)"

text \<open>The inventory is a map from ids, here a list with distinct ids in the order it is ranged over.\<close>

fun classifyRows ::
    "challengeMeta list \<Rightarrow> string list \<Rightarrow> (challengeMeta \<Rightarrow> bool) \<Rightarrow> challengeMeta list \<Rightarrow> ChallengeUpdates \<Rightarrow> ChallengeUpdates mio" where
  "classifyRows inventory stale removed [] cu = ret cu"
| "classifyRows inventory stale removed (cur # rest) cu =
     (case List.find (\<lambda>c. cId c = cId cur) inventory of
        None \<Rightarrow> classifyRows inventory stale removed rest (if removed cur then cu\<lparr>cuRemoved := cuRemoved cu @ [cur]\<rparr> else cu)
      | Some new \<Rightarrow>
          bnd (classifyChallenge (Some cur) new (cId cur \<in> set stale)) (\<lambda>v.
          classifyRows inventory stale removed rest (fileVerdict v cur new cu)))"

definition classifyChallenges ::
    "challengeMeta list \<Rightarrow> challengeMeta list \<Rightarrow> string list \<Rightarrow> (challengeMeta \<Rightarrow> bool) \<Rightarrow> ChallengeUpdates mio" where
  "classifyChallenges inventory current stale removed =
     bnd (classifyRows inventory stale removed current noUpdates) (\<lambda>cu.
     ret (cu\<lparr>cuAdded := filter (\<lambda>c. \<not> list_ex (\<lambda>cur. cId cur = cId c) current) inventory\<rparr>))"

definition pathInDirectory :: "string \<Rightarrow> string \<Rightarrow> bool" where
  "pathInDirectory path dir =
     (length path \<ge> length dir \<and> take (length dir) path = dir \<and>
      (length path = length dir \<or> path ! length dir = CHR ''/''))"

text \<open>\<open>filepath.Abs\<close> and \<open>os.Stat\<close> (whether it is a directory) are arguments.\<close>

definition normalizeDirPath :: "(string \<Rightarrow> string option) \<Rightarrow> (string \<Rightarrow> bool option) \<Rightarrow> string \<Rightarrow> string \<Rightarrow> err + string" where
  "normalizeDirPath absPath stat chalDir dir =
     (case absPath dir of
        None \<Rightarrow> Inl [Msg ''bad directory string'']
      | Some tgt \<Rightarrow>
          (case stat tgt of
             None \<Rightarrow> Inl [Msg ''could not stat directory'']
           | Some isDir \<Rightarrow>
               if \<not> isDir then Inl [Msg ''not a directory'']
               else if \<not> pathInDirectory tgt chalDir then Inl [Msg ''not a sub-directory'']
               else Inr tgt))"

definition DetectChanges ::
    "(string \<Rightarrow> err + string) \<Rightarrow> (string \<Rightarrow> challengeMeta list \<times> err list) \<Rightarrow> string \<Rightarrow> string \<Rightarrow> ChallengeUpdates mio" where
  "DetectChanges normalizeDir inventoryChallenges chalDir fp =
     bnd (gets externalBuildPlane) (\<lambda>external.
     if external then ret (noUpdates\<lparr>cuErrors := [[ErrExternalBuildPlane]]\<rparr>)
     else
       (case normalizeDir (if fp = '''' then chalDir else fp) of
          Inl e \<Rightarrow> ret (noUpdates\<lparr>cuErrors := [e]\<rparr>)
        | Inr dir \<Rightarrow>
            (let (inventory, errs) = inventoryChallenges dir in
             catch
               (bnd listChallenges (\<lambda>rows.
                bnd (catch (bnd staleChallengeSet (\<lambda>s. ret (s, []))) (\<lambda>e. ret ([], [e]))) (\<lambda>(stale, staleErrs).
                bnd (classifyChallenges inventory rows stale
                       (\<lambda>row. pathInDirectory (cPath row) dir \<or> \<not> pathInDirectory (cPath row) chalDir)) (\<lambda>cu.
                ret (cu\<lparr>cuErrors := errs @ staleErrs\<rparr>)))))
               (\<lambda>e. ret (noUpdates\<lparr>cuErrors := errs @ [e]\<rparr>)))))"

definition UpdateWithOptions ::
    "(string \<Rightarrow> err + string) \<Rightarrow> (string \<Rightarrow> challengeMeta list \<times> err list) \<Rightarrow> string \<Rightarrow> (challengeMeta \<Rightarrow> int list \<Rightarrow> err list mio) \<Rightarrow>
     string \<Rightarrow> ChallengeUpdates mio" where
  "UpdateWithOptions normalizeDir inventoryChallenges chalDir rebuild fp =
     bnd (gets externalBuildPlane) (\<lambda>external.
     if external then ret (noUpdates\<lparr>cuErrors := [[ErrExternalBuildPlane]]\<rparr>)
     else
       bnd (DetectChanges normalizeDir inventoryChallenges chalDir fp) (\<lambda>cu.
       bnd (addChallenges (cuAdded cu) []) (\<lambda>addErrs.
       bnd (updateChallenges rebuild (Some (\<lambda>c. staleBuildIds (cId c) (cSourceChecksum c))) (cuRefreshed cu @ cuStale cu) []) (\<lambda>leftoverErrs.
       bnd (updateChallenges rebuild (Some (\<lambda>c. allBuildIds (cId c))) (cuUpdated cu) []) (\<lambda>updateErrs.
       let errs = cuErrors cu @ addErrs @ leftoverErrs @ updateErrs in
       if errs = [] then
         catch (bnd (removeChallenges (cuRemoved cu)) (\<lambda>_. ret (cu\<lparr>cuErrors := []\<rparr>)))
               (\<lambda>e. ret (cu\<lparr>cuErrors := [e]\<rparr>))
       else ret (cu\<lparr>cuErrors := errs\<rparr>))))))"

section \<open>Rows\<close>

lemma findChallenge_clearOf:
  assumes "\<And>r. cId (f r) = cId r"
  shows "findChallenge cid (clearOf cid' f d) = map_option (\<lambda>r. if cid = cid' then f r else r) (findChallenge cid d)"
proof -
  have "List.find (\<lambda>r. cId r = cid) (map (\<lambda>r. if cId r = cid' then f r else r) rs) =
      map_option (\<lambda>r. if cid = cid' then f r else r) (List.find (\<lambda>r. cId r = cid) rs)" for rs
    using assms by (induction rs) auto
  then show ?thesis by (simp add: findChallenge_def clearOf_def)
qed

lemma clearOf_clearOf: "(\<And>r. cId (g r) = cId r) \<Longrightarrow> clearOf cid f (clearOf cid g d) = clearOf cid (f \<circ> g) d"
  by (simp add: clearOf_def)

lemma clearOf_portNames: "clearOf cid f (d\<lparr>portNames := ps\<rparr>) = (clearOf cid f d)\<lparr>portNames := ps\<rparr>"
  by (simp add: clearOf_def)

lemma clearOf_frame [simp]:
  "portNames (clearOf cid f d) = portNames d" "builds (clearOf cid f d) = builds d"
  "challenges (d\<lparr>portNames := ps\<rparr>) = challenges d"
  by (simp_all add: clearOf_def)

lemma findChallenge_ports [simp]: "findChallenge cid (d\<lparr>portNames := ps\<rparr>) = findChallenge cid d"
  by (simp add: findChallenge_def)

lemma onChallenge_ok:
  "findChallenge cid d = Some r \<Longrightarrow> check r = None \<Longrightarrow> onChallenge cid check upd d = Inr ((), clearOf cid upd d)"
  by (simp add: onChallenge_def clearOf_def)

text \<open>A loop of inserts into one challenge's rows, none of which its constraint refuses.\<close>

lemma for_onChallenge:
  assumes "faults m = []" "findChallenge cid (db m) = Some r" "\<And>x r. cId (upd x r) = cId r"
    and "\<And>i. i < length xs \<Longrightarrow> check (xs ! i) (fold upd (take i xs) r) = None"
  shows "for_each xs (\<lambda>x. sqlChecked (onChallenge cid (check x) (upd x))) m =
     (Inr (), m\<lparr>db := clearOf cid (fold upd xs) (db m)\<rparr>)"
  using assms
proof (induction xs arbitrary: m r)
  case Nil
  then show ?case by (simp add: clearOf_def cong: if_cong)
next
  case (Cons x xs)
  have c0: "check x r = None" using Cons.prems(4) [of 0] by simp
  let ?m = "m\<lparr>db := clearOf cid (upd x) (db m)\<rparr>"
  have step: "sqlChecked (onChallenge cid (check x) (upd x)) m = (Inr (), ?m)"
    using Cons.prems(1,2) c0 by (simp add: sqlChecked_no_fault onChallenge_ok)
  have rest: "check (xs ! i) (fold upd (take i xs) (upd x r)) = None" if "i < length xs" for i
    using Cons.prems(4) [of "Suc i"] that by simp
  have f: "findChallenge cid (db ?m) = Some (upd x r)" using Cons.prems(2,3) by (simp add: findChallenge_clearOf)
  have "for_each xs (\<lambda>x. sqlChecked (onChallenge cid (check x) (upd x))) ?m =
      (Inr (), ?m\<lparr>db := clearOf cid (fold upd xs) (db ?m)\<rparr>)"
    by (rule Cons.IH [OF _ f Cons.prems(3) rest]) (use Cons.prems(1) in simp_all)
  then show ?case using step Cons.prems(3) by (simp add: bnd_def clearOf_clearOf o_def)
qed

lemma nth_notin_take: "distinct ys \<Longrightarrow> i < length ys \<Longrightarrow> ys ! i \<notin> set (take i ys)"
  by (auto simp: in_set_conv_nth distinct_conv_nth)

lemma for_unique:
  assumes "faults m = []" "findChallenge cid (db m) = Some r" "\<And>x r. cId (upd x r) = cId r"
    and get: "\<And>x r. get (upd x r) = get r @ [x]" "get r = []" "distinct (map key xs)"
  shows "for_each xs (\<lambda>x. sqlChecked (onChallenge cid (\<lambda>r. unique (key x \<in> key ` set (get r))) (upd x))) m =
     (Inr (), m\<lparr>db := clearOf cid (fold upd xs) (db m)\<rparr>)"
proof -
  have "get (fold upd ys r) = get r @ ys" for ys r
    using get(1) by (induction ys arbitrary: r) simp_all
  moreover have "key (xs ! i) \<notin> key ` set (take i xs)" if "i < length xs" for i
    using nth_notin_take [OF get(3), of i] that by (simp add: take_map)
  ultimately show ?thesis
    using for_onChallenge [OF assms(1-3), of xs "\<lambda>x r. unique (key x \<in> key ` set (get r))"] get(2)
    by (simp add: unique_def)
qed

lemma fold_hints: "fold (\<lambda>x r. r\<lparr>cHints := cHints r @ [x]\<rparr>) xs = (\<lambda>r :: challengeRow. r\<lparr>cHints := cHints r @ xs\<rparr>)"
proof
  show "fold (\<lambda>x r. r\<lparr>cHints := cHints r @ [x]\<rparr>) xs r = r\<lparr>cHints := cHints r @ xs\<rparr>" for r :: challengeRow
    by (induction xs arbitrary: r) simp_all
qed

lemma fold_tags: "fold (\<lambda>x r. r\<lparr>cTags := cTags r @ [x]\<rparr>) xs = (\<lambda>r :: challengeRow. r\<lparr>cTags := cTags r @ xs\<rparr>)"
proof
  show "fold (\<lambda>x r. r\<lparr>cTags := cTags r @ [x]\<rparr>) xs r = r\<lparr>cTags := cTags r @ xs\<rparr>" for r :: challengeRow
    by (induction xs arbitrary: r) simp_all
qed

lemma fold_attributes: "fold (\<lambda>x r. r\<lparr>cAttributes := cAttributes r @ [x]\<rparr>) xs = (\<lambda>r :: challengeRow. r\<lparr>cAttributes := cAttributes r @ xs\<rparr>)"
proof
  show "fold (\<lambda>x r. r\<lparr>cAttributes := cAttributes r @ [x]\<rparr>) xs r = r\<lparr>cAttributes := cAttributes r @ xs\<rparr>" for r :: challengeRow
    by (induction xs arbitrary: r) simp_all
qed

lemma fold_hosts: "fold (\<lambda>x r. r\<lparr>cHosts := cHosts r @ [x]\<rparr>) xs = (\<lambda>r :: challengeRow. r\<lparr>cHosts := cHosts r @ xs\<rparr>)"
proof
  show "fold (\<lambda>x r. r\<lparr>cHosts := cHosts r @ [x]\<rparr>) xs r = r\<lparr>cHosts := cHosts r @ xs\<rparr>" for r :: challengeRow
    by (induction xs arbitrary: r) simp_all
qed

lemma fold_options: "fold (\<lambda>x r. r\<lparr>cOverrides := cOverrides r @ [f x]\<rparr>) xs = (\<lambda>r :: challengeRow. r\<lparr>cOverrides := cOverrides r @ map f xs\<rparr>)"
proof
  show "fold (\<lambda>x r. r\<lparr>cOverrides := cOverrides r @ [f x]\<rparr>) xs r = r\<lparr>cOverrides := cOverrides r @ map f xs\<rparr>" for r :: challengeRow
    by (induction xs arbitrary: r) simp_all
qed

lemma for_hints:
  assumes "faults m = []" "findChallenge cid (db m) = Some r"
  shows "for_each xs (\<lambda>x. sqlChecked (insertHint cid x)) m = (Inr (), m\<lparr>db := clearOf cid (\<lambda>r. r\<lparr>cHints := cHints r @ xs\<rparr>) (db m)\<rparr>)"
  using for_onChallenge [OF assms, of "\<lambda>x r. r\<lparr>cHints := cHints r @ [x]\<rparr>" xs "\<lambda>_ _. None"]
  by (simp add: insertHint_def fold_hints)

lemma for_tags:
  assumes "faults m = []" "findChallenge cid (db m) = Some r" "cTags r = []" "distinct xs"
  shows "for_each xs (\<lambda>x. sqlChecked (insertTag cid x)) m = (Inr (), m\<lparr>db := clearOf cid (\<lambda>r. r\<lparr>cTags := cTags r @ xs\<rparr>) (db m)\<rparr>)"
  using for_unique [OF assms(1,2), of "\<lambda>x r. r\<lparr>cTags := cTags r @ [x]\<rparr>" cTags "\<lambda>x. x" xs] assms(3,4)
  by (simp add: insertTag_def fold_tags)

lemma for_attributes:
  assumes "faults m = []" "findChallenge cid (db m) = Some r" "cAttributes r = []" "distinct (map fst xs)"
  shows "for_each xs (\<lambda>x. sqlChecked (insertAttribute cid x)) m = (Inr (), m\<lparr>db := clearOf cid (\<lambda>r. r\<lparr>cAttributes := cAttributes r @ xs\<rparr>) (db m)\<rparr>)"
  using for_unique [OF assms(1,2), of "\<lambda>x r. r\<lparr>cAttributes := cAttributes r @ [x]\<rparr>" cAttributes fst xs] assms(3,4)
  by (simp add: insertAttribute_def fold_attributes)

lemma for_hosts:
  assumes "faults m = []" "findChallenge cid (db m) = Some r" "cHosts r = []" "distinct (map fst xs)"
  shows "for_each xs (\<lambda>x. sqlChecked (insertHost cid x)) m = (Inr (), m\<lparr>db := clearOf cid (\<lambda>r. r\<lparr>cHosts := cHosts r @ xs\<rparr>) (db m)\<rparr>)"
  using for_unique [OF assms(1,2), of "\<lambda>x r. r\<lparr>cHosts := cHosts r @ [x]\<rparr>" cHosts fst xs] assms(3,4)
  by (simp add: insertHost_def fold_hosts)

lemma for_options:
  assumes "faults m = []" "findChallenge cid (db m) = Some r"
  shows "for_each xs (\<lambda>x. sqlChecked (insertOptions cid x)) m =
     (Inr (), m\<lparr>db := clearOf cid (\<lambda>r. r\<lparr>cOverrides := cOverrides r @ map (\<lambda>x. (fst x, persistedOptions (snd x))) xs\<rparr>) (db m)\<rparr>)"
  using for_onChallenge [OF assms, of "\<lambda>x r. r\<lparr>cOverrides := cOverrides r @ [(fst x, persistedOptions (snd x))]\<rparr>" xs "\<lambda>_ _. None"]
  by (simp add: insertOptions_def fold_options)

definition portRowsOf :: "string \<Rightarrow> (string \<times> string \<times> int) list \<Rightarrow> portName list" where
  "portRowsOf cid nps = map (\<lambda>(n, h, p). \<lparr>pnChallenge = cid, pnName = n, pnHost = h, pnPort = p\<rparr>) nps"

lemma for_ports:
  assumes "faults m = []" "findChallenge cid (db m) = Some r"
    and "\<forall>(n, h, p)\<in>set nps. 0 < p \<and> p < 65536 \<and> h \<in> fst ` set (cHosts r)"
  shows "for_each nps (\<lambda>x. sqlChecked (insertPortName cid x)) m = (Inr (), m\<lparr>db := (db m)\<lparr>portNames := portNames (db m) @ portRowsOf cid nps\<rparr>\<rparr>)"
  using assms
proof (induction nps arbitrary: m)
  case (Cons np nps)
  obtain n h p where np: "np = (n, h, p)" by (cases np) auto
  let ?m = "m\<lparr>db := (db m)\<lparr>portNames := portNames (db m) @ [\<lparr>pnChallenge = cid, pnName = n, pnHost = h, pnPort = p\<rparr>]\<rparr>\<rparr>"
  have "sqlChecked (insertPortName cid np) m = (Inr (), ?m)"
    using Cons.prems np by (auto simp: sqlChecked_no_fault insertPortName_def)
  moreover have "for_each nps (\<lambda>x. sqlChecked (insertPortName cid x)) ?m =
      (Inr (), ?m\<lparr>db := (db ?m)\<lparr>portNames := portNames (db ?m) @ portRowsOf cid nps\<rparr>\<rparr>)"
    by (rule Cons.IH) (use Cons.prems in simp_all)
  ultimately show ?case using np by (simp add: bnd_def portRowsOf_def)
qed (simp add: portRowsOf_def)

section \<open>What persisting leaves\<close>

text \<open>The states a persist goes through: one challenge's row mapped, the port names replaced.\<close>

definition stage :: "string \<Rightarrow> manager \<Rightarrow> (challengeRow \<Rightarrow> challengeRow) \<Rightarrow> portName list \<Rightarrow> manager" where
  "stage cid m F P = m\<lparr>db := (clearOf cid F (db m))\<lparr>portNames := P\<rparr>\<rparr>"

definition keeps_id :: "(challengeRow \<Rightarrow> challengeRow) \<Rightarrow> bool" where
  "keeps_id F \<longleftrightarrow> (\<forall>r. cId (F r) = cId r)"

lemma stage_find:
  "findChallenge cid (db m) = Some r \<Longrightarrow> keeps_id F \<Longrightarrow> findChallenge cid (db (stage cid m F P)) = Some (F r)"
  by (simp add: stage_def keeps_id_def findChallenge_clearOf)

lemma stage_faults [simp]: "faults (stage cid m F P) = faults m"
  by (simp add: stage_def)

lemma stage_clear:
  assumes "faults m = []" "keeps_id F"
  shows "exec (clearOf cid f) (stage cid m F P) = (Inr (), stage cid m (\<lambda>r. f (F r)) P)"
  using assms by (simp add: stage_def clearOf_portNames clearOf_clearOf keeps_id_def o_def)

lemma stage_upd:
  "keeps_id F \<Longrightarrow> (stage cid m F P)\<lparr>db := clearOf cid f (db (stage cid m F P))\<rparr> = stage cid m (\<lambda>r. f (F r)) P"
  by (simp add: stage_def clearOf_portNames clearOf_clearOf keeps_id_def o_def)

lemma stage_hints:
  assumes "faults m = []" "findChallenge cid (db m) = Some r" "keeps_id F"
  shows "for_each xs (\<lambda>x. sqlChecked (insertHint cid x)) (stage cid m F P) = (Inr (), stage cid m (\<lambda>r. (F r)\<lparr>cHints := cHints (F r) @ xs\<rparr>) P)"
  using for_hints [OF _ stage_find [OF assms(2,3)], of P xs] assms by (simp add: stage_upd)

lemma stage_tags:
  assumes "faults m = []" "findChallenge cid (db m) = Some r" "keeps_id F" "\<And>r. cTags (F r) = []" "distinct xs"
  shows "for_each xs (\<lambda>x. sqlChecked (insertTag cid x)) (stage cid m F P) = (Inr (), stage cid m (\<lambda>r. (F r)\<lparr>cTags := cTags (F r) @ xs\<rparr>) P)"
  using for_tags [OF _ stage_find [OF assms(2,3)], of P xs] assms by (simp add: stage_upd)

lemma stage_attributes:
  assumes "faults m = []" "findChallenge cid (db m) = Some r" "keeps_id F" "\<And>r. cAttributes (F r) = []" "distinct (map fst xs)"
  shows "for_each xs (\<lambda>x. sqlChecked (insertAttribute cid x)) (stage cid m F P) = (Inr (), stage cid m (\<lambda>r. (F r)\<lparr>cAttributes := cAttributes (F r) @ xs\<rparr>) P)"
  using for_attributes [OF _ stage_find [OF assms(2,3)], of P xs] assms by (simp add: stage_upd)

lemma stage_hosts:
  assumes "faults m = []" "findChallenge cid (db m) = Some r" "keeps_id F" "\<And>r. cHosts (F r) = []" "distinct (map fst xs)"
  shows "for_each xs (\<lambda>x. sqlChecked (insertHost cid x)) (stage cid m F P) = (Inr (), stage cid m (\<lambda>r. (F r)\<lparr>cHosts := cHosts (F r) @ xs\<rparr>) P)"
  using for_hosts [OF _ stage_find [OF assms(2,3)], of P xs] assms by (simp add: stage_upd)

lemma stage_options:
  assumes "faults m = []" "findChallenge cid (db m) = Some r" "keeps_id F"
  shows "for_each xs (\<lambda>x. sqlChecked (insertOptions cid x)) (stage cid m F P) =
    (Inr (), stage cid m (\<lambda>r. (F r)\<lparr>cOverrides := cOverrides (F r) @ map (\<lambda>x. (fst x, persistedOptions (snd x))) xs\<rparr>) P)"
  using for_options [OF _ stage_find [OF assms(2,3)], of P xs] assms by (simp add: stage_upd)

lemma stage_ports:
  assumes "faults m = []" "findChallenge cid (db m) = Some r" "keeps_id F"
    and "\<forall>(n, h, p)\<in>set nps. 0 < p \<and> p < 65536 \<and> h \<in> fst ` set (cHosts (F r))"
  shows "for_each nps (\<lambda>x. sqlChecked (insertPortName cid x)) (stage cid m F P) = (Inr (), stage cid m F (P @ portRowsOf cid nps))"
  using for_ports [OF _ stage_find [OF assms(2,3)], of P nps] assms by (simp add: stage_def)

lemma stage_deletePorts:
  assumes "faults m = []" "keeps_id F"
  shows "exec (deletePortNames cid) (stage cid m F P) = (Inr (), stage cid m F (filter (\<lambda>p. pnChallenge p \<noteq> cid) P))"
    and "exec (\<lambda>d. deletePortNames cid (clearOf cid f d)) (stage cid m F P) =
      (Inr (), stage cid m (\<lambda>r. f (F r)) (filter (\<lambda>p. pnChallenge p \<noteq> cid) P))"
  using assms by (simp_all add: stage_def deletePortNames_def clearOf_portNames clearOf_clearOf keeps_id_def o_def)

text \<open>A challenge as the loader delivers it: what the tables' constraints ask for, with maps as lists of distinct keys.\<close>

definition challenge_wf :: "challengeMeta \<Rightarrow> bool" where
  "challenge_wf c \<longleftrightarrow> challengeCheck c \<and> distinct (cTags c) \<and> distinct (map fst (cAttributes c)) \<and> distinct (map fst (cHosts c)) \<and>
     distinct (map fst (hPortMap c)) \<and> distinct (map fst (cOverrides c)) \<and>
     (\<forall>(n, h, p)\<in>set (hPortMap c). 0 < p \<and> p < 65536 \<and> h \<in> fst ` set (cHosts c)) \<and>
     (\<forall>(h, o')\<in>set (cOverrides c). persistedOptions o' = o') \<and> hDelivery c = deriveDeliveryType (cType c) (length (hPortMap c))"

lemma updateRow_id [simp]: "cId (updateRow c r) = cId r"
  by (simp add: updateRow_def)

definition rowAfter :: "challengeMeta \<Rightarrow> challengeRow \<Rightarrow> challengeRow" where
  "rowAfter c r = (challengeRow.truncate c)\<lparr>cId := cId r, cNamespace := cNamespace r\<rparr>"

lemma persisted_overrides: "challenge_wf c \<Longrightarrow> map (\<lambda>x. (fst x, persistedOptions (snd x))) (cOverrides c) = cOverrides c"
  by (auto simp: challenge_wf_def intro!: map_idI)

lemma persistChallenge_no_fault:
  assumes f: "faults m = []" and r: "findChallenge (cId c) (db m) = Some r" and wf: "challenge_wf c"
  shows "persistChallenge c m =
    (Inr (), stage (cId c) m (rowAfter c) (filter (\<lambda>p. pnChallenge p \<noteq> cId c) (portNames (db m)) @ portRowsOf (cId c) (hPortMap c)))"
proof -
  let ?cid = "cId c" and ?P = "portNames (db m)"
  have "d\<lparr>challenges := map (\<lambda>r. if cId r = ?cid then updateRow c r else r) (challenges d)\<rparr> = (clearOf ?cid (updateRow c) d)\<lparr>portNames := portNames d\<rparr>" for d
    by (simp add: clearOf_def)
  then have start: "sqlChecked (updateChallenge c) m = (Inr (), stage ?cid m (updateRow c) ?P)"
    using f wf by (simp add: sqlChecked_no_fault updateChallenge_def challenge_wf_def stage_def)
  have after: "rowAfter c = (\<lambda>r. (updateRow c r)\<lparr>cHints := cHints c, cTags := cTags c, cAttributes := cAttributes c, cHosts := cHosts c,
      cOverrides := cOverrides c\<rparr>)"
    by (simp add: fun_eq_iff updateRow_def rowAfter_def challengeRow.defs)
  note steps = stage_clear [OF f] stage_hints [OF f r] stage_tags [OF f r] stage_attributes [OF f r] stage_hosts [OF f r]
    stage_ports [OF f r] stage_options [OF f r] stage_deletePorts [OF f]
  show ?thesis
    using wf persisted_overrides [OF wf]
    by (simp add: persistChallenge_def Let_def bnd_def start steps keeps_id_def challenge_wf_def after)
qed

lemma fold_mapPut_distinct: "distinct (map fst xs) \<Longrightarrow> fold (\<lambda>(k, v). mapPut k v) xs [] = xs"
proof -
  have put: "k \<notin> fst ` set acc \<Longrightarrow> mapPut k v acc = acc @ [(k, v)]" for k :: 'a and v :: 'b and acc
    by (induction acc) auto
  have "distinct (map fst (acc @ xs)) \<Longrightarrow> fold (\<lambda>(k, v). mapPut k v) xs acc = acc @ xs" for acc
  proof (induction xs arbitrary: acc)
    case (Cons x xs)
    then show ?case using put [of "fst x" acc "snd x"] Cons.IH [of "acc @ [x]"] by (cases x) auto
  qed simp
  from this [of "[]"] show "distinct (map fst xs) \<Longrightarrow> fold (\<lambda>(k, v). mapPut k v) xs [] = xs" by simp
qed

lemma portMapOf_rows: "distinct (map fst nps) \<Longrightarrow> portMapOf (portRowsOf cid nps) = nps"
  using fold_mapPut_distinct [of nps] by (simp add: portMapOf_def portRowsOf_def fold_map o_def split_def)

lemma filter_portRowsOf [simp]: "filter (\<lambda>p. pnChallenge p = cid) (portRowsOf cid nps) = portRowsOf cid nps"
  by (auto simp: portRowsOf_def filter_map o_def split_def intro: filter_True)

lemma lookupChallenge_no_fault:
  assumes "faults m = []" "findChallenge cid (db m) = Some r"
  shows "lookupChallengeMetadata cid m =
    (Inr (challengeMeta_of (r\<lparr>cOverrides := fold (\<lambda>(h, o'). mapPut h o') (cOverrides r) []\<rparr>)
            (portMapOf (filter (\<lambda>p. pnChallenge p = cid) (portNames (db m))))), m)"
  using assms by (simp add: lookupChallengeMetadata_def txn_def bnd_def)

lemma findChallenge_id: "findChallenge cid d = Some r \<Longrightarrow> cId r = cid"
  by (auto simp: findChallenge_def find_Some_iff)

lemma challengeMeta_of_rowAfter:
  assumes "challenge_wf c" "cId r = cId c"
  shows "challengeMeta_of (rowAfter c r) (hPortMap c) = c\<lparr>cNamespace := cNamespace r\<rparr>"
  using assms by (cases c) (simp add: challengeMeta_of_def rowAfter_def challengeRow.defs challenge_wf_def)

lemma sameOverrides_refl [simp]: "sameOverrides xs xs"
  by (simp add: sameOverrides_def list_all_iff)

lemma updateOne_no_fault:
  assumes f: "faults m = []" and r: "findChallenge (cId c) (db m) = Some r" and wf: "challenge_wf c"
  defines "m' \<equiv> stage (cId c) m (rowAfter c) (filter (\<lambda>p. pnChallenge p \<noteq> cId c) (portNames (db m)) @ portRowsOf (cId c) (hPortMap c))"
  shows "updateOne c m = (Inr (False, True, []), m')"
    and "lookupChallengeMetadata (cId c) m' = (Inr (c\<lparr>cNamespace := cNamespace r\<rparr>), m')"
    and "findChallenge (cId c) (db m') = Some (rowAfter c r)"
proof -
  have f': "faults m' = []" using f by (simp add: m'_def)
  show "updateOne c m = (Inr (False, True, []), m')"
    using persistChallenge_no_fault [OF f r wf] f'
    by (simp add: updateOne_def bnd_def catch_def txnCommit_def m'_def [symmetric])
  have "keeps_id (rowAfter c)" by (simp add: keeps_id_def rowAfter_def)
  then show row: "findChallenge (cId c) (db m') = Some (rowAfter c r)" unfolding m'_def by (rule stage_find [OF r])
  have ports: "filter (\<lambda>p. pnChallenge p = cId c) (portNames (db m')) = portRowsOf (cId c) (hPortMap c)"
    by (simp add: m'_def stage_def)
  have ov: "cOverrides (rowAfter c r) = cOverrides c" by (simp add: rowAfter_def challengeRow.defs)
  have "(rowAfter c r)\<lparr>cOverrides := fold (\<lambda>(h, o'). mapPut h o') (cOverrides (rowAfter c r)) []\<rparr> = rowAfter c r"
    using wf fold_mapPut_distinct [of "cOverrides c"] unfolding ov challenge_wf_def by (simp add: rowAfter_def challengeRow.defs)
  then show "lookupChallengeMetadata (cId c) m' = (Inr (c\<lparr>cNamespace := cNamespace r\<rparr>), m')"
    using lookupChallenge_no_fault [OF f' row] ports wf portMapOf_rows [of "hPortMap c" "cId c"]
      challengeMeta_of_rowAfter [OF wf findChallenge_id [OF r]]
    by (simp add: challenge_wf_def)
qed


definition sample_meta :: challengeMeta where
  "sample_meta = challengeRow.extend (sample_challenge\<lparr>cSourceChecksum := 77, cPoints := 50\<rparr>)
     \<lparr>hPortMap = [(''http'', ''web'', 80)], hDelivery = DeliveryService\<rparr>"

lemma sample_meta_wf: "challenge_wf sample_meta"
  by (simp add: challenge_wf_def sample_meta_def sample_challenge_def challengeRow.defs challengeCheck_def sample_challenge_options_def
      plain_options_def strict_options_def strict_text_def persistedOptions_def deriveDeliveryType_def)


section \<open>Failures\<close>

lemma bnd_gets: "bnd (gets f) k m = k (f m) m"
  by (simp add: bnd_def)

lemma txnRollback_db: "txnRollback saved m = (r, m') \<Longrightarrow> db m' = saved \<and> (\<exists>rb. r = Inr rb)"
  by (auto simp: txnRollback_def split: prod.splits sum.splits)

lemma txnCommit_db: "txnCommit saved m = (r, m') \<Longrightarrow> (r = Inr None \<and> db m' = db m) \<or> (\<exists>e. r = Inr (Some e) \<and> db m' = saved)"
  by (auto simp: txnCommit_def dest: exec_Inr split: prod.splits sum.splits)

lemma caught: "catch (bnd f (\<lambda>_. ret None)) (\<lambda>e. ret (Some e)) m = (r, m') \<Longrightarrow> \<exists>x. r = Inr x"
  by (auto simp: catch_def split: prod.splits sum.splits)


definition broken_store :: manager where
  "broken_store = sample_store\<lparr>faults := [None, Some (SqlOther ''disk I/O error'')]\<rparr>"

lemma broken_run: "fst (updateOne sample_meta broken_store) = Inr (False, False, [[SqlErr (SqlOther ''disk I/O error'')]])"
  by code_simp


text \<open>
  A challenge that cannot be inserted is lost without a word. When the statement that inserts
  the challenge's own row is refused (here by the table's check on its points) and the rollback
  succeeds, \<open>addChallenges\<close> reports nothing: \<open>err\<close> is assigned the rollback's result
  and is not appended. The challenge is not in the database, and the caller is told that nothing
  went wrong.
\<close>

theorem addChallenges_loses_error:
  assumes "faults m = []" "findChallenge (cId c) (db m) = None" "cPoints c < 0"
  shows "addChallenges [c] [] m = (Inr [], m)"
  using assms
  by (simp add: bnd_def addChallenge_def catch_def sqlChecked_no_fault insertChallenge_def challengeCheck_def txnRollback_def)

theorem addChallenges_loses_error_witness:
  "addChallenges [sample_meta\<lparr>cPoints := -1\<rparr>] [] freshManager = (Inr [], freshManager)"
proof (rule addChallenges_loses_error)
  show "findChallenge (cId (sample_meta\<lparr>cPoints := -1\<rparr>)) (db freshManager) = None"
    by (simp add: findChallenge_def freshManager_def emptyDatabase_def)
qed (simp_all add: freshManager_def)

lemma addChallenge_duplicate_tag:
  assumes "faults m = []" "findChallenge (cId c) (db m) = None" "challengeCheck c"
    and "cHints c = []" "cTags c = [t, t]" "cAttributes c = []" "cHosts c = h # hs"
  shows "addChallenge c m = (Inr (True, [errTxDone]), m)"
proof -
  let ?row = "(challengeRow.truncate c)\<lparr>cHints := [], cTags := [], cAttributes := [], cHosts := [], cOverrides := []\<rparr>"
  let ?m1 = "m\<lparr>db := (db m)\<lparr>challenges := challenges (db m) @ [?row]\<rparr>\<rparr>"
  have ins: "sqlChecked (insertChallenge c) m = (Inr (), ?m1)"
    using assms by (simp add: sqlChecked_no_fault insertChallenge_def)
  have nf: "List.find (\<lambda>r. cId r = cId c) (challenges (db m)) = None" using assms(2) by (simp add: findChallenge_def)
  have "List.find P (xs @ ys) = (case List.find P xs of None \<Rightarrow> List.find P ys | Some x \<Rightarrow> Some x)" for P and xs ys :: "challengeRow list"
    by (induction xs) auto
  then have f1: "findChallenge (cId c) (db ?m1) = Some ?row" using nf by (simp add: findChallenge_def challengeRow.defs)
  have t1: "sqlChecked (insertTag (cId c) t) ?m1 = (Inr (), ?m1\<lparr>db := clearOf (cId c) (\<lambda>r. r\<lparr>cTags := cTags r @ [t]\<rparr>) (db ?m1)\<rparr>)"
    (is "_ = (_, ?m2)")
    using assms(1) f1 by (simp add: sqlChecked_no_fault insertTag_def onChallenge_ok unique_def)
  have f2: "findChallenge (cId c) (db ?m2) = Some (?row\<lparr>cTags := [t]\<rparr>)" using f1 by (simp add: findChallenge_clearOf)
  have t2: "sqlChecked (insertTag (cId c) t) ?m2 = (Inl [SqlErr (SqlConstraint ''UNIQUE'')], ?m2)"
    using assms(1) f2 by (simp add: sqlChecked_no_fault insertTag_def onChallenge_def unique_def)
  have rb: "txnRollback (db m) ?m2 = (Inr None, m)" using assms(1) by (simp add: txnRollback_def)
  have tags: "addStage (db m) (map (insertTag (cId c)) (cTags c)) True ?m1 = (Inr (Inr False), m)"
    using assms(5) by (simp only: list.map addStage.simps not_True_eq_False if_False bnd_def catch_def t1 t2 rb ret_apply
        prod.case sum.case option.case)
  show ?thesis
    using assms(4,6,7) by (simp add: addChallenge_def bnd_def catch_def ins addStatements_def tags)
qed

text \<open>
  A refused row in between drops the challenges after it. When a tag of the first challenge is
  refused and the challenge has a host, the loop over its hosts runs on the transaction that is
  over and the function returns there: the challenges after it are never looked at.
\<close>

theorem addChallenges_drops_the_rest:
  assumes "faults m = []" "findChallenge (cId c) (db m) = None" "challengeCheck c"
    and "cHints c = []" "cTags c = [t, t]" "cAttributes c = []" "cHosts c = h # hs"
  shows "addChallenges (c # rest) [] m = (Inr [errTxDone], m)"
  using addChallenge_duplicate_tag [OF assms] by (simp add: bnd_def)

theorem addChallenges_drops_the_rest_witness:
  "addChallenges [sample_meta\<lparr>cHints := [], cTags := [''web'', ''web'']\<rparr>, sample_meta\<lparr>cId := ''pico/b''\<rparr>] [] freshManager =
   (Inr [errTxDone], freshManager)"
proof (rule addChallenges_drops_the_rest)
  show "findChallenge (cId (sample_meta\<lparr>cHints := [], cTags := [''web'', ''web'']\<rparr>)) (db freshManager) = None"
    by (simp add: findChallenge_def freshManager_def emptyDatabase_def)
qed (simp_all add: freshManager_def sample_meta_def sample_challenge_def challengeRow.defs challengeCheck_def)

lemma deleteChallenge_Inr:
  "deleteChallenge cid d = Inr ((), d') \<Longrightarrow> challenges d' = filter (\<lambda>r. cId r \<noteq> cid) (challenges d) \<and> builds d' = builds d \<and>
     (\<forall>b\<in>set (builds d). bChallenge b \<noteq> cid)"
  by (auto simp: deleteChallenge_def list_ex_iff split: if_splits)

text \<open>
  Removal is all or nothing and never takes a challenge that has builds: when it succeeds,
  exactly the named challenges are gone and no build refers to one of them; when it fails, the
  tables are as they were.
\<close>

theorem removeChallenges_safe:
  assumes "removeChallenges cs m = (r, m')"
  shows "(\<forall>e. r = Inl e \<longrightarrow> db m' = db m) \<and>
    (r = Inr () \<longrightarrow> challenges (db m') = filter (\<lambda>c. cId c \<notin> cId ` set cs) (challenges (db m)) \<and> builds (db m') = builds (db m) \<and>
       (\<forall>b\<in>set (builds (db m)). bChallenge b \<notin> cId ` set cs))"
proof (intro conjI allI impI)
  fix e assume "r = Inl e"
  then show "db m' = db m" using assms txn_Inl unfolding removeChallenges_def by blast
next
  have loop: "for_each cs (\<lambda>c. sqlChecked (deleteChallenge (cId c))) m = (Inr (), m1) \<Longrightarrow>
      challenges (db m1) = filter (\<lambda>c. cId c \<notin> cId ` set cs) (challenges (db m)) \<and> builds (db m1) = builds (db m) \<and>
      (\<forall>b\<in>set (builds (db m)). bChallenge b \<notin> cId ` set cs)" for m1
  proof (induction cs arbitrary: m)
    case (Cons c cs)
    from Cons.prems obtain m2 where 1: "sqlChecked (deleteChallenge (cId c)) m = (Inr (), m2)"
      and 2: "for_each cs (\<lambda>c. sqlChecked (deleteChallenge (cId c))) m2 = (Inr (), m1)"
      by (auto elim!: bnd_InrE)
    from sqlChecked_Inr [OF 1] obtain fs d where d: "deleteChallenge (cId c) (db m) = Inr ((), d)" "db m2 = d" by auto
    then have "challenges (db m2) = filter (\<lambda>r. cId r \<noteq> cId c) (challenges (db m))" "builds (db m2) = builds (db m)"
      "\<forall>b\<in>set (builds (db m)). bChallenge b \<noteq> cId c"
      using deleteChallenge_Inr by blast+
    then show ?case using Cons.IH [OF 2] by (auto intro: filter_cong)
  qed simp
  assume "r = Inr ()"
  then obtain m1 where "for_each cs (\<lambda>c. sqlChecked (deleteChallenge (cId c))) m = (Inr (), m1)" and m': "db m' = db m1"
    using txn_Inr [of _ m "()" m'] assms unfolding removeChallenges_def by metis
  then show "challenges (db m') = filter (\<lambda>c. cId c \<notin> cId ` set cs) (challenges (db m))" "builds (db m') = builds (db m)"
    "\<forall>b\<in>set (builds (db m)). bChallenge b \<notin> cId ` set cs"
    using loop unfolding m' by blast+
qed

theorem removeChallenges_safe_witness:
  "db (snd (removeChallenges [sample_meta] sample_store)) = db sample_store"
proof -
  have "\<exists>e. fst (removeChallenges [sample_meta] sample_store) = Inl e"
    by (simp add: removeChallenges_def txn_def bnd_def sqlChecked_no_fault deleteChallenge_def sample_store_def freshManager_def
        emptyDatabase_def sample_meta_def sample_challenge_def sample_row_def challengeRow.defs)
  then show ?thesis using removeChallenges_safe [of "[sample_meta]" sample_store] by (metis prod.collapse)
qed

end
