(* ===== verification/Daemon_Effects.thy ===== *)
theory Daemon_Effects
  imports Instance_Runtime Challenge_Store
begin

text \<open>
  What the operations on daemons and the reads of the tables may change. An effect is a preorder
  on manager states; an operation is within it when every run of it, failed or not, goes from a
  state to a related one. The locale \<open>effect\<close> names the primitive changes, and proves of every
  operation built from them that it stays within any effect that allows them; the theories above
  use it at several effects (invariants of the tables, the log of calls).
\<close>

section \<open>Operations within an effect\<close>

definition stays :: "(manager \<Rightarrow> manager \<Rightarrow> bool) \<Rightarrow> 'a mio \<Rightarrow> bool" where
  "stays R f \<longleftrightarrow> (\<forall>m. R m (snd (f m)))"

lemma staysI: "(\<And>m. R m (snd (f m))) \<Longrightarrow> stays R f"
  by (simp add: stays_def)

lemma staysD: "stays R f \<Longrightarrow> f m = (r, m') \<Longrightarrow> R m m'"
  unfolding stays_def by (metis snd_conv)

lemma keeps_stays: "keeps J f \<longleftrightarrow> stays (\<lambda>m m'. J m \<longrightarrow> J m') f"
  by (simp add: keeps_def stays_def)

text \<open>Reading the tables uses up statements, and changes nothing else.\<close>

definition reads :: "'a mio \<Rightarrow> bool" where
  "reads f \<longleftrightarrow> stays (\<lambda>m m'. \<exists>fs. m' = m\<lparr>faults := fs\<rparr>) f"

named_theorems reads_intros

lemma same_faults: "\<exists>fs. m = m\<lparr>faults := fs\<rparr>"
  by (intro exI [of _ "faults m"]) simp

lemma reads_basic [reads_intros]: "reads (ret x)" "reads (fail e)" "reads (gets g)" "reads (query q)"
  using same_faults
  by (auto simp: reads_def stays_def query_def sql_def split: list.split option.split)

lemma reads_bnd [reads_intros]:
  assumes "reads f" "\<And>x. reads (g x)" shows "reads (bnd f g)"
  unfolding reads_def
proof (rule staysI)
  fix m
  obtain r m1 where 1: "f m = (r, m1)" by fastforce
  obtain fs where fs: "m1 = m\<lparr>faults := fs\<rparr>" using assms(1) 1 unfolding reads_def stays_def by (metis snd_conv)
  show "\<exists>fs. snd (bnd f g m) = m\<lparr>faults := fs\<rparr>"
  proof (cases r)
    case (Inl e)
    then show ?thesis using 1 fs by (auto simp: bnd_def)
  next
    case (Inr x)
    obtain gs where "snd (g x m1) = m1\<lparr>faults := gs\<rparr>" using assms(2) unfolding reads_def stays_def by blast
    then show ?thesis using 1 fs Inr by (auto simp: bnd_def)
  qed
qed

lemma reads_case [reads_intros]:
  "reads f \<Longrightarrow> reads g \<Longrightarrow> reads (if b then f else g)"
  "reads f \<Longrightarrow> (\<And>x. reads (h x)) \<Longrightarrow> reads (case z of None \<Rightarrow> f | Some x \<Rightarrow> h x)"
  "(\<And>x y. reads (n x y)) \<Longrightarrow> reads (case p of (x, y) \<Rightarrow> n x y)"
  by (cases b; cases z; cases p; simp)+

lemma reads_txn [reads_intros]:
  assumes "reads body" shows "reads (txn body)"
  unfolding reads_def
proof (rule staysI)
  fix m
  let ?all = "bnd body (\<lambda>x. bnd (exec (\<lambda>d. d)) (\<lambda>_. ret x))"
  have "exec (\<lambda>d. d) = query (\<lambda>_. ())" by (simp add: exec_def query_def)
  then have "reads ?all" by (auto intro!: reads_intros assms)
  then obtain fs where fs: "snd (?all m) = m\<lparr>faults := fs\<rparr>" unfolding reads_def stays_def by blast
  then show "\<exists>fs. snd (txn body m) = m\<lparr>faults := fs\<rparr>"
    using txn_frame [OF prod.collapse [symmetric], of body m] by auto
qed

lemma reads_readPorts [reads_intros]: "reads (readPorts rows failure imgs)"
proof (induction rows arbitrary: failure imgs)
  case Nil
  show ?case unfolding readPorts.simps by (rule reads_intros)
next
  case (Cons r rs)
  show ?case unfolding reads_def
  proof (rule staysI)
    fix m :: manager
    define q :: "string list mio" where "q = query (\<lambda>d. concat (map imPorts (filter (\<lambda>i. imId i = imId r) (images d))))"
    obtain x m1 where x: "q m = (x, m1)" by fastforce
    have "reads q" unfolding q_def by (rule reads_intros)
    then obtain fs where fs: "m1 = m\<lparr>faults := fs\<rparr>" using x unfolding reads_def stays_def by (metis snd_conv)
    obtain failure' imgs' where "readPorts (r # rs) failure imgs m = readPorts rs failure' imgs' m1"
      using x by (cases x) (simp_all add: q_def)
    moreover obtain gs where "snd (readPorts rs failure' imgs' m1) = m1\<lparr>faults := gs\<rparr>"
      using Cons.IH unfolding reads_def stays_def by blast
    ultimately show "\<exists>fs. snd (readPorts (r # rs) failure imgs m) = m\<lparr>faults := fs\<rparr>" using fs by auto
  qed
qed

lemma reads_lookups [reads_intros]:
  "reads (lookupInstanceMetadata iid)" "reads (lookupBuildMetadata build)" "reads (lookupChallengeMetadata cid)"
  "reads (getReversePortMap cid)" "reads (usedPortBitset worker)"
  unfolding lookupInstanceMetadata_def lookupBuildMetadata_def lookupChallengeMetadata_def getReversePortMap_def usedPortBitset_def
  by (intro reads_intros)+

lemma reads_tryIO [reads_intros]: "reads f \<Longrightarrow> reads (tryIO f)"
  by (auto simp: reads_def stays_def tryIO_def split: prod.split) (metis snd_conv)

lemma reads_for_each [reads_intros]: "(\<And>x. reads (f x)) \<Longrightarrow> reads (for_each xs f)"
  by (induction xs) (auto intro: reads_intros simp del: bnd_ret)

lemma reads_reconcileWorker [reads_intros]: "reads (reconcileWorker a moves1 moves2 wip)"
proof -
  let ?q = "query (\<lambda>d. map iId (filter (\<lambda>r. iWorker r = wip) (instances d))) :: int list mio"
  have "reconcileWorker a moves1 moves2 wip =
     (case daContainers a of
        Inl e \<Rightarrow> ret \<lparr>rpResult = reconcileFailed e, rpContainers = [], rpNetworks = []\<rparr>
      | Inr cs \<Rightarrow>
          (case daNetworks a of
             Inl e \<Rightarrow> ret \<lparr>rpResult = reconcileFailed e, rpContainers = [], rpNetworks = []\<rparr>
           | Inr ns \<Rightarrow>
               bnd (tryIO ?q) (\<lambda>r. ret (case r of
                 Inl e \<Rightarrow> \<lparr>rpResult = reconcileIncomplete, rpContainers = [], rpNetworks = []\<rparr>
               | Inr ids \<Rightarrow> removeLeftovers a moves1 moves2 (findOrphans cs ns (\<lambda>iid. iid \<in> set ids))))))"
    by (auto simp: fun_eq_iff reconcileWorker_def bnd_def tryIO_def split: sum.split prod.split)
  then show ?thesis by (auto intro: reads_intros split: sum.split)
qed

lemma reads_reclaim [reads_intros]: "(\<And>w. reads (pass w)) \<Longrightarrow> reads (reclaimAfterGC pass ips)"
  unfolding reclaimAfterGC_def by (intro reads_intros)

section \<open>Talking to a daemon\<close>

text \<open>
  The effect of everything short of creating a container and writing the tables: the worker
  registry, the slot queues, the draws, the statements used up, and calls.
\<close>

locale effect =
  fixes R :: "manager \<Rightarrow> manager \<Rightarrow> bool"
  assumes refl: "R m1 m1"
    and trans: "R m1 m2 \<Longrightarrow> R m2 m3 \<Longrightarrow> R m1 m3"
    and registry: "R m (m\<lparr>workers := w\<rparr>)" "R m (m\<lparr>rrCursor := n\<rparr>)"
    and slots: "R m (m\<lparr>slotChoices := cs\<rparr>)" "R m (m\<lparr>queues := q\<rparr>)" "R m (m\<lparr>localQueue := l\<rparr>)"
    and draws: "R m (m\<lparr>rands := rs\<rparr>)"
    and statements: "R m (m\<lparr>faults := fs\<rparr>)"
    and call: "(\<And>client spec. c \<noteq> ContainerCreate client spec) \<Longrightarrow> R m (m\<lparr>replies := rp, calls := calls m @ [(c, r)]\<rparr>)"
begin

lemma w_basic: "stays R (ret x)" "stays R (fail e)" "stays R (gets g)"
  by (simp_all add: stays_def refl)

lemma w_modify: "(\<And>m. R m (h m)) \<Longrightarrow> stays R (modify h)"
  by (simp add: stays_def)

lemma w_bnd: "stays R f \<Longrightarrow> (\<And>x. stays R (g x)) \<Longrightarrow> stays R (bnd f g)"
  unfolding stays_def bnd_def by (auto split: prod.split sum.split) (metis snd_conv trans)+

lemma w_tryIO: "stays R f \<Longrightarrow> stays R (tryIO f)"
  by (simp add: stays_def tryIO_def split: prod.split) (metis snd_conv)

lemma w_catch: "stays R f \<Longrightarrow> (\<And>e. stays R (h e)) \<Longrightarrow> stays R (catch f h)"
  unfolding stays_def catch_def by (auto split: prod.split sum.split) (metis snd_conv trans)+

lemma w_for_each: "(\<And>x. stays R (f x)) \<Longrightarrow> stays R (for_each xs f)"
  by (induction xs) (auto intro: w_basic(1) w_bnd simp del: bnd_ret)

lemma w_case:
  "stays R f \<Longrightarrow> stays R g \<Longrightarrow> stays R (if b then f else g)"
  "stays R f \<Longrightarrow> (\<And>x. stays R (h x)) \<Longrightarrow> stays R (case z of None \<Rightarrow> f | Some x \<Rightarrow> h x)"
  "(\<And>x. stays R (k x)) \<Longrightarrow> (\<And>y. stays R (l y)) \<Longrightarrow> stays R (case s of Inl x \<Rightarrow> k x | Inr y \<Rightarrow> l y)"
  "(\<And>x y. stays R (n x y)) \<Longrightarrow> stays R (case p of (x, y) \<Rightarrow> n x y)"
  by (cases b; cases z; cases s; cases p; simp)+

lemma w_reads: "reads f \<Longrightarrow> stays R f"
  unfolding reads_def stays_def by (metis statements)

lemma w_dockerDo: "(\<And>client spec. c \<noteq> ContainerCreate client spec) \<Longrightarrow> stays R (dockerDo c)"
  by (rule staysI) (simp add: dockerDo_def Let_def call)

lemma w_calls:
  "stays R (dockerDo (NetworkCreate client s))" "stays R (dockerDo (NetworkRemove client s))"
  "stays R (dockerDo (ContainerStart client s))" "stays R (dockerDo (ContainerInspect client s))"
  "stays R (dockerDo (ContainerRemove client s))" "stays R (dockerDo (ImageInspect client s))"
  "stays R (dockerDo (ImagePull client s))" "stays R (dockerDo (ImageRemove client s))"
  "stays R (dockerDo (RegistryDelete s))"
  by (auto intro!: w_dockerDo)

lemma w_noteFailure: "stays R (noteFailure worker client r e)"
  unfolding noteFailure_def
  by (rule w_modify) (auto simp: noteWorkerTransportError_def Let_def registry refl split: option.split)

lemma w_ejectedSince: "stays R (modify (ejectedSince tm worker))"
  by (rule w_modify) (auto simp: ejectedSince_def registry refl split: option.split)

lemma w_queueUpdate: "stays R (modify (queueUpdate q f))"
  by (rule w_modify) (auto simp: queueUpdate_def slots split: option.split)

lemma w_nextSlotChoice: "stays R nextSlotChoice"
  by (rule staysI) (simp add: nextSlotChoice_def slots)

lemma w_drawPort: "stays R (drawPort n)"
  by (rule staysI) (simp add: drawPort_def draws)

lemma w_selectWorker: "stays R selectWorker"
  by (rule staysI) (auto simp: selectWorker_def Let_def registry refl split: prod.split option.split)

lemmas w_lookups = w_reads [OF reads_basic(4)] reads_lookups [THEN w_reads]

lemmas w_intros = w_basic w_bnd w_tryIO w_catch w_for_each w_case w_lookups w_calls w_noteFailure w_ejectedSince w_queueUpdate
  w_nextSlotChoice w_drawPort w_selectWorker

lemma w_clientFor: "stays R (clientFor inst)"
  unfolding clientFor_def by (intro w_intros)

lemma w_pullImage: "stays R (pullImage client name)"
  unfolding pullImage_def by (intro w_intros)

lemma w_imagePresent: "stays R (imagePresent client worker name)"
  unfolding imagePresent_def by (intro w_intros)

lemma w_ensureLoop: "stays R (ensureLoop client build worker imgs pulled)"
proof (induction imgs arbitrary: pulled)
  case Nil
  show ?case unfolding ensureLoop.simps by (rule w_basic)
next
  case (Cons img imgs)
  show ?case unfolding ensureLoop.simps by (intro w_intros w_imagePresent w_pullImage Cons.IH)
qed

lemma w_ensureImages: "stays R (ensureImages client build inst limits)"
  unfolding ensureImages_def by (intro w_intros w_ensureLoop)

lemma w_startNetwork: "stays R (startNetwork inst)"
  unfolding startNetwork_def Let_def by (intro w_intros w_clientFor)

lemma w_stopNetwork: "stays R (stopNetwork inst)"
  unfolding stopNetwork_def by (intro w_intros w_clientFor)

lemma w_readBack: "stays R (readBack client cid revPortMap backoff inst)"
proof (induction "nat (second - backoff)" arbitrary: backoff inst rule: less_induct)
  case less
  show ?case
  proof (cases "backoff \<le> 0 \<or> second \<le> backoff")
    case True
    show ?thesis unfolding readBack.simps [of client cid revPortMap backoff inst] if_P [OF True] by (rule w_basic)
  next
    case False
    then have "nat (second - 2 * backoff) < nat (second - backoff)" by auto
    then have ih: "stays R (readBack client cid revPortMap (2 * backoff) i)" for i by (rule less.hyps)
    show ?thesis
      unfolding readBack.simps [of client cid revPortMap backoff inst] if_not_P [OF False]
      by (intro w_intros ih) (auto intro: w_intros ih split: option.split bool.split)
  qed
qed

lemma w_stopLoop: "stays R (stopLoop client worker cids inFlight errs)"
proof (induction cids arbitrary: inFlight errs)
  case Nil
  show ?case unfolding stopLoop.simps by (rule w_basic)
next
  case (Cons cid cids)
  show ?case unfolding stopLoop.simps by (intro w_intros Cons.IH)
qed

lemma w_acquireSlot: "stays R (acquireSlot inst wait)"
  unfolding acquireSlot_def
  by (intro w_intros; (split slotChoice.split, intro conjI allI impI w_intros)?)

lemma w_withTeardownSlot: "stays R act \<Longrightarrow> stays R (withTeardownSlot inst wait act)"
  unfolding withTeardownSlot_def by (intro w_intros w_acquireSlot)

lemma w_withLaunchSlot: "stays R act \<Longrightarrow> stays R (withLaunchSlot inst wait act)"
  unfolding withLaunchSlot_def by (intro w_intros w_acquireSlot)

lemmas daemon_intros = w_intros w_clientFor w_ensureImages w_startNetwork w_stopNetwork w_stopLoop
  w_withTeardownSlot w_withLaunchSlot

end

text \<open>A teardown, in addition, forgets the ports and containers of its instance.\<close>

locale teardown_effect = effect R for R +
  fixes mine :: "instanceMeta \<Rightarrow> bool"
  assumes forgets: "mine inst \<Longrightarrow> stays R (removeContainersMetadata inst)"
begin

lemma w_teardown: "mine inst \<Longrightarrow> stays R (teardown inst wait)"
  unfolding teardown_def stopContainers_def Let_def by (intro daemon_intros forgets)

end

text \<open>A launch creates containers and finalizes the record.\<close>

locale launch_effect = effect R for R +
  assumes create: "R m (m\<lparr>replies := rp, calls := calls m @ [(ContainerCreate client spec, r)]\<rparr>)"
    and finalizes: "stays R (finalizeInstance meta)"
begin

lemma w_create: "stays R (dockerDo (ContainerCreate client spec))"
  by (rule staysI) (simp add: dockerDo_def Let_def create)

lemma w_startContainer: "stays R (startContainer env client build rpm img inst)"
  unfolding startContainer_def createContainer_def Let_def by (intro daemon_intros w_create w_pullImage w_readBack)

lemma w_startLoop: "stays R (startLoop env client build rpm imgs inst)"
proof (induction imgs arbitrary: inst)
  case Nil
  show ?case unfolding startLoop.simps by (rule w_basic)
next
  case (Cons img imgs)
  show ?case unfolding startLoop.simps by (intro w_intros w_startContainer Cons.IH)
qed

lemma w_startContainers: "stays R (startContainers env build rpm inst)"
  unfolding startContainers_def by (intro daemon_intros w_startLoop finalizes)

lemma w_launch: "stays R (launch env build rpm limits inst)"
  unfolding launch_def launchStages_def by (intro daemon_intros w_startContainers)

end

text \<open>
  An effect that looks at nothing but the tables and at whether ports come from a range allows
  all of it but the writes.
\<close>

definition tables :: "manager \<Rightarrow> int \<times> database" where
  "tables m = (portLow m, db m)"

locale table_effect =
  fixes R :: "manager \<Rightarrow> manager \<Rightarrow> bool"
  assumes same: "tables m2 = tables m1 \<Longrightarrow> R m1 m2"
    and chain: "R m1 m2 \<Longrightarrow> R m2 m3 \<Longrightarrow> R m1 m3"

sublocale table_effect \<subseteq> effect R
  by unfold_locales (auto intro: same chain simp: tables_def)

end
