(* ===== verification/Instance_Lifecycle.thy ===== *)
theory Instance_Lifecycle
  imports Daemon_Effects
begin

text \<open>
  The life of an instance (\<open>src/cork/api.go\<close>: \<open>Start\<close>, \<open>newInstance\<close>,
  \<open>Stop\<close>, \<open>stopInstance\<close>, \<open>Prune\<close>; \<open>restartInstance\<close> of
  \<open>src/cork/database_instances.go\<close>), put together from the store, the port pool and the
  runtime. A request runs alone here: what concurrent requests do to each other is the business
  of the interleaving models (ports, slots, connections). The contract between the store and what
  is built on it is the locale \<open>store_contract\<close>. The goroutine that \<open>checkPrune\<close> may start is
  a request of its own.
\<close>

section \<open>Stopping\<close>

definition unreachable :: "manager \<Rightarrow> instanceMeta \<Rightarrow> bool" where
  "unreachable m inst =
     (if nWorker inst = '''' then externalBuildPlane m else workerUnreachable m (nWorker inst))"

definition stopInstance :: "instanceMeta \<Rightarrow> unit mio" where
  "stopInstance inst =
     bnd (gets (\<lambda>m. unreachable m inst)) (\<lambda>out.
     if out then removeInstanceMetadata (nId inst)
     else
       bnd (gets (\<lambda>m. teardownWait (timing m))) (\<lambda>wait.
       bnd (teardown inst wait) (\<lambda>(failure, _).
       (case failure of
          None \<Rightarrow> removeInstanceMetadata (nId inst)
        | Some e \<Rightarrow>
            bnd (gets (\<lambda>m. unreachable m inst)) (\<lambda>out'.
            if out' then removeInstanceMetadata (nId inst)
            else if errors_Is e DeadlineExceeded then removeInstanceMetadata (nId inst)
            else fail e)))))"

definition Stop :: "int \<Rightarrow> unit mio" where
  "Stop iid =
     bnd (lookupInstanceMetadata iid) (\<lambda>iMeta.
     bnd (lookupBuildMetadata (nBuild iMeta)) (\<lambda>bMeta.
     if mInstanceCount bMeta \<noteq> DYNAMIC_INSTANCES then fail [Msg ''locked build'']
     else stopInstance iMeta))"

section \<open>Starting\<close>

text \<open>Ports are reserved one by one; the metadata keeps what was reserved before a failure.\<close>

fun reserveAll :: "(string \<Rightarrow> string option) \<Rightarrow> string list \<Rightarrow> instanceMeta \<Rightarrow> (err option \<times> instanceMeta) mio" where
  "reserveAll revPortMap [] inst = ret (None, inst)"
| "reserveAll revPortMap (portStr # rest) inst =
     bnd (tryIO (reservePort (\<lambda>_ d. d) (nId inst) (nWorker inst) (nameOf revPortMap portStr))) (\<lambda>r.
     (case r of
        Inl e \<Rightarrow> ret (Some e, inst)
      | Inr port \<Rightarrow> reserveAll revPortMap rest (inst\<lparr>nPorts := mapPut (nameOf revPortMap portStr) port (nPorts inst)\<rparr>)))"

definition freshInstance :: "buildMeta \<Rightarrow> string \<Rightarrow> instanceMeta" where
  "freshInstance build worker =
     \<lparr>nId = 0, nPorts = [], nContainers = [], nLastSolved = 0, nBuild = mId build, nWorker = worker, nFinalized = False\<rparr>"

text \<open>What happens once the instance has its row: ports, launch, and the cleanup of a failure.\<close>

definition launchRecorded :: "launchEnv \<Rightarrow> buildMeta \<Rightarrow> launchLimits \<Rightarrow> instanceMeta \<Rightarrow> (int \<times> err option) mio" where
  "launchRecorded env build limits inst =
     bnd (tryIO (getReversePortMap (mChallenge build))) (\<lambda>rpm.
     (case rpm of
        Inl e \<Rightarrow> bnd (clearInstanceRecords (nId inst)) (\<lambda>_. ret (0, Some e))
      | Inr revPortMap \<Rightarrow>
          bnd (gets portLow) (\<lambda>low.
          bnd (if low \<noteq> 0 then reserveAll revPortMap (publishedPorts (mImages build)) inst else ret (None, inst)) (\<lambda>(noPort, inst1).
          (case noPort of
             Some e \<Rightarrow> bnd (clearInstanceRecords (nId inst)) (\<lambda>_. ret (0, Some e))
           | None \<Rightarrow>
               bnd (launch env build revPortMap limits inst1) (\<lambda>(started, failure, inst2).
               bnd (case failure of
                      None \<Rightarrow> ret ()
                    | Some _ \<Rightarrow> if started then bnd (tryIO (stopInstance inst2)) (\<lambda>_. ret ())
                                else clearInstanceRecords (nId inst)) (\<lambda>_.
               ret (nId inst, failure))))))))"

text \<open>Where the instance goes, or why it goes nowhere; nothing is recorded yet.\<close>

definition placeInstance :: "launchLimits \<Rightarrow> string mio" where
  "placeInstance limits =
     bnd (gets placementEnabled) (\<lambda>place.
     bnd (if place then selectWorker else ret '''') (\<lambda>worker.
     bnd (gets externalBuildPlane) (\<lambda>external.
     if worker = '''' \<and> external then fail [ErrNoWorkers]
     else
       bnd (gets (\<lambda>m. admit m worker limits)) (\<lambda>refused.
       (case refused of Some e \<Rightarrow> fail e | None \<Rightarrow> ret worker)))))"

definition newInstance :: "launchEnv \<Rightarrow> buildMeta \<Rightarrow> launchLimits \<Rightarrow> (int \<times> err option) mio" where
  "newInstance env build limits =
     bnd (tryIO (lookupChallengeMetadata (mChallenge build))) (\<lambda>c.
     (case c of
        Inl e \<Rightarrow> ret (0, Some e)
      | Inr cMeta \<Rightarrow>
          if \<not> NeedsInstance cMeta then ret (0, Some [Msg ''delivered without instances''])
          else
            bnd (tryIO (placeInstance limits)) (\<lambda>p.
            (case p of
               Inl e \<Rightarrow> ret (0, Some e)
             | Inr worker \<Rightarrow>
                 bnd (tryIO (openInstance (freshInstance build worker))) (\<lambda>o'.
                 (case o' of
                    Inl e \<Rightarrow> ret (0, Some e)
                  | Inr inst \<Rightarrow> launchRecorded (env\<lparr>leOverrides := cOverrides cMeta\<rparr>) build limits inst))))))"

definition Start :: "launchEnv \<Rightarrow> int \<Rightarrow> (int \<times> err option) mio" where
  "Start env build =
     bnd (tryIO (lookupBuildMetadata build)) (\<lambda>b.
     (case b of
        Inl e \<Rightarrow> ret (0, Some e)
      | Inr bMeta \<Rightarrow>
          if mInstanceCount bMeta \<noteq> DYNAMIC_INSTANCES then ret (0, Some [Msg ''locked build''])
          else bnd (gets requestLimits) (\<lambda>limits. newInstance env bMeta limits)))"

section \<open>Restarting and pruning\<close>

definition restartInstance ::
    "launchEnv \<Rightarrow> buildMeta \<Rightarrow> challengeMeta \<Rightarrow> (string \<Rightarrow> string option) \<Rightarrow> instanceMeta \<Rightarrow> (err option \<times> instanceMeta) mio" where
  "restartInstance env build cMeta revPortMap inst =
     bnd (tryIO (clientFor inst)) (\<lambda>c.
     (case c of
        Inl e \<Rightarrow> ret (Some e, inst)
      | Inr client \<Rightarrow>
          bnd (gets restartLimits) (\<lambda>limits.
          bnd (tryIO (ensureImages client build inst limits)) (\<lambda>images.
          (case images of
             Inl e \<Rightarrow> ret (Some e, inst)
           | Inr _ \<Rightarrow>
               bnd (teardown inst 0) (\<lambda>(failure, inst1).
               (case failure of
                  Some e \<Rightarrow> ret (Some e, inst1)
                | None \<Rightarrow>
                    bnd (reassignPorts build revPortMap (nPorts inst) inst1) (\<lambda>(failure2, inst2).
                    (case failure2 of
                       Some e \<Rightarrow> ret (Some e, inst2)
                     | None \<Rightarrow>
                         bnd (launch (env\<lparr>leOverrides := cOverrides cMeta, leEnvVars := []\<rparr>) build revPortMap
                                (limits\<lparr>llImagesEnsured := True\<rparr>) inst2) (\<lambda>(_, failure3, inst3).
                         ret (failure3, inst3)))))))))))"

text \<open>
  Pruning: \<open>age\<close> is \<open>pruneAge\<close> in nanoseconds, rounded up to whole seconds. Rounding up
  can overflow; the modifier then reads \<open>--n seconds\<close>, which is none, and
  \<open>datetime\<close> is NULL.
\<close>

definition ageSeconds :: "duration \<Rightarrow> int" where
  "ageSeconds age = go_div (wrap64 (age + second - 1)) second"

text \<open>Whether an opened instance sets off a pass of its own, which then runs beside the launch.\<close>

definition checkPrune :: "duration \<Rightarrow> duration \<Rightarrow> timestamp \<Rightarrow> timestamp \<Rightarrow> bool" where
  "checkPrune age interval now lastPrune = (0 < age \<and> \<not> wrap64 (now - lastPrune) < interval)"

definition prunable :: "database \<Rightarrow> int \<Rightarrow> instanceRow \<Rightarrow> bool" where
  "prunable d seconds i =
     (list_ex (\<lambda>b. bId b = iBuild i \<and> bInstanceCount b = DYNAMIC_INSTANCES) (builds d) \<and>
      (case iCreated i of None \<Rightarrow> True | Some t \<Rightarrow> iFinalized i \<and> 0 \<le> seconds \<and> t < sqlNow d - seconds))"

definition crashed :: "database \<Rightarrow> instanceRow \<Rightarrow> bool" where
  "crashed d i = (\<not> iFinalized i \<and> (case iCreated i of None \<Rightarrow> False | Some t \<Rightarrow> t < sqlNow d - 300))"

definition Prune :: "(workerConn \<Rightarrow> reconcilePass mio) \<Rightarrow> duration \<Rightarrow> unit mio" where
  "Prune reconcile age =
     (if age \<le> 0 then ret ()
      else
        bnd (exec (\<lambda>d. delete_instances (prunable d (ageSeconds age)) d)) (\<lambda>_.
        bnd (catch (query (\<lambda>d. remdups (map iWorker (filter (\<lambda>i. crashed d i \<and> iWorker i \<noteq> '''') (instances d)))))
               (\<lambda>e. ret [])) (\<lambda>gcWorkers.
        bnd (tryIO (sql (\<lambda>d. (length (filter (crashed d) (instances d)), delete_instances (crashed d) d)))) (\<lambda>gc.
        (case gc of
           Inl e \<Rightarrow> ret ()
         | Inr n \<Rightarrow> if n > 0 then reclaimAfterGC reconcile gcWorkers else ret ())))))"

section \<open>The contract between the tables and what is built on them\<close>

text \<open>Assigning ports claims them one by one.\<close>

locale port_effect = table_effect R for R +
  assumes claims: "stays R (claimPort iid worker name port)"
begin

lemma w_reserveLoop: "stays R (reserveLoop (\<lambda>_ d. d) iid worker name k bs)"
proof (induction k arbitrary: bs)
  case 0
  show ?case unfolding reserveLoop.simps by (rule w_basic)
next
  case (Suc k)
  have "stays R (modify (\<lambda>m. m\<lparr>db := db m\<rparr>) :: unit mio)" by (rule w_modify) (simp add: same)
  then show ?case unfolding reserveLoop.simps Let_def by (intro w_intros claims Suc.IH)
qed

lemma w_reservePort: "stays R (reservePort (\<lambda>_ d. d) iid worker name)"
  unfolding reservePort_def by (intro w_intros claims w_reserveLoop)

lemma w_reserveAll: "stays R (reserveAll rpm ports inst)"
proof (induction ports arbitrary: inst)
  case Nil
  show ?case unfolding reserveAll.simps by (rule w_basic)
next
  case (Cons p ports)
  show ?case unfolding reserveAll.simps by (intro w_intros claims w_reservePort Cons.IH)
qed

lemma w_reassignOne: "stays R (reassignOne rpm previous portStr inst)"
  unfolding reassignOne_def by (intro w_intros claims w_reservePort)

lemma w_reassignUnchecked: "stays R (reassignPortsUnchecked rpm previous ports inst)"
proof (induction ports arbitrary: inst)
  case Nil
  show ?case unfolding reassignPortsUnchecked.simps by (rule w_basic)
next
  case (Cons p ports)
  have "reassignPortsUnchecked rpm previous (p # ports) inst =
      bnd (tryIO (reassignOne rpm previous p inst)) (\<lambda>r. case r of Inl e \<Rightarrow> ret (Some e, inst)
        | Inr inst' \<Rightarrow> reassignPortsUnchecked rpm previous ports inst')"
    by (auto simp: fun_eq_iff bnd_def tryIO_def split: prod.split sum.split)
  then show ?case by (auto intro!: w_intros claims w_reassignOne Cons.IH)
qed

end

text \<open>
  When the primitive writes of the instance lifecycle stay within an effect on the tables,
  every operation of the lifecycle does, on every error path and whatever the daemons answer.
\<close>

locale store_contract = port_effect R for R +
  assumes opens: "stays R (openInstance meta)"
    and records: "stays R (finalizeInstance meta)"
    and releases: "stays R (releasePorts inst)"
    and clears: "stays R (removeContainersMetadata inst)"
    and removes: "stays R (removeInstanceMetadata iid)"
    and prunes: "stays R (exec (\<lambda>d. delete_instances (P d) d))"
    and collects: "stays R (sql (\<lambda>d. (length (filter (P d) (instances d)), delete_instances (P d) d)))"

sublocale store_contract \<subseteq> teardown_effect R "\<lambda>_. True"
  by unfold_locales (rule clears)

sublocale store_contract \<subseteq> launch_effect R
  by unfold_locales (auto intro: same records simp: tables_def)

context store_contract
begin

lemmas contract_intros = daemon_intros claims opens releases removes prunes collects w_teardown [OF TrueI] w_launch

lemma w_placeInstance: "stays R (placeInstance limits)"
  unfolding placeInstance_def by (intro daemon_intros)

lemma w_clear: "stays R (clearInstanceRecords iid)"
  unfolding clearInstanceRecords_def by (intro contract_intros)

lemma w_reassignPorts: "stays R (reassignPorts build rpm previous inst)"
  unfolding reassignPorts_def by (intro contract_intros w_reassignUnchecked)

lemma w_stopInstance: "stays R (stopInstance inst)"
  unfolding stopInstance_def by (intro contract_intros)

lemma w_Stop: "stays R (Stop iid)"
  unfolding Stop_def by (intro contract_intros w_stopInstance)

lemma w_launchRecorded: "stays R (launchRecorded env build limits inst)"
  unfolding launchRecorded_def by (intro contract_intros w_reserveAll w_stopInstance w_clear)

lemma w_newInstance: "stays R (newInstance env build limits)"
  unfolding newInstance_def by (intro contract_intros w_placeInstance w_launchRecorded)

lemma w_Start: "stays R (Start env build)"
  unfolding Start_def by (intro contract_intros w_newInstance)

lemma w_Prune: "(\<And>w. reads (pass w)) \<Longrightarrow> stays R (Prune pass age)"
  unfolding Prune_def by (intro contract_intros w_reads [OF reads_reclaim])

lemma w_restart: "stays R (restartInstance env build cMeta rpm inst)"
  unfolding restartInstance_def by (intro contract_intros w_reassignPorts)

end

section \<open>Runs of requests\<close>

datatype request =
    ReqStart launchEnv int
  | ReqStop int
  | ReqRestart launchEnv buildMeta challengeMeta "string \<Rightarrow> string option" instanceMeta
  | ReqPrune "workerConn \<Rightarrow> daemonAnswers \<times> orphanMove list \<times> orphanMove list" duration

fun serve :: "request \<Rightarrow> manager \<Rightarrow> manager" where
  "serve (ReqStart env build) m = snd (Start env build m)"
| "serve (ReqStop iid) m = snd (Stop iid m)"
| "serve (ReqRestart env build cMeta rpm inst) m = snd (restartInstance env build cMeta rpm inst m)"
| "serve (ReqPrune answer age) m = snd (Prune (\<lambda>w. case answer w of (a, mv1, mv2) \<Rightarrow> reconcileWorker a mv1 mv2 (ip w)) age m)"

context store_contract
begin

lemma serve_stays: "R m (serve r m)"
proof (cases r)
  case (ReqPrune answer age)
  have "stays R (Prune (\<lambda>w. case answer w of (a, mv1, mv2) \<Rightarrow> reconcileWorker a mv1 mv2 (ip w)) age)"
    by (rule w_Prune) (auto intro: reads_intros split: prod.split)
  then show ?thesis using ReqPrune by (simp add: stays_def)
qed (use w_Start w_Stop w_restart in \<open>simp_all add: stays_def\<close>)

lemma run_stays: "R m (fold serve rs m)"
  by (induction rs arbitrary: m) (auto intro: refl serve_stays trans)

end

section \<open>The contract holds of the tables\<close>

text \<open>Effects that only look at the tables, and the statements within them.\<close>

abbreviation on_tables :: "(database \<Rightarrow> database \<Rightarrow> bool) \<Rightarrow> manager \<Rightarrow> manager \<Rightarrow> bool" where
  "on_tables Q \<equiv> \<lambda>m m'. Q (db m) (db m')"

lemma sql_stays:
  assumes "\<And>d. Q d d" "\<And>d. Q d (snd (f d))"
  shows "stays (on_tables Q) (sql f)"
proof (rule staysI)
  fix m :: manager
  show "Q (db m) (db (snd (sql f m)))"
    using assms [of "db m"] by (cases "f (db m)") (auto simp: sql_def split: list.split option.split)
qed

lemma exec_stays: "(\<And>d. Q d d) \<Longrightarrow> (\<And>d. Q d (f d)) \<Longrightarrow> stays (on_tables Q) (exec f)"
  unfolding exec_def by (rule sql_stays) simp_all

lemma sqlChecked_stays:
  assumes "\<And>d. Q d d" "\<And>d x d'. f d = Inr (x, d') \<Longrightarrow> Q d d'"
  shows "stays (on_tables Q) (sqlChecked f)"
proof (rule staysI)
  fix m :: manager
  obtain r m' where r: "sqlChecked f m = (r, m')" by fastforce
  show "Q (db m) (db (snd (sqlChecked f m)))"
    using r assms sqlChecked_Inr [of f m _ m'] sqlChecked_Inl [of f m _ m'] by (cases r) fastforce+
qed

lemma txn_stays:
  assumes "\<And>d. Q d d" "stays (on_tables Q) body"
  shows "stays (on_tables Q) (txn body)"
proof (rule staysI)
  fix m :: manager
  obtain r m' where r: "txn body m = (r, m')" by fastforce
  show "Q (db m) (db (snd (txn body m)))"
  proof (cases r)
    case (Inl e)
    then show ?thesis using r assms(1) txn_Inl [of body m e m'] by simp
  next
    case (Inr x)
    then obtain m1 where m1: "body m = (Inr x, m1)" "db m' = db m1" using r txn_Inr [of body m x m'] by auto
    then show ?thesis using r staysD [OF assms(2) m1(1)] by simp
  qed
qed

text \<open>The transaction of \<open>removeContainersMetadata\<close>.\<close>

abbreviation forgetRows :: "instanceMeta \<Rightarrow> unit mio" where
  "forgetRows inst \<equiv> bnd (exec (\<lambda>d. d\<lparr>portAssignments := filter (\<lambda>r. pInstance r \<noteq> nId inst) (portAssignments d)\<rparr>)) (\<lambda>_.
                exec (\<lambda>d. d\<lparr>containers := filter (\<lambda>c. fst c \<noteq> nId inst) (containers d)\<rparr>))"

lemma removeContainers_snd: "snd (removeContainersMetadata inst m) = snd (txn (forgetRows inst) m)"
  by (simp add: removeContainersMetadata_def split: prod.split sum.split)

lemma stays_removeContainers: "stays R (txn (forgetRows inst)) \<Longrightarrow> stays R (removeContainersMetadata inst)"
  by (simp add: stays_def removeContainers_snd)

text \<open>
  An effect on the tables that allows each of the statements: the contract, statement by statement.
\<close>

locale statement_contract =
  fixes Q :: "database \<Rightarrow> database \<Rightarrow> bool"
  assumes stay: "Q d1 d1"
    and follow: "Q d1 d2 \<Longrightarrow> Q d2 d3 \<Longrightarrow> Q d1 d3"
    and claim: "claimRow iid worker name port d1 = Inr (c, d2) \<Longrightarrow> Q d1 d2"
    and insertion: "insertInstance meta d1 = Inr (iid, d2) \<Longrightarrow> Q d1 d2"
    and record_port: "recordPort meta np d1 = Inr (u, d2) \<Longrightarrow> Q d1 d2"
    and record_container: "recordContainer meta cid d1 = Inr (u, d2) \<Longrightarrow> Q d1 d2"
    and finalize: "Q d1 (d1\<lparr>instances := map (\<lambda>r. if iId r = nId meta then r\<lparr>iFinalized := True\<rparr> else r) (instances d1)\<rparr>)"
    and release: "Q d1 (d1\<lparr>portAssignments := filter (\<lambda>r. pInstance r \<noteq> iid) (portAssignments d1)\<rparr>)"
    and forget: "Q d1 (d1\<lparr>containers := filter (\<lambda>c. fst c \<noteq> iid) (containers d1)\<rparr>)"
    and removal: "Q d1 (delete_instances P d1)"

sublocale statement_contract \<subseteq> te: table_effect "on_tables Q"
  by unfold_locales (auto simp: tables_def intro: stay follow)

context statement_contract
begin

lemmas statement_intros = te.w_intros exec_stays [of Q, OF stay] sqlChecked_stays [of Q, OF stay] txn_stays [of Q, OF stay]

lemma st_claims: "stays (on_tables Q) (claimPort iid worker name port)"
  unfolding claimPort_def by (intro statement_intros) (rule claim)

lemma st_opens: "stays (on_tables Q) (openInstance meta)"
  unfolding openInstance_def by (intro statement_intros) (rule insertion)

lemma st_finalizes: "stays (on_tables Q) (finalizeInstance meta)"
  unfolding finalizeInstance_def by (intro statement_intros) (rule record_port record_container finalize, assumption?)+

lemma st_releases: "stays (on_tables Q) (releasePorts inst)"
  unfolding releasePorts_def by (intro statement_intros) (rule release)

lemma st_forgets: "stays (on_tables Q) (removeContainersMetadata inst)"
  by (intro stays_removeContainers statement_intros) (rule release forget)+

lemma st_removes: "stays (on_tables Q) (removeInstanceMetadata iid)"
  unfolding removeInstanceMetadata_def by (intro statement_intros) (rule removal)

lemma st_collects: "stays (on_tables Q) (sql (\<lambda>d. (g d, delete_instances (P d) d)))"
  by (rule sql_stays) (simp_all add: stay removal)

lemma st_prunes: "stays (on_tables Q) (exec (\<lambda>d. delete_instances (P d) d))"
  unfolding exec_def by (rule st_collects)

end

sublocale statement_contract \<subseteq> store_contract "on_tables Q"
  by unfold_locales (rule st_claims st_opens st_finalizes st_releases st_forgets st_removes st_prunes st_collects)+

text \<open>What the lifecycle of instances never touches: challenges, builds and their images.\<close>

definition catalog :: "database \<Rightarrow> challengeRow list \<times> portName list \<times> buildRow list \<times> imageRow list \<times> (int \<times> string \<times> string) list" where
  "catalog d = (challenges d, portNames d, builds d, images d, lookupData d)"

lemmas statement_defs = claimRow_def insertInstance_def recordPort_def recordContainer_def delete_instances_def Let_def

lemma survivors: "x \<in> f ` set xs \<Longrightarrow> x \<notin> f ` {r \<in> set xs. P r} \<Longrightarrow> x \<in> f ` {r \<in> set xs. \<not> P r}"
  by auto

lemma store_inv_delete_any: "store_inv d \<Longrightarrow> store_inv (delete_instances P d)"
  unfolding store_inv_def delete_instances_def Let_def
  by (intro conjI; simp add: distinct_map_filter) (auto intro!: survivors)

interpretation consistent: statement_contract "\<lambda>d d'. store_inv d \<longrightarrow> store_inv d'"
proof
  show "store_inv d \<longrightarrow> store_inv d'" if "claimRow iid worker name port d = Inr (c, d')" for iid worker name port d c d'
    using claimRow_Inr [OF that] by (force intro!: store_inv_add(1) simp: portRow_of_def split: if_splits)
  show "store_inv d \<longrightarrow> store_inv d'" if "insertInstance meta d = Inr (iid, d')" for meta iid d d'
    using abs_insert(5) [OF that] by blast
  show "store_inv d \<longrightarrow> store_inv d'" if "recordPort meta np d = Inr (u, d')" for meta np u d d'
    using that by (force simp: recordPort_def list_ex_iff intro!: store_inv_add(1) split: if_splits)
  show "store_inv d \<longrightarrow> store_inv d'" if "recordContainer meta cid d = Inr (u, d')" for meta cid u d d'
    using that by (force simp: recordContainer_def list_ex_iff intro!: store_inv_add(2) split: if_splits)
  show "store_inv d \<longrightarrow> store_inv (d\<lparr>instances := map (\<lambda>r. if iId r = nId meta then r\<lparr>iFinalized := True\<rparr> else r) (instances d)\<rparr>)" for meta d
    by (intro impI store_inv_map) simp_all
  show "store_inv d \<longrightarrow> store_inv (delete_instances P d)" for P d
    using store_inv_delete_any by blast
  show "store_inv d \<longrightarrow> store_inv (d\<lparr>portAssignments := filter (\<lambda>r. pInstance r \<noteq> iid) (portAssignments d)\<rparr>)"
    "store_inv d \<longrightarrow> store_inv (d\<lparr>containers := filter (\<lambda>c. fst c \<noteq> iid) (containers d)\<rparr>)" for iid d
    by (auto simp: store_inv_def)
qed simp_all

interpretation catalogued: statement_contract "\<lambda>d d'. catalog d' = catalog d"
  by unfold_locales (auto simp: catalog_def statement_defs split: if_splits)

text \<open>The id counter: no write lowers it.\<close>

interpretation numbered: statement_contract "\<lambda>d d'. instanceSeq d \<le> instanceSeq d'"
  by unfold_locales (auto simp: statement_defs split: if_splits)

text \<open>
  With a port range, no two assignments of a worker share a port. Without one, ports come from
  the daemons and \<open>finalizeInstance\<close> records them as they are.
\<close>

abbreviation ranged_ports :: "manager \<Rightarrow> bool" where
  "ranged_ports m \<equiv> portLow m \<noteq> 0 \<and> ports_unique m"

abbreviation still_ranged :: "manager \<Rightarrow> manager \<Rightarrow> bool" where
  "still_ranged m m' \<equiv> ranged_ports m \<longrightarrow> ranged_ports m'"

lemma db_only_portLow:
  assumes "db_only f" shows "portLow (snd (f m)) = portLow m"
proof -
  obtain fs d where "snd (f m) = m\<lparr>faults := fs, db := d\<rparr>" using assms unfolding db_only_def by blast
  then show ?thesis by simp
qed

definition distinct_ports :: "database \<Rightarrow> bool" where
  "distinct_ports d = distinct (map (\<lambda>r. (pWorker r, pPort r)) (portAssignments d))"

lemma ports_unique_tables: "ports_unique m = distinct_ports (db m)"
  by (simp add: ports_unique_def distinct_ports_def)

lemma stays_ranged:
  assumes "db_only f" "keeps ports_unique f"
  shows "stays still_ranged f"
  using assms(2) db_only_portLow [OF assms(1)] by (simp add: stays_def keeps_def)

lemma keeps_ports: "stays (on_tables (\<lambda>d d'. distinct_ports d \<longrightarrow> distinct_ports d')) f \<Longrightarrow> keeps ports_unique f"
  by (simp add: keeps_stays ports_unique_tables)

lemma db_only_for_each [keeps_intros]: "(\<And>x. db_only (f x)) \<Longrightarrow> db_only (for_each xs f)"
  by (induction xs) (auto intro: keeps_intros)

lemma db_only_writes [keeps_intros]:
  "db_only (openInstance meta)" "db_only (releasePorts inst)" "db_only (removeInstanceMetadata iid)"
  unfolding openInstance_def releasePorts_def removeInstanceMetadata_def by (intro keeps_intros)+



interpretation distinct_effect: table_effect "on_tables (\<lambda>d d'. distinct_ports d \<longrightarrow> distinct_ports d')"
  by unfold_locales (auto simp: tables_def)

lemmas ports_intros = distinct_effect.w_intros exec_stays sqlChecked_stays txn_stays

lemma forgetRows_ranged: "stays still_ranged (removeContainersMetadata inst)"
  by (intro stays_removeContainers stays_ranged keeps_ports ports_intros keeps_intros)
     (auto simp: distinct_ports_def distinct_map_filter)

lemma finalize_ranged: "stays still_ranged (finalizeInstance meta)"
proof (rule staysI, rule impI)
  fix m :: manager assume r: "ranged_ports m"
  define t :: "unit mio" where "t = txn (bnd (for_each (nContainers meta) (\<lambda>cid. sqlChecked (recordContainer meta cid))) (\<lambda>_.
       exec (\<lambda>d. d\<lparr>instances := map (\<lambda>r. if iId r = nId meta then r\<lparr>iFinalized := True\<rparr> else r) (instances d)\<rparr>)))"
  have "stays (on_tables (\<lambda>d d'. distinct_ports d \<longrightarrow> distinct_ports d')) t"
    unfolding t_def by (intro ports_intros) (auto simp: distinct_ports_def recordContainer_def split: if_splits)
  moreover have "db_only t" unfolding t_def by (intro keeps_intros)
  ultimately have "stays still_ranged t" by (intro stays_ranged keeps_ports)
  moreover have "finalizeInstance meta m = t m" using r by (simp add: finalizeInstance_def t_def bnd_def)
  ultimately show "ranged_ports (snd (finalizeInstance meta m))" using r by (simp add: stays_def)
qed

interpretation ranged: store_contract still_ranged
proof
  show "still_ranged m1 m2" if "tables m2 = tables m1" for m1 m2
    using that by (simp add: tables_def ports_unique_tables)
  show "stays still_ranged (claimPort iid worker name port)" for iid worker name port
    by (intro stays_ranged keeps_intros)
  show "stays still_ranged (openInstance meta)" for meta
    by (intro stays_ranged keeps_ports keeps_intros, unfold openInstance_def, intro ports_intros)
       (auto simp: insertInstance_def Let_def distinct_ports_def split: if_splits)
  show "stays still_ranged (finalizeInstance meta)" for meta by (rule finalize_ranged)
  show "stays still_ranged (releasePorts inst)" for inst by (intro stays_ranged keeps_intros)
  show "stays still_ranged (removeContainersMetadata inst)" for inst by (rule forgetRows_ranged)
  have del: "distinct_ports d \<longrightarrow> distinct_ports (delete_instances P d)" for P d
    by (auto simp: delete_instances_def Let_def distinct_ports_def distinct_map_filter)
  have sql: "stays still_ranged (sql (\<lambda>d. (g d, delete_instances (P d) d)))" for g :: "database \<Rightarrow> 'b" and P
    by (intro stays_ranged keeps_ports keeps_intros sql_stays) (simp_all add: del)
  show "stays still_ranged (sql (\<lambda>d. (length (filter (P d) (instances d)), delete_instances (P d) d)))" for P by (rule sql)
  show "stays still_ranged (exec (\<lambda>d. delete_instances (P d) d))" for P unfolding exec_def by (rule sql)
  show "stays still_ranged (removeInstanceMetadata iid)" for iid
    by (intro stays_ranged keeps_ports keeps_intros, unfold removeInstanceMetadata_def, intro ports_intros)
       (simp_all add: del)
qed auto

section \<open>Invariants of runs\<close>


section \<open>Stopping an instance\<close>

text \<open>Everything in the tables but the ports and containers of one instance.\<close>

definition other_rows :: "int \<Rightarrow> database \<Rightarrow> instanceRow list \<times> int \<times> portRow list \<times> (int \<times> string) list" where
  "other_rows iid d =
     (instances d, instanceSeq d, filter (\<lambda>p. pInstance p \<noteq> iid) (portAssignments d), filter (\<lambda>c. fst c \<noteq> iid) (containers d))"

interpretation rows_effect: table_effect "on_tables (\<lambda>d d'. other_rows iid d' = other_rows iid d)"
  by unfold_locales (auto simp: tables_def)

interpretation torn: teardown_effect "on_tables (\<lambda>d d'. other_rows iid d' = other_rows iid d)" "\<lambda>inst. nId inst = iid"
  by unfold_locales
     (intro stays_removeContainers rows_effect.w_intros exec_stays txn_stays; auto simp: other_rows_def intro: filter_cong)

lemma other_rows_abs:
  assumes "other_rows iid d' = other_rows iid d" "j \<noteq> iid"
  shows "inst_abs d' j = inst_abs d j"
proof -
  have f: "filter (\<lambda>p. pInstance p = j) ps = filter (\<lambda>p. pInstance p = j) (filter (\<lambda>p. pInstance p \<noteq> iid) ps)"
    "filter (\<lambda>c. fst c = j) cs = filter (\<lambda>c. fst c = j) (filter (\<lambda>c. fst c \<noteq> iid) cs)"
    for ps :: "portRow list" and cs :: "(int \<times> string) list"
    using assms(2) by (auto intro: filter_cong)
  have "filter (\<lambda>p. pInstance p = j) (portAssignments d') = filter (\<lambda>p. pInstance p = j) (portAssignments d)"
    "filter (\<lambda>c. fst c = j) (containers d') = filter (\<lambda>c. fst c = j) (containers d)"
    using assms(1) f(1) [of "portAssignments d"] f(1) [of "portAssignments d'"] f(2) [of "containers d"] f(2) [of "containers d'"]
    by (simp_all add: other_rows_def)
  then show ?thesis using assms(1) by (simp add: inst_abs_def other_rows_def)
qed

lemma teardown_other_rows:
  "teardown inst wait m = (r, m') \<Longrightarrow> other_rows (nId inst) (db m') = other_rows (nId inst) (db m)"
  by (rule staysD [OF torn.w_teardown]) simp_all

lemma removed_abs:
  assumes "other_rows iid (db m1) = other_rows iid (db m)" "removeInstanceMetadata iid m1 = (Inr x, m')"
  shows "inst_abs (db m') = (inst_abs (db m))(iid := None)"
proof
  fix j
  have "inst_abs (db m') = (inst_abs (db m1))(iid := None)" using removeInstance_Inr [OF assms(2)] by (simp add: abs_delete)
  then show "inst_abs (db m') j = ((inst_abs (db m))(iid := None)) j" using other_rows_abs [OF assms(1)] by simp
qed

text \<open>Operations that never end in an error of their own: what went wrong is part of the answer.\<close>

definition answers :: "'a mio \<Rightarrow> bool" where
  "answers f \<longleftrightarrow> (\<forall>m. \<exists>x m'. f m = (Inr x, m'))"

named_theorems answers_intros

lemma answers_basic [answers_intros]: "answers (ret x)" "answers (gets g)" "answers (modify h)" "answers (tryIO f)"
  by (auto simp: answers_def tryIO_def split: prod.split)

lemma answers_bnd [answers_intros]: "answers f \<Longrightarrow> (\<And>x. answers (g x)) \<Longrightarrow> answers (bnd f g)"
  unfolding answers_def bnd_def by (metis (no_types, lifting) case_prod_conv sum.case(2))

lemma answers_case [answers_intros]:
  "answers f \<Longrightarrow> answers g \<Longrightarrow> answers (if b then f else g)"
  "answers f \<Longrightarrow> (\<And>x. answers (h x)) \<Longrightarrow> answers (case z of None \<Rightarrow> f | Some x \<Rightarrow> h x)"
  "(\<And>x. answers (k x)) \<Longrightarrow> (\<And>y. answers (l y)) \<Longrightarrow> answers (case s of Inl x \<Rightarrow> k x | Inr y \<Rightarrow> l y)"
  "(\<And>x y. answers (n x y)) \<Longrightarrow> answers (case p of (x, y) \<Rightarrow> n x y)"
  by (cases b; cases z; cases s; cases p; simp)+

lemma answers_dockerDo [answers_intros]: "answers (dockerDo c)"
  by (simp add: answers_def dockerDo_def Let_def)

lemma answers_noteFailure [answers_intros]: "answers (noteFailure worker client r e)"
  unfolding noteFailure_def by (rule answers_intros)

lemma answers_stopLoop [answers_intros]: "answers (stopLoop client worker cids inFlight errs)"
proof (induction cids arbitrary: inFlight errs)
  case Nil
  show ?case unfolding stopLoop.simps by (rule answers_intros)
next
  case (Cons cid cids)
  show ?case unfolding stopLoop.simps by (intro answers_intros Cons.IH)
qed

lemma answers_removeContainers [answers_intros]: "answers (removeContainersMetadata inst)"
  by (auto simp: answers_def removeContainersMetadata_def split: prod.split sum.split)

lemma answers_teardown [answers_intros]: "answers (teardown inst wait)"
  unfolding teardown_def withTeardownSlot_def stopContainers_def Let_def by (intro answers_intros)

text \<open>
  How a stop ends: the instance is unreachable and only its record goes; or its teardown ran, and
  the record goes with it unless the teardown failed for a reason that may pass.
\<close>

lemma stopInstance_cases:
  assumes "stopInstance inst m = (r, m')"
  obtains (skipped) "unreachable m inst" "removeInstanceMetadata (nId inst) m = (r, m')"
  | (torn) f inst' m1 where "\<not> unreachable m inst" "teardown inst (teardownWait (timing m)) m = (Inr (f, inst'), m1)"
      "f = None \<or> unreachable m1 inst \<or> (\<exists>e. f = Some e \<and> errors_Is e DeadlineExceeded)"
      "removeInstanceMetadata (nId inst) m1 = (r, m')"
  | (kept) e inst' where "\<not> unreachable m inst" "teardown inst (teardownWait (timing m)) m = (Inr (Some e, inst'), m')"
      "\<not> unreachable m' inst" "\<not> errors_Is e DeadlineExceeded" "r = Inl e"
proof (cases "unreachable m inst")
  case True
  then show ?thesis using assms skipped by (simp add: stopInstance_def bnd_def)
next
  case False
  obtain f inst' m1 where t: "teardown inst (teardownWait (timing m)) m = (Inr (f, inst'), m1)"
    using answers_teardown unfolding answers_def by (metis surj_pair)
  show ?thesis
  proof (cases f)
    case None
    then show ?thesis using assms False t torn [OF False t] by (simp add: stopInstance_def bnd_def)
  next
    case (Some e)
    then show ?thesis using assms False t torn [OF False t] kept [of e inst']
      by (auto simp: stopInstance_def bnd_def split: if_splits)
  qed
qed

text \<open>
  C7. A stop is settled by its result. When it returns without error, the instance, its ports and its
  containers are gone from the tables and every other instance is as it was. When it returns an
  error, the instance is still recorded, with its worker, so that the stop can be tried again, and
  again every other instance is as it was.
\<close>

theorem stopInstance_settles:
  assumes "stopInstance inst m = (r, m')"
  shows "case r of
           Inr _ \<Rightarrow> inst_abs (db m') = (inst_abs (db m))(nId inst := None)
         | Inl e \<Rightarrow> instances (db m') = instances (db m) \<and> (\<forall>j. j \<noteq> nId inst \<longrightarrow> inst_abs (db m') j = inst_abs (db m) j)"
proof -
  have removed: "case r of Inr _ \<Rightarrow> inst_abs (db m') = (inst_abs (db m))(nId inst := None)
      | Inl e \<Rightarrow> other_rows (nId inst) (db m') = other_rows (nId inst) (db m)"
    if "removeInstanceMetadata (nId inst) m1 = (r, m')" "other_rows (nId inst) (db m1) = other_rows (nId inst) (db m)" for m1
  proof (cases r)
    case (Inl e)
    then have "db m' = db m1" using that(1) removeInstance_Inl by blast
    then show ?thesis using Inl that(2) by simp
  next
    case (Inr x)
    then show ?thesis using removed_abs [OF that(2)] that(1) by simp
  qed
  have "case r of Inr _ \<Rightarrow> inst_abs (db m') = (inst_abs (db m))(nId inst := None)
      | Inl e \<Rightarrow> other_rows (nId inst) (db m') = other_rows (nId inst) (db m)"
    using assms
  proof (cases rule: stopInstance_cases)
    case skipped
    show ?thesis by (rule removed [OF skipped(2) refl])
  next
    case (torn f inst' m1)
    show ?thesis by (rule removed [OF torn(4) teardown_other_rows [OF torn(2)]])
  next
    case (kept e inst')
    then show ?thesis using teardown_other_rows [OF kept(2)] by simp
  qed
  then show ?thesis using other_rows_abs [of "nId inst" "db m'" "db m"] by (cases r) (auto simp: other_rows_def)
qed

definition lifecycle_manager :: manager where
  "lifecycle_manager = freshManager\<lparr>db := emptyDatabase\<lparr>
     builds := [\<lparr>bId = 1, bFlag = ''f'', bFormat = ''flag{%s}'', bSeed = 7, bChecksum = 5, bPrevChecksum = 0, bSourceChecksum = 3,
                 bHasArtifacts = False, bLastSolved = 0, bChallenge = ''c'', bSchema = ''s'', bInstanceCount = DYNAMIC_INSTANCES\<rparr>],
     instances := [\<lparr>iId = 4, iBuild = 1, iWorker = '''', iFinalized = True, iLastSolved = 0, iCreated = Some 0\<rparr>,
                   \<lparr>iId = 6, iBuild = 1, iWorker = '''', iFinalized = True, iLastSolved = 0, iCreated = Some 0\<rparr>],
     instanceSeq := 6,
     portAssignments := [\<lparr>pInstance = 4, pName = ''web'', pPort = 20000, pWorker = ''''\<rparr>],
     containers := [(4, ''c4''), (6, ''c6'')]\<rparr>, portLow := 20000, portHigh := 20009\<rparr>"

definition stopped_instance :: instanceMeta where
  "stopped_instance = \<lparr>nId = 4, nPorts = [(''web'', 20000)], nContainers = [''c4''], nLastSolved = 0, nBuild = 1, nWorker = '''', nFinalized = True\<rparr>"

lemma lifecycle_manager_inv: "store_inv (db lifecycle_manager)" "ranged_ports lifecycle_manager"
  by (simp_all add: store_inv_def ports_unique_def lifecycle_manager_def freshManager_def emptyDatabase_def)


lemma stop_run: "fst (stopInstance stopped_instance lifecycle_manager) = Inr ()"
  by code_simp

theorem stopInstance_settles_witness:
  "inst_abs (db (snd (stopInstance stopped_instance lifecycle_manager))) 4 = None \<and>
   inst_abs (db (snd (stopInstance stopped_instance lifecycle_manager))) 6 \<noteq> None"
proof -
  let ?run = "stopInstance stopped_instance lifecycle_manager"
  have "?run = (Inr (), snd ?run)" using stop_run by (metis prod.collapse)
  from stopInstance_settles [OF this]
  have "inst_abs (db (snd ?run)) = (inst_abs (db lifecycle_manager))(4 := None)" by (simp add: stopped_instance_def)
  moreover have "6 \<in> iId ` set (instances (db lifecycle_manager))" by (simp add: lifecycle_manager_def)
  ultimately show ?thesis by (simp add: inst_abs_None del: image_iff)
qed

section \<open>Pruning\<close>

text \<open>The effect of pruning: rows go only for one of the two reasons.\<close>

definition spares :: "int \<Rightarrow> database \<Rightarrow> database \<Rightarrow> bool" where
  "spares s d d' \<longleftrightarrow> builds d' = builds d \<and> sqlNow d' = sqlNow d \<and>
     (\<forall>i\<in>set (instances d). prunable d s i \<or> crashed d i \<or> i \<in> set (instances d'))"

lemma spares_chain: "spares s d1 d2 \<Longrightarrow> spares s d2 d3 \<Longrightarrow> spares s d1 d3"
proof -
  assume a: "spares s d1 d2" "spares s d2 d3"
  then have "prunable d2 s = prunable d1 s" "crashed d2 = crashed d1"
    by (auto simp: spares_def prunable_def crashed_def fun_eq_iff split: option.split)
  with a show ?thesis by (auto simp: spares_def)
qed

interpretation spared: table_effect "on_tables (spares s)"
proof
  show "on_tables (spares s) m1 m2" if "tables m2 = tables m1" for m1 m2
    using that by (auto simp: spares_def tables_def)
qed (rule spares_chain)

lemma spares_delete: "(\<And>i. P i \<Longrightarrow> prunable d s i \<or> crashed d i) \<Longrightarrow> spares s d (delete_instances P d)"
  by (auto simp: spares_def delete_instances_def Let_def)

lemma Prune_stays:
  assumes "\<And>w. reads (pass w)"
  shows "stays (on_tables (spares (ageSeconds age))) (Prune pass age)"
proof -
  have r: "spares (ageSeconds age) d d" for d by (simp add: spares_def)
  show ?thesis unfolding Prune_def
    by (intro spared.w_intros exec_stays sql_stays spared.w_reads reads_intros assms r)
       (auto intro!: spares_delete)
qed

lemma ageSeconds_covers:
  assumes "0 < age" "age < 2 ^ 63" "0 \<le> ageSeconds age"
  shows "age \<le> ageSeconds age * second"
proof -
  let ?x = "age + second - 1"
  have s: "second = 1000000000" by (simp add: duration_units)
  have "wrap64 ?x = ?x"
  proof (rule ccontr)
    assume "wrap64 ?x \<noteq> ?x"
    then have "2 ^ 63 \<le> ?x" using assms(1) wrap64_id [of ?x] s by linarith
    moreover have "?x < 2 ^ 63 + 2 ^ 63" using assms(2) s by simp
    ultimately have "(?x + 2 ^ 63 - 2 ^ 64) mod 2 ^ 64 = ?x + 2 ^ 63 - 2 ^ 64"
      by (intro mod_pos_pos_trivial) simp_all
    then have "(?x + 2 ^ 63) mod 2 ^ 64 = ?x + 2 ^ 63 - 2 ^ 64" by (simp only: minus_mod_self2)
    then have "wrap64 ?x = ?x - 2 ^ 64" by (simp add: wrap64_def)
    then have w: "wrap64 ?x < - second" using assms(2) s by simp
    then have "1 \<le> \<bar>wrap64 ?x\<bar> div second" using s by (simp add: pos_imp_zdiv_pos_iff int_one_le_iff_zero_less)
    then have "ageSeconds age < 0" using w s by (simp add: ageSeconds_def go_div_def)
    then show False using assms(3) by simp
  qed
  then have e: "ageSeconds age = ?x div second" using assms(1) s by (simp add: ageSeconds_def go_div_nonneg)
  have "?x = ?x div second * second + ?x mod second" by simp
  moreover have "?x mod second < second" using s by simp
  ultimately show ?thesis unfolding e by linarith
qed

text \<open>
  Pruning deletes an instance only for a reason it is meant to: the instance belongs to an
  on-demand build and either predates the timestamp column, or is finalized and was created longer
  ago than the configured age; or it is a launch that was never finalized and is more than five
  minutes old. A launch in flight, and an instance of a fixed-pool or locked build, is never
  pruned by its age, and with pruning disabled nothing is deleted.
\<close>

theorem Prune_spares:
  assumes "age < 2 ^ 63" "i \<in> set (instances (db m))"
    and "i \<notin> set (instances (db (snd (Prune (\<lambda>w. reconcileWorker (a w) (mv1 w) (mv2 w) (ip w)) age m))))"
  shows "0 < age \<and>
     ((\<exists>b\<in>set (builds (db m)). bId b = iBuild i \<and> bInstanceCount b = DYNAMIC_INSTANCES) \<and>
        (iCreated i = None \<or> (iFinalized i \<and> (\<exists>t. iCreated i = Some t \<and> age < (sqlNow (db m) - t) * second)))
      \<or> \<not> iFinalized i \<and> (\<exists>t. iCreated i = Some t \<and> 300 < sqlNow (db m) - t))"
proof -
  let ?p = "Prune (\<lambda>w. reconcileWorker (a w) (mv1 w) (mv2 w) (ip w)) age"
  have age: "0 < age" using assms(2,3) by (cases "0 < age") (auto simp: Prune_def)
  have "spares (ageSeconds age) (db m) (db (snd (?p m)))"
    using Prune_stays [of "\<lambda>w. reconcileWorker (a w) (mv1 w) (mv2 w) (ip w)" age] reads_reconcileWorker
    unfolding stays_def by blast
  then have "prunable (db m) (ageSeconds age) i \<or> crashed (db m) i" using assms(2,3) by (auto simp: spares_def)
  moreover have "age < (sqlNow (db m) - t) * second" if "0 \<le> ageSeconds age" "t < sqlNow (db m) - ageSeconds age" for t
  proof -
    have "age \<le> ageSeconds age * second" by (rule ageSeconds_covers [OF age assms(1) that(1)])
    also have "\<dots> < (sqlNow (db m) - t) * second" using that(2) by (intro mult_strict_right_mono) (auto simp: duration_units)
    finally show ?thesis .
  qed
  ultimately show ?thesis using age
    by (auto simp: prunable_def crashed_def list_ex_iff split: option.splits)
qed

theorem Prune_spares_witness:
  "\<exists>i\<in>set (instances (db (lifecycle_manager\<lparr>db := (db lifecycle_manager)\<lparr>sqlNow := 100\<rparr>\<rparr>))). iId i = 4 \<and> 7 * second < (100 - 0) * second \<and> iFinalized i"
proof -
  let ?m = "lifecycle_manager\<lparr>db := (db lifecycle_manager)\<lparr>sqlNow := 100\<rparr>\<rparr>"
  define a where "a = (\<lambda>w :: workerConn. \<lparr>daContainers = Inr [], daNetworks = Inr [], daRemoveContainer = (\<lambda>_. None), daRemoveNetwork = (\<lambda>_. None)\<rparr>)"
  obtain i where i: "i \<in> set (instances (db ?m))" "iId i = 4" "iCreated i = Some 0"
    by (force simp: lifecycle_manager_def)
  have "instances (db (snd (Prune (\<lambda>w. reconcileWorker (a w) [] [] (ip w)) (7 * second) ?m))) = []"
    unfolding a_def by code_simp
  then have "i \<notin> set (instances (db (snd (Prune (\<lambda>w. reconcileWorker (a w) [] [] (ip w)) (7 * second) ?m))))" by simp
  from Prune_spares [OF _ i(1) this] show ?thesis using i by (auto simp: duration_units lifecycle_manager_def)
qed

end
