(* ===== verification/Instance_Trace.thy ===== *)
theory Instance_Trace
  imports Instance_Lifecycle
begin

text \<open>
  What the lifecycle asks of the daemons, read off the log of calls: which containers a launch
  creates, which removals a teardown requests and how they were answered, and that no container
  is lost sight of between the two. The definitions are those of the other theories; this one
  only reasons about the log they leave.
\<close>

type_synonym callLog = "(dockerCall \<times> dockerReply) list"

section \<open>Reading the log\<close>

definition createdBy :: "dockerCall \<times> dockerReply \<Rightarrow> string list" where
  "createdBy cr = (case cr of (ContainerCreate _ _, r) \<Rightarrow> if rErr r = None then [rId r] else [] | _ \<Rightarrow> [])"

definition created :: "callLog \<Rightarrow> string list" where
  "created new = concat (map createdBy new)"

text \<open>A removal that was granted, or was not needed any more, or is already under way.\<close>

definition removal_granted :: "string \<Rightarrow> dockerCall \<times> dockerReply \<Rightarrow> bool" where
  "removal_granted cid cr =
     (case cr of
        (ContainerRemove _ c, r) \<Rightarrow>
          c = cid \<and> (case rErr r of None \<Rightarrow> True | Some e \<Rightarrow> errors_Is e NotFound \<or> errors_Is e Conflict)
      | _ \<Rightarrow> False)"

definition timed_out :: "dockerCall \<times> dockerReply \<Rightarrow> bool" where
  "timed_out cr = (case rErr (snd cr) of None \<Rightarrow> False | Some e \<Rightarrow> errors_Is e DeadlineExceeded)"

lemma created_simps [simp]: "created [] = []" "created (xs @ ys) = created xs @ created ys"
  by (simp_all add: created_def)

text \<open>An operation and what is true of its result and of the calls it made.\<close>

definition makes :: "'a mio \<Rightarrow> (err + 'a \<Rightarrow> callLog \<Rightarrow> bool) \<Rightarrow> bool" where
  "makes f Q \<longleftrightarrow> (\<forall>m r m'. f m = (r, m') \<longrightarrow> (\<exists>new. calls m' = calls m @ new \<and> Q r new))"

lemma makesI: "(\<And>m r m'. f m = (r, m') \<Longrightarrow> \<exists>new. calls m' = calls m @ new \<and> Q r new) \<Longrightarrow> makes f Q"
  by (simp add: makes_def)

lemma makesE:
  assumes "makes f Q" "f m = (r, m')"
  obtains new where "calls m' = calls m @ new" "Q r new"
  using assms unfolding makes_def by blast

lemma makes_mono: "makes f Q \<Longrightarrow> (\<And>r new. Q r new \<Longrightarrow> Q' r new) \<Longrightarrow> makes f Q'"
  unfolding makes_def by blast

lemma makes_bnd:
  assumes "makes f Q" "\<And>x new. Q (Inr x) new \<Longrightarrow> makes (g x) (\<lambda>r new'. R r (new @ new'))"
    "\<And>e new. Q (Inl e) new \<Longrightarrow> R (Inl e) new"
  shows "makes (bnd f g) R"
proof (rule makesI)
  fix m r m' assume b: "bnd f g m = (r, m')"
  obtain x m1 where x: "f m = (x, m1)" by fastforce
  obtain new where n: "calls m1 = calls m @ new" "Q x new" by (rule makesE [OF assms(1) x])
  show "\<exists>new. calls m' = calls m @ new \<and> R r new"
  proof (cases x)
    case (Inl e)
    then show ?thesis using b x n assms(3) by (auto simp: bnd_def)
  next
    case (Inr y)
    then have "g y m1 = (r, m')" using b x by (simp add: bnd_def)
    moreover have "makes (g y) (\<lambda>r new'. R r (new @ new'))" using assms(2) n(2) Inr by blast
    ultimately obtain new' where "calls m' = calls m1 @ new'" "R r (new @ new')" using makesE by blast
    then show ?thesis using n(1) by auto
  qed
qed

lemma makes_ret: "makes (ret x) (\<lambda>r new. r = Inr x \<and> new = [])"
  by (auto simp: makes_def)

lemma makes_tryIO: "makes f Q \<Longrightarrow> makes (tryIO f) (\<lambda>r new. \<exists>x. r = Inr x \<and> Q x new)"
  unfolding makes_def tryIO_def by (auto split: prod.splits)

lemma makes_dockerDo: "makes (dockerDo c) (\<lambda>r new. \<exists>rep. r = Inr rep \<and> new = [(c, rep)])"
  by (auto simp: makes_def dockerDo_def Let_def)

section \<open>Operations that create no container\<close>

definition quietly :: "manager \<Rightarrow> manager \<Rightarrow> bool" where
  "quietly m m' \<longleftrightarrow> (\<exists>new. calls m' = calls m @ new \<and> created new = [])"

lemma quietly_same: "calls m' = calls m \<Longrightarrow> quietly m m'"
  by (simp add: quietly_def)

lemma db_only_calls: "db_only f \<Longrightarrow> calls (snd (f m)) = calls m"
proof -
  assume "db_only f"
  from db_onlyD [OF this prod.collapse [symmetric]]
  obtain fs d where "snd (f m) = m\<lparr>faults := fs, db := d\<rparr>" by blast
  then show ?thesis by simp
qed

lemma db_only_quiet: "db_only f \<Longrightarrow> stays quietly f"
  by (simp add: stays_def quietly_same db_only_calls)

interpretation quiet: effect quietly
proof
  show "quietly m1 m3" if "quietly m1 m2" "quietly m2 m3" for m1 m2 m3
    using that by (auto simp: quietly_def)
  show "quietly m (m\<lparr>replies := rp, calls := calls m @ [(c, r)]\<rparr>)" if "\<And>client spec. c \<noteq> ContainerCreate client spec" for c m rp r
  proof -
    have "createdBy (c, r) = []" using that by (cases c) (auto simp: createdBy_def)
    then show ?thesis by (auto simp: quietly_def created_def)
  qed
qed (simp_all add: quietly_same)

lemma quiet_makes: "stays quietly f \<Longrightarrow> makes f (\<lambda>_ new. created new = [])"
  unfolding makes_def quietly_def stays_def by (metis snd_conv)

section \<open>What a launch creates\<close>

lemma createContainer_makes:
  "makes (createContainer client spec)
     (\<lambda>r new. \<exists>failure rep. r = Inr (failure, rep) \<and> created new = (if failure = None then [rId rep] else []))"
  by (rule makesI)
     (auto simp: createContainer_def bnd_def dockerDo_def Let_def pullImage_def created_def createdBy_def
       split: option.splits if_splits)

text \<open>The instance comes back with the containers that were created for it appended.\<close>

abbreviation grown :: "instanceMeta \<Rightarrow> callLog \<Rightarrow> instanceMeta \<Rightarrow> bool" where
  "grown inst new inst' \<equiv> nContainers inst' = nContainers inst @ created new \<and> nId inst' = nId inst \<and> nWorker inst' = nWorker inst"

definition grows :: "('a \<Rightarrow> instanceMeta) \<Rightarrow> instanceMeta \<Rightarrow> 'a mio \<Rightarrow> bool" where
  "grows p inst f \<longleftrightarrow> makes f (\<lambda>r new. \<exists>x. r = Inr x \<and> grown inst new (p x))"

lemma grows_ret: "nContainers (p x) = nContainers inst \<Longrightarrow> nId (p x) = nId inst \<Longrightarrow> nWorker (p x) = nWorker inst \<Longrightarrow>
    grows p inst (ret x)"
  unfolding grows_def by (rule makes_mono [OF makes_ret]) auto

lemma grows_quiet:
  assumes "stays quietly f" "answers f"
  shows "grows (\<lambda>_. inst) inst f"
  using quiet_makes [OF assms(1)] assms(2) unfolding grows_def makes_def answers_def by (metis append_Nil2 prod.inject)

lemma grows_bnd:
  fixes f :: "'x mio"
  assumes "grows p inst f" "\<And>x. grows q (p x) (g x)"
  shows "grows q inst (bnd f g)"
  unfolding grows_def
proof (rule makes_bnd [OF assms(1) [unfolded grows_def]])
  fix x :: 'x and new assume "\<exists>y. (Inr x :: err + 'x) = Inr y \<and> grown inst new (p y)"
  then show "makes (g x) (\<lambda>r new'. \<exists>y. r = Inr y \<and> grown inst (new @ new') (q y))"
    using assms(2) [of x] unfolding grows_def by (auto elim!: makes_mono)
qed simp

text \<open>Quiet steps before an operation do not change what it is.\<close>

lemmas grows_after = grows_bnd [OF grows_quiet]

lemma grows_case:
  "grows p inst f \<Longrightarrow> grows p inst g \<Longrightarrow> grows p inst (if b then f else g)"
  "grows p inst f \<Longrightarrow> (\<And>x. grows p inst (h x)) \<Longrightarrow> grows p inst (case z of None \<Rightarrow> f | Some x \<Rightarrow> h x)"
  "(\<And>x. grows p inst (k x)) \<Longrightarrow> (\<And>y. grows p inst (l y)) \<Longrightarrow> grows p inst (case s of Inl x \<Rightarrow> k x | Inr y \<Rightarrow> l y)"
  "(\<And>x y. grows p inst (n x y)) \<Longrightarrow> grows p inst (case w of (x, y) \<Rightarrow> n x y)"
  by (cases b; cases z; cases s; cases w; simp)+

lemma portsLoop_same:
  "portsLoop rpm ports inst = (failure, ok, inst') \<Longrightarrow> nContainers inst' = nContainers inst \<and> nId inst' = nId inst \<and> nWorker inst' = nWorker inst"
  by (induction rpm ports inst rule: portsLoop.induct) (auto split: list.splits option.splits)

lemma grows_trans: "grows p inst1 f \<Longrightarrow> nContainers inst1 = nContainers inst \<Longrightarrow> nId inst1 = nId inst \<Longrightarrow> nWorker inst1 = nWorker inst \<Longrightarrow> grows p inst f"
  by (simp add: grows_def)

lemma readBack_grows: "grows snd inst (readBack client cid rpm backoff inst)"
proof (induction "nat (second - backoff)" arbitrary: backoff inst rule: less_induct)
  case less
  show ?case
  proof (cases "backoff \<le> 0 \<or> second \<le> backoff")
    case True
    show ?thesis unfolding readBack.simps [of client cid rpm backoff inst] if_P [OF True] by (rule grows_ret) simp_all
  next
    case False
    then have "nat (second - 2 * backoff) < nat (second - backoff)" by auto
    then have ih: "grows snd i (readBack client cid rpm (2 * backoff) i)" for i by (rule less.hyps)
    show ?thesis
      unfolding readBack.simps [of client cid rpm backoff inst] if_not_P [OF False]
    proof (intro grows_after quiet.w_calls answers_intros)
      fix r
      show "grows snd inst (case rErr r of
           Some e \<Rightarrow> bnd (noteFailure (nWorker inst) client r e) (\<lambda>_. ret (Some e, inst))
         | None \<Rightarrow>
             (case rPorts r of
                None \<Rightarrow> readBack client cid rpm (2 * backoff) inst
              | Some ports \<Rightarrow>
                  (case portsLoop rpm ports inst of
                     (Some e, _, inst') \<Rightarrow> ret (Some e, inst')
                   | (None, True, inst') \<Rightarrow> ret (None, inst')
                   | (None, False, inst') \<Rightarrow> readBack client cid rpm (2 * backoff) inst')))"
        by (auto intro!: grows_after quiet.w_noteFailure answers_intros grows_ret ih dest!: portsLoop_same
            intro: grows_trans [OF ih] split: option.split bool.split prod.split)
    qed
  qed
qed

lemma db_only_if [keeps_intros]: "db_only f \<Longrightarrow> db_only g \<Longrightarrow> db_only (if b then f else g)"
  by simp

lemma quiet_finalize: "stays quietly (finalizeInstance meta)"
  unfolding finalizeInstance_def by (intro quiet.w_intros db_only_quiet keeps_intros)

lemma startContainer_grows: "grows snd inst (startContainer env client build rpm img inst)"
proof -
  define rest :: "string list \<Rightarrow> int \<Rightarrow> err option \<times> dockerReply \<Rightarrow> (err option \<times> instanceMeta) mio" where
    "rest = (\<lambda>ports low (failure, r). case failure of
             Some e \<Rightarrow> bnd (noteFailure (nWorker inst) client r e) (\<lambda>_. ret (Some e, inst))
           | None \<Rightarrow>
                bnd (dockerDo (ContainerStart client (rId r))) (\<lambda>rs.
                (case rErr rs of
                   Some e \<Rightarrow> bnd (noteFailure (nWorker inst) client rs e) (\<lambda>_. ret (Some e, inst\<lparr>nContainers := nContainers inst @ [rId r]\<rparr>))
                 | None \<Rightarrow>
                     if portsAlreadyKnown low ports (nPorts (inst\<lparr>nContainers := nContainers inst @ [rId r]\<rparr>)) rpm
                     then ret (None, inst\<lparr>nContainers := nContainers inst @ [rId r]\<rparr>)
                     else readBack client (rId r) rpm millisecond (inst\<lparr>nContainers := nContainers inst @ [rId r]\<rparr>))))"
  have r: "grows snd (if failure = None then inst\<lparr>nContainers := nContainers inst @ [rId r]\<rparr> else inst) (rest ports low (failure, r))"
    for ports low failure r
    unfolding rest_def
    by (cases failure) (auto intro!: grows_after grows_ret grows_case readBack_grows quiet.w_calls quiet.w_noteFailure answers_intros split: option.split)
  have c: "grows (\<lambda>(failure, r). if failure = None then inst\<lparr>nContainers := nContainers inst @ [rId r]\<rparr> else inst) inst (createContainer client spec)"
    for spec unfolding grows_def by (rule makes_mono [OF createContainer_makes]) (auto split: if_splits)
  have b: "grows snd inst (bnd (createContainer client spec) (rest ports low))" for spec ports low
    by (rule grows_bnd [OF c]) (use r in auto)
  have "startContainer env client build rpm img inst =
      bnd (gets (\<lambda>m. (configFor env m build rpm img inst, portLow m))) (\<lambda>(config, low).
      (case config of
         Inl _ \<Rightarrow> ret (Some [Msg ''invalid container configuration''], inst)
       | Inr spec \<Rightarrow> bnd (createContainer client spec) (rest (imgPorts img) low)))"
    unfolding startContainer_def rest_def Let_def ..
  then show ?thesis
    by (auto intro!: grows_after quiet.w_basic answers_intros grows_ret b split: sum.split)
qed

lemma startLoop_grows: "grows snd inst (startLoop env client build rpm imgs inst)"
proof (induction imgs arbitrary: inst)
  case Nil
  show ?case unfolding startLoop.simps by (rule grows_ret) simp_all
next
  case (Cons img imgs)
  show ?case unfolding startLoop.simps
    by (auto intro!: grows_case Cons.IH grows_bnd [OF startContainer_grows] grows_ret split: option.split)
qed

lemma startContainers_grows: "grows snd inst (startContainers env build rpm inst)"
  unfolding startContainers_def
  by (auto intro!: grows_after quiet.w_tryIO quiet.w_clientFor quiet_finalize answers_intros grows_case
      grows_bnd [OF startLoop_grows] grows_ret split: option.split sum.split)

lemma withLaunchSlot_grows:
  assumes "grows p inst act"
  shows "grows (\<lambda>r. case r of Inl _ \<Rightarrow> inst | Inr x \<Rightarrow> p x) inst (withLaunchSlot inst wait act)"
proof -
  have "grows (\<lambda>r. case r of Inl _ \<Rightarrow> inst | Inr x \<Rightarrow> p x) (p x)
      (bnd (modify h) (\<lambda>_. ret (Inr x :: err + _)))" if "stays quietly (modify h :: unit mio)" for x h
    by (intro grows_after that answers_intros grows_ret) simp_all
  then show ?thesis
    unfolding withLaunchSlot_def
    by (intro grows_after quiet.w_basic quiet.w_queueUpdate quiet.w_tryIO quiet.w_acquireSlot answers_intros grows_case
        grows_bnd [OF assms] grows_ret) (simp_all add: quiet.w_queueUpdate)
qed

lemma launch_grows: "grows (snd \<circ> snd) inst (launch env build rpm limits inst)"
proof -
  have st: "grows (\<lambda>r. case r of Inl _ \<Rightarrow> inst | Inr x \<Rightarrow> snd x) inst (withLaunchSlot inst wait
      (bnd (tryIO (startNetwork inst)) (\<lambda>net. case net of Inl e \<Rightarrow> ret (Some e, inst)
        | Inr _ \<Rightarrow> startContainers env build rpm inst)))" for wait
    by (intro withLaunchSlot_grows grows_after quiet.w_tryIO quiet.w_startNetwork answers_intros grows_case
        startContainers_grows grows_ret) simp_all
  define slot where "slot = bnd (withLaunchSlot inst (llSlotWait limits)
      (bnd (tryIO (startNetwork inst)) (\<lambda>net. case net of Inl e \<Rightarrow> ret (Some e, inst)
        | Inr _ \<Rightarrow> startContainers env build rpm inst)))
      (\<lambda>r. case r of Inl e \<Rightarrow> ret (False, Some e, inst) | Inr (failure, inst') \<Rightarrow> ret (True, failure, inst'))"
  have slot: "grows (snd \<circ> snd) inst slot"
    unfolding slot_def by (rule grows_bnd [OF st]) (auto intro!: grows_ret split: sum.split)
  have "grows (snd \<circ> snd) inst (launchStages env build rpm limits inst)"
    unfolding launchStages_def slot_def [symmetric]
    by (intro grows_after quiet.w_tryIO quiet.w_clientFor quiet.w_basic quiet.w_ensureImages answers_intros grows_case
        grows_ret slot) simp_all
  then show ?thesis
    unfolding launch_def by (rule grows_bnd) (auto intro!: grows_after quiet.w_basic answers_intros grows_ret)
qed

section \<open>What a teardown removes\<close>

text \<open>Operations that make no call at all.\<close>

definition silent :: "'a mio \<Rightarrow> bool" where
  "silent f \<longleftrightarrow> stays (\<lambda>m m'. calls m' = calls m) f"

lemma makes_silent: "silent f \<Longrightarrow> makes f (\<lambda>r new. new = [] \<and> (\<exists>m. fst (f m) = r))"
  unfolding makes_def silent_def stays_def by (metis append_Nil2 fst_conv snd_conv)

lemma makes_after:
  fixes f :: "'x mio"
  assumes "silent f" "answers f" "\<And>x. makes (g x) Q"
  shows "makes (bnd f g) Q"
proof (rule makes_bnd [where Q = "\<lambda>r new. new = [] \<and> \<not> isl r"])
  show "makes f (\<lambda>r new. new = [] \<and> \<not> isl r)"
    using assms(1,2) unfolding makes_def answers_def silent_def stays_def
    by (metis append_Nil2 prod.inject snd_conv sum.disc(2))
  show "makes (g x) (\<lambda>r new'. Q r (new @ new'))" if "new = [] \<and> \<not> isl (Inr x :: err + 'x)" for x new
    using assms(3) that by simp
qed simp

lemma silent_basic: "silent (gets g)" "silent (ret x)" "silent (fail e)"
  by (simp_all add: silent_def stays_def)

lemma silent_bnd: "silent f \<Longrightarrow> (\<And>x. silent (g x)) \<Longrightarrow> silent (bnd f g)"
  unfolding silent_def stays_def bnd_def by (auto split: prod.split sum.split) (metis snd_conv)+

lemma silent_tryIO: "silent f \<Longrightarrow> silent (tryIO f)"
  by (auto simp: silent_def stays_def tryIO_def split: prod.split) (metis snd_conv)

lemma silent_if: "silent f \<Longrightarrow> silent g \<Longrightarrow> silent (if b then f else g)"
  by simp

lemma silent_db_only: "db_only f \<Longrightarrow> silent f"
  by (simp add: silent_def stays_def db_only_calls)

lemma silent_steps: "silent (noteFailure worker client r e)" "silent (modify (queueUpdate q h))"
  "silent nextSlotChoice" "silent (modify (ejectedSince tm worker))" "silent (clientFor inst)"
  by (auto simp: silent_def stays_def noteFailure_def noteWorkerTransportError_def queueUpdate_def nextSlotChoice_def
      ejectedSince_def clientFor_def bnd_def Let_def split: option.split sum.split)

lemma silent_acquireSlot: "silent (acquireSlot inst wait)"
  unfolding acquireSlot_def
  by (intro silent_bnd silent_basic silent_if silent_steps; (split slotChoice.split, intro conjI allI impI silent_bnd silent_basic silent_if silent_steps)?)

lemma silent_removeContainers: "silent (removeContainersMetadata inst)"
proof -
  have "silent (txn (forgetRows inst))" by (intro silent_db_only keeps_intros)
  then show ?thesis by (simp add: silent_def stays_removeContainers)
qed

text \<open>Errors of which only a daemon can be the source.\<close>

abbreviation deadline :: "err \<Rightarrow> bool" where
  "deadline e \<equiv> errors_Is e DeadlineExceeded"

lemma acquireSlot_error: "acquireSlot inst wait m = (Inl e, m') \<Longrightarrow> \<not> deadline e"
  by (auto simp: acquireSlot_def bnd_def nextSlotChoice_def errors_Is_def split: if_splits slotChoice.splits prod.splits sum.splits)

lemma clientFor_error: "clientFor inst m = (Inl e, m') \<Longrightarrow> \<not> deadline e"
  by (auto simp: clientFor_def bnd_def instanceClient_def errors_Is_def split: if_splits option.splits sum.splits)

lemma sql_error: "sql f m = (Inl e, m') \<Longrightarrow> \<exists>x. e = [SqlErr x]"
  by (auto simp: sql_def split: list.splits option.splits prod.splits)

lemma removeContainers_error:
  assumes "removeContainersMetadata inst m = (Inr (Some e, inst'), m')"
  shows "\<not> deadline (retryableDB e)"
proof -
  have "txn (forgetRows inst) m = (Inl e, m')"
    using assms by (auto simp: removeContainersMetadata_def split: prod.splits sum.splits)
  then have "\<exists>x. e = [SqlErr x]"
    by (auto simp: txn_def bnd_def exec_def split: prod.splits sum.splits dest!: sql_error)
  then show ?thesis by (auto simp: retryableDB_def errors_Is_def)
qed

text \<open>What the removal loop says of its calls: no error, no container unanswered for; and where a deadline comes from.\<close>

definition removed_all :: "string list \<Rightarrow> err list \<Rightarrow> err + bool \<times> err list \<Rightarrow> callLog \<Rightarrow> bool" where
  "removed_all cids errs r new \<longleftrightarrow> (\<exists>fl errs'. r = Inr (fl, errs') \<and>
     (errs' = [] \<longrightarrow> errs = [] \<and> (\<forall>cid\<in>set cids. list_ex (removal_granted cid) new)) \<and>
     (\<forall>e\<in>set errs'. deadline e \<longrightarrow> e \<in> set errs \<or> list_ex timed_out new))"

lemma stopLoop_makes: "makes (stopLoop client worker cids inFlight errs) (removed_all cids errs)"
proof (induction cids arbitrary: inFlight errs)
  case Nil
  show ?case unfolding stopLoop.simps by (rule makes_mono [OF makes_ret]) (auto simp: removed_all_def)
next
  case (Cons cid cids)
  let ?c = "ContainerRemove client cid"
  have granted: "removed_all (cid # cids) errs r ((?c, rep) # new)"
    if "removed_all cids errs r new" "case rErr rep of None \<Rightarrow> True | Some e \<Rightarrow> errors_Is e NotFound \<or> errors_Is e Conflict" for rep r new
    using that by (auto simp: removed_all_def removal_granted_def)
  have failed: "removed_all (cid # cids) errs r ((?c, rep) # new)"
    if "removed_all cids (errs @ [e]) r new" "rErr rep = Some e" for rep r new e
    using that by (auto simp: removed_all_def timed_out_def)
  have step: "makes (bnd (noteFailure worker client rep e) (\<lambda>_. bnd (gets (\<lambda>m. workerUnreachable m worker)) (\<lambda>unreach.
            if isTransportError e \<and> unreach then ret (inFlight, errs @ [e])
            else stopLoop client worker cids inFlight (errs @ [e]))))
       (\<lambda>r new. removed_all (cid # cids) errs r ((?c, rep) # new))" if e: "rErr rep = Some e" for rep e
  proof -
    have stop: "makes (ret (inFlight, errs @ [e])) (\<lambda>r new. removed_all (cid # cids) errs r ((?c, rep) # new))"
      using e by (intro makes_mono [OF makes_ret]) (auto simp: removed_all_def timed_out_def)
    have go: "makes (stopLoop client worker cids inFlight (errs @ [e])) (\<lambda>r new. removed_all (cid # cids) errs r ((?c, rep) # new))"
      by (rule makes_mono [OF Cons.IH]) (rule failed [OF _ e])
    show ?thesis using stop go
      by (auto intro!: makes_after silent_steps silent_basic answers_intros)
  qed
  show ?case unfolding stopLoop.simps
  proof (rule makes_bnd [OF makes_dockerDo])
    fix rep new assume "\<exists>rep'. (Inr rep :: err + dockerReply) = Inr rep' \<and> new = [(?c, rep')]"
    then have new: "new = [(?c, rep)]" by simp
    show "makes (case rErr rep of
        None \<Rightarrow> stopLoop client worker cids inFlight errs
      | Some rmErr \<Rightarrow>
          if errors_Is rmErr NotFound then stopLoop client worker cids inFlight errs
          else if errors_Is rmErr Conflict then stopLoop client worker cids True errs
          else
            bnd (noteFailure worker client rep rmErr) (\<lambda>_.
            bnd (gets (\<lambda>m. workerUnreachable m worker)) (\<lambda>unreach.
            if isTransportError rmErr \<and> unreach then ret (inFlight, errs @ [rmErr])
            else stopLoop client worker cids inFlight (errs @ [rmErr]))))
       (\<lambda>r new'. removed_all (cid # cids) errs r (new @ new'))"
      unfolding new append.simps
      by (auto intro!: step makes_mono [OF Cons.IH] granted split: option.split)
  qed simp
qed

lemma makes_fst: "makes f Q \<Longrightarrow> (\<And>m. P (fst (f m))) \<Longrightarrow> makes f (\<lambda>r new. Q r new \<and> P r)"
  unfolding makes_def by (metis fst_conv)

text \<open>What a teardown, or a part of one, says of its calls: \<open>oc\<close> reads its error off the result.\<close>

definition torn_down :: "instanceMeta \<Rightarrow> ('a \<Rightarrow> err option) \<Rightarrow> err + 'a \<Rightarrow> callLog \<Rightarrow> bool" where
  "torn_down inst oc r new \<longleftrightarrow> (\<exists>x. r = Inr x \<and>
     (oc x = None \<longrightarrow> (\<forall>cid\<in>set (nContainers inst). list_ex (removal_granted cid) new)) \<and>
     (\<forall>e. oc x = Some e \<and> deadline e \<longrightarrow> list_ex timed_out new))"

lemma torn_down_error: "\<not> deadline e \<Longrightarrow> oc x = Some e \<Longrightarrow> torn_down inst oc (Inr x) new"
  by (auto simp: torn_down_def)

lemma torn_down_Inl [simp]: "\<not> torn_down inst oc (Inl e) new"
  by (simp add: torn_down_def)

lemma torn_down_app: "torn_down inst oc r new \<Longrightarrow> torn_down inst oc r (new @ later)"
  by (auto simp: torn_down_def)

lemma joined_deadline: "errors_Join es = Some e \<Longrightarrow> deadline e \<Longrightarrow> \<exists>e'\<in>set es. deadline e'"
  by (auto simp: errors_Join_def errors_Is_def split: if_splits)

lemma makes_clientFor:
  "makes (tryIO (clientFor inst)) (\<lambda>r new. new = [] \<and> (\<forall>e. r = Inr (Inl e) \<longrightarrow> \<not> deadline e) \<and> \<not> isl r)"
  using silent_steps(5) [of inst] clientFor_error [of inst]
  by (auto simp: makes_def tryIO_def silent_def stays_def split: prod.splits) (metis snd_conv)

lemma stopContainers_makes: "makes (stopContainers inst) (torn_down inst (fst \<circ> snd))"
proof -
  define md where "md = (\<lambda>(fl :: bool, errs). bnd (removeContainersMetadata inst) (\<lambda>(mdErr, inst').
      ret (fl, errors_Join (errs @ (case mdErr of None \<Rightarrow> [] | Some e \<Rightarrow> [retryableDB e])), inst')))"
  have md: "makes (md (fl, errs)) (\<lambda>r new. new = [] \<and> (\<exists>cErr inst'. r = Inr (fl, cErr, inst') \<and> (cErr = None \<longrightarrow> errs = []) \<and>
      (\<forall>e. cErr = Some e \<and> deadline e \<longrightarrow> (\<exists>e'\<in>set errs. deadline e'))))" for fl errs
  proof (rule makesI)
    fix m r m' assume r: "md (fl, errs) m = (r, m')"
    obtain mdErr inst' m1 where d: "removeContainersMetadata inst m = (Inr (mdErr, inst'), m1)"
      using answers_removeContainers unfolding answers_def by (metis surj_pair)
    have "calls m1 = calls m" by (rule staysD [OF silent_removeContainers [unfolded silent_def] d])
    moreover have "\<not> deadline (retryableDB e)" if "mdErr = Some e" for e using removeContainers_error d that by blast
    ultimately show "\<exists>new. calls m' = calls m @ new \<and> new = [] \<and> (\<exists>cErr inst'. r = Inr (fl, cErr, inst') \<and> (cErr = None \<longrightarrow> errs = []) \<and>
      (\<forall>e. cErr = Some e \<and> deadline e \<longrightarrow> (\<exists>e'\<in>set errs. deadline e')))"
      using r d by (auto simp: md_def bnd_def errors_Join_def errors_Is_def split: option.splits if_splits)
  qed
  have loop: "makes (bnd (stopLoop client (nWorker inst) (nContainers inst) False []) md) (torn_down inst (fst \<circ> snd))" for client
    by (rule makes_bnd [OF stopLoop_makes]) (auto simp: removed_all_def torn_down_def intro!: makes_mono [OF md])
  have eq: "stopContainers inst = bnd (tryIO (clientFor inst)) (\<lambda>c. case c of Inl e \<Rightarrow> ret (False, Some e, inst)
      | Inr client \<Rightarrow> bnd (stopLoop client (nWorker inst) (nContainers inst) False []) md)"
    unfolding stopContainers_def md_def ..
  show ?thesis unfolding eq
  proof (rule makes_bnd [OF makes_clientFor])
    fix c and new :: callLog assume "new = [] \<and> (\<forall>e. (Inr c :: err + _) = Inr (Inl e) \<longrightarrow> \<not> deadline e) \<and> \<not> isl (Inr c :: err + (err + dockerClient))"
    then show "makes (case c of Inl e \<Rightarrow> ret (False, Some e, inst) | Inr client \<Rightarrow> bnd (stopLoop client (nWorker inst) (nContainers inst) False []) md)
        (\<lambda>r new'. torn_down inst (fst \<circ> snd) r (new @ new'))"
      using loop by (cases c) (auto intro!: makes_mono [OF makes_ret] torn_down_error)
  qed simp
qed

lemma stopNetwork_makes: "makes (stopNetwork inst) (\<lambda>r new. \<forall>e. r = Inl e \<and> deadline e \<longrightarrow> list_ex timed_out new)"
proof (rule makesI)
  fix m r m' assume r: "stopNetwork inst m = (r, m')"
  obtain c m1 where c: "clientFor inst m = (c, m1)" by fastforce
  have m1: "m1 = m" using c by (auto simp: clientFor_def bnd_def split: sum.splits)
  show "\<exists>new. calls m' = calls m @ new \<and> (\<forall>e. r = Inl e \<and> deadline e \<longrightarrow> list_ex timed_out new)"
  proof (cases c)
    case (Inl e)
    then show ?thesis using r c m1 clientFor_error [of inst m e] by (auto simp: stopNetwork_def bnd_def)
  next
    case (Inr client)
    obtain rep m2 where d: "dockerDo (NetworkRemove client (getNetworkName (nId inst))) m = (Inr rep, m2)"
      "calls m2 = calls m @ [(NetworkRemove client (getNetworkName (nId inst)), rep)]"
      by (auto simp: dockerDo_def Let_def)
    have "calls (noteWorkerTransportError p t w cl e m2) = calls m2" for p t w cl e
      by (auto simp: noteWorkerTransportError_def Let_def split: option.split)
    then show ?thesis using r c m1 Inr d
      by (auto simp: stopNetwork_def bnd_def noteFailure_def timed_out_def split: option.splits if_splits)
  qed
qed

lemma withTeardownSlot_makes:
  assumes "makes act Q"
  shows "makes (withTeardownSlot inst wait act)
    (\<lambda>r new. (\<exists>e. r = Inr (Inl e) \<and> new = [] \<and> \<not> deadline e) \<or> (\<exists>x. r = Inr (Inr x) \<and> Q (Inr x) new) \<or> (\<exists>e. r = Inl e \<and> Q (Inl e) new))"
proof -
  let ?Q = "\<lambda>r new. (\<exists>e. r = Inr (Inl e) \<and> new = [] \<and> \<not> deadline e) \<or> (\<exists>x. r = Inr (Inr x) \<and> Q (Inr x) new) \<or> (\<exists>e. r = Inl e \<and> Q (Inl e) new)"
  have got: "makes (tryIO (acquireSlot inst wait)) (\<lambda>r new. new = [] \<and> (\<forall>e. r = Inr (Inl e) \<longrightarrow> \<not> deadline e) \<and> \<not> isl r)"
    using silent_acquireSlot [of inst wait] acquireSlot_error [of inst wait]
    by (auto simp: makes_def tryIO_def silent_def stays_def split: prod.splits) (metis snd_conv)
  have fin: "makes (bnd (modify (queueUpdate q h)) (\<lambda>_. ret (Inr x))) (\<lambda>r new. r = Inr (Inr x) \<and> new = [])" for q h x
    by (intro makes_after silent_steps answers_intros makes_mono [OF makes_ret]) simp
  have run: "makes (bnd (modify (queueUpdate q h)) (\<lambda>_. bnd act (\<lambda>x. bnd (modify (queueUpdate q h')) (\<lambda>_. ret (Inr x))))) ?Q" for q h h'
    by (rule makes_after [OF silent_steps(2) answers_basic(3)], rule makes_bnd [OF assms]) (auto intro!: makes_mono [OF fin])
  show ?thesis unfolding withTeardownSlot_def
  proof (rule makes_after [OF silent_basic(1) answers_basic(2)], rule makes_after [OF silent_steps(2) answers_basic(3)],
      rule makes_bnd [OF got])
    fix q and g :: "err + duration" and new :: callLog
    assume g: "new = [] \<and> (\<forall>e. (Inr g :: err + _) = Inr (Inl e) \<longrightarrow> \<not> deadline e) \<and> \<not> isl (Inr g :: err + (err + duration))"
    show "makes (bnd (modify (queueUpdate q (\<lambda>d. d\<lparr>teardownWaiting := teardownWaiting d - 1\<rparr>))) (\<lambda>_.
        (case g of
           Inl e \<Rightarrow> ret (Inl e)
         | Inr _ \<Rightarrow>
             bnd (modify (queueUpdate q (\<lambda>d. d\<lparr>teardownHeld := teardownHeld d + 1\<rparr>))) (\<lambda>_.
             bnd act (\<lambda>x.
             bnd (modify (queueUpdate q (\<lambda>d. d\<lparr>teardownHeld := teardownHeld d - 1\<rparr>))) (\<lambda>_.
             ret (Inr x))))))) (\<lambda>r new'. ?Q r (new @ new'))"
      using g by (cases g)
        (auto intro!: makes_after [OF silent_steps(2) answers_basic(3)] run makes_mono [OF makes_ret] simp del: bnd_ret)
  qed simp
qed

lemma teardown_makes: "makes (teardown inst wait) (torn_down inst fst)"
proof -
  define net where "net = (\<lambda>(inFlight, cErr, inst'). bnd (gets (\<lambda>m. workerUnreachable m (nWorker inst))) (\<lambda>unreach.
       if (case cErr of None \<Rightarrow> False | Some e \<Rightarrow> isTransportError e) \<and> unreach then ret (cErr, inst')
       else
         bnd (tryIO (stopNetwork inst')) (\<lambda>net.
         let nErr = (case net of
                       Inr _ \<Rightarrow> None
                     | Inl e \<Rightarrow> if inFlight \<and> errors_Is e Conflict then None else Some e)
         in ret (errors_Join ((case cErr of None \<Rightarrow> [] | Some e \<Rightarrow> [e]) @ (case nErr of None \<Rightarrow> [] | Some e \<Rightarrow> [e])), inst'))))"
  have net: "makes (net (fl, cErr, inst')) (\<lambda>r new. torn_down inst fst r (before @ new))"
    if b: "torn_down inst (fst \<circ> snd) (Inr (fl, cErr, inst')) before" for fl cErr inst' before
  proof -
    have same: "torn_down inst fst (Inr (cErr, inst')) (before @ new)" for new
      using b by (intro torn_down_app) (simp add: torn_down_def)
    have both: "torn_down inst fst (Inr (errors_Join ((case cErr of None \<Rightarrow> [] | Some e \<Rightarrow> [e]) @ (case nErr of None \<Rightarrow> [] | Some e \<Rightarrow> [e])), inst')) (before @ new)"
      if "\<forall>e. nErr = Some e \<and> deadline e \<longrightarrow> list_ex timed_out new" for nErr new
      using b that by (auto simp: torn_down_def errors_Join_def errors_Is_def split: option.splits)
    have "makes (bnd (tryIO (stopNetwork inst')) (\<lambda>net.
         let nErr = (case net of Inr _ \<Rightarrow> None | Inl e \<Rightarrow> if fl \<and> errors_Is e Conflict then None else Some e)
         in ret (errors_Join ((case cErr of None \<Rightarrow> [] | Some e \<Rightarrow> [e]) @ (case nErr of None \<Rightarrow> [] | Some e \<Rightarrow> [e])), inst')))
       (\<lambda>r new. torn_down inst fst r (before @ new))"
      unfolding Let_def
      by (rule makes_bnd [OF makes_tryIO [OF stopNetwork_makes]])
         (auto intro!: makes_mono [OF makes_ret] both [of None, simplified] both [of "Some e" for e, simplified] split: sum.splits)
    then show ?thesis unfolding net_def
      by (auto intro!: makes_after [OF silent_basic(1) answers_basic(2)] makes_mono [OF makes_ret] same)
  qed
  have eq: "teardown inst wait = bnd (withTeardownSlot inst wait (bnd (stopContainers inst) net)) (\<lambda>r.
      case r of Inl e \<Rightarrow> ret (Some e, inst) | Inr x \<Rightarrow> ret x)"
    unfolding teardown_def net_def ..
  have "makes (bnd (stopContainers inst) net) (torn_down inst fst)"
    by (rule makes_bnd [OF stopContainers_makes]) (auto intro!: net)
  then show ?thesis unfolding eq
    by (rule makes_bnd [OF withTeardownSlot_makes])
       (auto intro!: makes_mono [OF makes_ret] intro: torn_down_error split: sum.split)
qed

section \<open>From creation to removal\<close>

text \<open>A launch that never got its slot leaves the instance as it was.\<close>

lemma launch_not_started: "launch env build rpm limits inst m = (Inr (False, failure, inst'), m') \<Longrightarrow> inst' = inst"
  by (auto simp: launch_def launchStages_def elim!: bnd_InrE split: sum.splits if_splits prod.splits)

text \<open>A launch that succeeded has recorded its containers.\<close>

lemma recordContainer_records:
  "recordContainer meta cid d = Inr (u, d') \<Longrightarrow> set (containers d') = insert (nId meta, cid) (set (containers d))"
  by (auto simp: recordContainer_def split: if_splits)

lemma recordAll_records:
  "for_each cids (\<lambda>cid. sqlChecked (recordContainer meta cid)) m = (Inr u, m') \<Longrightarrow>
   set (containers (db m')) = set (containers (db m)) \<union> Pair (nId meta) ` set cids"
proof (induction cids arbitrary: m)
  case (Cons cid cids)
  from Cons.prems obtain v m1 where 1: "sqlChecked (recordContainer meta cid) m = (Inr v, m1)"
    and 2: "for_each cids (\<lambda>cid. sqlChecked (recordContainer meta cid)) m1 = (Inr u, m')" by (auto elim: bnd_InrE)
  have "set (containers (db m1)) = insert (nId meta, cid) (set (containers (db m)))"
    using sqlChecked_Inr [OF 1] recordContainer_records by auto
  then show ?case using Cons.IH [OF 2] by auto
qed simp

lemma finalize_records:
  assumes "finalizeInstance meta m = (Inr u, m')"
  shows "\<forall>cid\<in>set (nContainers meta). (nId meta, cid) \<in> set (containers (db m'))"
proof -
  obtain m1 m2 m3 where 1: "for_each (nContainers meta) (\<lambda>cid. sqlChecked (recordContainer meta cid)) m1 = (Inr (), m2)"
    and 2: "exec (\<lambda>d. d\<lparr>instances := map (\<lambda>r. if iId r = nId meta then r\<lparr>iFinalized := True\<rparr> else r) (instances d)\<rparr>) m2 = (Inr (), m3)"
    and 3: "db m' = db m3"
    using assms by (auto simp: finalizeInstance_def elim!: bnd_InrE dest!: txn_Inr)
  have "containers (db m') = containers (db m2)" using exec_Inr [OF 2] 3 by simp
  then show ?thesis using recordAll_records [OF 1] by auto
qed

lemma startContainers_records:
  assumes "startContainers env build rpm inst m = (Inr (None, inst'), m')"
  shows "\<forall>cid\<in>set (nContainers inst'). (nId inst', cid) \<in> set (containers (db m'))"
  using assms
  by (auto simp: startContainers_def tryIO_def elim!: bnd_InrE dest!: finalize_records split: sum.splits option.splits prod.splits)

lemma withLaunchSlot_db:
  assumes "withLaunchSlot inst wait act m = (Inr (Inr x), m')"
  shows "\<exists>m1 m2. act m1 = (Inr x, m2) \<and> db m' = db m2"
  using assms
  by (auto simp: withLaunchSlot_def elim!: bnd_InrE split: sum.splits) (auto simp: queueUpdate_def split: option.splits)

lemma launch_started:
  assumes "launch env build rpm limits inst m = (Inr (started, None, inst'), m')"
  obtains m2 m3 where "startContainers env build rpm inst m2 = (Inr (None, inst'), m3)" "db m' = db m3"
proof -
  obtain s where "launchStages env build rpm limits inst m = (Inr (s, None, inst'), m')"
    using assms by (auto simp: launch_def launchFailure_def elim!: bnd_InrE split: option.splits if_splits)
  then obtain m1 where "withLaunchSlot inst (llSlotWait limits) (
                   bnd (tryIO (startNetwork inst)) (\<lambda>net.
                   (case net of
                      Inl e \<Rightarrow> ret (Some e, inst)
                    | Inr _ \<Rightarrow> startContainers env build rpm inst))) m1 = (Inr (Inr (None, inst')), m')"
    by (auto simp: launchStages_def elim!: bnd_InrE split: sum.splits if_splits)
  from withLaunchSlot_db [OF this] show ?thesis by (auto intro: that elim!: bnd_InrE split: sum.splits)
qed

lemma launch_records:
  assumes "launch env build rpm limits inst m = (Inr (started, None, inst'), m')"
  shows "\<forall>cid\<in>set (nContainers inst'). (nId inst', cid) \<in> set (containers (db m'))"
  by (rule launch_started [OF assms]) (use startContainers_records in simp)

text \<open>Reserving ports makes no call and leaves the containers of the instance alone.\<close>

lemma silent_reserveLoop: "silent (reserveLoop (\<lambda>_ d. d) iid worker name k bs)"
proof (induction k arbitrary: bs)
  case 0
  show ?case unfolding reserveLoop.simps by (rule silent_basic)
next
  case (Suc k)
  have "silent (drawPort n)" "silent (modify (\<lambda>m. m\<lparr>db := db m\<rparr>) :: unit mio)" for n
    by (simp_all add: silent_def stays_def drawPort_def)
  then show ?case unfolding reserveLoop.simps Let_def
    by (auto intro!: silent_bnd silent_basic silent_if silent_db_only [OF db_only_claimPort] Suc.IH)
qed

lemma silent_reads: "reads f \<Longrightarrow> silent f"
  unfolding reads_def silent_def stays_def by (metis manager.ext_inject manager.surjective manager.update_convs(2))

lemma silent_quiet: "silent f \<Longrightarrow> stays quietly f"
  unfolding silent_def stays_def by (metis quietly_same)

lemma silent_reservePort: "silent (reservePort (\<lambda>_ d. d) iid worker name)"
  unfolding reservePort_def
  by (intro silent_bnd silent_basic silent_if silent_reserveLoop silent_reads reads_lookups)

lemma reserveAll_grows: "grows snd inst (reserveAll rpm ports inst)"
proof (induction ports arbitrary: inst)
  case Nil
  show ?case unfolding reserveAll.simps by (rule grows_ret) simp_all
next
  case (Cons p ports)
  show ?case unfolding reserveAll.simps
    by (intro grows_after quiet.w_tryIO silent_quiet silent_reservePort answers_intros grows_case grows_ret
        grows_trans [OF Cons.IH]) simp_all
qed

lemma reserveAll_silent: "silent (reserveAll rpm ports inst)"
proof (induction ports arbitrary: inst)
  case Nil
  show ?case unfolding reserveAll.simps by (rule silent_basic)
next
  case (Cons p ports)
  show ?case unfolding reserveAll.simps
    by (auto intro!: silent_bnd silent_tryIO silent_reservePort silent_basic Cons.IH split: sum.split)
qed

text \<open>Reserving and launching leave every row its id, its build and its worker.\<close>

definition row_keys :: "database \<Rightarrow> (int \<times> int \<times> string) list" where
  "row_keys d = map (\<lambda>r. (iId r, iBuild r, iWorker r)) (instances d)"

abbreviation same_rows :: "database \<Rightarrow> database \<Rightarrow> bool" where
  "same_rows d d' \<equiv> row_keys d' = row_keys d"

lemma row_ids: "iId ` set (instances d) = fst ` set (row_keys d)"
  by (force simp: row_keys_def)

interpretation rows_port: port_effect "on_tables same_rows"
proof
  show "stays (on_tables same_rows) (claimPort iid worker name port)" for iid worker name port
    by (rule staysI)
       (auto simp: row_keys_def claimPort_def catch_def claimRow_def dest!: sqlChecked_Inr sqlChecked_Inl split: prod.split sum.split if_splits)
qed (auto simp: tables_def)

interpretation rows_launch: launch_effect "on_tables same_rows"
proof
  show "stays (on_tables same_rows) (finalizeInstance meta)" for meta
    unfolding finalizeInstance_def
    by (intro rows_port.w_intros txn_stays sqlChecked_stays exec_stays)
       (auto simp: row_keys_def recordPort_def recordContainer_def split: if_splits)
qed simp

interpretation quiet_teardown: teardown_effect quietly "\<lambda>_. True"
  by unfold_locales (rule silent_quiet [OF silent_removeContainers])

lemma unreachable_db:
  assumes "db_only f" "f m = (r, m')" shows "unreachable m' inst = unreachable m inst"
  using db_onlyD [OF assms] by (auto simp: unreachable_def workerUnreachable_def)

text \<open>
  A stop that returns without error had every container of the instance removed, or gave up on a
  daemon that cannot answer: its worker is known to be unreachable, or a call to it ran into its
  deadline.
\<close>

definition gave_up :: "manager \<Rightarrow> instanceMeta \<Rightarrow> callLog \<Rightarrow> bool" where
  "gave_up m inst new \<longleftrightarrow> unreachable m inst \<or> list_ex timed_out new"

lemma stopInstance_calls:
  assumes "stopInstance inst m = (r, m')"
  obtains new where "calls m' = calls m @ new" "created new = []"
    "\<not> isl r \<Longrightarrow> gave_up m' inst new \<or> (\<forall>cid\<in>set (nContainers inst). list_ex (removal_granted cid) new)"
  using assms
proof (cases rule: stopInstance_cases)
  case skipped
  have "unreachable m' inst" using skipped unreachable_db [OF db_only_writes(3) skipped(2)] by simp
  moreover have "calls m' = calls m @ []"
    using staysD [OF silent_db_only [OF db_only_writes(3), unfolded silent_def] skipped(2)] by simp
  ultimately show ?thesis using that [of "[]"] by (simp add: gave_up_def)
next
  case (torn f inst' m1)
  obtain new where n: "calls m1 = calls m @ new" "torn_down inst fst (Inr (f, inst')) new"
    by (rule makesE [OF teardown_makes torn(2)])
  have "created new = []" using staysD [OF quiet_teardown.w_teardown [OF TrueI] torn(2)] n(1) by (auto simp: quietly_def)
  moreover have "calls m' = calls m @ new"
    using staysD [OF silent_db_only [OF db_only_writes(3), unfolded silent_def] torn(4)] n(1) by simp
  moreover have "unreachable m' inst = unreachable m1 inst" by (rule unreachable_db [OF db_only_writes(3) torn(4)])
  ultimately show ?thesis using that [of new] n(2) torn(3) by (auto simp: gave_up_def torn_down_def)
next
  case (kept e inst')
  obtain new where n: "calls m' = calls m @ new" by (rule makesE [OF teardown_makes kept(2)])
  moreover have "created new = []" using staysD [OF quiet_teardown.w_teardown [OF TrueI] kept(2)] n by (auto simp: quietly_def)
  ultimately show ?thesis using that [of new] kept(5) by simp
qed

lemma silent_clear: "silent (clearInstanceRecords iid)"
  unfolding clearInstanceRecords_def by (intro silent_db_only keeps_intros)

text \<open>The containers of an instance that a launch left behind, one way or another.\<close>

definition accounted :: "instanceMeta \<Rightarrow> err option \<Rightarrow> manager \<Rightarrow> callLog \<Rightarrow> bool" where
  "accounted inst failure m new \<longleftrightarrow> (\<forall>cid\<in>set (created new).
     (failure = None \<and> (nId inst, cid) \<in> set (containers (db m))) \<or>
     list_ex (removal_granted cid) new \<or>
     nId inst \<in> iId ` set (instances (db m)) \<or>
     gave_up m inst new)"

lemma launch_cleanup_accounted:
  assumes l: "launch env build rpm limits inst m = (Inr (started, failure, inst2), m3)"
    and c: "(case failure of None \<Rightarrow> ret ()
             | Some _ \<Rightarrow> if started then bnd (tryIO (stopInstance inst2)) (\<lambda>_. ret ()) else clearInstanceRecords (nId inst)) m3 = (Inr (), m')"
    and none: "nContainers inst = []" and row: "nId inst \<in> iId ` set (instances (db m))"
  shows "\<exists>new. calls m' = calls m @ new \<and> accounted inst failure m' new"
proof -
  obtain new1 where n1: "calls m3 = calls m @ new1" "grown inst new1 inst2"
    using makesE [OF launch_grows [unfolded grows_def] l] by auto
  have rows: "nId inst \<in> iId ` set (instances (db m3))" using staysD [OF rows_launch.w_launch l] row by (simp add: row_ids)
  show ?thesis
  proof (cases failure)
    case None
    then have "m' = m3" using c by simp
    moreover have "\<forall>cid\<in>set (nContainers inst2). (nId inst2, cid) \<in> set (containers (db m3))"
      using l None by (intro launch_records) simp
    ultimately show ?thesis using n1 none None by (auto simp: accounted_def)
  next
    case (Some e)
    show ?thesis
    proof (cases started)
      case False
      then have "inst2 = inst" using l launch_not_started [of env build rpm limits inst m failure inst2 m3] by simp
      then have "created new1 = []" using n1 none by simp
      moreover have "calls m' = calls m3"
        using staysD [OF silent_clear [unfolded silent_def]] c Some False by fastforce
      ultimately show ?thesis using n1 by (auto simp: accounted_def)
    next
      case True
      obtain r where r: "stopInstance inst2 m3 = (r, m')"
        using c Some True by (cases "stopInstance inst2 m3") (simp add: bnd_def tryIO_def)
      obtain new2 where n2: "calls m' = calls m3 @ new2" "created new2 = []"
        "\<not> isl r \<Longrightarrow> gave_up m' inst2 new2 \<or> (\<forall>cid\<in>set (nContainers inst2). list_ex (removal_granted cid) new2)"
        using stopInstance_calls [OF r] by blast
      have "accounted inst failure m' (new1 @ new2)"
      proof (cases r)
        case (Inl e)
        then have "instances (db m') = instances (db m3)" using stopInstance_settles [OF r] by simp
        then show ?thesis using rows by (simp add: accounted_def)
      next
        case (Inr x)
        then have "gave_up m' inst2 new2 \<or> (\<forall>cid\<in>set (nContainers inst2). list_ex (removal_granted cid) new2)" using n2(3) by simp
        moreover have "gave_up m' inst (new1 @ new2)" if "gave_up m' inst2 new2"
          using that n1(2) by (auto simp: gave_up_def unreachable_def)
        ultimately show ?thesis using n1(2) none n2(2) by (auto simp: accounted_def)
      qed
      then show ?thesis using n1(1) n2(1) by auto
    qed
  qed
qed

text \<open>
  What follows the opening of a record: it is cleared before any call was made, or the launch runs
  and a failure of it is cleaned up.
\<close>

abbreviation cleanup :: "instanceMeta \<Rightarrow> bool \<Rightarrow> err option \<Rightarrow> instanceMeta \<Rightarrow> unit mio" where
  "cleanup inst started failure inst2 \<equiv>
     (case failure of None \<Rightarrow> ret ()
      | Some _ \<Rightarrow> if started then bnd (tryIO (stopInstance inst2)) (\<lambda>_. ret ()) else clearInstanceRecords (nId inst))"

lemma launchRecorded_cases:
  assumes "launchRecorded env build limits inst m = (Inr (iid, failure), m')"
  obtains (refused) "iid = 0" "failure \<noteq> None" "calls m' = calls m"
  | (launched) rpm inst1 m2 started inst2 m3 where "calls m2 = calls m" "same_rows (db m) (db m2)"
      "nContainers inst1 = nContainers inst" "nId inst1 = nId inst" "nWorker inst1 = nWorker inst"
      "launch env build rpm limits inst1 m2 = (Inr (started, failure, inst2), m3)"
      "cleanup inst1 started failure inst2 m3 = (Inr (), m')" "iid = nId inst"
proof -
  have clear: "calls m' = calls m0" if "clearInstanceRecords (nId inst) m0 = (Inr (), m')" for m0
    using that by (rule staysD [OF silent_clear [unfolded silent_def]])
  obtain g m1 where g: "getReversePortMap (mChallenge build) m = (g, m1)" by fastforce
  have "\<exists>fs. m1 = m\<lparr>faults := fs\<rparr>" by (rule staysD [OF reads_lookups(4) [unfolded reads_def] g])
  then have m1: "calls m1 = calls m" "db m1 = db m" by auto
  show ?thesis
  proof (cases g)
    case (Inl e)
    then have "clearInstanceRecords (nId inst) m1 = (Inr (), m')" "iid = 0" "failure = Some e"
      using assms(1) g by (auto simp: launchRecorded_def bnd_def tryIO_def split: prod.splits sum.splits)
    then show ?thesis using refused clear m1 by simp
  next
    case (Inr rpm)
    let ?reserve = "if portLow m1 \<noteq> 0 then reserveAll rpm (publishedPorts (mImages build)) inst else ret (None, inst)"
    have grow: "grows snd inst ?reserve" by (auto intro: reserveAll_grows grows_ret)
    have sil: "silent ?reserve" by (auto intro: reserveAll_silent silent_basic)
    have rows: "stays (on_tables same_rows) ?reserve" by (auto intro: rows_port.w_reserveAll rows_port.w_basic)
    obtain x m2 where x: "?reserve m1 = (x, m2)" by fastforce
    obtain new where n: "calls m2 = calls m1 @ new" "\<exists>y. x = Inr y \<and> grown inst new (snd y)"
      by (rule makesE [OF grow [unfolded grows_def] x])
    have m2: "calls m2 = calls m1" by (rule staysD [OF sil [unfolded silent_def] x])
    obtain noPort inst1 where i1: "x = Inr (noPort, inst1)" "nContainers inst1 = nContainers inst" "nId inst1 = nId inst" "nWorker inst1 = nWorker inst"
      using n m2 by auto
    show ?thesis
    proof (cases noPort)
      case (Some e)
      then have "clearInstanceRecords (nId inst) m2 = (Inr (), m')" "iid = 0" "failure = Some e"
        using assms(1) g Inr x i1 by (auto simp: launchRecorded_def bnd_def tryIO_def split: prod.splits sum.splits)
      then show ?thesis using refused clear m1 m2 by simp
    next
      case None
      obtain y m3 where y: "launch env build rpm limits inst1 m2 = (y, m3)" by fastforce
      obtain started failure' inst2 where l: "y = Inr (started, failure', inst2)"
        using makesE [OF launch_grows [unfolded grows_def] y] by (metis prod.exhaust_sel)
      have f: "failure' = failure" "iid = nId inst" and c: "cleanup inst1 started failure' inst2 m3 = (Inr (), m')"
        using assms(1) g Inr x i1 None y l
        by (auto simp: launchRecorded_def bnd_def tryIO_def simp del: bnd_ret split: prod.splits sum.splits option.splits if_splits)
      show ?thesis using launched [of m2 inst1 rpm started inst2 m3] m1 m2 i1 staysD [OF rows x] y l f c by simp
    qed
  qed
qed


section \<open>Starting an instance\<close>

lemma placeInstance_frame: "placeInstance limits m = (r, m') \<Longrightarrow> db m' = db m \<and> calls m' = calls m"
  by (auto simp: placeInstance_def selectWorker_def bnd_def Let_def split: if_splits prod.splits sum.splits option.splits)

lemma lookupBuild_row:
  assumes "lookupBuildMetadata build m = (Inr b, m')"
  shows "\<exists>r\<in>set (builds (db m)). bId r = build \<and> bInstanceCount r = mInstanceCount b \<and> mId b = build"
  using assms unfolding lookupBuildMetadata_def
  by (auto simp: buildMeta_of_def find_Some_iff dest!: txn_Inr query_Inr elim!: bnd_InrE split: option.splits prod.splits)
     (metis nth_mem)

lemma finalize_flags:
  assumes "finalizeInstance meta m = (Inr u, m')" "r \<in> set (instances (db m'))" "iId r = nId meta"
  shows "iFinalized r"
proof -
  obtain m2 m3 where 2: "exec (\<lambda>d. d\<lparr>instances := map (\<lambda>r. if iId r = nId meta then r\<lparr>iFinalized := True\<rparr> else r) (instances d)\<rparr>) m2 = (Inr (), m3)"
    and 3: "db m' = db m3"
    using assms(1) by (auto simp: finalizeInstance_def elim!: bnd_InrE dest!: txn_Inr)
  then show ?thesis using assms(2,3) exec_Inr [OF 2] by (auto split: if_splits)
qed

text \<open>A launch that succeeded has finalized its record.\<close>

lemma launch_finalizes:
  assumes "launch env build rpm limits inst m = (Inr (started, None, inst'), m')"
    and "r \<in> set (instances (db m'))" "iId r = nId inst'"
  shows "iFinalized r"
proof -
  obtain m2 m3 where s: "startContainers env build rpm inst m2 = (Inr (None, inst'), m3)" "db m' = db m3"
    by (rule launch_started [OF assms(1)])
  obtain m4 u where "finalizeInstance inst' m4 = (Inr u, m3)"
    using s(1) by (auto simp: startContainers_def tryIO_def elim!: bnd_InrE split: sum.splits option.splits prod.splits)
  then show ?thesis using finalize_flags assms(2,3) s(2) by metis
qed

lemma launchRecorded_success:
  assumes "launchRecorded env build limits inst m = (Inr (iid, None), m')" "r \<in> set (row_keys (db m))" "fst r = nId inst"
  shows "\<exists>r'\<in>set (instances (db m')). iId r' = nId inst \<and> iBuild r' = fst (snd r) \<and> iFinalized r'"
  using assms(1)
proof (cases rule: launchRecorded_cases)
  case (launched rpm inst1 m2 started inst2 m3)
  have m': "m' = m3" using launched(7) by simp
  have id2: "nId inst2 = nId inst" using makesE [OF launch_grows [unfolded grows_def] launched(6)] launched(4) by auto
  have "row_keys (db m') = row_keys (db m)" using staysD [OF rows_launch.w_launch launched(6)] launched(2) m' by simp
  then have "r \<in> set (row_keys (db m'))" using assms(2) by simp
  then have "r \<in> (\<lambda>r. (iId r, iBuild r, iWorker r)) ` set (instances (db m'))" by (simp add: row_keys_def)
  then obtain r' where r': "r' \<in> set (instances (db m'))" "iId r' = nId inst" "iBuild r' = fst (snd r)"
    using assms(3) by auto
  moreover have "iFinalized r'" using launch_finalizes [OF launched(6)] r' m' id2 by simp
  ultimately show ?thesis by blast
qed simp

lemma insertInstance_row: "insertInstance meta d = Inr (iid, d') \<Longrightarrow> (iid, nBuild meta, nWorker meta) \<in> set (row_keys d')"
  by (auto simp: insertInstance_def Let_def row_keys_def split: if_splits)

lemma newInstance_cases:
  assumes "newInstance env build limits m = (Inr (iid, failure), m')"
  obtains (refused) "iid = 0" "failure \<noteq> None" "calls m' = calls m"
  | (opened) env' worker inst m2 m3 where "db m2 = db m" "calls m2 = calls m" "openInstance (freshInstance build worker) m2 = (Inr inst, m3)"
      "launchRecorded env' build limits inst m3 = (Inr (iid, failure), m')"
proof -
  obtain c m1 where c: "lookupChallengeMetadata (mChallenge build) m = (c, m1)" by fastforce
  have "\<exists>fs. m1 = m\<lparr>faults := fs\<rparr>" by (rule staysD [OF reads_lookups(3) [unfolded reads_def] c])
  then have m1: "calls m1 = calls m" "db m1 = db m" by auto
  obtain p m2 where p: "placeInstance limits m1 = (p, m2)" by fastforce
  note m2 = placeInstance_frame [OF p]
  obtain o' m3 where o: "openInstance (freshInstance build (projr p)) m2 = (o', m3)" by fastforce
  have "calls m3 = calls m2" by (rule staysD [OF silent_db_only [OF db_only_writes(1), unfolded silent_def] o])
  then have frame: "calls m2 = calls m" "calls m3 = calls m" "db m2 = db m" using m1 m2 by simp_all
  note run = assms [unfolded newInstance_def, unfolded bnd_def tryIO_def c split_conv]
  show ?thesis
  proof (cases c)
    case (Inl e)
    with run m1 show ?thesis by (intro refused) auto
  next
    case (Inr cMeta)
    note c = this
    show ?thesis
    proof (cases "NeedsInstance cMeta")
      case False
      with run c m1 show ?thesis by (intro refused) auto
    next
      case True
      note run = run c True p
      show ?thesis
      proof (cases p)
        case (Inl e)
        with run frame show ?thesis by (intro refused) auto
      next
        case (Inr worker)
        note run = run Inr and o = o [unfolded Inr sum.sel]
        show ?thesis
        proof (cases o')
          case (Inl e)
          with run o frame show ?thesis by (intro refused) auto
        next
          case (Inr inst)
          with run o frame show ?thesis by (intro opened) simp_all
        qed
      qed
    qed
  qed
qed

text \<open>
  C6. What a start returns says what it did. The id 0 is a refusal: there is an error and no daemon was
  asked for anything. Any other id is new, larger than every id handed out before; and without an
  error the instance is recorded and finalized, for the build that was asked for, which is an
  on-demand build.
\<close>

theorem Start_outcome:
  assumes "store_inv (db m)" "Start env build m = (Inr (iid, failure), m')"
  shows "if iid = 0 then failure \<noteq> None \<and> calls m' = calls m
     else instanceSeq (db m) < iid \<and> inst_abs (db m) iid = None \<and>
       (\<exists>b\<in>set (builds (db m)). bId b = build \<and> bInstanceCount b = DYNAMIC_INSTANCES) \<and>
       (failure = None \<longrightarrow> (\<exists>r\<in>set (instances (db m')). iId r = iid \<and> iBuild r = build \<and> iFinalized r))"
proof -
  obtain b m1 where b: "lookupBuildMetadata build m = (b, m1)" by fastforce
  have "\<exists>fs. m1 = m\<lparr>faults := fs\<rparr>" by (rule staysD [OF reads_lookups(2) [unfolded reads_def] b])
  then have m1: "calls m1 = calls m" "db m1 = db m" by auto
  consider "iid = 0" "failure \<noteq> None" "calls m' = calls m"
    | bMeta limits where "b = Inr bMeta" "mInstanceCount bMeta = DYNAMIC_INSTANCES" "newInstance env bMeta limits m1 = (Inr (iid, failure), m')"
    using assms(2) b m1 by (cases b) (auto simp: Start_def bnd_def tryIO_def split: if_splits)
  then show ?thesis
  proof cases
    case (2 bMeta limits)
    obtain r where r: "r \<in> set (builds (db m))" "bId r = build" "bInstanceCount r = DYNAMIC_INSTANCES" "mId bMeta = build"
      using lookupBuild_row [OF b [unfolded 2(1)]] 2(2) by auto
    from 2(3) show ?thesis
    proof (cases rule: newInstance_cases)
      case (opened env' worker inst m2 m3)
      obtain nid where ins: "insertInstance (freshInstance bMeta worker) (db m2) = Inr (nid, db m3)" "inst = (freshInstance bMeta worker)\<lparr>nId := nid\<rparr>"
        by (rule openInstance_Inr [OF opened(3)])
      have inv: "store_inv (db m2)" using opened(1) m1 assms(1) by simp
      note fresh = abs_insert [OF ins(1) inv]
      have pos: "0 < nid" using fresh(3) inv by (simp add: store_inv_def)
      have calls3: "calls m3 = calls m" using staysD [OF silent_db_only [OF db_only_writes(1), unfolded silent_def] opened(3)] opened(2) m1 by simp
      have row: "(nid, build, worker) \<in> set (row_keys (db m3))"
        using insertInstance_row [OF ins(1)] r(4) by (simp add: freshInstance_def)
      have "iid = 0 \<and> failure \<noteq> None \<and> calls m' = calls m \<or> iid = nid"
        using opened(4) calls3 ins(2) by (cases rule: launchRecorded_cases) (auto simp: freshInstance_def)
      moreover have "\<exists>r\<in>set (instances (db m')). iId r = iid \<and> iBuild r = build \<and> iFinalized r" if "failure = None" "iid = nid"
        using launchRecorded_success [OF opened(4) [unfolded that(1)] row] ins(2) that(2) by (simp add: freshInstance_def)
      ultimately show ?thesis using fresh opened(1) m1 r pos by auto
    qed (simp add: m1)
  qed simp
qed

definition started_manager :: manager where
  "started_manager = lifecycle_manager\<lparr>db := (db lifecycle_manager)\<lparr>
     challenges := [\<lparr>cId = ''c'', cName = ''n'', cNamespace = '''', cType = ''custom'', cDescription = '''', cDetails = '''', cSourceChecksum = 3,
        cMetadataChecksum = 1, cPath = ''/c'', cSolveScript = False, cTemplatable = False, cMaxUsers = 0, cCategory = '''', cPoints = 1,
        cHints = [], cTags = [], cAttributes = [], cHosts = [(''web'', ''web'')], cOverrides = []\<rparr>],
     portNames := [\<lparr>pnChallenge = ''c'', pnName = ''http'', pnHost = ''web'', pnPort = 80\<rparr>],
     images := [\<lparr>imId = 1, imBuild = 1, imHost = ''web'', imPorts = []\<rparr>]\<rparr>,
     replies := [okReply, okReply\<lparr>rId := ''c7''\<rparr>, okReply], placementEnabled := False\<rparr>"

definition start_env :: launchEnv where
  "start_env = \<lparr>leParsers = sample_parsers, leSettings = linux_host, leOverrides = [], leEnvVars = []\<rparr>"

lemma started_run: "fst (Start start_env 1 started_manager) = Inr (7, None)"
  by code_simp

theorem Start_outcome_witness:
  "\<exists>r\<in>set (instances (db (snd (Start start_env 1 started_manager)))). iId r = 7 \<and> iBuild r = 1 \<and> iFinalized r"
proof -
  have "store_inv (db started_manager)"
    by (simp add: store_inv_def started_manager_def lifecycle_manager_def freshManager_def emptyDatabase_def)
  moreover have "Start start_env 1 started_manager = (Inr (7, None), snd (Start start_env 1 started_manager))"
    using started_run by (metis prod.collapse)
  ultimately show ?thesis using Start_outcome by fastforce
qed

section \<open>A failing launch\<close>

text \<open>The second of two containers cannot be created; the first one is removed again.\<close>

definition failing_build :: buildMeta where
  "failing_build = \<lparr>mId = 1, mFlag = ''f'', mLookup = [], mSeed = 7, mFormat = ''flag{%s}'', mChecksum = 5, mPrevChecksum = 0,
     mSourceChecksum = 3, mImages = [\<lparr>imgHost = ''web'', imgPorts = []\<rparr>, \<lparr>imgHost = ''db'', imgPorts = []\<rparr>],
     mHasArtifacts = False, mLastSolved = 0, mChallenge = ''c'', mSchema = ''s'', mInstanceCount = DYNAMIC_INSTANCES\<rparr>"

definition failing_manager :: manager where
  "failing_manager = lifecycle_manager\<lparr>replies :=
     [okReply, okReply\<lparr>rId := ''c1''\<rparr>, okReply, okReply\<lparr>rErr := Some [Msg ''no space left'']\<rparr>]\<rparr>"

definition failing_instance :: instanceMeta where
  "failing_instance = stopped_instance\<lparr>nPorts := [], nContainers := []\<rparr>"

definition failing_run :: "(err + int \<times> err option) \<times> manager" where
  "failing_run = launchRecorded \<lparr>leParsers = sample_parsers, leSettings = linux_host, leOverrides = [], leEnvVars = []\<rparr>
     failing_build (requestLimits failing_manager) failing_instance failing_manager"

lemma failing_run_result: "fst failing_run = Inr (4, Some [Msg ''no space left''])" "created (calls (snd failing_run)) = [''c1'']"
  "calls failing_manager = []"
  by code_simp+


end
