(* ===== verification/Build_Validation.thy ===== *)
theory Build_Validation
  imports Daemon_Effects
begin

text \<open>
  Template references in a challenge's texts and the check that a build publishes exactly what
  they refer to (\<open>src/cork/loader.go\<close>). The patterns of the source are sequences of literals,
  \<open>\s*\<close>, quotes and captured runs of one character class in which no run can take what the
  next element needs, so matching needs no backtracking; \<open>FindAllStringSubmatch\<close> takes the
  leftmost match and goes on after it.
\<close>

section \<open>Patterns\<close>

datatype atom =
    Lit string
  | Spaces \<comment> \<open>\s*\<close>
  | Quote \<comment> \<open>one of the two quote characters\<close>
  | Run "char \<Rightarrow> bool" \<comment> \<open>a captured run, of one character at least\<close>
  | Slash \<comment> \<open>/?\<close>
  | RunOpt "char \<Rightarrow> bool" \<comment> \<open>a captured run that may be empty\<close>

definition is_space :: "char \<Rightarrow> bool" where
  "is_space c \<longleftrightarrow> c \<in> {CHR '' '', CHR 0x09, CHR 0x0A, CHR 0x0C, CHR 0x0D}"

definition is_alnum :: "char \<Rightarrow> bool" where
  "is_alnum c \<longleftrightarrow> (let n = (of_char c :: nat) in 48 \<le> n \<and> n \<le> 57 \<or> 65 \<le> n \<and> n \<le> 90 \<or> 97 \<le> n \<and> n \<le> 122)"

definition is_word_char :: "char \<Rightarrow> bool" where
  "is_word_char c \<longleftrightarrow> is_alnum c \<or> c = CHR ''_''"

definition is_filename_char :: "char \<Rightarrow> bool" where
  "is_filename_char c \<longleftrightarrow> is_alnum c \<or> c \<in> set ''_.-''"

definition is_display_char :: "char \<Rightarrow> bool" where
  "is_display_char c \<longleftrightarrow> c \<notin> {CHR ''<'', CHR ''>'', CHR 0x27, CHR 0x22}"

definition is_url_char :: "char \<Rightarrow> bool" where
  "is_url_char c \<longleftrightarrow> is_alnum c \<or> c \<in> set ''_%/=?+&#!.,-''"

fun matchHere :: "atom list \<Rightarrow> string \<Rightarrow> (string list \<times> string) option" where
  "matchHere [] s = Some ([], s)"
| "matchHere (Lit l # ps) s = (case cutPrefix s l of None \<Rightarrow> None | Some r \<Rightarrow> matchHere ps r)"
| "matchHere (Spaces # ps) s = matchHere ps (dropWhile is_space s)"
| "matchHere (Quote # ps) s =
     (case s of [] \<Rightarrow> None | c # cs \<Rightarrow> if c = CHR 0x22 \<or> c = CHR 0x27 then matchHere ps cs else None)"
| "matchHere (Run P # ps) s =
     (if takeWhile P s = [] then None
      else map_option (\<lambda>(caps, r). (takeWhile P s # caps, r)) (matchHere ps (dropWhile P s)))"
| "matchHere (Slash # ps) s = matchHere ps (case cutPrefix s ''/'' of None \<Rightarrow> s | Some r \<Rightarrow> r)"
| "matchHere (RunOpt P # ps) s =
     map_option (\<lambda>(caps, r). (takeWhile P s # caps, r)) (matchHere ps (dropWhile P s))"

text \<open>
  All matches, leftmost first: for each the text before it, its captures, and at the end the text
  after the last.
\<close>

function findFrom :: "atom list \<Rightarrow> string \<Rightarrow> string \<Rightarrow> (string \<times> string list) list \<times> string" where
  "findFrom p before [] = ([], before)"
| "findFrom p before (c # cs) =
     (case matchHere p (c # cs) of
        Some (caps, r) \<Rightarrow>
          if length r < length (c # cs)
          then (case findFrom p [] r of (ms, rest) \<Rightarrow> ((before, caps) # ms, rest))
          else findFrom p (before @ [c]) cs
      | None \<Rightarrow> findFrom p (before @ [c]) cs)"
  by pat_completeness auto
termination
  by (relation "measure (\<lambda>(_, _, s). length s)") auto

definition findAll :: "atom list \<Rightarrow> string \<Rightarrow> string list list" where
  "findAll p s = map snd (fst (findFrom p [] s))"

definition call_re :: "string \<Rightarrow> atom list \<Rightarrow> atom list" where
  "call_re name args = [Lit ''{{'', Spaces, Lit (name @ ''('')] @ args @ [Lit '')'', Spaces, Lit ''}}'']"

definition urlRe :: "atom list" where
  "urlRe = call_re ''url'' [Quote, Run is_filename_char, Quote]"

definition lookupRe :: "atom list" where
  "lookupRe = call_re ''lookup'' [Quote, Run is_word_char, Quote]"

section \<open>Validation of a build\<close>

text \<open>
  \<open>refFile\<close> and \<open>refLookup\<close> map what the build publishes to whether a text refers to
  it; the problems found so far come with them.
\<close>

record buildCheck =
  refFile :: "(string \<times> bool) list"
  refLookup :: "(string \<times> bool) list"
  problems :: "err list"

definition report :: "string \<Rightarrow> buildCheck \<Rightarrow> buildCheck" where
  "report msg chk = chk\<lparr>problems := problems chk @ [[Msg msg]]\<rparr>"

definition checkFileRef :: "string list \<Rightarrow> buildCheck \<Rightarrow> buildCheck" where
  "checkFileRef ref chk =
     (case map_of (refFile chk) (hd ref) of
        None \<Rightarrow> report (''unknown artifact '' @ hd ref) chk
      | Some _ \<Rightarrow> chk\<lparr>refFile := mapPut (hd ref) True (refFile chk)\<rparr>)"

definition checkLookupRef :: "string list \<Rightarrow> buildCheck \<Rightarrow> buildCheck" where
  "checkLookupRef ref chk =
     (case map_of (refLookup chk) (hd ref) of
        None \<Rightarrow> report (''unknown lookup key of '' @ hd ref) chk
      | Some _ \<Rightarrow> chk\<lparr>refLookup := mapPut (hd ref) True (refLookup chk)\<rparr>)"

definition checkTemplated :: "string \<Rightarrow> buildCheck \<Rightarrow> buildCheck" where
  "checkTemplated s chk = fold checkLookupRef (findAll lookupRe s) (fold checkFileRef (findAll urlRe s) chk)"

definition sortedKeys :: "(string \<times> bool) list \<Rightarrow> string list" where
  "sortedKeys refs = sortBy string_le (map fst refs)"

definition validateBuild :: "challengeMeta \<Rightarrow> buildMeta \<Rightarrow> string list \<Rightarrow> err option" where
  "validateBuild cMeta b files =
     (let start = \<lparr>refFile = fold (\<lambda>k. mapPut k False) files [],
                   refLookup = map (\<lambda>(k, _). (k, False)) (mLookup b), problems = []\<rparr>;
          chk = fold checkTemplated (cDescription cMeta # cDetails cMeta # cHints cMeta) start;
          unusedFiles = filter (\<lambda>f. map_of (refFile chk) f \<noteq> Some True) (sortedKeys (refFile chk));
          unusedKeys = filter (\<lambda>k. map_of (refLookup chk) k \<noteq> Some True) (sortedKeys (refLookup chk))
      in errors_Join (problems chk @
           map (\<lambda>f. [Msg (''artifact file published but not referenced: '' @ f)]) unusedFiles @
           map (\<lambda>k. [Msg (''lookup value published but not referenced: '' @ k)]) unusedKeys))"

section \<open>What validation means\<close>

definition texts :: "challengeMeta \<Rightarrow> string list" where
  "texts c = cDescription c # cDetails c # cHints c"

definition fileRefs :: "challengeMeta \<Rightarrow> string set" where
  "fileRefs c = (\<Union>s\<in>set (texts c). hd ` set (findAll urlRe s))"

definition lookupRefs :: "challengeMeta \<Rightarrow> string set" where
  "lookupRefs c = (\<Union>s\<in>set (texts c). hd ` set (findAll lookupRe s))"

text \<open>
  How far a check has come: the keys stand, each with whether it is among the references seen so
  far, and there is no problem exactly when every reference seen so far was to a key.
\<close>

definition marked :: "string set \<Rightarrow> string set \<Rightarrow> (string \<times> bool) list \<Rightarrow> bool" where
  "marked keys seen refs \<longleftrightarrow> map_of refs = (\<lambda>k. if k \<in> keys then Some (k \<in> seen) else None)"

definition checked :: "string set \<Rightarrow> string set \<Rightarrow> string set \<Rightarrow> string set \<Rightarrow> buildCheck \<Rightarrow> bool" where
  "checked files keys frefs lrefs chk \<longleftrightarrow>
     marked files frefs (refFile chk) \<and> marked keys lrefs (refLookup chk) \<and>
     (problems chk = [] \<longleftrightarrow> frefs \<subseteq> files \<and> lrefs \<subseteq> keys)"

lemma marked_keys: "marked keys seen refs \<Longrightarrow> fst ` set refs = keys"
  by (simp add: marked_def dom_map_of_conv_image_fst [symmetric] dom_def)

lemma marked_known: "marked keys seen refs \<Longrightarrow> k \<in> keys \<Longrightarrow> marked keys (insert k seen) (mapPut k True refs)"
  by (simp add: marked_def fun_eq_iff)

lemma marked_unknown: "marked keys seen refs \<Longrightarrow> k \<notin> keys \<Longrightarrow> marked keys (insert k seen) refs"
  unfolding marked_def by (auto simp: fun_eq_iff)

lemma checked_fileRef:
  assumes "checked files keys F L chk"
  shows "checked files keys (insert (hd ref) F) L (checkFileRef ref chk)"
proof (cases "hd ref \<in> files")
  case True
  with assms have "map_of (refFile chk) (hd ref) = Some (hd ref \<in> F)" by (simp add: checked_def marked_def)
  with True assms show ?thesis by (simp add: checkFileRef_def checked_def marked_known)
next
  case False
  with assms have "map_of (refFile chk) (hd ref) = None" by (simp add: checked_def marked_def)
  with False assms show ?thesis by (simp add: checkFileRef_def checked_def report_def marked_unknown)
qed

lemma checked_lookupRef:
  assumes "checked files keys F L chk"
  shows "checked files keys F (insert (hd ref) L) (checkLookupRef ref chk)"
proof (cases "hd ref \<in> keys")
  case True
  with assms have "map_of (refLookup chk) (hd ref) = Some (hd ref \<in> L)" by (simp add: checked_def marked_def)
  with True assms show ?thesis by (simp add: checkLookupRef_def checked_def marked_known)
next
  case False
  with assms have "map_of (refLookup chk) (hd ref) = None" by (simp add: checked_def marked_def)
  with False assms show ?thesis by (simp add: checkLookupRef_def checked_def report_def marked_unknown)
qed

lemma checked_fileRefs:
  "checked files keys F L chk \<Longrightarrow> checked files keys (hd ` set refs \<union> F) L (fold checkFileRef refs chk)"
proof (induction refs arbitrary: F chk)
  case (Cons ref refs)
  from Cons.IH [OF checked_fileRef [OF Cons.prems]] show ?case by simp
qed simp

lemma checked_lookupRefs:
  "checked files keys F L chk \<Longrightarrow> checked files keys F (hd ` set refs \<union> L) (fold checkLookupRef refs chk)"
proof (induction refs arbitrary: L chk)
  case (Cons ref refs)
  from Cons.IH [OF checked_lookupRef [OF Cons.prems]] show ?case by simp
qed simp

lemma checked_texts:
  "checked files keys F L chk \<Longrightarrow>
   checked files keys ((\<Union>s\<in>set ss. hd ` set (findAll urlRe s)) \<union> F) ((\<Union>s\<in>set ss. hd ` set (findAll lookupRe s)) \<union> L)
     (fold checkTemplated ss chk)"
proof (induction ss arbitrary: F L chk)
  case (Cons s ss)
  have "checked files keys (hd ` set (findAll urlRe s) \<union> F) (hd ` set (findAll lookupRe s) \<union> L) (checkTemplated s chk)"
    unfolding checkTemplated_def by (intro checked_fileRefs checked_lookupRefs Cons.prems)
  from Cons.IH [OF this] show ?case by (simp add: Un_ac)
qed simp

lemma marked_files: "marked (set files) {} (fold (\<lambda>k. mapPut k False) files [])"
proof -
  have "map_of (fold (\<lambda>k. mapPut k False) files acc) = (\<lambda>k. if k \<in> set files then Some False else map_of acc k)" for acc
    by (induction files arbitrary: acc) (auto simp: fun_eq_iff)
  then show ?thesis by (simp add: marked_def fun_eq_iff)
qed

lemma marked_lookups: "marked (fst ` set lookups) {} (map (\<lambda>(k, _). (k, False)) lookups)"
  unfolding marked_def by (induction lookups) (auto simp: fun_eq_iff)

lemma checked_start:
  "checked (set files) (fst ` set lookups) {} {}
     \<lparr>refFile = fold (\<lambda>k. mapPut k False) files [], refLookup = map (\<lambda>(k, _). (k, False)) lookups, problems = []\<rparr>"
  by (simp add: checked_def marked_files marked_lookups)

lemma set_sortBy: "set (sortBy le xs) = set xs"
proof -
  have "set (insertBy le x ys) = insert x (set ys)" for x ys
    by (induction ys) auto
  then show ?thesis by (induction xs) (auto simp: sortBy_def)
qed

text \<open>
  C26. A build passes validation exactly when it publishes what its challenge's texts refer to: the
  artifact files named by \<open>url\<close> templates are the files of its archive, and the keys named by
  \<open>lookup\<close> templates are the keys of its metadata, with nothing missing and nothing over.
\<close>

theorem validateBuild_exact:
  "validateBuild c b files = None \<longleftrightarrow> fileRefs c = set files \<and> lookupRefs c = fst ` set (mLookup b)"
proof -
  define chk where "chk = fold checkTemplated (texts c)
    \<lparr>refFile = fold (\<lambda>k. mapPut k False) files [], refLookup = map (\<lambda>(k, _). (k, False)) (mLookup b), problems = []\<rparr>"
  have chk: "checked (set files) (fst ` set (mLookup b)) (fileRefs c) (lookupRefs c) chk"
    using checked_texts [OF checked_start, of files "mLookup b" "texts c"]
    by (simp add: chk_def fileRefs_def lookupRefs_def)
  have "validateBuild c b files = None \<longleftrightarrow>
      problems chk = [] \<and> (\<forall>f\<in>fst ` set (refFile chk). map_of (refFile chk) f = Some True) \<and>
      (\<forall>k\<in>fst ` set (refLookup chk). map_of (refLookup chk) k = Some True)"
    by (simp add: validateBuild_def Let_def errors_Join_def chk_def texts_def sortedKeys_def filter_empty_conv set_sortBy)
  also have "\<dots> \<longleftrightarrow> fileRefs c \<subseteq> set files \<and> lookupRefs c \<subseteq> fst ` set (mLookup b) \<and>
      set files \<subseteq> fileRefs c \<and> fst ` set (mLookup b) \<subseteq> lookupRefs c"
    using chk marked_keys [of _ _ "refFile chk"] marked_keys [of _ _ "refLookup chk"]
    by (auto simp: checked_def marked_def)
  also have "\<dots> \<longleftrightarrow> fileRefs c = set files \<and> lookupRefs c = fst ` set (mLookup b)" by blast
  finally show ?thesis .
qed

end
