(* ===== verification/Image_Build.thy ===== *)
theory Image_Build
  imports Instance_Trace Build_Validation
begin

text \<open>
  Making a build (\<open>src/cork/docker.go\<close>, \<open>src/cork/registry.go\<close>,
  \<open>src/cork/filesystem.go\<close>, \<open>src/cork/artifacts.go\<close>): resolving its images against the
  registry, building the others, extracting flag, lookups and artifacts from the built image,
  validating and publishing them, and taking everything back when one of these fails. Calls to the
  daemon, the registry and the file system go through the log of the manager. \<open>buildEnv\<close>
  collects what the process gives a build: its checksum function, the digest and formatting of a
  flag, the result of packing the build context, and what a scan of the tree finds.
\<close>

section \<open>Environment\<close>

record buildEnv =
  beLaunch :: launchEnv
  beSum :: "32 word \<Rightarrow> string \<Rightarrow> string \<Rightarrow> 32 word" \<comment> \<open>buildContentChecksum, with the pins and templates of the process\<close>
  beSha256 :: "string \<Rightarrow> string" \<comment> \<open>sha256, in hexadecimal\<close>
  beSprintf :: "string \<Rightarrow> string \<Rightarrow> string" \<comment> \<open>fmt.Sprintf with a flag format\<close>
  beContext :: "challengeMeta \<Rightarrow> err + string" \<comment> \<open>createBuildContext: the file packed\<close>
  beNormalize :: "string \<Rightarrow> err + string" \<comment> \<open>normalizeDirPath on the file system\<close>
  beInventory :: "string \<Rightarrow> challengeMeta list \<times> err list" \<comment> \<open>the challenges found under a directory\<close>
  beChalDir :: string

section \<open>Files\<close>

definition filepath_Join :: "string list \<Rightarrow> string" where
  "filepath_Join parts =
     (let ps = filter (\<lambda>p. p \<noteq> '''') parts in if ps = [] then '''' else path_Clean (joinWith (CHR ''/'') ps))"

definition filepath_Dir :: "string \<Rightarrow> string" where
  "filepath_Dir s = path_Clean (rev (dropWhile (\<lambda>c. c \<noteq> CHR ''/'') (rev s)))"

definition artifactDirFor :: "manager \<Rightarrow> string \<Rightarrow> string" where
  "artifactDirFor m schema =
     (if artifactsDir m = '''' then ''''
      else
        (case map_of (artifactNamespaces m) schema of
           Some name \<Rightarrow> if name \<noteq> '''' then filepath_Join [artifactsDir m, name] else artifactsDir m
         | None \<Rightarrow> artifactsDir m))"

definition artifactNamespaceMarker :: string where
  "artifactNamespaceMarker = ''.cork-artifact-namespace''"

fun markedDirs :: "string \<Rightarrow> string list \<Rightarrow> string list mio" where
  "markedDirs dir [] = ret []"
| "markedDirs dir (name # names) =
     bnd (dockerDo (FileStat (filepath_Join [filepath_Join [dir, name], artifactNamespaceMarker]))) (\<lambda>r.
     bnd (markedDirs dir names) (\<lambda>dirs.
     ret (if rErr r = None then filepath_Join [dir, name] # dirs else dirs)))"

text \<open>The names listed are the subdirectories.\<close>

definition artifactDirs :: "string list mio" where
  "artifactDirs =
     bnd (gets artifactsDir) (\<lambda>dir.
     if dir = '''' then ret []
     else
       bnd (dockerDo (FileReadDir dir)) (\<lambda>r.
       bnd (if rErr r = None then markedDirs dir (rNames r) else ret []) (\<lambda>dirs.
       ret (dirs @ [dir]))))"

fun firstHolding :: "string \<Rightarrow> string list \<Rightarrow> string option mio" where
  "firstHolding filename [] = ret None"
| "firstHolding filename (dir # dirs) =
     bnd (dockerDo (FileStat (filepath_Join [dir, filename]))) (\<lambda>r.
     if rErr r = None then ret (Some dir) else firstHolding filename dirs)"

definition findArtifactBundle :: "string \<Rightarrow> string option mio" where
  "findArtifactBundle filename = bnd artifactDirs (firstHolding filename)"

definition artifactDirForBuild :: "buildMeta \<Rightarrow> string mio" where
  "artifactDirForBuild b =
     bnd (gets (\<lambda>m. map_of (artifactNamespaces m) (mSchema b))) (\<lambda>known.
     if known \<noteq> None then gets (\<lambda>m. artifactDirFor m (mSchema b))
     else
       bnd (findArtifactBundle (getArtifactsFilename (mId b))) (\<lambda>found.
       (case found of Some dir \<Rightarrow> ret dir | None \<Rightarrow> gets artifactsDir)))"

definition pruneStrayArtifactBundle :: "string \<Rightarrow> unit mio" where
  "pruneStrayArtifactBundle filename =
     bnd (gets artifactsDir) (\<lambda>dir.
     if dir = '''' then ret ()
     else bnd (dockerDo (FileRemove (filepath_Join [dir, filename]))) (\<lambda>_. ret ()))"

text \<open>A file that is not there is \<open>NotFound\<close>.\<close>

definition removeArtifactBundle :: "string \<Rightarrow> string \<Rightarrow> err option mio" where
  "removeArtifactBundle schema filename =
     bnd (gets (\<lambda>m. artifactDirFor m schema)) (\<lambda>dir.
     bnd (dockerDo (FileRemove (filepath_Join [dir, filename]))) (\<lambda>r.
     (case rErr r of
        None \<Rightarrow> ret None
      | Some e \<Rightarrow>
          if \<not> errors_Is e NotFound then ret (Some e)
          else
            bnd (findArtifactBundle filename) (\<lambda>found.
            (case found of
               None \<Rightarrow> ret (Some e)
             | Some holder \<Rightarrow>
                 bnd (dockerDo (FileRemove (filepath_Join [holder, filename]))) (\<lambda>r2. ret (rErr r2)))))))"

text \<open>
  The archive is written to a temporary file beside its destination, under a name completed by a
  number of the reply, and renamed; the file is removed on any failure. Refusing an entry is
  decided here before the writes, which all have one reply (permissions, entries, closing, sync).
\<close>

definition archiveFault :: "archiveError \<Rightarrow> err" where
  "archiveFault e = [Msg ''artifact archive refused'']"

definition installArchive :: "artifactArchive \<Rightarrow> string \<Rightarrow> string \<Rightarrow> string list mio" where
  "installArchive archive tempName destination =
     bnd (gets policy) (\<lambda>p.
     (case copyArchive p archive of
        Inl e \<Rightarrow> fail (archiveFault e)
      | Inr (files, headers) \<Rightarrow>
          bnd (dockerDo (FileWrite tempName headers)) (\<lambda>w.
          (case rErr w of
             Some e \<Rightarrow> fail e
           | None \<Rightarrow>
               bnd (dockerDo (FileRename tempName destination)) (\<lambda>r.
               (case rErr r of Some e \<Rightarrow> fail e | None \<Rightarrow> ret files))))))"

definition artifactTempName :: "nat \<Rightarrow> string" where
  "artifactTempName n = ''.cork-artifacts-'' @ show_nat n"

definition cacheArtifacts :: "artifactArchive \<Rightarrow> string \<Rightarrow> string list mio" where
  "cacheArtifacts archive destination =
     bnd (dockerDo (FileTemp (filepath_Dir destination))) (\<lambda>r.
     (case rErr r of
        Some e \<Rightarrow> fail e
      | None \<Rightarrow>
          (let tempName = filepath_Join [filepath_Dir destination, artifactTempName (nat (rNow r))] in
           bnd (tryIO (installArchive archive tempName destination)) (\<lambda>res.
           (case res of
              Inr files \<Rightarrow> ret files
            | Inl e \<Rightarrow> bnd (dockerDo (FileRemove tempName)) (\<lambda>_. fail e))))))"

section \<open>The registry\<close>

definition toLower :: "string \<Rightarrow> string" where
  "toLower s = map (\<lambda>c. let n = (of_char c :: nat) in if 65 \<le> n \<and> n \<le> 90 then char_of (n + 32) else c) s"

definition manifestUnknown :: "err \<Rightarrow> bool" where
  "manifestUnknown e =
     list_ex (\<lambda>marker. list_ex (\<lambda>c. contains (toLower (cause_Error c)) marker) e)
       [''manifest unknown'', ''no such manifest'', ''manifest not found'']"

definition registryAttempts :: nat where "registryAttempts = 3"

text \<open>An exchange gives its answer or an error, and whether the context is done by then.\<close>

fun retryRegistry :: "nat \<Rightarrow> ((err + 'a) \<times> bool) mio \<Rightarrow> 'a mio" where
  "retryRegistry attempts exchange =
     bnd exchange (\<lambda>(answer, ctxDone).
     (case answer of
        Inr x \<Rightarrow> ret x
      | Inl e \<Rightarrow> if attempts \<le> 1 \<or> ctxDone then fail e else retryRegistry (attempts - 1) exchange))"

declare retryRegistry.simps [simp del]

definition registryTagExists :: "string \<Rightarrow> bool mio" where
  "registryTagExists name =
     retryRegistry registryAttempts (
       bnd (dockerDo (DistributionInspect name)) (\<lambda>r.
       ret (case rErr r of
              None \<Rightarrow> Inr True
            | Some e \<Rightarrow> if errors_Is e NotFound \<or> manifestUnknown e then Inr False else Inl e, rDone r)))"

definition pushImage :: "string \<Rightarrow> err option mio" where
  "pushImage name = bnd (dockerDo (ImagePush name)) (\<lambda>r. ret (rErr r))"

definition pushImageIfAbsent :: "string \<Rightarrow> bool mio" where
  "pushImageIfAbsent name =
     bnd (registryTagExists name) (\<lambda>present.
     if present then ret False
     else bnd (pushImage name) (\<lambda>failure. case failure of Some e \<Rightarrow> fail e | None \<Rightarrow> ret True))"

definition nameFor :: "manager \<Rightarrow> challengeMeta \<Rightarrow> buildMeta \<Rightarrow> string \<Rightarrow> string" where
  "nameFor m cMeta b host = instanceImageName (challengeRegistry m) (cId cMeta) (mSeed b) (mChecksum b) host"

text \<open>The tags pushed come back next to the error.\<close>

fun publishLoop ::
    "challengeMeta \<Rightarrow> buildMeta \<Rightarrow> (string \<times> bool) list \<Rightarrow> image list \<Rightarrow> string list \<Rightarrow> (string list \<times> err option) mio" where
  "publishLoop cMeta b present [] pushed = ret (pushed, None)"
| "publishLoop cMeta b present (img # imgs) pushed =
     (if imgHost img = ''builder'' then publishLoop cMeta b present imgs pushed
      else
        bnd (gets (\<lambda>m. nameFor m cMeta b (imgHost img))) (\<lambda>name.
        if map_of present name = Some True then publishLoop cMeta b present imgs pushed
        else
          bnd (pushImage name) (\<lambda>failure.
          (case failure of
             Some e \<Rightarrow> ret (pushed, Some e)
           | None \<Rightarrow> publishLoop cMeta b present imgs (pushed @ [name])))))"

definition publishImages :: "challengeMeta \<Rightarrow> buildMeta \<Rightarrow> (string \<times> bool) list \<Rightarrow> (string list \<times> err option) mio" where
  "publishImages cMeta b present =
     bnd (gets challengeRegistry) (\<lambda>registry.
     if registry = '''' then ret ([], None) else publishLoop cMeta b present (mImages b) [])"

section \<open>Building\<close>

definition makeFlag :: "buildEnv \<Rightarrow> buildMeta \<Rightarrow> string" where
  "makeFlag env b =
     beSprintf env (mFormat b)
       (take 8 (beSha256 env (mChallenge b @ '':'' @ mFormat b @ '':'' @ show_int (mSeed b))))"

fun resolveHosts :: "challengeMeta \<Rightarrow> buildMeta \<Rightarrow> (string \<times> string) list \<Rightarrow> (string \<times> bool) list \<Rightarrow> (string \<times> bool) list mio" where
  "resolveHosts cMeta b [] present = ret present"
| "resolveHosts cMeta b ((host, _) # hosts) present =
     (if host = ''builder'' then resolveHosts cMeta b hosts present
      else
        bnd (gets (\<lambda>m. nameFor m cMeta b host)) (\<lambda>name.
        bnd (registryTagExists name) (\<lambda>inRegistry.
        resolveHosts cMeta b hosts (mapPut name inRegistry present))))"

definition buildSpec :: "buildEnv \<Rightarrow> manager \<Rightarrow> challengeMeta \<Rightarrow> buildMeta \<Rightarrow> buildMeta \<Rightarrow> string \<times> string \<Rightarrow> imageBuildSpec" where
  "buildSpec env m cMeta prior b host =
     (let name = nameFor m cMeta b (fst host);
          priorName = (if mChecksum prior \<noteq> 0 then nameFor m cMeta prior (fst host) else '''')
      in \<lparr>ibTag = name, ibTarget = snd host,
          ibArgs = [(''FLAG_FORMAT'', mFormat b), (''SEED'', show_int (mSeed b)), (''FLAG'', makeFlag env b)] @
                   (if challengeRegistry m \<noteq> '''' then [(''BUILDKIT_INLINE_CACHE'', ''1'')] else []),
          ibCacheFrom = cacheRefsFor (challengeRegistry m) (fst host) name priorName,
          ibLabels = [(''cmgr.managed'', ''true''), (''cmgr.challenge'', cId cMeta)]\<rparr>)"

definition hostPorts :: "challengeMeta \<Rightarrow> string \<Rightarrow> string list" where
  "hostPorts cMeta host = map (\<lambda>(_, _, port). show_int port @ ''/tcp'') (filter (\<lambda>(_, h, _). h = host) (hPortMap cMeta))"

fun buildHosts ::
    "buildEnv \<Rightarrow> challengeMeta \<Rightarrow> buildMeta \<Rightarrow> buildMeta \<Rightarrow> string \<Rightarrow> (string \<times> bool) list \<Rightarrow> (string \<times> string) list \<Rightarrow>
     image list \<Rightarrow> string \<Rightarrow> (image list \<times> string) mio" where
  "buildHosts env cMeta prior b ctxFile present [] imgs buildImage = ret (imgs, buildImage)"
| "buildHosts env cMeta prior b ctxFile present (host # hosts) imgs buildImage =
     bnd (gets (\<lambda>m. nameFor m cMeta b (fst host))) (\<lambda>name.
     let image = \<lparr>imgHost = fst host, imgPorts = hostPorts cMeta (fst host)\<rparr>;
         buildImage' = (if fst host = ''builder'' \<or> fst host = ''challenge'' \<and> buildImage = '''' then name else buildImage);
         continue = buildHosts env cMeta prior b ctxFile present hosts (imgs @ [image]) buildImage'
     in if map_of present name = Some True then
          (if name = buildImage' then
             bnd (pullImage LocalClient name) (\<lambda>(failure, _). case failure of Some e \<Rightarrow> fail e | None \<Rightarrow> continue)
           else continue)
        else
          bnd (dockerDo (FileOpen ctxFile)) (\<lambda>f.
          (case rErr f of
             Some e \<Rightarrow> fail e
           | None \<Rightarrow>
               bnd (gets (\<lambda>m. buildSpec env m cMeta prior b host)) (\<lambda>spec.
               bnd (dockerDo (ImageBuild spec)) (\<lambda>r.
               (case rErr r of Some e \<Rightarrow> fail e | None \<Rightarrow> continue))))))"

section \<open>Extraction\<close>

record extraction =
  exFlag :: string
  exLookups :: "(string \<times> string) list"
  exFiles :: "string list"
  exStaged :: "(string \<times> string) option" \<comment> \<open>the artifact directory, and the staged file in it\<close>

definition stagedName :: "buildMeta \<Rightarrow> string" where
  "stagedName b = ''.'' @ getArtifactsFilename (mId b) @ ''.staged''"

fun readTree :: "buildMeta \<Rightarrow> tarItem list \<Rightarrow> extraction \<Rightarrow> extraction mio" where
  "readTree b [] ex = ret ex"
| "readTree b (item # items) ex =
     (if tiName item = ''challenge/metadata.json'' then
        (case tiJson item of
           Inl e \<Rightarrow> fail e
         | Inr kv \<Rightarrow>
             (case map_of kv ''flag'' of
                None \<Rightarrow> fail [Msg ''build metadata missing the flag'']
              | Some flag \<Rightarrow> readTree b items (ex\<lparr>exFlag := flag, exLookups := filter (\<lambda>(k, _). k \<noteq> ''flag'') kv\<rparr>)))
      else if tiName item = ''challenge/artifacts.tar.gz'' then
        bnd (artifactDirForBuild b) (\<lambda>dir.
        let staged = filepath_Join [dir, stagedName b] in
        bnd (cacheArtifacts (tiArchive item) staged) (\<lambda>files.
        readTree b items (ex\<lparr>exFiles := files, exStaged := Some (dir, staged)\<rparr>)))
      else readTree b items ex)"

definition extractBuild :: "buildMeta \<Rightarrow> string \<Rightarrow> extraction mio" where
  "extractBuild b cid =
     bnd (dockerDo (CopyFromContainer cid)) (\<lambda>r.
     (case rErr r of
        Some e \<Rightarrow> fail e
      | None \<Rightarrow>
          bnd (readTree b (rTree r) \<lparr>exFlag = '''', exLookups = [], exFiles = [], exStaged = None\<rparr>) (\<lambda>ex.
          (case rTreeEnd r of
             Some e \<Rightarrow> fail e
           | None \<Rightarrow> if exFlag ex = '''' then fail [Msg ''flag missing in metadata.json''] else ret ex))))"

section \<open>Publishing, or taking it back\<close>

definition promoteBundle :: "buildMeta \<Rightarrow> (string \<times> string) option \<Rightarrow> err option mio" where
  "promoteBundle b staged =
     (case staged of
        None \<Rightarrow> ret None
      | Some (dir, path) \<Rightarrow>
          bnd (dockerDo (FileRename path (filepath_Join [dir, getArtifactsFilename (mId b)]))) (\<lambda>r.
          (case rErr r of
             Some e \<Rightarrow> ret (Some e)
           | None \<Rightarrow>
               bnd (gets artifactsDir) (\<lambda>base.
               bnd (if dir \<noteq> base then pruneStrayArtifactBundle (getArtifactsFilename (mId b)) else ret ()) (\<lambda>_.
               ret None)))))"

definition abandonBuild :: "buildMeta \<Rightarrow> string \<Rightarrow> (string \<times> string) option \<Rightarrow> string list \<Rightarrow> unit mio" where
  "abandonBuild b cid staged pushed =
     bnd (case staged of None \<Rightarrow> ret () | Some (_, path) \<Rightarrow> bnd (dockerDo (FileRemove path)) (\<lambda>_. ret ())) (\<lambda>_.
     bnd (dockerDo (ContainerRemove LocalClient cid)) (\<lambda>_.
     bnd (if mPrevChecksum b \<noteq> mChecksum b
          then bnd (contentReferenced (mChallenge b) (mSeed b) (mChecksum b) (mId b)) (\<lambda>referenced. ret (\<not> referenced))
          else ret False) (\<lambda>unreferenced.
     if \<not> unreferenced then ret ()
     else
       bnd (for_each (mImages b) (\<lambda>img.
              bnd (gets (\<lambda>m. imageName m b (imgHost img))) (\<lambda>name.
              bnd (dockerDo (ImageRemove LocalClient name)) (\<lambda>_. ret ())))) (\<lambda>_.
       for_each pushed (\<lambda>name. bnd (dockerDo (RegistryDelete name)) (\<lambda>_. ret ()))))))"

definition publishValidated ::
    "challengeMeta \<Rightarrow> buildMeta \<Rightarrow> (string \<times> bool) list \<Rightarrow> string list \<Rightarrow> (string list \<times> err option) mio" where
  "publishValidated cMeta b present files =
     (case validateBuild cMeta b files of
        Some e \<Rightarrow> ret ([], Some e)
      | None \<Rightarrow> publishImages cMeta b present)"

definition settleBuild :: "buildMeta \<Rightarrow> string \<Rightarrow> (string \<times> string) option \<Rightarrow> string list \<Rightarrow> err option \<Rightarrow> buildMeta mio" where
  "settleBuild b cid staged pushed failure =
     bnd (case failure of Some e \<Rightarrow> ret (Some e) | None \<Rightarrow> promoteBundle b staged) (\<lambda>failure'.
     (case failure' of
        None \<Rightarrow> ret b
      | Some e \<Rightarrow> bnd (abandonBuild b cid staged pushed) (\<lambda>_. fail e)))"

definition concludeBuild ::
    "challengeMeta \<Rightarrow> buildMeta \<Rightarrow> (string \<times> bool) list \<Rightarrow> string \<Rightarrow> extraction \<Rightarrow> buildMeta mio" where
  "concludeBuild cMeta b present cid ex =
     bnd (publishValidated cMeta b present (exFiles ex)) (\<lambda>(pushed, failure).
     settleBuild b cid (exStaged ex) pushed failure)"

text \<open>The extraction container is removed whatever happens after it was created.\<close>

definition produceBuild ::
    "buildEnv \<Rightarrow> challengeMeta \<Rightarrow> buildMeta \<Rightarrow> (string \<times> bool) list \<Rightarrow> image list \<Rightarrow> string \<Rightarrow> buildMeta mio" where
  "produceBuild env cMeta b present imgs buildImage =
     bnd (dockerDo (ExtractCreate buildImage (hostOSType (leSettings (beLaunch env)) = ''linux''))) (\<lambda>c.
     (case rErr c of
        Some e \<Rightarrow> fail e
      | None \<Rightarrow>
          bnd (tryIO (
            bnd (extractBuild b (rId c)) (\<lambda>ex.
            concludeBuild cMeta
              (b\<lparr>mFlag := exFlag ex, mLookup := exLookups ex, mImages := imgs, mHasArtifacts := (exFiles ex \<noteq> [])\<rparr>)
              present (rId c) ex))) (\<lambda>res.
          bnd (dockerDo (ContainerRemove LocalClient (rId c))) (\<lambda>_.
          (case res of Inl e \<Rightarrow> fail e | Inr b' \<Rightarrow> ret b')))))"

definition stamped :: "buildEnv \<Rightarrow> challengeMeta \<Rightarrow> buildMeta \<Rightarrow> buildMeta" where
  "stamped env cMeta prior =
     prior\<lparr>mChecksum := beSum env (cSourceChecksum cMeta) (mFormat prior) (cType cMeta), mSourceChecksum := cSourceChecksum cMeta\<rparr>"

definition executeBuild :: "buildEnv \<Rightarrow> challengeMeta \<Rightarrow> buildMeta \<Rightarrow> string \<Rightarrow> buildMeta mio" where
  "executeBuild env cMeta prior ctxFile =
     (let b = stamped env cMeta prior in
      bnd (gets challengeRegistry) (\<lambda>registry.
      bnd (if registry \<noteq> '''' then resolveHosts cMeta b (cHosts cMeta) [] else ret []) (\<lambda>present.
      bnd (buildHosts env cMeta prior b ctxFile present (cHosts cMeta) [] '''') (\<lambda>(imgs, buildImage).
      if buildImage = '''' then fail [Msg ''aborting because no build image identified'']
      else produceBuild env cMeta b present imgs buildImage))))"

end
