(* ===== verification/Build_Trace.thy ===== *)
theory Build_Trace
  imports Image_Build
begin

text \<open>
  What making a build does to the registry, to the artifact bundles and to image tags, read off
  the log of calls. A build changes neither the tables nor the settings, so a run of it is
  described by its result and the calls it made; \<open>logs\<close> is the weakest precondition of such a
  description, with a rule per construct of the monad.
\<close>

section \<open>A logic of runs\<close>

definition config :: "manager \<Rightarrow> string \<times> string \<times> (string \<times> string) list \<times> managerPolicy \<times> bool \<times> bool \<times> bool \<times> int" where
  "config m = (challengeRegistry m, artifactsDir m, artifactNamespaces m, policy m, externalBuildPlane m, buildPlane m, purgeAfterPush m, portLow m)"

definition steady :: "manager \<Rightarrow> manager \<Rightarrow> bool" where
  "steady m m' \<longleftrightarrow> db m' = db m \<and> config m' = config m"

lemma steady_refl [simp]: "steady m m"
  by (simp add: steady_def)

lemma steady_trans: "steady m1 m2 \<Longrightarrow> steady m2 m3 \<Longrightarrow> steady m1 m3"
  by (simp add: steady_def)

lemma steady_settings:
  "steady m m' \<Longrightarrow> challengeRegistry m' = challengeRegistry m" "steady m m' \<Longrightarrow> artifactsDir m' = artifactsDir m"
  "steady m m' \<Longrightarrow> db m' = db m" "steady m m' \<Longrightarrow> externalBuildPlane m' = externalBuildPlane m" "steady m m' \<Longrightarrow> buildPlane m' = buildPlane m"
  by (simp_all add: steady_def config_def)

lemma steady_names:
  "steady m m' \<Longrightarrow> nameFor m' = nameFor m" "steady m m' \<Longrightarrow> imageName m' = imageName m"
  by (simp_all add: fun_eq_iff nameFor_def imageName_def steady_settings)

definition logs :: "manager \<Rightarrow> 'a mio \<Rightarrow> (err + 'a \<Rightarrow> callLog \<Rightarrow> bool) \<Rightarrow> bool" where
  "logs m f Q \<longleftrightarrow> (\<exists>new. calls (snd (f m)) = calls m @ new \<and> steady m (snd (f m)) \<and> Q (fst (f m)) new)"

named_theorems logs_intros \<open>rules of the logic of runs\<close>

lemma logsE:
  assumes "logs m f Q" "f m = (r, m')"
  obtains new where "calls m' = calls m @ new" "steady m m'" "Q r new"
  using assms by (auto simp: logs_def)

lemma logs_mono: "logs m f Q \<Longrightarrow> (\<And>r new. Q r new \<Longrightarrow> Q' r new) \<Longrightarrow> logs m f Q'"
  by (auto simp: logs_def)

lemma logs_basic [logs_intros]:
  "Q (Inr x) [] \<Longrightarrow> logs m (ret x) Q" "Q (Inl e) [] \<Longrightarrow> logs m (fail e) Q" "Q (Inr (g m)) [] \<Longrightarrow> logs m (gets g) Q"
  by (simp_all add: logs_def)

lemma logs_dockerDo [logs_intros]: "(\<And>rep. Q (Inr rep) [(c, rep)]) \<Longrightarrow> logs m (dockerDo c) Q"
  by (simp add: logs_def dockerDo_def Let_def steady_def config_def)

lemma logs_bnd [logs_intros]:
  assumes "logs m f (\<lambda>r new. case r of Inl e \<Rightarrow> R (Inl e) new
    | Inr x \<Rightarrow> \<forall>m1. steady m m1 \<longrightarrow> logs m1 (g x) (\<lambda>r' new'. R r' (new @ new')))"
  shows "logs m (bnd f g) R"
proof -
  obtain r m1 where r: "f m = (r, m1)" by fastforce
  show ?thesis
  proof (cases r)
    case (Inl e)
    then show ?thesis using assms r by (auto simp: logs_def bnd_def)
  next
    case (Inr x)
    with assms r obtain new where new: "calls m1 = calls m @ new" "steady m m1" "logs m1 (g x) (\<lambda>r' new'. R r' (new @ new'))"
      by (auto simp: logs_def)
    then show ?thesis using r Inr by (auto simp: logs_def bnd_def intro: steady_trans)
  qed
qed

text \<open>The same rule with what is known of the first step, and the rule for reading a setting.\<close>

lemma logs_seq:
  assumes "logs m f Q" "\<And>e new. Q (Inl e) new \<Longrightarrow> R (Inl e) new"
    "\<And>x new m1. Q (Inr x) new \<Longrightarrow> steady m m1 \<Longrightarrow> logs m1 (g x) (\<lambda>r' new'. R r' (new @ new'))"
  shows "logs m (bnd f g) R"
  by (rule logs_bnd, rule logs_mono [OF assms(1)]) (use assms(2,3) in \<open>auto split: sum.split\<close>)

lemma logs_gets_bnd: "logs m (k (g m)) R \<Longrightarrow> logs m (bnd (gets g) k) R"
  by (simp add: logs_def bnd_def)

lemma logs_dockerDo_bnd:
  assumes "\<And>rep m1. steady m m1 \<Longrightarrow> logs m1 (k rep) (\<lambda>r new. R r ((c, rep) # new))"
  shows "logs m (bnd (dockerDo c) k) R"
  by (rule logs_seq [of _ _ "\<lambda>r new. \<exists>rep. r = Inr rep \<and> new = [(c, rep)]"]) (auto intro!: logs_dockerDo assms)

lemma logs_tryIO [logs_intros]: "logs m f (\<lambda>r new. Q (Inr r) new) \<Longrightarrow> logs m (tryIO f) Q"
  by (auto simp: logs_def tryIO_def split: prod.split)

lemma logs_cases [logs_intros]:
  "(b \<Longrightarrow> logs m f Q) \<Longrightarrow> (\<not> b \<Longrightarrow> logs m g Q) \<Longrightarrow> logs m (if b then f else g) Q"
  "(z = None \<Longrightarrow> logs m f Q) \<Longrightarrow> (\<And>x. z = Some x \<Longrightarrow> logs m (h x) Q) \<Longrightarrow> logs m (case z of None \<Rightarrow> f | Some x \<Rightarrow> h x) Q"
  "(\<And>x. s = Inl x \<Longrightarrow> logs m (k x) Q) \<Longrightarrow> (\<And>y. s = Inr y \<Longrightarrow> logs m (l y) Q) \<Longrightarrow> logs m (case s of Inl x \<Rightarrow> k x | Inr y \<Rightarrow> l y) Q"
  "(\<And>x y. p = (x, y) \<Longrightarrow> logs m (n x y) Q) \<Longrightarrow> logs m (case p of (x, y) \<Rightarrow> n x y) Q"
  by (cases b; cases z; cases s; cases p; simp)+

text \<open>A read of the tables makes no call.\<close>

lemma logs_reads: "reads f \<Longrightarrow> (\<And>r m'. f m = (r, m') \<Longrightarrow> Q r []) \<Longrightarrow> logs m f Q"
proof -
  assume f: "reads f" and Q: "\<And>r m'. f m = (r, m') \<Longrightarrow> Q r []"
  from f obtain fs where fs: "snd (f m) = m\<lparr>faults := fs\<rparr>" unfolding reads_def stays_def by blast
  have "Q (fst (f m)) []" by (rule Q [of _ "snd (f m)"]) simp
  with fs show ?thesis by (simp add: logs_def steady_def config_def)
qed

lemma logs_answer: "reads f \<Longrightarrow> (\<And>r m'. f m = (r, m') \<Longrightarrow> S r) \<Longrightarrow> logs m f (\<lambda>r new. new = [] \<and> S r)"
  by (rule logs_reads) auto

text \<open>Every call of a run has a property.\<close>

definition each :: "(dockerCall \<times> dockerReply \<Rightarrow> bool) \<Rightarrow> err + 'a \<Rightarrow> callLog \<Rightarrow> bool" where
  "each P r new \<longleftrightarrow> list_all P new"

lemma each_basic: "logs m (ret x) (each P)" "logs m (fail e) (each P)" "logs m (gets g) (each P)"
  by (simp_all add: logs_basic each_def)

lemma logs_each_bnd:
  fixes f :: "'x mio"
  assumes "logs m f (each P)" "\<And>x m1. steady m m1 \<Longrightarrow> logs m1 (g x) (each P)"
  shows "logs m (bnd f g) (each P)"
proof (rule logs_bnd, rule logs_mono [OF assms(1)])
  fix r :: "err + 'x" and new assume new: "each P r new"
  show "case r of Inl e \<Rightarrow> each P (Inl e) new
    | Inr x \<Rightarrow> \<forall>m1. steady m m1 \<longrightarrow> logs m1 (g x) (\<lambda>r' new'. each P r' (new @ new'))"
  proof (cases r)
    case (Inr x)
    have "logs m1 (g x) (\<lambda>r' new'. each P r' (new @ new'))" if "steady m m1" for m1
      by (rule logs_mono [OF assms(2) [OF that]]) (use new in \<open>simp add: each_def\<close>)
    with Inr show ?thesis by simp
  qed (use new in \<open>simp add: each_def\<close>)
qed

lemma logs_each_seq:
  fixes f :: "'x mio"
  assumes "logs m f (\<lambda>r new. each P r new \<and> (\<forall>x. r = Inr x \<longrightarrow> S x))" "\<And>x m1. S x \<Longrightarrow> steady m m1 \<Longrightarrow> logs m1 (g x) (each P)"
  shows "logs m (bnd f g) (each P)"
proof (rule logs_seq [OF assms(1)])
  fix x :: 'x and new m1 assume Q: "each P (Inr x :: err + 'x) new \<and> (\<forall>y. Inr x = Inr y \<longrightarrow> S y)" and m1: "steady m m1"
  then show "logs m1 (g x) (\<lambda>r' new'. each P r' (new @ new'))"
    by (intro logs_mono [OF assms(2)]) (auto simp: each_def)
qed (simp add: each_def)

lemma logs_each_for_set:
  "(\<And>x m1. x \<in> set xs \<Longrightarrow> steady m m1 \<Longrightarrow> logs m1 (f x) (each P)) \<Longrightarrow> logs m (for_each xs f) (each P)"
proof (induction xs arbitrary: m)
  case Nil
  show ?case unfolding for_each.simps by (rule each_basic)
next
  case (Cons x xs)
  show ?case unfolding for_each.simps
    by (intro logs_each_bnd Cons.IH Cons.prems) (auto intro: steady_trans)
qed

lemma logs_each_for: "(\<And>x m1. steady m m1 \<Longrightarrow> logs m1 (f x) (each P)) \<Longrightarrow> logs m (for_each xs f) (each P)"
  by (rule logs_each_for_set)

lemma logs_each_dockerDo: "(\<And>rep. P (c, rep)) \<Longrightarrow> logs m (dockerDo c) (each P)"
  by (intro logs_dockerDo) (simp add: each_def)

lemma each_Nil [simp]: "each P r []"
  by (simp add: each_def)

lemmas each_intros = each_basic logs_each_bnd logs_each_for logs_each_dockerDo logs_cases

lemma each_tryIO: "logs m f (each P) \<Longrightarrow> logs m (tryIO f) (each P)"
  by (rule logs_tryIO) (simp add: each_def [abs_def])

lemma each_reads: "reads f \<Longrightarrow> logs m f (each P)"
  by (rule logs_reads) (simp_all add: each_def)

section \<open>Paths end in their names\<close>

definition base :: "string \<Rightarrow> string" where
  "base path = last (splitOn (CHR ''/'') path)"

lemma splitOn_append: "splitOn c (s @ c # t) = splitOn c s @ splitOn c t"
  by (induction s) (auto split: list.split)

lemma cleanParts_last:
  assumes "plain_part name" "splitOn (CHR ''/'') s = parts @ [name]"
  shows "\<exists>ps. cleanParts s = ps @ [name]"
  using assms by (simp add: cleanParts_def cleanStep_def plain_part_def)

lemma cleanParts_no_sep: "p \<in> set (cleanParts s) \<Longrightarrow> CHR ''/'' \<notin> set p"
proof -
  assume p: "p \<in> set (cleanParts s)"
  obtain k ns where "cleanParts s = replicate k ''..'' @ ns" "list_all plain_part ns" using cleanParts_shape by blast
  with p have "p = ''..'' \<or> plain_part p" by (auto simp: list_all_iff)
  then show ?thesis by (auto simp: plain_part_def)
qed

lemma base_path_Clean:
  assumes "plain_part name" "splitOn (CHR ''/'') s = parts @ [name]"
  shows "base (path_Clean s) = name"
proof -
  obtain ps where ps: "cleanParts s = ps @ [name]" using cleanParts_last [OF assms] by blast
  then have "splitOn (CHR ''/'') (joinWith (CHR ''/'') (cleanParts s)) = cleanParts s"
    using cleanParts_no_sep [of _ s] by (intro splitOn_joinWith) auto
  then show ?thesis using ps by (simp add: base_def path_Clean_def)
qed

text \<open>A path made by joining ends in the name joined last.\<close>

lemma base_Join: "plain_part name \<Longrightarrow> base (filepath_Join [dir, name]) = name"
proof (cases "dir = ''''")
  case True
  assume "plain_part name"
  then show ?thesis using True base_path_Clean [of name name "[]"] splitOn_plain [of "CHR ''/''" name]
    by (simp add: filepath_Join_def plain_part_def)
next
  case False
  assume n: "plain_part name"
  then have "splitOn (CHR ''/'') (dir @ CHR ''/'' # name) = splitOn (CHR ''/'') dir @ [name]"
    by (simp add: splitOn_append splitOn_plain plain_part_def)
  with n False show ?thesis using base_path_Clean by (simp add: filepath_Join_def plain_part_def)
qed

lemma set_show_int: "set (show_int i) \<subseteq> insert (CHR ''-'') {c. is_digit c}"
  using is_digit_show_nat by (auto simp: show_int_def list_all_iff)

lemma plain_names:
  "plain_part (getArtifactsFilename i)" "plain_part (stagedName b)" "plain_part (artifactTempName n)"
  "stagedName b \<noteq> getArtifactsFilename i" "artifactTempName n \<noteq> getArtifactsFilename i"
proof -
  have no: "CHR ''/'' \<notin> set (show_int j)" "CHR ''.'' \<notin> set (show_int j)" for j
    using set_show_int [of j] by (auto simp: is_digit_def)
  have ne: "show_int i \<noteq> []" by (simp add: show_int_def)
  then obtain c cs where c: "show_int i = c # cs" by (cases "show_int i") auto
  have "CHR ''/'' \<notin> set (show_nat n)" using is_digit_show_nat [of n] by (auto simp: list_all_iff is_digit_def)
  then show "plain_part (getArtifactsFilename i)" "plain_part (stagedName b)" "plain_part (artifactTempName n)"
    "stagedName b \<noteq> getArtifactsFilename i" "artifactTempName n \<noteq> getArtifactsFilename i"
    using no [of i] no [of "mId b"] c by (auto simp: plain_part_def getArtifactsFilename_def stagedName_def artifactTempName_def)
qed

section \<open>Watching a build\<close>

text \<open>
  A property of calls that looks away from everything a build asks before it publishes: what holds
  of the rest of its calls is then all there is to prove. With staging, it also allows the writes
  that put an archive next to its destination.
\<close>

locale watcher =
  fixes P :: "dockerCall \<times> dockerReply \<Rightarrow> bool"
  assumes asking: "P (ImagePull client name, rep)" "P (FileStat path, rep)" "P (FileReadDir path, rep)" "P (FileOpen path, rep)"
      "P (ImageBuild spec, rep)" "P (DistributionInspect name, rep)" "P (ExtractCreate name b, rep)" "P (CopyFromContainer name, rep)"
      "P (ContainerRemove client name, rep)" "P (FileTemp path, rep)" "P (FileWrite path headers, rep)"
begin

lemma o_pullImage: "logs m (pullImage client name) (each P)"
  unfolding pullImage_def by (intro each_intros asking)

lemma o_markedDirs: "logs m (markedDirs dir names) (each P)"
proof (induction names arbitrary: m)
  case (Cons name names)
  show ?case unfolding markedDirs.simps by (intro each_intros asking Cons.IH)
qed (unfold markedDirs.simps, rule each_basic)

lemma o_firstHolding: "logs m (firstHolding filename dirs) (each P)"
proof (induction dirs arbitrary: m)
  case (Cons dir dirs)
  show ?case unfolding firstHolding.simps by (intro each_intros asking Cons.IH)
qed (unfold firstHolding.simps, rule each_basic)

lemma o_artifactDir: "logs m (artifactDirForBuild b) (each P)"
  unfolding artifactDirForBuild_def findArtifactBundle_def artifactDirs_def
  by (intro each_intros asking o_markedDirs o_firstHolding)

lemma o_registryTagExists: "logs m (registryTagExists name) (each P)"
proof -
  have "logs m (retryRegistry n (bnd (dockerDo (DistributionInspect name)) k)) (each P)"
    if "\<And>rep m. logs m (k rep) (each P)" for n and k :: "dockerReply \<Rightarrow> ((err + bool) \<times> bool) mio" and m
  proof (induction n arbitrary: m rule: less_induct)
    case (less n)
    show ?case
      by (subst retryRegistry.simps) (auto intro!: each_intros asking that less.IH split: sum.split)
  qed
  then show ?thesis unfolding registryTagExists_def by (simp add: each_basic)
qed

lemma o_resolveHosts: "logs m (resolveHosts cMeta b hosts present) (each P)"
proof (induction cMeta b hosts present arbitrary: m rule: resolveHosts.induct)
  case (2 cMeta b host t hosts present)
  show ?case unfolding resolveHosts.simps by (intro each_intros o_registryTagExists 2)
qed (unfold resolveHosts.simps, rule each_basic)

lemma o_buildHosts: "logs m (buildHosts env cMeta prior b ctxFile present hosts imgs buildImage) (each P)"
proof (induction hosts arbitrary: m imgs buildImage)
  case (Cons host hosts)
  show ?case unfolding buildHosts.simps Let_def by (intro each_intros asking o_pullImage Cons.IH)
qed (unfold buildHosts.simps, rule each_basic)

end

locale staging = watcher +
  assumes stage: "base dst = stagedName b \<Longrightarrow> P (FileRename src dst, rep)"
    and unstage: "base path = artifactTempName n \<Longrightarrow> P (FileRemove path, rep)"
begin

lemma o_cacheArtifacts: "base path = stagedName b \<Longrightarrow> logs m (cacheArtifacts archive path) (each P)"
  unfolding cacheArtifacts_def installArchive_def Let_def
  by (intro each_intros each_tryIO asking stage unstage) (simp_all add: base_Join plain_names)

lemma o_readTree: "logs m (readTree b items ex) (each P)"
proof (induction b items ex arbitrary: m rule: readTree.induct)
  case (2 b item items ex)
  show ?case unfolding readTree.simps Let_def
    by (intro each_intros o_artifactDir o_cacheArtifacts) (auto intro: 2 simp: base_Join plain_names)
qed (unfold readTree.simps, rule each_basic)

lemma o_extractBuild: "logs m (extractBuild b cid) (each P)"
  unfolding extractBuild_def by (intro each_intros asking o_readTree)

end

section \<open>The registry is write-once\<close>

text \<open>
  How a log answers for a tag: it was found in the registry, it was found absent, it was pushed,
  or the push was taken back.
\<close>

definition inspected :: "bool \<Rightarrow> string \<Rightarrow> dockerCall \<times> dockerReply \<Rightarrow> bool" where
  "inspected found name cr \<longleftrightarrow> fst cr = DistributionInspect name \<and>
     (case rErr (snd cr) of
        None \<Rightarrow> found
      | Some e \<Rightarrow> \<not> found \<and> (errors_Is e NotFound \<or> manifestUnknown e))"

definition pushedOk :: "string \<Rightarrow> dockerCall \<times> dockerReply \<Rightarrow> bool" where
  "pushedOk name cr \<longleftrightarrow> fst cr = ImagePush name \<and> rErr (snd cr) = None"

definition touches_tags :: "dockerCall \<times> dockerReply \<Rightarrow> bool" where
  "touches_tags cr = (case fst cr of ImagePush _ \<Rightarrow> True | RegistryDelete _ \<Rightarrow> True | ImageRemove _ _ \<Rightarrow> True | _ \<Rightarrow> False)"

abbreviation no_writes :: "callLog \<Rightarrow> bool" where
  "no_writes new \<equiv> list_all (\<lambda>cr. \<not> touches_tags cr) new"

interpretation registry: staging "\<lambda>cr. \<not> touches_tags cr"
  by unfold_locales (auto simp: touches_tags_def)

lemma retryRegistry_logs:
  assumes "\<And>m. logs m exchange (\<lambda>r new. \<exists>a ctxDone. r = Inr (a, ctxDone) \<and> no_writes new \<and> (\<forall>x. a = Inr x \<longrightarrow> Q x new))"
    and "\<And>x new before. Q x new \<Longrightarrow> Q x (before @ new)"
  shows "logs m (retryRegistry attempts exchange) (\<lambda>r new. no_writes new \<and> (\<forall>x. r = Inr x \<longrightarrow> Q x new))"
proof (induction attempts arbitrary: m rule: less_induct)
  case (less attempts)
  show ?case
    apply (subst retryRegistry.simps)
    apply (rule logs_bnd)
    apply (rule logs_mono [OF assms(1)])
    apply (clarsimp)
    subgoal for new a ctxDone m1
      using assms(2)
      by (cases a; cases "attempts \<le> 1 \<or> ctxDone")
         (auto intro!: logs_basic logs_mono [OF less.IH])
    done
qed

lemma registryTagExists_logs:
  "logs m (registryTagExists name) (\<lambda>r new. no_writes new \<and> (\<forall>p. r = Inr p \<longrightarrow> list_ex (inspected p name) new))"
  unfolding registryTagExists_def
  by (rule retryRegistry_logs)
     (auto intro!: logs_intros simp: touches_tags_def inspected_def split: option.splits)

text \<open>What was asked of the registry backs what is held to be present.\<close>

definition backed :: "(string \<times> bool) list \<Rightarrow> (string \<times> bool) list \<Rightarrow> callLog \<Rightarrow> bool" where
  "backed present present' new \<longleftrightarrow> dom (map_of present) \<subseteq> dom (map_of present') \<and>
     (\<forall>name p. map_of present' name = Some p \<longrightarrow> map_of present name = Some p \<or> list_ex (inspected p name) new)"

lemma backed_refl: "backed present present new"
  by (simp add: backed_def)

lemma backed_mapPut:
  assumes "backed (mapPut name x present) present' new'" "list_ex (inspected x name) new"
  shows "backed present present' (new @ new') \<and> name \<in> dom (map_of present')"
proof (intro conjI)
  have "insert name (dom (map_of present)) \<subseteq> dom (map_of present')"
    using assms(1) by (simp add: backed_def dom_map_of_conv_image_fst fst_mapPut)
  moreover have "map_of present n = Some p \<or> list_ex (inspected p n) (new @ new')" if "map_of present' n = Some p" for n p
    using assms that by (cases "n = name") (auto simp: backed_def split: if_splits)
  ultimately show "backed present present' (new @ new')" "name \<in> dom (map_of present')"
    by (auto simp: backed_def)
qed

lemma resolveHosts_logs:
  "logs m (resolveHosts cMeta b hosts present)
     (\<lambda>r new. no_writes new \<and> (\<forall>present'. r = Inr present' \<longrightarrow> backed present present' new \<and>
        (\<forall>h\<in>fst ` set hosts. h \<noteq> ''builder'' \<longrightarrow> nameFor m cMeta b h \<in> dom (map_of present'))))"
proof (induction hosts arbitrary: m present)
  case Nil
  show ?case unfolding resolveHosts.simps by (rule logs_basic) (simp add: backed_refl)
next
  case (Cons host hosts)
  obtain h t where host: "host = (h, t)" by fastforce
  show ?case
  proof (cases "h = ''builder''")
    case True
    then show ?thesis using Cons.IH [of m present] by (simp add: host)
  next
    case False
    show ?thesis unfolding host resolveHosts.simps if_not_P [OF False]
    proof (rule logs_gets_bnd, rule logs_seq [OF registryTagExists_logs])
      fix x new m1
      assume found: "no_writes new \<and> (\<forall>p. Inr x = Inr p \<longrightarrow> list_ex (inspected p (nameFor m cMeta b h)) new)" and m1: "steady m m1"
      then have "list_ex (inspected x (nameFor m cMeta b h)) new" by simp
      note put = backed_mapPut [OF _ this]
      show "logs m1 (resolveHosts cMeta b hosts (mapPut (nameFor m cMeta b h) x present))
        (\<lambda>r' new'. no_writes (new @ new') \<and> (\<forall>present'. r' = Inr present' \<longrightarrow> backed present present' (new @ new') \<and>
           (\<forall>h\<in>fst ` set ((h, t) # hosts). h \<noteq> ''builder'' \<longrightarrow> nameFor m cMeta b h \<in> dom (map_of present'))))"
        by (rule logs_mono [OF Cons.IH]) (use found in \<open>auto simp: steady_names(1) [OF m1] simp del: domIff dest!: put\<close>)
    qed auto
  qed
qed

lemma buildHosts_logs:
  "logs m (buildHosts env cMeta prior b ctxFile present hosts imgs buildImage)
     (\<lambda>r new. no_writes new \<and> (\<forall>imgs' bi. r = Inr (imgs', bi) \<longrightarrow> map imgHost imgs' = map imgHost imgs @ map fst hosts))"
proof (induction hosts arbitrary: m imgs buildImage)
  case Nil
  show ?case unfolding buildHosts.simps by (rule logs_basic) simp
next
  case (Cons host hosts)
  show ?case unfolding buildHosts.simps Let_def
    apply (rule logs_gets_bnd)
    apply (intro logs_cases logs_dockerDo_bnd logs_gets_bnd logs_seq [OF registry.o_pullImage] logs_basic)
    apply (auto simp: each_def touches_tags_def intro!: logs_mono [OF Cons.IH] logs_basic split: option.splits)
    done
qed

text \<open>
  A run of the pushes: nothing is deleted, only images that were not found in the registry are
  pushed, and unless it failed every instance image was found or pushed.
\<close>

definition pushing :: "(string \<Rightarrow> string) \<Rightarrow> (string \<times> bool) list \<Rightarrow> image list \<Rightarrow> dockerCall \<times> dockerReply \<Rightarrow> bool" where
  "pushing tag present imgs cr =
     (case fst cr of
        ImagePush name \<Rightarrow> map_of present name \<noteq> Some True \<and> (\<exists>img\<in>set imgs. imgHost img \<noteq> ''builder'' \<and> name = tag (imgHost img))
      | _ \<Rightarrow> False)"

lemma pushing_only: "pushing tag present imgs cr \<Longrightarrow> \<exists>name. fst cr = ImagePush name"
  by (cases "fst cr") (simp_all add: pushing_def)

lemma pushing_Cons: "list_all (pushing tag present imgs) new \<Longrightarrow> list_all (pushing tag present (img # imgs)) new"
  by (erule list.pred_mono_strong) (auto simp: pushing_def split: dockerCall.splits)

definition published ::
    "(string \<Rightarrow> string) \<Rightarrow> (string \<times> bool) list \<Rightarrow> image list \<Rightarrow> string list \<Rightarrow> err + string list \<times> err option \<Rightarrow> callLog \<Rightarrow> bool" where
  "published tag present imgs pushed r new \<longleftrightarrow>
     (\<exists>ps failure. r = Inr (pushed @ ps, failure) \<and>
        list_all (pushing tag present imgs) new \<and>
        (\<forall>name\<in>set ps. list_ex (pushedOk name) new) \<and>
        (failure = None \<longrightarrow> (\<forall>img\<in>set imgs. imgHost img \<noteq> ''builder'' \<longrightarrow>
           map_of present (tag (imgHost img)) = Some True \<or> tag (imgHost img) \<in> set ps)))"

lemma published_skip:
  "published tag present imgs pushed r new \<Longrightarrow> imgHost img = ''builder'' \<or> map_of present (tag (imgHost img)) = Some True \<Longrightarrow>
   published tag present (img # imgs) pushed r new"
  unfolding published_def by (auto dest: pushing_Cons)

lemma published_push:
  assumes "published tag present imgs (pushed @ [tag (imgHost img)]) r new" "rErr rep = None"
    "imgHost img \<noteq> ''builder''" "map_of present (tag (imgHost img)) \<noteq> Some True"
  shows "published tag present (img # imgs) pushed r ((ImagePush (tag (imgHost img)), rep) # new)"
proof -
  have "pushedOk (tag (imgHost img)) (ImagePush (tag (imgHost img)), rep)" using assms(2) by (simp add: pushedOk_def)
  moreover obtain ps failure where ps: "r = Inr (pushed @ tag (imgHost img) # ps, failure)"
      "published tag present imgs (pushed @ [tag (imgHost img)]) (Inr (pushed @ tag (imgHost img) # ps, failure)) new"
    using assms(1) by (auto simp: published_def)
  ultimately show ?thesis
    using assms(3,4) unfolding published_def ps(1)
    by (intro exI [of _ "tag (imgHost img) # ps"] exI [of _ failure]) (auto dest: pushing_Cons simp: pushing_def [of _ _ "img # imgs" "(ImagePush _, _)"])
qed

lemma published_fail:
  "imgHost img \<noteq> ''builder'' \<Longrightarrow> map_of present (tag (imgHost img)) \<noteq> Some True \<Longrightarrow>
   published tag present (img # imgs) pushed (Inr (pushed, Some e)) [(ImagePush (tag (imgHost img)), rep)]"
  unfolding published_def by (intro exI [of _ "[]"] exI [of _ "Some e"]) (auto simp: pushing_def)

lemma publishLoop_logs: "logs m (publishLoop cMeta b present imgs pushed) (published (nameFor m cMeta b) present imgs pushed)"
proof (induction imgs arbitrary: m pushed)
  case Nil
  show ?case unfolding publishLoop.simps by (rule logs_basic) (auto simp: published_def)
next
  case (Cons img imgs)
  let ?name = "nameFor m cMeta b (imgHost img)"
  consider "imgHost img = ''builder''" | "imgHost img \<noteq> ''builder''" "map_of present ?name = Some True"
    | "imgHost img \<noteq> ''builder''" "map_of present ?name \<noteq> Some True" by blast
  then show ?case
  proof cases
    case 1
    show ?thesis unfolding publishLoop.simps if_P [OF 1] by (rule logs_mono [OF Cons.IH published_skip]) (simp_all add: 1)
  next
    case 2
    show ?thesis unfolding publishLoop.simps if_not_P [OF 2(1)]
      by (rule logs_gets_bnd, subst if_P [OF 2(2)], rule logs_mono [OF Cons.IH published_skip]) (simp_all add: 2)
  next
    case 3
    show ?thesis unfolding publishLoop.simps if_not_P [OF 3(1)] pushImage_def bnd_assoc bnd_ret
    proof (rule logs_gets_bnd, subst if_not_P [OF 3(2)], rule logs_dockerDo_bnd, rule logs_cases)
      fix rep :: dockerReply and m1 assume "rErr rep = None" and m1: "steady m m1"
      then show "logs m1 (publishLoop cMeta b present imgs (pushed @ [?name]))
          (\<lambda>r new. published (nameFor m cMeta b) present (img # imgs) pushed r ((ImagePush ?name, rep) # new))"
        using 3 by (intro logs_mono [OF Cons.IH] published_push) (simp_all add: steady_names)
    qed (simp add: logs_basic published_fail 3)
  qed
qed

lemma reads_catch: "reads f \<Longrightarrow> (\<And>e. reads (h e)) \<Longrightarrow> reads (catch f h)"
proof -
  assume f: "reads f" and h: "\<And>e. reads (h e)"
  have "reads (bnd (tryIO f) (\<lambda>r. case r of Inl e \<Rightarrow> h e | Inr x \<Rightarrow> ret x))"
    by (intro reads_intros f) (auto intro: h reads_intros split: sum.split)
  moreover have "bnd (tryIO f) (\<lambda>r. case r of Inl e \<Rightarrow> h e | Inr x \<Rightarrow> ret x) = catch f h"
    by (auto simp: bnd_def tryIO_def catch_def fun_eq_iff split: prod.split sum.split)
  ultimately show ?thesis by simp
qed

lemma reads_contentReferenced [reads_intros]: "reads (contentReferenced challenge seed checksum exclude)"
  unfolding contentReferenced_def by (intro reads_catch reads_intros)

section \<open>Taking a build back\<close>

text \<open>Another row needs the content of a build, as what it serves or as what it may roll back to.\<close>

definition needed_elsewhere :: "database \<Rightarrow> buildMeta \<Rightarrow> bool" where
  "needed_elsewhere d b \<longleftrightarrow>
     (\<exists>r\<in>set (builds d). bChallenge r = mChallenge b \<and> bSeed r = mSeed b \<and>
        (bChecksum r = mChecksum b \<or> bPrevChecksum r = mChecksum b) \<and> bId r \<noteq> mId b)"

lemma contentReferenced_elsewhere:
  assumes "contentReferenced (mChallenge b) (mSeed b) (mChecksum b) (mId b) m = (r, m')"
  shows "\<exists>x. r = Inr x \<and> (\<not> x \<longrightarrow> \<not> needed_elsewhere (db m) b)"
  using assms
  by (auto simp: contentReferenced_def catch_def needed_elsewhere_def list_ex_iff dest!: query_Inr split: prod.splits sum.splits)

definition taking_back :: "manager \<Rightarrow> buildMeta \<Rightarrow> (string \<times> string) option \<Rightarrow> string list \<Rightarrow> dockerCall \<times> dockerReply \<Rightarrow> bool" where
  "taking_back m b staged pushed cr =
     (let free = (mPrevChecksum b \<noteq> mChecksum b \<and> \<not> needed_elsewhere (db m) b) in
      (case fst cr of
         FileRemove p \<Rightarrow> \<exists>dir. staged = Some (dir, p)
       | ContainerRemove _ _ \<Rightarrow> True
       | ImageRemove _ name \<Rightarrow> free \<and> (\<exists>img\<in>set (mImages b). name = imageName m b (imgHost img))
       | RegistryDelete name \<Rightarrow> free \<and> name \<in> set pushed
       | _ \<Rightarrow> False))"

lemma unreferenced_logs:
  "logs m (if mPrevChecksum b \<noteq> mChecksum b
           then bnd (contentReferenced (mChallenge b) (mSeed b) (mChecksum b) (mId b)) (\<lambda>referenced. ret (\<not> referenced))
           else ret False)
     (\<lambda>r new. new = [] \<and> (\<forall>x. r = Inr x \<longrightarrow> x \<longrightarrow> mPrevChecksum b \<noteq> mChecksum b \<and> \<not> needed_elsewhere (db m) b))"
  by (intro logs_cases logs_basic logs_seq [OF logs_answer [OF reads_contentReferenced contentReferenced_elsewhere]]) auto

lemma abandonBuild_logs: "logs m (abandonBuild b cid staged pushed) (each (taking_back m b staged pushed))"
proof -
  note simps = taking_back_def steady_names steady_settings
  have untag: "logs m1 (bnd (for_each (mImages b) (\<lambda>img. bnd (gets (\<lambda>m. imageName m b (imgHost img))) (\<lambda>name.
        bnd (dockerDo (ImageRemove LocalClient name)) (\<lambda>_. ret ())))) (\<lambda>_.
      for_each pushed (\<lambda>name. bnd (dockerDo (RegistryDelete name)) (\<lambda>_. ret ())))) (each (taking_back m b staged pushed))"
    if "steady m m1" "mPrevChecksum b \<noteq> mChecksum b" "\<not> needed_elsewhere (db m) b" for m1
    by (rule logs_each_bnd; rule logs_each_for_set; (rule logs_gets_bnd)?; intro each_intros)
       (use that in \<open>auto simp: simps dest: steady_names\<close>)
  show ?thesis unfolding abandonBuild_def
  proof (rule logs_each_bnd, (intro each_intros; auto simp: simps), rule logs_each_bnd, (intro each_intros; auto simp: simps))
    fix m1 m2 assume m12: "steady m m1" "steady m1 m2"
    let ?rest = "\<lambda>unreferenced. if \<not> unreferenced then ret ()
      else bnd (for_each (mImages b) (\<lambda>img. bnd (gets (\<lambda>m. imageName m b (imgHost img))) (\<lambda>name.
             bnd (dockerDo (ImageRemove LocalClient name)) (\<lambda>_. ret ())))) (\<lambda>_.
           for_each pushed (\<lambda>name. bnd (dockerDo (RegistryDelete name)) (\<lambda>_. ret ())))"
    show "logs m2 (bnd (if mPrevChecksum b \<noteq> mChecksum b
          then bnd (contentReferenced (mChallenge b) (mSeed b) (mChecksum b) (mId b)) (\<lambda>referenced. ret (\<not> referenced))
          else ret False) ?rest) (each (taking_back m b staged pushed))"
    proof (rule logs_each_seq [OF logs_mono [OF unreferenced_logs]])
      fix unreferenced m3 assume "unreferenced \<longrightarrow> mPrevChecksum b \<noteq> mChecksum b \<and> \<not> needed_elsewhere (db m2) b" "steady m2 m3"
      then show "logs m3 (?rest unreferenced) (each (taking_back m b staged pushed))"
        using m12 steady_trans [OF steady_trans [OF m12]] untag [of m3] by (auto simp: each_basic steady_settings)
    qed (auto simp: each_def)
  qed
qed

section \<open>The archive on disk\<close>

text \<open>A call that takes away or replaces the file of a name, anywhere.\<close>

definition replaces :: "string \<Rightarrow> dockerCall \<times> dockerReply \<Rightarrow> bool" where
  "replaces fn cr =
     (case fst cr of
        FileRename _ dst \<Rightarrow> rErr (snd cr) = None \<and> base dst = fn
      | FileRemove p \<Rightarrow> base p = fn
      | _ \<Rightarrow> False)"

interpretation files: staging "\<lambda>cr. \<not> replaces (getArtifactsFilename i) cr" for i
  by unfold_locales (auto simp: replaces_def base_Join plain_names)

text \<open>What extraction staged is under the staged name.\<close>

definition staged_ok :: "buildMeta \<Rightarrow> extraction \<Rightarrow> bool" where
  "staged_ok b ex \<longleftrightarrow> (\<forall>dir path. exStaged ex = Some (dir, path) \<longrightarrow> base path = stagedName b)"

lemma readTree_staged: "staged_ok b ex \<Longrightarrow> logs m (readTree b items ex) (\<lambda>r new. \<forall>ex'. r = Inr ex' \<longrightarrow> staged_ok b ex')"
proof (induction b items ex arbitrary: m rule: readTree.induct)
  case (1 b ex)
  then show ?case unfolding readTree.simps by (intro logs_basic) simp
next
  case (2 b item items ex)
  have stage: "logs m1 (readTree b items (ex\<lparr>exFiles := files, exStaged := Some (dir, filepath_Join [dir, stagedName b])\<rparr>))
      (\<lambda>r new. \<forall>ex'. r = Inr ex' \<longrightarrow> staged_ok b ex')" if "tiName item = ''challenge/artifacts.tar.gz''" for m1 files dir
    using that by (intro 2(2)) (simp_all add: staged_ok_def base_Join plain_names)
  have json: "logs m1 (readTree b items (ex\<lparr>exFlag := flag, exLookups := filter (\<lambda>(k, _). k \<noteq> ''flag'') kv\<rparr>))
      (\<lambda>r new. \<forall>ex'. r = Inr ex' \<longrightarrow> staged_ok b ex')"
    if "tiName item = ''challenge/metadata.json''" "tiJson item = Inr kv" "map_of kv ''flag'' = Some flag" for m1 flag kv
    using that 2(4) by (intro 2(1)) (simp_all add: staged_ok_def)
  show ?case unfolding readTree.simps Let_def
  proof (intro logs_cases logs_basic)
    assume "tiName item = ''challenge/artifacts.tar.gz''"
    then show "logs m (bnd (artifactDirForBuild b) (\<lambda>dir. bnd (cacheArtifacts (tiArchive item) (filepath_Join [dir, stagedName b])) (\<lambda>files.
        readTree b items (ex\<lparr>exFiles := files, exStaged := Some (dir, filepath_Join [dir, stagedName b])\<rparr>))))
        (\<lambda>r new. \<forall>ex'. r = Inr ex' \<longrightarrow> staged_ok b ex')"
      by (intro logs_seq [OF registry.o_artifactDir] logs_seq [OF registry.o_cacheArtifacts] stage) (simp_all add: base_Join plain_names)
  qed (simp_all add: json 2(3) 2(4))
qed

lemma extractBuild_staged: "logs m (extractBuild b cid) (\<lambda>r new. \<forall>ex'. r = Inr ex' \<longrightarrow> staged_ok b ex')"
  unfolding extractBuild_def
  by (rule logs_dockerDo_bnd, rule logs_cases, rule logs_seq [OF readTree_staged], simp add: staged_ok_def)
     (auto intro!: logs_intros)

section \<open>How a build ends\<close>

lemma logs_conj: "logs m f Q \<Longrightarrow> logs m f Q' \<Longrightarrow> logs m f (\<lambda>r new. Q r new \<and> Q' r new)"
  by (auto simp: logs_def)

text \<open>The pushes of a validated build, or none.\<close>

lemma push_stage_logs:
  "logs m (publishValidated cMeta b present files)
     (\<lambda>r new. \<exists>ps failure. r = Inr (ps, failure) \<and>
        list_all (pushing (nameFor m cMeta b) present (mImages b)) new \<and> (new \<noteq> [] \<longrightarrow> challengeRegistry m \<noteq> '''') \<and>
        (\<forall>name\<in>set ps. list_ex (pushedOk name) new) \<and>
        (failure = None \<longrightarrow> challengeRegistry m \<noteq> '''' \<longrightarrow> (\<forall>img\<in>set (mImages b). imgHost img \<noteq> ''builder'' \<longrightarrow>
           map_of present (nameFor m cMeta b (imgHost img)) = Some True \<or> nameFor m cMeta b (imgHost img) \<in> set ps)))"
  unfolding publishValidated_def publishImages_def
  by (intro logs_cases logs_basic logs_gets_bnd)
     (auto intro!: logs_mono [OF publishLoop_logs] simp: published_def)

lemma promoteBundle_logs:
  "logs m (promoteBundle b staged) (\<lambda>r new. \<exists>failure. r = Inr failure \<and> no_writes new \<and>
     (failure \<noteq> None \<longrightarrow> list_all (\<lambda>cr. \<not> replaces fn cr) new))"
proof -
  have prune: "logs m1 (if c then pruneStrayArtifactBundle name else ret ()) (\<lambda>r new. r = Inr () \<and> no_writes new)" for m1 c name
    unfolding pruneStrayArtifactBundle_def
    by (intro logs_cases logs_gets_bnd logs_basic logs_dockerDo_bnd) (simp_all add: touches_tags_def)
  show ?thesis unfolding promoteBundle_def
    by (intro logs_cases logs_basic logs_dockerDo_bnd logs_gets_bnd logs_seq [OF prune])
       (auto simp: touches_tags_def replaces_def)
qed

text \<open>
  Settling a build takes back only what it pushed, removes only tags no other row needs, and only
  on the way to an error; without one it is the build, and otherwise the archive is as it was.
\<close>

lemma settleBuild_logs:
  assumes "\<And>dir path. staged = Some (dir, path) \<Longrightarrow> base path \<noteq> fn"
  shows "logs m (settleBuild b cid staged pushed failure)
     (\<lambda>r new. list_all (\<lambda>cr. touches_tags cr \<longrightarrow> isl r \<and> taking_back m b staged pushed cr) new \<and>
        (isl r \<longrightarrow> list_all (\<lambda>cr. \<not> replaces fn cr) new) \<and> (\<forall>b'. r = Inr b' \<longrightarrow> failure = None \<and> b' = b))"
proof -
  have taken: "list_all (\<lambda>cr. \<not> replaces fn cr) new" if "list_all (taking_back m b staged pushed) new" for new
    using that by (rule list.pred_mono_strong) (use assms in \<open>auto simp: taking_back_def replaces_def Let_def split: dockerCall.splits\<close>)
  have same: "taking_back m1 = taking_back m" if "steady m m1" for m1
    unfolding taking_back_def steady_settings(3) [OF that] steady_names(2) [OF that] fun_eq_iff by simp
  have first: "logs m (case failure of Some e \<Rightarrow> ret (Some e) | None \<Rightarrow> promoteBundle b staged)
      (\<lambda>r new. \<exists>failure'. r = Inr failure' \<and> no_writes new \<and> (failure' \<noteq> None \<longrightarrow> list_all (\<lambda>cr. \<not> replaces fn cr) new) \<and>
         (failure' = None \<longrightarrow> failure = None))"
    by (intro logs_cases logs_basic logs_mono [OF promoteBundle_logs]) auto
  have calm: "list_all (\<lambda>cr. touches_tags cr \<longrightarrow> P cr) new" if "no_writes new" for P new
    using that by (auto simp: list_all_iff)
  have weaken: "list_all (\<lambda>cr. touches_tags cr \<longrightarrow> P cr) new" if "list_all P new" for P new
    using that by (auto simp: list_all_iff)
  show ?thesis unfolding settleBuild_def
  proof (rule logs_seq [OF first])
    fix x :: "err option" and new m1
    assume "\<exists>failure'. Inr x = Inr failure' \<and> no_writes new \<and> (failure' \<noteq> None \<longrightarrow> list_all (\<lambda>cr. \<not> replaces fn cr) new) \<and>
         (failure' = None \<longrightarrow> failure = None)" and m1: "steady m m1"
    then have new: "no_writes new" "x \<noteq> None \<Longrightarrow> list_all (\<lambda>cr. \<not> replaces fn cr) new" "x = None \<Longrightarrow> failure = None" by auto
    show "logs m1 (case x of None \<Rightarrow> ret b | Some e \<Rightarrow> bnd (abandonBuild b cid staged pushed) (\<lambda>_. fail e))
       (\<lambda>r' new'. list_all (\<lambda>cr. touches_tags cr \<longrightarrow> isl r' \<and> taking_back m b staged pushed cr) (new @ new') \<and>
        (isl r' \<longrightarrow> list_all (\<lambda>cr. \<not> replaces fn cr) (new @ new')) \<and> (\<forall>b'. r' = Inr b' \<longrightarrow> failure = None \<and> b' = b))"
      by (intro logs_cases logs_basic logs_seq [OF abandonBuild_logs])
         (auto simp: new calm each_def same [OF m1] taken weaken)
  qed auto
qed

definition free :: "database \<Rightarrow> buildMeta \<Rightarrow> bool" where
  "free d b \<longleftrightarrow> mPrevChecksum b \<noteq> mChecksum b \<and> \<not> needed_elsewhere d b"

definition ended :: "manager \<Rightarrow> challengeMeta \<Rightarrow> buildMeta \<Rightarrow> (string \<times> bool) list \<Rightarrow> err + buildMeta \<Rightarrow> callLog \<Rightarrow> bool" where
  "ended m cMeta b present r new \<longleftrightarrow>
     (\<forall>name rep. (ImagePush name, rep) \<in> set new \<longrightarrow> challengeRegistry m \<noteq> '''' \<and> map_of present name \<noteq> Some True \<and>
        (\<exists>img\<in>set (mImages b). imgHost img \<noteq> ''builder'' \<and> name = nameFor m cMeta b (imgHost img))) \<and>
     (\<forall>name rep. (RegistryDelete name, rep) \<in> set new \<longrightarrow> isl r \<and> free (db m) b \<and> list_ex (pushedOk name) new) \<and>
     (\<forall>c name rep. (ImageRemove c name, rep) \<in> set new \<longrightarrow> isl r \<and> free (db m) b) \<and>
     (isl r \<longrightarrow> list_all (\<lambda>cr. \<not> replaces (getArtifactsFilename (mId b)) cr) new) \<and>
     (\<forall>b'. r = Inr b' \<longrightarrow> b' = b \<and> (challengeRegistry m \<noteq> '''' \<longrightarrow> (\<forall>img\<in>set (mImages b). imgHost img \<noteq> ''builder'' \<longrightarrow>
        map_of present (nameFor m cMeta b (imgHost img)) = Some True \<or> list_ex (pushedOk (nameFor m cMeta b (imgHost img))) new)))"

lemma ended_compose:
  assumes push: "list_all (pushing (nameFor m cMeta b) present (mImages b)) new" "new \<noteq> [] \<longrightarrow> challengeRegistry m \<noteq> ''''"
      "\<forall>name\<in>set ps. list_ex (pushedOk name) new"
      "failure = None \<longrightarrow> challengeRegistry m \<noteq> '''' \<longrightarrow> (\<forall>img\<in>set (mImages b). imgHost img \<noteq> ''builder'' \<longrightarrow>
         map_of present (nameFor m cMeta b (imgHost img)) = Some True \<or> nameFor m cMeta b (imgHost img) \<in> set ps)"
    and settle: "list_all (\<lambda>cr. touches_tags cr \<longrightarrow> isl r \<and> taking_back m b staged ps cr) new'"
      "isl r \<longrightarrow> list_all (\<lambda>cr. \<not> replaces (getArtifactsFilename (mId b)) cr) new'" "\<forall>b'. r = Inr b' \<longrightarrow> failure = None \<and> b' = b"
  shows "ended m cMeta b present r (new @ new')"
proof -
  have p: "(ImagePush name, rep) \<in> set (new @ new') \<Longrightarrow> (ImagePush name, rep) \<in> set new" for name rep
    using settle(1) by (force simp: list_all_iff touches_tags_def taking_back_def)
  have d: "isl r \<and> taking_back m b staged ps (c, rep)" if "(c, rep) \<in> set (new @ new')" "\<And>name. c \<noteq> ImagePush name" "touches_tags (c, rep)" for c rep
  proof -
    have "(c, rep) \<notin> set new" using that(2) push(1) pushing_only by (fastforce simp: list_all_iff)
    then show ?thesis using that(1,3) settle(1) by (simp add: list_all_iff)
  qed
  have k: "list_all (\<lambda>cr. \<not> replaces (getArtifactsFilename (mId b)) cr) new"
    using push(1) by (rule list.pred_mono_strong) (auto simp: replaces_def dest: pushing_only)
  show ?thesis
    unfolding ended_def
  proof (intro conjI allI impI)
    fix name rep assume "(ImagePush name, rep) \<in> set (new @ new')"
    then have "(ImagePush name, rep) \<in> set new" by (rule p)
    with push(1,2) show "challengeRegistry m \<noteq> ''''" "map_of present name \<noteq> Some True"
        "\<exists>img\<in>set (mImages b). imgHost img \<noteq> ''builder'' \<and> name = nameFor m cMeta b (imgHost img)"
      by (force simp: list_all_iff pushing_def)+
  next
    fix name rep assume "(RegistryDelete name, rep) \<in> set (new @ new')"
    from d [OF this] have "isl r" "taking_back m b staged ps (RegistryDelete name, rep)" by (auto simp: touches_tags_def)
    then show "isl r" "free (db m) b" "list_ex (pushedOk name) (new @ new')"
      using push(3) by (auto simp: taking_back_def free_def)
  next
    fix c name rep assume "(ImageRemove c name, rep) \<in> set (new @ new')"
    from d [OF this] show "isl r" "free (db m) b" by (auto simp: touches_tags_def taking_back_def free_def)
  qed (use k settle(2,3) push(3,4) in auto)
qed

lemma concludeBuild_logs:
  assumes "staged_ok b ex"
  shows "logs m (concludeBuild cMeta b present cid ex) (ended m cMeta b present)"
  unfolding concludeBuild_def
proof (rule logs_seq [OF push_stage_logs])
  fix x new m1
  assume x: "\<exists>ps failure. Inr x = (Inr (ps, failure) :: err + string list \<times> err option) \<and>
        list_all (pushing (nameFor m cMeta b) present (mImages b)) new \<and> (new \<noteq> [] \<longrightarrow> challengeRegistry m \<noteq> '''') \<and>
        (\<forall>name\<in>set ps. list_ex (pushedOk name) new) \<and>
        (failure = None \<longrightarrow> challengeRegistry m \<noteq> '''' \<longrightarrow> (\<forall>img\<in>set (mImages b). imgHost img \<noteq> ''builder'' \<longrightarrow>
           map_of present (nameFor m cMeta b (imgHost img)) = Some True \<or> nameFor m cMeta b (imgHost img) \<in> set ps))"
    and m1: "steady m m1"
  obtain ps failure where xs: "x = (ps, failure)" by fastforce
  have push: "list_all (pushing (nameFor m cMeta b) present (mImages b)) new" "new \<noteq> [] \<longrightarrow> challengeRegistry m \<noteq> ''''"
      "\<forall>name\<in>set ps. list_ex (pushedOk name) new"
      "failure = None \<longrightarrow> challengeRegistry m \<noteq> '''' \<longrightarrow> (\<forall>img\<in>set (mImages b). imgHost img \<noteq> ''builder'' \<longrightarrow>
         map_of present (nameFor m cMeta b (imgHost img)) = Some True \<or> nameFor m cMeta b (imgHost img) \<in> set ps)"
    using x unfolding xs by blast+
  have same: "taking_back m1 = taking_back m"
    unfolding taking_back_def steady_settings(3) [OF m1] steady_names(2) [OF m1] fun_eq_iff by simp
  have "logs m1 (settleBuild b cid (exStaged ex) ps failure) (\<lambda>r' new'. ended m cMeta b present r' (new @ new'))"
    by (rule logs_mono [OF settleBuild_logs [of _ "getArtifactsFilename (mId b)"]], use assms plain_names(4) in \<open>simp add: staged_ok_def\<close>)
       (elim conjE, rule ended_compose [OF push], simp_all add: same)
  then show "logs m1 (case x of (pushed, failure) \<Rightarrow> settleBuild b cid (exStaged ex) pushed failure) (\<lambda>r' new'. ended m cMeta b present r' (new @ new'))"
    by (simp add: xs)
qed simp

text \<open>A whole build, with what the registry was asked.\<close>

definition calm :: "string \<Rightarrow> dockerCall \<times> dockerReply \<Rightarrow> bool" where
  "calm fn cr \<longleftrightarrow> \<not> touches_tags cr \<and> \<not> replaces fn cr"

interpretation calm: staging "calm (getArtifactsFilename i)" for i
  by unfold_locales (auto simp: calm_def touches_tags_def replaces_def base_Join plain_names)

definition finished :: "manager \<Rightarrow> challengeMeta \<Rightarrow> buildMeta \<Rightarrow> err + buildMeta \<Rightarrow> callLog \<Rightarrow> bool" where
  "finished m cMeta b r new \<longleftrightarrow>
     (\<forall>name rep. (ImagePush name, rep) \<in> set new \<longrightarrow> list_ex (inspected False name) new) \<and>
     (\<forall>name rep. (RegistryDelete name, rep) \<in> set new \<longrightarrow> isl r \<and> free (db m) b \<and> list_ex (pushedOk name) new) \<and>
     (\<forall>c name rep. (ImageRemove c name, rep) \<in> set new \<longrightarrow> isl r \<and> free (db m) b) \<and>
     (isl r \<longrightarrow> list_all (\<lambda>cr. \<not> replaces (getArtifactsFilename (mId b)) cr) new) \<and>
     (\<forall>b'. r = Inr b' \<longrightarrow> nameFor m cMeta b' = nameFor m cMeta b \<and>
        (challengeRegistry m \<noteq> '''' \<longrightarrow> (\<forall>img\<in>set (mImages b'). imgHost img \<noteq> ''builder'' \<longrightarrow>
           list_ex (inspected True (nameFor m cMeta b (imgHost img))) new \<or> list_ex (pushedOk (nameFor m cMeta b (imgHost img))) new)))"

lemma calm_members:
  assumes "list_all (calm fn) new"
  shows "(ImagePush name, rep) \<notin> set new" "(RegistryDelete name, rep) \<notin> set new" "(ImageRemove c name, rep) \<notin> set new"
    "list_all (\<lambda>cr. \<not> replaces fn cr) new"
  using assms by (auto simp: list_all_iff calm_def touches_tags_def)

lemma finished_quiet: "list_all (calm (getArtifactsFilename (mId b))) new \<Longrightarrow> finished m cMeta b (Inl e) new"
  by (simp add: finished_def calm_members)

lemma finished_ended:
  assumes before: "list_all (calm (getArtifactsFilename (mId b))) before" "backed [] present before"
      "challengeRegistry m \<noteq> '''' \<Longrightarrow> \<forall>img\<in>set (mImages b1). imgHost img \<noteq> ''builder'' \<longrightarrow> nameFor m cMeta b (imgHost img) \<in> dom (map_of present)"
    and ended: "ended m cMeta b1 present r new" and after: "list_all (calm (getArtifactsFilename (mId b))) after"
    and same: "mId b1 = mId b" "free (db m) b1 = free (db m) b" "nameFor m cMeta b1 = nameFor m cMeta b"
  shows "finished m cMeta b r (before @ new @ after)"
proof -
  have known: "list_ex (inspected p name) before" if "map_of present name = Some p" for name p
    using before(2) that by (simp add: backed_def)
  have absent: "list_ex (inspected False name) before" if push: "(ImagePush name, rep) \<in> set new" for name rep
  proof -
    have "challengeRegistry m \<noteq> ''''" "map_of present name \<noteq> Some True" "name \<in> dom (map_of present)"
      using ended push before(3) unfolding ended_def same by blast+
    then have "map_of present name = Some False" by auto
    then show ?thesis by (rule known)
  qed
  show ?thesis
    unfolding finished_def
  proof (intro conjI allI impI)
    show "list_ex (inspected False name) (before @ new @ after)" if "(ImagePush name, rep) \<in> set (before @ new @ after)" for name rep
      using that absent calm_members [OF before(1)] calm_members [OF after] by auto
    show "isl r" "free (db m) b" "list_ex (pushedOk name) (before @ new @ after)"
      if "(RegistryDelete name, rep) \<in> set (before @ new @ after)" for name rep
      using that ended calm_members [OF before(1)] calm_members [OF after] unfolding ended_def same by auto
    show "isl r" "free (db m) b" if "(ImageRemove c name, rep) \<in> set (before @ new @ after)" for c name rep
      using that ended calm_members [OF before(1)] calm_members [OF after] unfolding ended_def same by auto
  qed (use ended known calm_members [OF before(1)] calm_members [OF after] in \<open>auto simp: ended_def same\<close>)
qed

lemma produceBuild_logs:
  assumes before: "list_all (calm (getArtifactsFilename (mId b))) before" "backed [] present before"
      "challengeRegistry m \<noteq> '''' \<Longrightarrow> \<forall>img\<in>set imgs. imgHost img \<noteq> ''builder'' \<longrightarrow> nameFor m cMeta b (imgHost img) \<in> dom (map_of present)"
    and m1: "steady m m1"
  shows "logs m1 (produceBuild env cMeta b present imgs buildImage) (\<lambda>r new. finished m cMeta b r (before @ new))"
proof -
  let ?fn = "getArtifactsFilename (mId b)"
  let ?b = "\<lambda>ex :: extraction. b\<lparr>mFlag := exFlag ex, mLookup := exLookups ex, mImages := imgs, mHasArtifacts := (exFiles ex \<noteq> [])\<rparr>"
  define E where "E = (\<lambda>r mid. \<exists>ex. ended m cMeta (?b ex) present r mid)"
  note ext_logs = logs_conj [OF calm.o_extractBuild [of _ b _ "mId b"] extractBuild_staged]
  have ended: "ended m2 = ended m" if "steady m m2" for m2
    by (simp add: fun_eq_iff ended_def steady_settings(1,3) [OF that] steady_names(1) [OF that])
  have inner: "logs m2 (bnd (extractBuild b cid) (\<lambda>ex. concludeBuild cMeta (?b ex) present cid ex))
      (\<lambda>r new. \<exists>pre mid. new = pre @ mid \<and> list_all (calm ?fn) pre \<and> (mid = [] \<and> isl r \<or> E r mid))"
    if m2: "steady m m2" for m2 cid
  proof (rule logs_seq [OF ext_logs])
    fix ex new m3
    assume ex: "each (calm ?fn) (Inr ex) new \<and> (\<forall>ex'. Inr ex = Inr ex' \<longrightarrow> staged_ok b ex')" and m3: "steady m2 m3"
    then have ok: "staged_ok (?b ex) ex" by (simp add: staged_ok_def stagedName_def)
    show "logs m3 (concludeBuild cMeta (?b ex) present cid ex)
      (\<lambda>r' new'. \<exists>pre mid. new @ new' = pre @ mid \<and> list_all (calm ?fn) pre \<and> (mid = [] \<and> isl r' \<or> E r' mid))"
    proof (rule logs_mono [OF concludeBuild_logs [OF ok]])
      fix r' new' assume "ended m3 cMeta (?b ex) present r' new'"
      then have "E r' new'" unfolding E_def ended [OF steady_trans [OF m2 m3]] by (rule exI)
      moreover have "list_all (calm ?fn) new" using ex by (simp add: each_def)
      ultimately show "\<exists>pre mid. new @ new' = pre @ mid \<and> list_all (calm ?fn) pre \<and> (mid = [] \<and> isl r' \<or> E r' mid)" by blast
    qed
  qed (auto simp: each_def)
  have same: "free (db m) (?b ex) = free (db m) b" "nameFor m cMeta (?b ex) = nameFor m cMeta b" for ex
    by (simp_all add: free_def needed_elsewhere_def fun_eq_iff nameFor_def)
  have step: "calm ?fn (ExtractCreate n p, rep)" "calm ?fn (ContainerRemove c n, rep)" for n p c rep
    by (rule calm.asking)+
  have whole: "finished m cMeta b r (before @ (ExtractCreate n p, rep) # new @ [(ContainerRemove c n', rep')])"
    if "\<exists>pre mid. new = pre @ mid \<and> list_all (calm ?fn) pre \<and> (mid = [] \<and> isl r \<or> E r mid)"
    for r new n p rep c n' rep'
  proof -
    from that obtain pre mid where new: "new = pre @ mid" "list_all (calm ?fn) pre" "mid = [] \<and> isl r \<or> E r mid"
      by blast
    from new(3) show ?thesis
    proof
      assume "mid = [] \<and> isl r"
      then show ?thesis using new before(1) step by (cases r) (auto intro!: finished_quiet)
    next
      assume "E r mid"
      then obtain ex where ended: "ended m cMeta (?b ex) present r mid" unfolding E_def ..
      have "finished m cMeta b r ((before @ (ExtractCreate n p, rep) # pre) @ mid @ [(ContainerRemove c n', rep')])"
        using before(2,3) by (intro finished_ended [OF _ _ _ ended _ _ same]) (simp_all add: before(1) new step backed_def)
      then show ?thesis by (simp add: new)
    qed
  qed
  show ?thesis unfolding produceBuild_def
  proof (rule logs_dockerDo_bnd, rule logs_cases)
    fix rep :: dockerReply and m2 assume "steady m1 m2" and r: "rErr rep = None"
    then have "steady m m2" using m1 steady_trans by blast
    note inner = logs_tryIO [of _ _ "\<lambda>r new. \<exists>res. r = Inr res \<and> (\<exists>pre mid. new = pre @ mid \<and> list_all (calm ?fn) pre \<and>
        (mid = [] \<and> isl res \<or> E res mid))", simplified, OF inner [OF this]]
    show "logs m2 (bnd (tryIO (bnd (extractBuild b (rId rep)) (\<lambda>ex. concludeBuild cMeta (?b ex) present (rId rep) ex))) (\<lambda>res.
        bnd (dockerDo (ContainerRemove LocalClient (rId rep))) (\<lambda>_. case res of Inl e \<Rightarrow> fail e | Inr b' \<Rightarrow> ret b')))
        (\<lambda>r new. finished m cMeta b r (before @ (ExtractCreate buildImage (hostOSType (leSettings (beLaunch env)) = ''linux''), rep) # new))"
      by (rule logs_seq [OF inner]) (auto intro!: logs_dockerDo_bnd logs_basic whole split: sum.split)
  qed (auto intro!: logs_basic finished_quiet simp: before(1) step)
qed

lemma executeBuild_logs: "logs m (executeBuild env cMeta prior ctxFile) (finished m cMeta (stamped env cMeta prior))"
proof -
  let ?b = "stamped env cMeta prior" and ?fn = "getArtifactsFilename (mId (stamped env cMeta prior))"
  have resolve: "logs m (if challengeRegistry m \<noteq> '''' then resolveHosts cMeta ?b (cHosts cMeta) [] else ret [])
      (\<lambda>r new. list_all (calm ?fn) new \<and> (\<forall>present. r = Inr present \<longrightarrow> backed [] present new \<and>
         (challengeRegistry m \<noteq> '''' \<longrightarrow> (\<forall>h\<in>fst ` set (cHosts cMeta). h \<noteq> ''builder'' \<longrightarrow> nameFor m cMeta ?b h \<in> dom (map_of present)))))"
    by (rule logs_cases, rule logs_mono [OF logs_conj [OF calm.o_resolveHosts resolveHosts_logs]])
       (auto simp: each_def backed_refl simp del: domIff intro!: logs_basic)
  note build = logs_conj [OF calm.o_buildHosts [of _ env cMeta prior ?b ctxFile _ "cHosts cMeta" "[]" "''''" "mId ?b"] buildHosts_logs]
  show ?thesis unfolding executeBuild_def Let_def
  proof (rule logs_gets_bnd, rule logs_seq [OF resolve])
    fix present before m1
    assume "list_all (calm ?fn) before \<and> (\<forall>present'. Inr present = Inr present' \<longrightarrow> backed [] present' before \<and>
         (challengeRegistry m \<noteq> '''' \<longrightarrow> (\<forall>h\<in>fst ` set (cHosts cMeta). h \<noteq> ''builder'' \<longrightarrow> nameFor m cMeta ?b h \<in> dom (map_of present'))))"
      and m1: "steady m m1"
    then have before: "list_all (calm ?fn) before" "backed [] present before"
      "challengeRegistry m \<noteq> '''' \<Longrightarrow> \<forall>h\<in>fst ` set (cHosts cMeta). h \<noteq> ''builder'' \<longrightarrow> nameFor m cMeta ?b h \<in> dom (map_of present)"
      by simp_all
    show "logs m1 (bnd (buildHosts env cMeta prior ?b ctxFile present (cHosts cMeta) [] '''') (\<lambda>(imgs, buildImage).
        if buildImage = '''' then fail [Msg ''aborting because no build image identified'']
        else produceBuild env cMeta ?b present imgs buildImage)) (\<lambda>r' new'. finished m cMeta ?b r' (before @ new'))"
    proof (rule logs_seq [OF build], goal_cases)
      case (1 e new)
      then show ?case using before(1) by (intro finished_quiet) (simp add: each_def)
    next
      case (2 x new m2)
      obtain imgs bi where x: "x = (imgs, bi)" by fastforce
      have new: "list_all (calm ?fn) (before @ new)" "imgHost ` set imgs = fst ` set (cHosts cMeta)" "backed [] present (before @ new)"
        using 2(1) before(1,2) by (auto simp: x each_def backed_def simp flip: set_map)
      then have "\<forall>img\<in>set imgs. imgHost img \<noteq> ''builder'' \<longrightarrow> nameFor m cMeta ?b (imgHost img) \<in> dom (map_of present)"
        if "challengeRegistry m \<noteq> ''''" using before(3) [OF that] by blast
      from produceBuild_logs [OF new(1,3) this steady_trans [OF m1 2(2)]] show ?case
        using new(1) by (simp add: x) (auto intro!: logs_basic finished_quiet)
    qed
  qed (simp add: finished_quiet)
qed

text \<open>
  C10. The registry is write-once. A build pushes a tag only after the registry said it does not hold
  it, takes a tag back out only if this very build had just pushed it and then failed, and when it
  succeeds every image its instances run from has been found in the registry or pushed to it: no
  row ever names a generation the workers cannot pull.
\<close>

theorem executeBuild_write_once:
  assumes "executeBuild env cMeta prior ctxFile m = (r, m')"
  shows "\<exists>new. calls m' = calls m @ new \<and>
    (\<forall>name rep. (ImagePush name, rep) \<in> set new \<longrightarrow> list_ex (inspected False name) new) \<and>
    (\<forall>name rep. (RegistryDelete name, rep) \<in> set new \<longrightarrow> isl r \<and> list_ex (pushedOk name) new) \<and>
    (\<forall>b. r = Inr b \<and> challengeRegistry m \<noteq> '''' \<longrightarrow> (\<forall>img\<in>set (mImages b). imgHost img \<noteq> ''builder'' \<longrightarrow>
       list_ex (inspected True (nameFor m cMeta b (imgHost img))) new \<or> list_ex (pushedOk (nameFor m cMeta b (imgHost img))) new))"
proof -
  obtain new where "calls m' = calls m @ new" "finished m cMeta (stamped env cMeta prior) r new"
    using logsE [OF executeBuild_logs assms] by blast
  then show ?thesis unfolding finished_def by (intro exI [of _ new]) auto
qed


section \<open>Runs\<close>

definition sample_benv :: buildEnv where
  "sample_benv = \<lparr>beLaunch = start_env, beSum = (\<lambda>_ _ _. 5), beSha256 = (\<lambda>_. ''0123456789''), beSprintf = (\<lambda>_ s. s),
     beContext = (\<lambda>_. Inr ''ctx''),
     beNormalize = Inr, beInventory = (\<lambda>_. ([], [])), beChalDir = ''/''\<rparr>"

definition sample_cmeta :: challengeMeta where
  "sample_cmeta = challengeMeta_of (sample_challenge\<lparr>cHosts := [(''challenge'', '''')], cOverrides := []\<rparr>) []"

definition tree_of :: "(string \<times> string) list \<Rightarrow> tarItem" where
  "tree_of kv = \<lparr>tiName = ''challenge/metadata.json'', tiJson = Inr kv, tiArchive = sample_archive\<rparr>"

text \<open>A first build against an empty registry.\<close>

definition registry_manager :: manager where
  "registry_manager = sample_store\<lparr>challengeRegistry := ''reg:5000'', replies :=
     [okReply\<lparr>rErr := Some [NotFound]\<rparr>, okReply, okReply, okReply\<lparr>rId := ''c1''\<rparr>, okReply\<lparr>rTree := [tree_of [(''flag'', ''f'')]]\<rparr>]\<rparr>"

definition registry_run :: "(err + buildMeta) \<times> manager" where
  "registry_run = executeBuild sample_benv sample_cmeta (sample_build\<lparr>mChecksum := 0\<rparr>) ''ctx'' registry_manager"

lemma registry_run_result:
  "\<not> isl (fst registry_run)" "map imgHost (mImages (projr (fst registry_run))) = [''challenge'']"
  "\<not> list_ex (inspected True (nameFor registry_manager sample_cmeta (projr (fst registry_run)) ''challenge'')) (calls (snd registry_run))"
  "calls registry_manager = []" "challengeRegistry registry_manager = ''reg:5000''"
  by code_simp+


theorem executeBuild_write_once_witness:
  "list_ex (pushedOk (nameFor registry_manager sample_cmeta (projr (fst registry_run)) ''challenge'')) (calls (snd registry_run))"
proof -
  obtain b m' where run: "registry_run = (Inr b, m')" using registry_run_result(1) by (metis prod.collapse sum.collapse(2))
  have "''challenge'' \<in> imgHost ` set (mImages b)" using registry_run_result(2) by (simp add: run flip: set_map)
  then obtain img where "img \<in> set (mImages b)" "imgHost img = ''challenge''" by force
  moreover have "\<exists>new. calls m' = calls registry_manager @ new \<and>
     (\<forall>b'. Inr b = Inr b' \<and> challengeRegistry registry_manager \<noteq> '''' \<longrightarrow> (\<forall>img\<in>set (mImages b'). imgHost img \<noteq> ''builder'' \<longrightarrow>
        list_ex (inspected True (nameFor registry_manager sample_cmeta b' (imgHost img))) new \<or>
        list_ex (pushedOk (nameFor registry_manager sample_cmeta b' (imgHost img))) new))"
    using executeBuild_write_once [OF run [unfolded registry_run_def]] by blast
  ultimately show ?thesis using registry_run_result(3-5) by (auto simp: run)
qed

text \<open>
  The same sources are built again on a host without a registry, and the description now refers to
  a value the build does not provide.
\<close>

definition reverted_store :: manager where
  "reverted_store = sample_store\<lparr>replies := [okReply, okReply, okReply\<lparr>rId := ''c1''\<rparr>, okReply\<lparr>rTree := [tree_of [(''flag'', ''f'')]]\<rparr>]\<rparr>"

definition reverted_run :: "(err + buildMeta) \<times> manager" where
  "reverted_run = executeBuild sample_benv (sample_cmeta\<lparr>cDetails := ''{{lookup(\"gone\")}}''\<rparr>) sample_build ''ctx'' reverted_store"

lemma reverted_run_result:
  "isl (fst reverted_run)"
  "list_ex (\<lambda>(c, _). c = ImageRemove LocalClient (imageName reverted_store sample_build ''challenge'')) (calls (snd reverted_run))"
  "calls reverted_store = []" "mPrevChecksum sample_build = 0"
  "map (\<lambda>r. (bChallenge r, bSeed r, bChecksum r)) (builds (db reverted_store)) =
     [(mChallenge sample_build, mSeed sample_build, mChecksum (stamped sample_benv sample_cmeta sample_build))]"
  by code_simp+


text \<open>
  The row a failing build is for is not asked. When the sources went back to what the row already
  serves and the build of them fails (here: the description names a value no build provides), the
  tags of the generation the row goes on serving are removed: only its rollback generation and the
  other rows protect content.
\<close>

theorem failed_build_untags_what_its_row_serves:
  "isl (fst reverted_run) \<and> db (snd reverted_run) = db reverted_store \<and>
   (\<exists>row\<in>set (builds (db reverted_store)). bId row = mId sample_build \<and> bChecksum row = mChecksum sample_build \<and>
      (\<exists>rep. (ImageRemove LocalClient (imageName reverted_store sample_build ''challenge''), rep) \<in> set (calls (snd reverted_run))))"
proof -
  obtain e m' where run: "reverted_run = (Inl e, m')" using reverted_run_result(1) by (metis prod.collapse sum.collapse(1))
  have "steady reverted_store m'" using logsE [OF executeBuild_logs run [unfolded reverted_run_def]] by blast
  moreover have "builds (db reverted_store) = [sample_row]" by (simp add: reverted_store_def)
  moreover have "bChecksum sample_row = mChecksum sample_build" by (simp add: sample_row_def sample_build_def)
  ultimately show ?thesis using reverted_run_result(2) by (auto simp: run steady_settings list_ex_iff)
qed

end
