(* ===== verification/Preload.thy ===== *)
theory Preload
  imports Build_Trace "HOL-Library.Multiset"
begin

text \<open>
  Preloading (\<open>src/cork/preload.go\<close>): which images the preloaded schemas launch, the pass that
  has a worker pull what it lacks and then takes off what no build launches any more, and adding
  and removing preloads. A pass takes no lock; what other requests do meanwhile is the argument
  \<open>others\<close>, applied while the pass waits for its turn to pull, before the tables are read for
  the removals, and between removals. Sets of names are lists.
\<close>

section \<open>What preloading involves\<close>

record preloadSets =
  psSchemas :: "string list"
  psBySchema :: "(string \<times> string list) list"
  psWanted :: "string list" \<comment> \<open>every image a preloaded schema launches\<close>
  psNamed :: "string list" \<comment> \<open>every image any current build launches\<close>
  psRepos :: "string list" \<comment> \<open>repositories of preloaded challenges\<close>

definition noSets :: preloadSets where
  "noSets = \<lparr>psSchemas = [], psBySchema = [], psWanted = [], psNamed = [], psRepos = []\<rparr>"

text \<open>The rows of the join of builds, images and challenges, built ones only, with the number of ports.\<close>

record launchRow =
  lrSchema :: string
  lrChallenge :: string
  lrSeed :: int
  lrChecksum :: "32 word"
  lrHost :: string
  lrType :: string
  lrPortCount :: nat

definition launchRows :: "database \<Rightarrow> launchRow list" where
  "launchRows d =
     concat (map (\<lambda>b. concat (map (\<lambda>i. map (\<lambda>c.
         \<lparr>lrSchema = bSchema b, lrChallenge = bChallenge b, lrSeed = bSeed b, lrChecksum = bChecksum b, lrHost = imHost i,
          lrType = cType c, lrPortCount = length (filter (\<lambda>p. pnChallenge p = bChallenge b) (portNames d))\<rparr>)
         (filter (\<lambda>c. cId c = bChallenge b) (challenges d)))
       (filter (\<lambda>i. imBuild i = bId b \<and> imHost i \<noteq> ''builder'') (images d))))
     (filter (\<lambda>b. bChecksum b \<noteq> 0 \<and> bFlag b \<noteq> '''') (builds d)))"

definition launchName :: "string \<Rightarrow> launchRow \<Rightarrow> string" where
  "launchName registry r = instanceImageName registry (lrChallenge r) (lrSeed r) (lrChecksum r) (lrHost r)"

definition setPut :: "string \<Rightarrow> string list \<Rightarrow> string list" where
  "setPut x xs = (if x \<in> set xs then xs else xs @ [x])"

definition addLaunch :: "string \<Rightarrow> launchRow \<Rightarrow> preloadSets \<Rightarrow> preloadSets" where
  "addLaunch registry r sets0 =
     (let name = launchName registry r; sets = sets0\<lparr>psNamed := setPut name (psNamed sets0)\<rparr> in
      if lrSchema r \<notin> set (psSchemas sets) \<or> deriveDeliveryType (lrType r) (lrPortCount r) \<noteq> DeliveryService then sets
      else sets\<lparr>psWanted := setPut name (psWanted sets),
                psBySchema := map (\<lambda>(s, names). (s, if s = lrSchema r then names @ [name] else names)) (psBySchema sets),
                psRepos := setPut (imageRepository registry (lrChallenge r)) (psRepos sets)\<rparr>)"

definition preloadSetsOf :: "string \<Rightarrow> string list \<Rightarrow> launchRow list \<Rightarrow> preloadSets" where
  "preloadSetsOf registry schemas rows =
     (let sets = fold (addLaunch registry) rows (noSets\<lparr>psSchemas := schemas, psBySchema := map (\<lambda>s. (s, [])) schemas\<rparr>) in
      sets\<lparr>psBySchema := map (\<lambda>(s, names). (s, sortBy string_le names)) (psBySchema sets)\<rparr>)"

definition preloadSets_read :: "preloadSets mio" where
  "preloadSets_read =
     bnd (query preloads) (\<lambda>schemas.
     if schemas = [] then ret noSets
     else
       bnd (query launchRows) (\<lambda>rows.
       bnd (gets challengeRegistry) (\<lambda>registry.
       ret (preloadSetsOf registry schemas rows))))"

text \<open>An image name without its tag; the port of a registry is not a tag.\<close>

definition imageRepo :: "string \<Rightarrow> string" where
  "imageRepo name =
     (let r = rev name; tag = takeWhile (\<lambda>c. c \<noteq> CHR '':'') r in
      if CHR '':'' \<in> set r \<and> CHR ''/'' \<notin> set tag then rev (drop (Suc (length tag)) r) else name)"

definition missingImages :: "string list \<Rightarrow> string list \<Rightarrow> string list" where
  "missingImages wanted have = sortBy string_le (filter (\<lambda>name. name \<notin> set have) wanted)"

definition superseded :: "preloadSets \<Rightarrow> string list \<Rightarrow> string list \<Rightarrow> string list" where
  "superseded sets held tried =
     (let waiting = map imageRepo (filter (\<lambda>name. name \<notin> set held \<and> name \<notin> set tried) (psWanted sets)) in
      sortBy string_le (filter (\<lambda>tag. tag \<notin> set (psNamed sets) \<and> imageRepo tag \<in> set (psRepos sets) \<and> imageRepo tag \<notin> set waiting) held))"

definition releasedImages :: "preloadSets \<Rightarrow> preloadSets \<Rightarrow> string list" where
  "releasedImages old new =
     sortBy string_le (filter (\<lambda>name. \<not> (name \<in> set (psWanted new) \<or> name \<notin> set (psNamed new) \<and> imageRepo name \<in> set (psRepos new)))
       (psWanted old))"

section \<open>Adding and removing\<close>

definition AddPreload :: "string \<Rightarrow> unit mio" where
  "AddPreload schema =
     bnd (gets challengeRegistry) (\<lambda>registry.
     if registry = '''' then fail [Msg ''preloading needs a challenge registry'']
     else
       bnd (schemaExists schema) (\<lambda>known.
       if \<not> known then fail [UnknownIdentifierError ''schema'' schema]
       else exec (\<lambda>d. d\<lparr>preloads := setPut schema (preloads d)\<rparr>)))"

definition RemovePreload :: "string \<Rightarrow> string list mio" where
  "RemovePreload schema =
     bnd preloadSets_read (\<lambda>old.
     bnd (sql (\<lambda>d. (schema \<in> set (preloads d), d\<lparr>preloads := filter (\<lambda>s. s \<noteq> schema) (preloads d)\<rparr>))) (\<lambda>was.
     if \<not> was then fail [UnknownIdentifierError ''preload'' schema]
     else bnd preloadSets_read (\<lambda>new. ret (releasedImages old new))))"

section \<open>What a worker has got\<close>

record preloadStatus =
  plHeld :: "string list"
  plFailed :: "(string \<times> err) list"
  plPulling :: string
  plPasses :: nat \<comment> \<open>passes finished; the time of the last is not kept\<close>

definition plBegin :: "string list \<Rightarrow> preloadStatus \<Rightarrow> preloadStatus" where
  "plBegin held s = s\<lparr>plHeld := held, plFailed := []\<rparr>"

definition plPull :: "string \<Rightarrow> preloadStatus \<Rightarrow> preloadStatus" where
  "plPull name s = s\<lparr>plPulling := name\<rparr>"

definition plPulled :: "string \<Rightarrow> err option \<Rightarrow> preloadStatus \<Rightarrow> preloadStatus" where
  "plPulled name e s =
     (case e of
        Some e' \<Rightarrow> s\<lparr>plPulling := '''', plFailed := mapPut name e' (plFailed s)\<rparr>
      | None \<Rightarrow> s\<lparr>plPulling := '''', plHeld := setPut name (plHeld s)\<rparr>)"

definition plRemoved :: "string \<Rightarrow> preloadStatus \<Rightarrow> preloadStatus" where
  "plRemoved name s = s\<lparr>plHeld := filter (\<lambda>x. x \<noteq> name) (plHeld s)\<rparr>"

definition plFinish :: "preloadStatus \<Rightarrow> preloadStatus" where
  "plFinish s = s\<lparr>plPulling := '''', plPasses := Suc (plPasses s)\<rparr>"

record PreloadWorker =
  pwIP :: string
  pwReachable :: string
  pwHeld :: nat
  pwPulling :: string
  pwFailed :: "(string \<times> err) list"
  pwSeen :: bool

definition plReport :: "preloadStatus \<Rightarrow> string \<Rightarrow> workerReachable \<Rightarrow> string list \<Rightarrow> PreloadWorker" where
  "plReport s wip reach wanted =
     \<lparr>pwIP = wip, pwReachable = reachable_String reach, pwHeld = length (filter (\<lambda>i. i \<in> set (plHeld s)) wanted),
      pwPulling = (if plPulling s \<in> set wanted then plPulling s else ''''),
      pwFailed = concat (map (\<lambda>i. case map_of (plFailed s) i of None \<Rightarrow> [] | Some e \<Rightarrow> [(i, e)]) wanted),
      pwSeen = (plPasses s \<noteq> 0)\<rparr>"

record PreloadInfo =
  piSchema :: string
  piImages :: nat
  piWorkers :: "PreloadWorker list"

text \<open>\<open>status\<close> is what the preloader of a connection last established.\<close>

definition ListPreloads :: "(nat \<Rightarrow> preloadStatus) \<Rightarrow> PreloadInfo list mio" where
  "ListPreloads status =
     bnd preloadSets_read (\<lambda>sets.
     bnd (gets (\<lambda>m. concat (map (\<lambda>wip. case workers m wip of None \<Rightarrow> [] | Some w \<Rightarrow> [(wip, reachable w, status (cli w))]) (workerOrder m)))) (\<lambda>snaps.
     ret (map (\<lambda>schema.
         (let wanted = (case map_of (psBySchema sets) schema of None \<Rightarrow> [] | Some names \<Rightarrow> names) in
          \<lparr>piSchema = schema, piImages = length wanted, piWorkers = map (\<lambda>(wip, reach, st). plReport st wip reach wanted) snaps\<rparr>))
       (sortBy string_le (psSchemas sets)))))"

section \<open>Around an update\<close>

text \<open>
  What taking and letting go of the update lock note: what preloading covers before, and after it
  whether anything is preloaded and which images it no longer covers.
\<close>

definition notePreloading :: "bool mio" where
  "notePreloading = query (\<lambda>d. 0 < length (preloads d))"

definition lockUpdates :: "bool \<Rightarrow> preloadSets option mio" where
  "lockUpdates preloading =
     (if preloading
      then bnd (tryIO preloadSets_read) (\<lambda>r. ret (case r of Inl _ \<Rightarrow> None | Inr sets \<Rightarrow> Some sets))
      else ret None)"

definition unlockUpdates :: "bool \<Rightarrow> preloadSets option \<Rightarrow> (bool \<times> string list) mio" where
  "unlockUpdates preloading noted =
     bnd (tryIO preloadSets_read) (\<lambda>r.
     ret (case r of
            Inl _ \<Rightarrow> (preloading, [])
          | Inr now \<Rightarrow> (0 < length (psSchemas now), case noted of None \<Rightarrow> [] | Some sets \<Rightarrow> releasedImages sets now)))"

section \<open>The pass\<close>

definition preloadable :: "manager \<Rightarrow> workerConn \<Rightarrow> bool" where
  "preloadable m w =
     (\<not> gone m w \<and> (case workers m (ip w) of Some now \<Rightarrow> cli now = cli w \<and> reachable now = workerReachableOk | None \<Rightarrow> False))"

definition interfere :: "(nat \<Rightarrow> manager \<Rightarrow> manager) \<Rightarrow> nat \<Rightarrow> unit mio" where
  "interfere others k = modify (\<lambda>m. m\<lparr>db := db (others k m), workers := workers (others k m), doneClosed := doneClosed (others k m)\<rparr>)"

text \<open>Between removals only the worker's connection matters.\<close>

definition flicker :: "(nat \<Rightarrow> manager \<Rightarrow> manager) \<Rightarrow> nat \<Rightarrow> unit mio" where
  "flicker others k = modify (\<lambda>m. m\<lparr>workers := workers (others k m), doneClosed := doneClosed (others k m)\<rparr>)"

definition notePreloadError :: "workerConn \<Rightarrow> dockerReply \<Rightarrow> err \<Rightarrow> unit mio" where
  "notePreloadError w r e =
     (if errors_Is e DeadlineExceeded \<or> errors_Is e ErrPullTimeout then ret ()
      else noteFailure (ip w) (WorkerClient (cli w)) r e)"

definition workerImages :: "workerConn \<Rightarrow> string list mio" where
  "workerImages w =
     bnd (dockerDo (ImageList (WorkerClient (cli w)))) (\<lambda>r.
     (case rErr r of
        None \<Rightarrow> ret (remdups (rNames r))
      | Some e \<Rightarrow> bnd (notePreloadError w r e) (\<lambda>_. fail e)))"

definition removeWorkerImage :: "workerConn \<Rightarrow> string \<Rightarrow> err option mio" where
  "removeWorkerImage w ref =
     bnd (dockerDo (ImageRemove (WorkerClient (cli w)) ref)) (\<lambda>r.
     (case rErr r of
        None \<Rightarrow> ret None
      | Some e \<Rightarrow> if errors_Is e NotFound then ret None else bnd (notePreloadError w r e) (\<lambda>_. ret (Some e))))"

definition staleTagPrefix :: string where "staleTagPrefix = ''stale-''"

definition staleTag :: "string \<Rightarrow> string" where
  "staleTag ref = imageRepo ref @ '':'' @ staleTagPrefix @ trimPrefix ref (imageRepo ref @ '':'')"

definition isStale :: "string \<Rightarrow> bool" where
  "isStale ref = hasPrefix (trimPrefix ref (imageRepo ref @ '':'')) staleTagPrefix"

definition markStale :: "workerConn \<Rightarrow> string \<Rightarrow> preloadStatus \<Rightarrow> (err option \<times> preloadStatus) mio" where
  "markStale w tag s =
     (if isStale tag then ret (None, s)
      else
        bnd (dockerDo (ImageTag (WorkerClient (cli w)) tag (staleTag tag))) (\<lambda>r.
        bnd (case rErr r of
               None \<Rightarrow> removeWorkerImage w tag
             | Some e \<Rightarrow> bnd (notePreloadError w r e) (\<lambda>_. ret (Some e))) (\<lambda>failure.
        (case failure of
           Some e \<Rightarrow> ret (Some e, s)
         | None \<Rightarrow> ret (None, plRemoved tag s)))))"

fun removeEach :: "(nat \<Rightarrow> manager \<Rightarrow> manager) \<Rightarrow> workerConn \<Rightarrow> string list \<Rightarrow> preloadStatus \<Rightarrow> preloadStatus mio" where
  "removeEach others w [] s = ret s"
| "removeEach others w (tag # tags) s =
     bnd (flicker others (length tags)) (\<lambda>_.
     bnd (gets (\<lambda>m. preloadable m w)) (\<lambda>fine.
     if \<not> fine then ret s
     else
       bnd (removeWorkerImage w tag) (\<lambda>e.
       bnd (case e of
              Some e' \<Rightarrow> if errors_Is e' Conflict then markStale w tag s else ret (Some e', s)
            | None \<Rightarrow> ret (None, plRemoved tag s)) (\<lambda>(e2, s2).
       (case e2 of
          Some e' \<Rightarrow> if errors_Is e' DeadlineExceeded then ret s2 else removeEach others w tags s2
        | None \<Rightarrow> removeEach others w tags s2)))))"

definition removeSuperseded ::
    "(nat \<Rightarrow> manager \<Rightarrow> manager) \<Rightarrow> workerConn \<Rightarrow> string list \<Rightarrow> string list \<Rightarrow> preloadStatus \<Rightarrow> (bool \<times> preloadStatus) mio" where
  "removeSuperseded others w held tried s =
     bnd (interfere others 0) (\<lambda>_.
     bnd (tryIO preloadSets_read) (\<lambda>r.
     (case r of
        Inl _ \<Rightarrow> ret (True, s)
      | Inr sets \<Rightarrow> bnd (removeEach others w (superseded sets held tried) s) (\<lambda>s'. ret (False, s')))))"

text \<open>\<open>rand.Shuffle\<close>: positions from the last down, each swapped with one drawn at or below it.\<close>

fun shuffle :: "nat \<Rightarrow> string list \<Rightarrow> string list mio" where
  "shuffle 0 xs = ret xs"
| "shuffle (Suc i) xs =
     bnd (gets (\<lambda>m. case rands m of [] \<Rightarrow> 0 | r # _ \<Rightarrow> r mod (Suc (Suc i)))) (\<lambda>j.
     bnd (modify (\<lambda>m. m\<lparr>rands := tl (rands m)\<rparr>)) (\<lambda>_.
     shuffle i (xs[Suc i := xs ! j, j := xs ! Suc i])))"

text \<open>How waiting for one of the fleet's pull slots ends: with the slot, or with the connection gone.\<close>

definition acquirePreloadPull :: "bool mio" where
  "acquirePreloadPull =
     bnd (gets (\<lambda>m. case slotChoices m of [] \<Rightarrow> True | SlotTaken _ # _ \<Rightarrow> True | _ # _ \<Rightarrow> False)) (\<lambda>got.
     bnd (modify (\<lambda>m. m\<lparr>slotChoices := tl (slotChoices m)\<rparr>)) (\<lambda>_.
     ret got))"

text \<open>What the pulls end with: the images tried and how many failed, or the pass stopped with its answer.\<close>

fun pullEach ::
    "(nat \<Rightarrow> manager \<Rightarrow> manager) \<Rightarrow> workerConn \<Rightarrow> string list \<Rightarrow> string list \<Rightarrow> nat \<Rightarrow> preloadStatus \<Rightarrow>
     ((bool + string list \<times> nat) \<times> preloadStatus) mio" where
  "pullEach others w [] tried failures s = ret (Inr (tried, failures), s)"
| "pullEach others w (name # names) tried failures s =
     bnd (interfere others (length names)) (\<lambda>_.
     bnd acquirePreloadPull (\<lambda>got.
     bnd (gets (\<lambda>m. preloadable m w)) (\<lambda>fine.
     if \<not> got \<or> \<not> fine then ret (Inl False, s)
     else
       bnd (tryIO preloadSets_read) (\<lambda>now.
       (case now of
          Inl _ \<Rightarrow> ret (Inl True, s)
        | Inr sets \<Rightarrow>
            if name \<notin> set (psWanted sets) then pullEach others w names tried failures s
            else
              bnd (pullImage (WorkerClient (cli w)) name) (\<lambda>(e, r).
              bnd (case e of Some e' \<Rightarrow> notePreloadError w r e' | None \<Rightarrow> ret ()) (\<lambda>_.
              pullEach others w names (setPut name tried) (if e = None then failures else Suc failures)
                (plPulled name e (plPull name s)))))))))"

definition preloadPass ::
    "(nat \<Rightarrow> manager \<Rightarrow> manager) \<Rightarrow> workerConn \<Rightarrow> preloadStatus \<Rightarrow> (bool \<times> preloadStatus) mio" where
  "preloadPass others w s =
     bnd (gets (\<lambda>m. preloadable m w)) (\<lambda>fine.
     if \<not> fine then ret (False, s)
     else
       bnd (tryIO preloadSets_read) (\<lambda>r.
       (case r of
          Inl _ \<Rightarrow> ret (True, s)
        | Inr sets \<Rightarrow>
            if psSchemas sets = [] then ret (False, s)
            else
              bnd (tryIO (workerImages w)) (\<lambda>listed.
              (case listed of
                 Inl _ \<Rightarrow> ret (True, s)
               | Inr held \<Rightarrow>
                   (let pulls = missingImages (psWanted sets) held in
                    bnd (shuffle (length pulls - 1) pulls) (\<lambda>order.
                    bnd (pullEach others w order [] 0 (plBegin held s)) (\<lambda>(outcome, s1).
                    (case outcome of
                       Inl answer \<Rightarrow> ret (answer, plFinish s1)
                     | Inr (tried, failures) \<Rightarrow>
                         bnd (removeSuperseded others w held tried s1) (\<lambda>(unread, s2).
                         ret (0 < failures \<or> unread, plFinish s2)))))))))))"

text \<open>How long a pass waits for the next, in nanoseconds.\<close>

definition preloadSweepInterval :: int where "preloadSweepInterval = 300 * 10 ^ 9"
definition preloadRetryAfter :: int where "preloadRetryAfter = 30 * 10 ^ 9"

definition nextRetry :: "bool \<Rightarrow> int \<Rightarrow> int" where
  "nextRetry failed retryIn = (if failed then min (2 * retryIn) preloadSweepInterval else preloadRetryAfter)"

section \<open>What the sets hold\<close>

lemma set_setPut [simp]: "set (setPut x xs) = insert x (set xs)"
  by (auto simp: setPut_def)

definition preloadedRow :: "string list \<Rightarrow> launchRow \<Rightarrow> bool" where
  "preloadedRow schemas r \<longleftrightarrow> lrSchema r \<in> set schemas \<and> deriveDeliveryType (lrType r) (lrPortCount r) = DeliveryService"

lemma fold_addLaunch:
  "psSchemas (fold (addLaunch reg) rows s) = psSchemas s"
  "set (psNamed (fold (addLaunch reg) rows s)) = set (psNamed s) \<union> launchName reg ` set rows"
  "set (psWanted (fold (addLaunch reg) rows s)) = set (psWanted s) \<union> launchName reg ` {r \<in> set rows. preloadedRow (psSchemas s) r}"
  "set (psRepos (fold (addLaunch reg) rows s)) =
     set (psRepos s) \<union> (imageRepository reg \<circ> lrChallenge) ` {r \<in> set rows. preloadedRow (psSchemas s) r}"
proof (induction rows arbitrary: s)
  case (Cons r rows)
  {
    case 1 show ?case using Cons.IH(1) by (simp add: addLaunch_def Let_def)
  next
    case 2 show ?case using Cons.IH(2) by (auto simp: addLaunch_def Let_def)
  next
    case 3 show ?case using Cons.IH(3) by (auto simp: addLaunch_def Let_def preloadedRow_def)
  next
    case 4 show ?case using Cons.IH(4) by (auto simp: addLaunch_def Let_def preloadedRow_def)
  }
qed simp_all

lemma preloadSetsOf_sets:
  "psSchemas (preloadSetsOf reg schemas rows) = schemas"
  "set (psNamed (preloadSetsOf reg schemas rows)) = launchName reg ` set rows"
  "set (psWanted (preloadSetsOf reg schemas rows)) = launchName reg ` {r \<in> set rows. preloadedRow schemas r}"
  "set (psRepos (preloadSetsOf reg schemas rows)) = (imageRepository reg \<circ> lrChallenge) ` {r \<in> set rows. preloadedRow schemas r}"
  by (simp_all add: preloadSetsOf_def Let_def fold_addLaunch noSets_def)

text \<open>The sets of the tables as they are.\<close>

definition currentSets :: "manager \<Rightarrow> preloadSets" where
  "currentSets m = (if preloads (db m) = [] then noSets else preloadSetsOf (challengeRegistry m) (preloads (db m)) (launchRows (db m)))"

lemma reads_preloadSets [reads_intros]: "reads preloadSets_read"
  unfolding preloadSets_read_def by (intro reads_intros)

lemma preloadSets_read_current: "preloadSets_read m = (Inr sets, m') \<Longrightarrow> sets = currentSets m"
  by (auto simp: preloadSets_read_def bnd_def query_def sql_def currentSets_def split: list.splits option.splits if_splits)

lemma logs_preloadSets: "logs m (tryIO preloadSets_read) (\<lambda>r new. new = [] \<and> (\<exists>a. r = Inr a \<and> (\<forall>sets. a = Inr sets \<longrightarrow> sets = currentSets m)))"
  by (rule logs_tryIO, rule logs_reads [OF reads_preloadSets]) (auto dest: preloadSets_read_current)

lemma currentSets_steady: "steady m m' \<Longrightarrow> currentSets m' = currentSets m"
  by (simp add: currentSets_def steady_settings)

text \<open>What a removal may be of: a tag the worker listed, that nothing in the tables launches, in the repository of a preloaded challenge.\<close>

definition outdated :: "manager \<Rightarrow> string \<Rightarrow> bool" where
  "outdated m tag \<longleftrightarrow>
     list_all (\<lambda>r. launchName (challengeRegistry m) r \<noteq> tag) (launchRows (db m)) \<and>
     list_ex (\<lambda>r. preloadedRow (preloads (db m)) r \<and> imageRepository (challengeRegistry m) (lrChallenge r) = imageRepo tag) (launchRows (db m))"

text \<open>What a pull may be of: an image that a preloaded schema launches.\<close>

definition covered :: "manager \<Rightarrow> string \<Rightarrow> bool" where
  "covered m name \<longleftrightarrow> list_ex (\<lambda>r. preloadedRow (preloads (db m)) r \<and> launchName (challengeRegistry m) r = name) (launchRows (db m))"

lemma covered_iff: "name \<in> set (psWanted (currentSets m)) \<longleftrightarrow> covered m name"
  by (auto simp: currentSets_def covered_def preloadSetsOf_sets noSets_def list_ex_iff preloadedRow_def)

lemma outdated_steady: "steady m m' \<Longrightarrow> outdated m' = outdated m"
  by (simp add: outdated_def [abs_def] steady_settings)

lemma outdated_iff: "tag \<notin> set (psNamed (currentSets m)) \<and> imageRepo tag \<in> set (psRepos (currentSets m)) \<longleftrightarrow> outdated m tag"
  by (auto simp: currentSets_def outdated_def preloadSetsOf_sets noSets_def list_all_iff list_ex_iff preloadedRow_def image_iff)

lemma superseded_outdated: "tag \<in> set (superseded (currentSets m) held tried) \<Longrightarrow> tag \<in> set held \<and> outdated m tag"
  unfolding outdated_iff [symmetric] by (simp add: superseded_def Let_def set_sortBy)

text \<open>Once every wanted image is held or has been tried, no repository waits.\<close>

lemma superseded_all:
  assumes "\<And>name. covered m name \<Longrightarrow> name \<in> set held \<or> name \<in> set tried"
  shows "set (superseded (currentSets m) held tried) = {tag \<in> set held. outdated m tag}"
proof -
  have "filter (\<lambda>name. name \<notin> set held \<and> name \<notin> set tried) (psWanted (currentSets m)) = []"
    using assms by (auto simp: filter_empty_conv covered_iff)
  then show ?thesis unfolding outdated_iff [symmetric] by (simp add: superseded_def set_sortBy)
qed

section \<open>The calls of a pass\<close>

text \<open>A call that takes an image off the worker, or replaces its tag by the stale one.\<close>

definition removes :: "workerConn \<Rightarrow> (string \<Rightarrow> bool) \<Rightarrow> dockerCall \<times> dockerReply \<Rightarrow> bool" where
  "removes w P cr =
     (case fst cr of
        ImageRemove c tag \<Rightarrow> c = WorkerClient (cli w) \<and> P tag
      | ImageTag c tag target \<Rightarrow> c = WorkerClient (cli w) \<and> P tag \<and> target = staleTag tag
      | _ \<Rightarrow> False)"

lemma removes_calls [simp]:
  "removes w P (ImageRemove (WorkerClient (cli w)) tag, rep) = P tag"
  "removes w P (ImageTag (WorkerClient (cli w)) tag target, rep) = (P tag \<and> target = staleTag tag)"
  by (simp_all add: removes_def)

lemma logs_modify: "steady m (g m) \<Longrightarrow> calls (g m) = calls m \<Longrightarrow> Q (Inr ()) [] \<Longrightarrow> logs m (modify g) Q"
  by (simp add: logs_def)

lemma noteFailure_each: "logs m (noteFailure worker client r e) (each P)"
  unfolding noteFailure_def
  by (rule logs_modify) (auto simp: noteWorkerTransportError_def Let_def steady_def config_def split: option.split)

lemma notePreloadError_each: "logs m (notePreloadError w r e) (each P)"
  unfolding notePreloadError_def by (intro each_intros noteFailure_each)

lemma flicker_each: "logs m (flicker others k) (each P)"
  unfolding flicker_def by (rule logs_modify) (simp_all add: steady_def config_def)

lemma removeWorkerImage_each: "P tag \<Longrightarrow> logs m (removeWorkerImage w tag) (each (removes w P))"
  unfolding removeWorkerImage_def by (intro each_intros notePreloadError_each) simp

lemma markStale_each: "P tag \<Longrightarrow> logs m (markStale w tag s) (each (removes w P))"
  unfolding markStale_def by (intro each_intros notePreloadError_each removeWorkerImage_each) simp_all

lemma removeEach_each: "list_all P tags \<Longrightarrow> logs m (removeEach others w tags s) (each (removes w P))"
proof (induction tags arbitrary: m s)
  case Nil
  show ?case unfolding removeEach.simps by (rule each_basic)
next
  case (Cons tag tags)
  then show ?case unfolding removeEach.simps
    by (intro each_intros flicker_each removeWorkerImage_each markStale_each) simp_all
qed

lemma removeSuperseded_calls:
  assumes "removeSuperseded others w held tried s m = (r, m')"
  shows "\<exists>new. calls m' = calls m @ new \<and> list_all (removes w (\<lambda>tag. tag \<in> set held \<and> outdated m' tag)) new"
proof -
  define m1 where "m1 = snd (interfere others 0 m)"
  have m1: "interfere others 0 m = (Inr (), m1)" "calls m1 = calls m" by (simp_all add: m1_def interfere_def)
  let ?P = "\<lambda>tag. tag \<in> set held \<and> outdated m1 tag"
  let ?rest = "bnd (tryIO preloadSets_read) (\<lambda>r. case r of Inl _ \<Rightarrow> ret (True, s)
      | Inr sets \<Rightarrow> bnd (removeEach others w (superseded sets held tried) s) (\<lambda>s'. ret (False, s')))"
  have run: "?rest m1 = (r, m')" using assms m1(1) by (simp add: removeSuperseded_def bnd_Inr)
  have "logs m1 ?rest (each (removes w ?P))"
  proof (rule logs_seq [OF logs_preloadSets], simp, goal_cases)
    case (1 x new m2)
    then have "list_all ?P (superseded sets held tried)" if "x = Inr sets" for sets
      using that superseded_outdated [of _ m1] by (auto simp: list_all_iff)
    then have "logs m2 (case x of Inl _ \<Rightarrow> ret (True, s)
        | Inr sets \<Rightarrow> bnd (removeEach others w (superseded sets held tried) s) (\<lambda>s'. ret (False, s'))) (each (removes w ?P))"
      by (intro each_intros removeEach_each)
    then show ?case using 1 by simp
  qed
  from logsE [OF this run] obtain new where new: "calls m' = calls m1 @ new" "steady m1 m'" "list_all (removes w ?P) new"
    unfolding each_def by blast
  then show ?thesis using m1(2) outdated_steady [OF new(2)] by auto
qed

text \<open>Composing runs of which every call is of one kind, whatever else happens to the state.\<close>

abbreviation makesOnly :: "(dockerCall \<times> dockerReply \<Rightarrow> bool) \<Rightarrow> 'a mio \<Rightarrow> bool" where
  "makesOnly P f \<equiv> makes f (\<lambda>_ new. list_all P new)"

lemma only_bnd: "makesOnly P f \<Longrightarrow> (\<And>x. makesOnly P (g x)) \<Longrightarrow> makesOnly P (bnd f g)"
  by (rule makes_bnd) (auto intro: makes_mono)

lemma only_silent: "silent f \<Longrightarrow> makesOnly P f"
  by (drule makes_silent) (auto intro: makes_mono)

lemma only_cases:
  "makesOnly P f \<Longrightarrow> makesOnly P g \<Longrightarrow> makesOnly P (if b then f else g)"
  "makesOnly P f \<Longrightarrow> (\<And>x. makesOnly P (h x)) \<Longrightarrow> makesOnly P (case z of None \<Rightarrow> f | Some x \<Rightarrow> h x)"
  "(\<And>x. makesOnly P (k x)) \<Longrightarrow> (\<And>y. makesOnly P (l y)) \<Longrightarrow> makesOnly P (case s of Inl x \<Rightarrow> k x | Inr y \<Rightarrow> l y)"
  "(\<And>x y. makesOnly P (n x y)) \<Longrightarrow> makesOnly P (case p of (x, y) \<Rightarrow> n x y)"
  by (cases b; cases z; cases s; cases p; simp)+

lemma only_dockerDo: "(\<And>rep. P (c, rep)) \<Longrightarrow> makesOnly P (dockerDo c)"
  by (rule makes_mono [OF makes_dockerDo]) auto

lemma silent_modify: "(\<And>m. calls (g m) = calls m) \<Longrightarrow> silent (modify g)"
  by (simp add: silent_def stays_def)

lemma silent_pass:
  "silent (interfere others k)" "silent acquirePreloadPull" "silent (tryIO preloadSets_read)" "silent (notePreloadError w r e)"
  unfolding interfere_def acquirePreloadPull_def notePreloadError_def
  by (auto intro!: silent_modify silent_bnd silent_basic silent_tryIO silent_reads [OF reads_preloadSets] silent_if silent_steps)

lemma silent_shuffle: "silent (shuffle i xs)"
  by (induction i arbitrary: xs) (auto intro!: silent_bnd silent_basic silent_modify)

definition pulls :: "workerConn \<Rightarrow> (string \<Rightarrow> bool) \<Rightarrow> dockerCall \<times> dockerReply \<Rightarrow> bool" where
  "pulls w P cr = (case fst cr of ImagePull c name \<Rightarrow> c = WorkerClient (cli w) \<and> P name | _ \<Rightarrow> False)"

lemma pullEach_only: "list_all P names \<Longrightarrow> makesOnly (pulls w P) (pullEach others w names tried failures s)"
proof (induction names arbitrary: tried failures s)
  case Nil
  show ?case unfolding pullEach.simps by (intro only_silent silent_basic)
next
  case (Cons name names)
  have "makesOnly (pulls w P) (pullImage (WorkerClient (cli w)) name)"
    unfolding pullImage_def by (intro only_bnd only_dockerDo only_silent silent_basic) (use Cons.prems in \<open>auto simp: pulls_def\<close>)
  then show ?case unfolding pullEach.simps
    by (intro only_bnd only_cases only_silent [OF silent_pass(1)] only_silent [OF silent_pass(2)] only_silent [OF silent_pass(3)]
        only_silent [OF silent_pass(4)] only_silent [OF silent_basic(1)] only_silent [OF silent_basic(2)] Cons.IH) (use Cons.prems in simp_all)
qed

definition listedTags :: "callLog \<Rightarrow> string list" where
  "listedTags new = concat (map (rNames \<circ> snd) new)"

lemma shuffle_permutes:
  "i = 0 \<or> i < length xs \<Longrightarrow> \<exists>ys rs. shuffle i xs m = (Inr ys, m\<lparr>rands := rs\<rparr>) \<and> mset ys = mset xs"
proof (induction i arbitrary: xs m)
  case 0
  show ?case by (auto intro: exI [of _ "rands m"])
next
  case (Suc i)
  define j where "j = (case rands m of [] \<Rightarrow> 0 | r # _ \<Rightarrow> r mod (Suc (Suc i)))"
  define ys where "ys = xs[Suc i := xs ! j, j := xs ! Suc i]"
  have j: "j < length xs" using Suc.prems by (auto simp: j_def split: list.split intro: le_less_trans [OF less_Suc_eq_le [THEN iffD1, OF mod_less_divisor]])
  then have ys: "mset ys = mset xs" unfolding ys_def using Suc.prems by (intro mset_swap) simp_all
  have "i = 0 \<or> i < length ys" using Suc.prems by (auto simp: ys_def)
  from Suc.IH [OF this, of "m\<lparr>rands := tl (rands m)\<rparr>"] show ?case
    using ys by (auto simp: bnd_def j_def ys_def)
qed

lemma workerImages_call:
  "makes (workerImages w) (\<lambda>r new. \<exists>rep. new = [(ImageList (WorkerClient (cli w)), rep)] \<and> (\<forall>held. r = Inr held \<longrightarrow> set held = set (rNames rep)))"
  unfolding workerImages_def
proof (rule makes_bnd [OF makes_dockerDo], goal_cases)
  case (1 r new)
  have failing: "makes (bnd (notePreloadError w r e) (\<lambda>_. fail e)) (\<lambda>r' new'. new' = [] \<and> isl r')" for e
    using silent_pass(4) [of w r e] by (auto simp: makes_def silent_def stays_def bnd_def split: prod.splits sum.splits) (metis snd_conv)+
  show ?case
  proof (cases "rErr r")
    case None
    then show ?thesis using 1 by (simp add: makes_def)
  next
    case (Some e)
    show ?thesis unfolding Some option.case by (rule makes_mono [OF failing]) (use 1 in auto)
  qed
qed simp

text \<open>The pass once the listing is in: pulls, then removals.\<close>

definition passEnd ::
    "(nat \<Rightarrow> manager \<Rightarrow> manager) \<Rightarrow> workerConn \<Rightarrow> string list \<Rightarrow> (bool + string list \<times> nat) \<times> preloadStatus \<Rightarrow> (bool \<times> preloadStatus) mio" where
  "passEnd others w held p =
     (case p of (outcome, s1) \<Rightarrow>
       (case outcome of
          Inl answer \<Rightarrow> ret (answer, plFinish s1)
        | Inr (tried, failures) \<Rightarrow>
            bnd (removeSuperseded others w held tried s1) (\<lambda>(unread, s2). ret (0 < failures \<or> unread, plFinish s2))))"

lemma passEnd_calls:
  assumes "list_all P order" "bnd (pullEach others w order [] 0 s) (passEnd others w held) m = (r, m')"
  shows "\<exists>pulled removed. calls m' = calls m @ pulled @ removed \<and> list_all (pulls w P) pulled \<and>
    list_all (removes w (\<lambda>tag. tag \<in> set held \<and> outdated m' tag)) removed"
proof -
  obtain out m1 where pull: "pullEach others w order [] 0 s m = (out, m1)" by fastforce
  with pullEach_only [OF assms(1), of others w "[]" 0 s] obtain pulled where
    pulled: "calls m1 = calls m @ pulled" "list_all (pulls w P) pulled" unfolding makes_def by blast
  have "\<exists>removed. calls m' = calls m1 @ removed \<and> list_all (removes w (\<lambda>tag. tag \<in> set held \<and> outdated m' tag)) removed"
  proof (cases "\<exists>tried failures s1. out = Inr (Inr (tried, failures), s1)")
    case True
    then obtain tried failures s1 where out: "out = Inr (Inr (tried, failures), s1)" by blast
    have "snd (removeSuperseded others w held tried s1 m1) = m'"
      using assms(2) pull out by (auto simp: passEnd_def bnd_def split: prod.splits sum.splits)
    then show ?thesis using removeSuperseded_calls [of others w held tried s1 m1] by (metis prod.collapse)
  next
    case False
    then have "m' = m1" using assms(2) pull by (cases out) (auto simp: passEnd_def bnd_def split: prod.splits sum.splits)
    then show ?thesis by (intro exI [of _ "[]"]) simp
  qed
  then obtain removed where "calls m' = calls m1 @ removed" "list_all (removes w (\<lambda>tag. tag \<in> set held \<and> outdated m' tag)) removed" by blast
  with pulled show ?thesis by (intro exI [of _ pulled] exI [of _ removed]) simp
qed


section \<open>A pass on a worker that answers\<close>

definition healthy :: "workerConn \<Rightarrow> manager \<Rightarrow> bool" where
  "healthy w m \<longleftrightarrow> preloadable m w \<and> faults m = [] \<and> slotChoices m = [] \<and> list_all (\<lambda>rep. rErr rep = None) (replies m)"

lemma healthy_call:
  assumes "healthy w m"
  obtains rep m' where "dockerDo c m = (Inr rep, m')" "rErr rep = None" "healthy w m'" "steady m m'" "calls m' = calls m @ [(c, rep)]"
  using assms by (cases "replies m") (auto simp: dockerDo_def Let_def healthy_def preloadable_def gone_def steady_def config_def okReply_def)

lemma healthy_read: "healthy w m \<Longrightarrow> preloadSets_read m = (Inr (currentSets m), m)"
  by (simp add: healthy_def preloadSets_read_def currentSets_def bnd_def query_def sql_def)

lemma healthy_quiet:
  "healthy w m \<Longrightarrow> acquirePreloadPull m = (Inr True, m)" "interfere (\<lambda>_ m. m) k m = (Inr (), m)" "flicker (\<lambda>_ m. m) k m = (Inr (), m)"
  by (simp_all add: healthy_def acquirePreloadPull_def interfere_def flicker_def bnd_def)

lemma pullEach_healthy:
  assumes "healthy w m" "list_all (covered m) names"
  shows "\<exists>tried' s' m' new. pullEach (\<lambda>_ m. m) w names tried failures s m = (Inr (Inr (tried', failures), s'), m') \<and> healthy w m' \<and> steady m m' \<and>
    calls m' = calls m @ new \<and> (\<forall>name\<in>set names. \<exists>rep. (ImagePull (WorkerClient (cli w)) name, rep) \<in> set new \<and> rErr rep = None) \<and>
    set tried' = set tried \<union> set names \<and> set (plHeld s') = set (plHeld s) \<union> set names \<and> plFailed s' = plFailed s"
  using assms
proof (induction names arbitrary: tried s m)
  case Nil
  then show ?case by simp
next
  case (Cons name names)
  let ?c = "ImagePull (WorkerClient (cli w)) name"
  from healthy_call [OF Cons.prems(1), of ?c] obtain rep m1 where
    m1: "dockerDo ?c m = (Inr rep, m1)" "rErr rep = None" "healthy w m1" "steady m m1" "calls m1 = calls m @ [(?c, rep)]" .
  have "list_all (covered m1) names" using Cons.prems(2) m1(4) by (simp add: covered_def [abs_def] steady_settings)
  from Cons.IH [OF m1(3) this, of "setPut name tried" "plPulled name None (plPull name s)"] obtain tried' s' m' new where
    rest: "pullEach (\<lambda>_ m. m) w names (setPut name tried) failures (plPulled name None (plPull name s)) m1 = (Inr (Inr (tried', failures), s'), m')"
    "healthy w m'" "steady m1 m'" "calls m' = calls m1 @ new"
    "\<forall>name\<in>set names. \<exists>rep. (ImagePull (WorkerClient (cli w)) name, rep) \<in> set new \<and> rErr rep = None"
    "set tried' = insert name (set tried) \<union> set names"
    "set (plHeld s') = set (plHeld (plPulled name None (plPull name s))) \<union> set names" "plFailed s' = plFailed (plPulled name None (plPull name s))"
    by auto
  have "preloadable m w" using Cons.prems(1) by (simp add: healthy_def)
  then have "pullEach (\<lambda>_ m. m) w (name # names) tried failures s m = (Inr (Inr (tried', failures), s'), m')"
    using Cons.prems covered_iff [of name m] m1(1,2) rest(1) healthy_read [OF Cons.prems(1)] healthy_quiet(1) [OF Cons.prems(1)]
    by (simp add: bnd_def healthy_quiet tryIO_def pullImage_def)
  moreover have "steady m m'" using m1(4) rest(3) by (rule steady_trans)
  ultimately show ?case using rest m1(2,5)
    by (intro exI [of _ tried'] exI [of _ s'] exI [of _ m'] exI [of _ "(?c, rep) # new"]) (auto simp: plPulled_def plPull_def)
qed

lemma removeEach_healthy:
  assumes "healthy w m"
  shows "\<exists>s' m' new. removeEach (\<lambda>_ m. m) w tags s m = (Inr s', m') \<and> steady m m' \<and> calls m' = calls m @ new \<and>
    (\<forall>tag\<in>set tags. \<exists>rep. (ImageRemove (WorkerClient (cli w)) tag, rep) \<in> set new \<and> rErr rep = None) \<and>
    set (plHeld s') = set (plHeld s) - set tags \<and> plFailed s' = plFailed s"
  using assms
proof (induction tags arbitrary: s m)
  case Nil
  then show ?case by simp
next
  case (Cons tag tags)
  let ?c = "ImageRemove (WorkerClient (cli w)) tag"
  from healthy_call [OF Cons.prems, of ?c] obtain rep m1 where
    m1: "dockerDo ?c m = (Inr rep, m1)" "rErr rep = None" "healthy w m1" "steady m m1" "calls m1 = calls m @ [(?c, rep)]" .
  from Cons.IH [OF m1(3), of "plRemoved tag s"] obtain s' m' new where
    rest: "removeEach (\<lambda>_ m. m) w tags (plRemoved tag s) m1 = (Inr s', m')" "steady m1 m'" "calls m' = calls m1 @ new"
    "\<forall>tag\<in>set tags. \<exists>rep. (ImageRemove (WorkerClient (cli w)) tag, rep) \<in> set new \<and> rErr rep = None"
    "set (plHeld s') = set (plHeld (plRemoved tag s)) - set tags" "plFailed s' = plFailed (plRemoved tag s)" by blast
  have "preloadable m w" using Cons.prems by (simp add: healthy_def)
  then have "removeEach (\<lambda>_ m. m) w (tag # tags) s m = (Inr s', m')"
    using m1(1,2) rest(1) by (simp add: bnd_def healthy_quiet removeWorkerImage_def)
  moreover have "steady m m'" using m1(4) rest(2) by (rule steady_trans)
  ultimately show ?case using rest m1(2,5)
    by (intro exI [of _ s'] exI [of _ m'] exI [of _ "(?c, rep) # new"]) (auto simp: plRemoved_def)
qed

text \<open>Whether an image is wanted and whether it is outdated exclude each other.\<close>

lemma covered_current: "covered m name \<Longrightarrow> \<not> outdated m name"
  by (auto simp: covered_def outdated_def list_ex_iff list_all_iff)

lemma removeSuperseded_healthy:
  assumes "healthy w m" "\<And>name. covered m name \<Longrightarrow> name \<in> set held \<or> name \<in> set tried"
  shows "\<exists>s' m' new. removeSuperseded (\<lambda>_ m. m) w held tried s m = (Inr (False, s'), m') \<and> steady m m' \<and> calls m' = calls m @ new \<and>
    (\<forall>tag\<in>set held. outdated m tag \<longrightarrow> (\<exists>rep. (ImageRemove (WorkerClient (cli w)) tag, rep) \<in> set new \<and> rErr rep = None)) \<and>
    set (plHeld s') = set (plHeld s) - {tag \<in> set held. outdated m tag} \<and> plFailed s' = plFailed s"
proof -
  have all: "set (superseded (currentSets m) held tried) = {tag \<in> set held. outdated m tag}"
    by (rule superseded_all) (rule assms(2))
  from removeEach_healthy [OF assms(1), of "superseded (currentSets m) held tried" s] obtain s' m' new where
    "removeEach (\<lambda>_ m. m) w (superseded (currentSets m) held tried) s m = (Inr s', m')" "steady m m'" "calls m' = calls m @ new"
    "\<forall>tag\<in>{tag \<in> set held. outdated m tag}. \<exists>rep. (ImageRemove (WorkerClient (cli w)) tag, rep) \<in> set new \<and> rErr rep = None"
    "set (plHeld s') = set (plHeld s) - {tag \<in> set held. outdated m tag}" "plFailed s' = plFailed s"
    unfolding all by blast
  moreover from this(1) have "removeSuperseded (\<lambda>_ m. m) w held tried s m = (Inr (False, s'), m')"
    using healthy_read [OF assms(1)] by (simp add: removeSuperseded_def bnd_def healthy_quiet tryIO_def)
  ultimately show ?thesis by auto
qed

text \<open>
  C23. A pass does what it is for. On a worker that is reachable and whose daemon answers, with
  nothing else happening, it ends with nothing to retry: every image a preloaded schema launches
  that the worker did not list has been pulled, every outdated one it listed has been removed, and
  the status then says the worker holds exactly what it listed and nothing supersedes, together
  with all it should.
\<close>

theorem preloadPass_completes:
  assumes "preloadable m w" "faults m = []" "slotChoices m = []" "replies m = listing # later"
    "list_all (\<lambda>rep. rErr rep = None) (listing # later)" "preloads (db m) \<noteq> []"
  shows "\<exists>s' m' new. preloadPass (\<lambda>_ m. m) w s m = (Inr (False, s'), m') \<and> calls m' = calls m @ new \<and> db m' = db m \<and>
    (\<forall>name. covered m name \<and> name \<notin> set (rNames listing) \<longrightarrow> (\<exists>rep. (ImagePull (WorkerClient (cli w)) name, rep) \<in> set new \<and> rErr rep = None)) \<and>
    (\<forall>tag\<in>set (rNames listing). outdated m tag \<longrightarrow> (\<exists>rep. (ImageRemove (WorkerClient (cli w)) tag, rep) \<in> set new \<and> rErr rep = None)) \<and>
    set (plHeld s') = {tag. covered m tag \<or> tag \<in> set (rNames listing) \<and> \<not> outdated m tag} \<and> plFailed s' = []"
proof -
  let ?held = "remdups (rNames listing)" and ?c = "ImageList (WorkerClient (cli w))"
  define m1 where "m1 = m\<lparr>replies := later, calls := calls m @ [(?c, listing)]\<rparr>"
  have h: "healthy w m" using assms by (simp add: healthy_def)
  have list: "workerImages w m = (Inr ?held, m1)" using assms(4,5) by (simp add: workerImages_def bnd_def dockerDo_def m1_def)
  let ?pulls = "missingImages (psWanted (currentSets m)) ?held"
  have "length ?pulls - 1 = 0 \<or> length ?pulls - 1 < length ?pulls" by auto
  from shuffle_permutes [OF this, of m1] obtain order rs where
    order: "shuffle (length ?pulls - 1) ?pulls m1 = (Inr order, m1\<lparr>rands := rs\<rparr>)" "set order = set ?pulls" by (metis mset_eq_setD)
  define m2 where "m2 = m1\<lparr>rands := rs\<rparr>"
  have m2: "healthy w m2" "steady m m2" "calls m2 = calls m @ [(?c, listing)]"
    using h assms(4) by (simp_all add: m2_def m1_def healthy_def preloadable_def gone_def steady_def config_def)
  have same: "covered m2 = covered m" "outdated m2 = outdated m"
    using m2(2) by (simp_all add: covered_def [abs_def] outdated_steady steady_settings)
  have todo: "set order = {name. covered m name \<and> name \<notin> set (rNames listing)}"
    using order(2) by (auto simp: missingImages_def set_sortBy covered_iff)
  then have "list_all (covered m2) order" by (simp add: list_all_iff same)
  from pullEach_healthy [OF m2(1) this, of "[]" 0 "plBegin ?held s"] obtain tried s1 m3 pulled where
    pull: "pullEach (\<lambda>_ m. m) w order [] 0 (plBegin ?held s) m2 = (Inr (Inr (tried, 0), s1), m3)" "healthy w m3" "steady m2 m3"
    "calls m3 = calls m2 @ pulled" "\<forall>name\<in>set order. \<exists>rep. (ImagePull (WorkerClient (cli w)) name, rep) \<in> set pulled \<and> rErr rep = None"
    "set tried = set order" "set (plHeld s1) = set (rNames listing) \<union> set order" "plFailed s1 = []"
    by (auto simp: plBegin_def)
  have same3: "covered m3 = covered m" "outdated m3 = outdated m"
    using pull(3) same by (simp_all add: covered_def [abs_def] outdated_steady steady_settings)
  have "name \<in> set ?held \<or> name \<in> set tried" if "covered m3 name" for name using that todo pull(6) same3 by auto
  from removeSuperseded_healthy [OF pull(2) this, of s1] obtain s' m' removed where
    rem: "removeSuperseded (\<lambda>_ m. m) w ?held tried s1 m3 = (Inr (False, s'), m')" "steady m3 m'" "calls m' = calls m3 @ removed"
    "\<forall>tag\<in>set (rNames listing). outdated m tag \<longrightarrow> (\<exists>rep. (ImageRemove (WorkerClient (cli w)) tag, rep) \<in> set removed \<and> rErr rep = None)"
    "set (plHeld s') = set (plHeld s1) - {tag \<in> set (rNames listing). outdated m tag}" "plFailed s' = plFailed s1"
    unfolding same3 set_remdups by blast
  have "psSchemas (currentSets m) \<noteq> []" using assms(6) by (simp add: currentSets_def preloadSetsOf_sets)
  then have run: "preloadPass (\<lambda>_ m. m) w s m = (Inr (False, plFinish s'), m')"
    using assms(1) healthy_read [OF h] list order(1) pull(1) rem(1) by (simp add: preloadPass_def bnd_def tryIO_def Let_def m2_def)
  have held: "set (plHeld s') = {tag. covered m tag \<or> tag \<in> set (rNames listing) \<and> \<not> outdated m tag}"
    using rem(5) pull(7) todo covered_current by auto
  have "db m' = db m" using m2(2) pull(3) rem(2) by (simp add: steady_settings)
  then show ?thesis using run held rem(3,4,6) pull(4,5,8) m2(3) todo
    by (intro exI [of _ "plFinish s'"] exI [of _ m'] exI [of _ "(?c, listing) # pulled @ removed"]) (auto simp: plFinish_def)
qed

section \<open>Accounting for images\<close>

text \<open>
  Removing a preload accounts for every image. The schema is no longer preloaded, every other
  preload is kept, and of the images preloading covered each is covered still, or is outdated, so
  that passes take it off the workers, or is reported as released; and nothing else is reported.
\<close>

theorem RemovePreload_accounts:
  assumes "RemovePreload schema m = (Inr released, m')"
  shows "schema \<in> set (preloads (db m)) \<and> preloads (db m') = filter (\<lambda>s. s \<noteq> schema) (preloads (db m)) \<and> calls m' = calls m \<and>
    set released = {name. covered m name \<and> \<not> covered m' name \<and> \<not> outdated m' name}"
proof -
  from assms obtain old m1 where old: "preloadSets_read m = (Inr old, m1)"
    and rest: "bnd (sql (\<lambda>d. (schema \<in> set (preloads d), d\<lparr>preloads := filter (\<lambda>s. s \<noteq> schema) (preloads d)\<rparr>))) (\<lambda>was.
      if \<not> was then fail [UnknownIdentifierError ''preload'' schema] else bnd preloadSets_read (\<lambda>new. ret (releasedImages old new))) m1 = (Inr released, m')"
    unfolding RemovePreload_def by (rule bnd_InrE)
  obtain fs where m1: "m1 = m\<lparr>faults := fs\<rparr>" using staysD [OF reads_preloadSets [unfolded reads_def] old] by blast
  from rest obtain was m2 where del: "sql (\<lambda>d. (schema \<in> set (preloads d), d\<lparr>preloads := filter (\<lambda>s. s \<noteq> schema) (preloads d)\<rparr>)) m1 = (Inr was, m2)"
    and was: "was" and tail: "bnd preloadSets_read (\<lambda>new. ret (releasedImages old new)) m2 = (Inr released, m')"
    by (rule bnd_InrE) (auto split: if_splits)
  have m2: "was = (schema \<in> set (preloads (db m)))" "db m2 = (db m)\<lparr>preloads := filter (\<lambda>s. s \<noteq> schema) (preloads (db m))\<rparr>" "calls m2 = calls m"
    using del m1 by (auto simp: sql_def split: list.splits option.splits)
  from tail obtain new m3 where new: "preloadSets_read m2 = (Inr new, m3)" "released = releasedImages old new" "m' = m3" by (rule bnd_InrE) auto
  then obtain fs' where m': "m' = m2\<lparr>faults := fs'\<rparr>" using staysD [OF reads_preloadSets [unfolded reads_def] new(1)] by blast
  have sets: "old = currentSets m" "new = currentSets m'"
    using preloadSets_read_current [OF old] preloadSets_read_current [OF new(1)] m' by (simp_all add: currentSets_def)
  have "set released = {name. covered m name \<and> \<not> covered m' name \<and> \<not> outdated m' name}"
    unfolding new(2) sets releasedImages_def set_sortBy covered_iff [symmetric] outdated_iff [symmetric] by auto
  then show ?thesis using m2 was m' by simp
qed

text \<open>Cutting the tag off a name that has one.\<close>

definition plainTag :: "string \<Rightarrow> bool" where
  "plainTag t \<longleftrightarrow> CHR '':'' \<notin> set t \<and> CHR ''/'' \<notin> set t"

lemma imageRepo_tag: "plainTag t \<Longrightarrow> imageRepo (repo @ CHR '':'' # t) = repo"
proof -
  assume t: "plainTag t"
  have "takeWhile (\<lambda>c. c \<noteq> CHR '':'') (rev t @ CHR '':'' # rev repo) = rev t"
    using t by (subst takeWhile_append2) (auto simp: plainTag_def)
  then show ?thesis using t by (simp add: imageRepo_def Let_def plainTag_def)
qed

lemma imageRepo_cut:
  assumes "imageRepo tag \<noteq> tag"
  obtains t where "tag = imageRepo tag @ CHR '':'' # t" "plainTag t"
proof -
  define t where "t = takeWhile (\<lambda>c. c \<noteq> CHR '':'') (rev tag)"
  have in_tag: "CHR '':'' \<in> set tag" and slash: "CHR ''/'' \<notin> set t" and repo: "imageRepo tag = rev (drop (Suc (length t)) (rev tag))"
    using assms by (auto simp: imageRepo_def Let_def t_def split: if_splits)
  have "dropWhile (\<lambda>c. c \<noteq> CHR '':'') (rev tag) \<noteq> []" using in_tag by (simp add: dropWhile_eq_Nil_conv)
  then obtain c rest where drop: "dropWhile (\<lambda>c. c \<noteq> CHR '':'') (rev tag) = c # rest" by (cases "dropWhile (\<lambda>c. c \<noteq> CHR '':'') (rev tag)") auto
  then have c: "c = CHR '':''" using hd_dropWhile [of "\<lambda>c. c \<noteq> CHR '':''" "rev tag"] by auto
  have whole: "rev tag = t @ CHR '':'' # rest" using takeWhile_dropWhile_id [of "\<lambda>c. c \<noteq> CHR '':''" "rev tag"] drop c by (simp add: t_def)
  have "tag = rev rest @ CHR '':'' # rev t" using arg_cong [OF whole, of rev] by simp
  moreover have "imageRepo tag = rev rest" unfolding repo whole by simp
  moreover have "plainTag (rev t)" using slash by (auto simp: plainTag_def t_def dest: set_takeWhileD)
  ultimately show ?thesis using that by metis
qed

lemma show_plain: "plainTag (show_int i)" "plainTag (show_hex n)"
proof -
  have "plainTag (show_nat k)" for k
    using is_digit_show_nat [of k] by (auto simp: plainTag_def list_all_iff is_digit_def)
  then show "plainTag (show_int i)" by (simp add: show_int_def plainTag_def)
  show "plainTag (show_hex n)" using hexs_show_hex [of n] by (auto simp: plainTag_def list_all_iff is_hex_def is_digit_def)
qed

lemma dockerId_plainTag: "plainTag host \<Longrightarrow> plainTag (dockerId seed checksum host)"
  using show_plain(1) [of seed] show_plain(2) [of "unat checksum"] by (simp add: dockerId_def plainTag_def)

text \<open>A name a build launches reads \<open>s\<close> and a number: never the stale prefix.\<close>

lemma dockerId_not_stale: "dockerId seed checksum host \<noteq> staleTagPrefix @ t"
proof
  assume eq: "dockerId seed checksum host = staleTagPrefix @ t"
  obtain c cs where "show_int seed = c # cs" "c = CHR ''-'' \<or> is_digit c"
    using show_nat_head_digit [of "nat seed"] by (cases "seed < 0") (auto simp: show_int_def)
  with eq show False by (auto simp: dockerId_def staleTagPrefix_def is_digit_def)
qed

text \<open>
  An image still in use is not forgotten. The tag given to it in place of its superseded one
  is in the same repository, is recognised as stale, and is no build's: a later pass finds it
  outdated again, tries to remove it, and leaves it as it is while it is in use.
\<close>

theorem stale_tag_stays_outdated:
  assumes "outdated m tag" "imageRepo tag \<noteq> tag" "list_all (\<lambda>r. plainTag (lrHost r)) (launchRows (db m))"
  shows "outdated m (staleTag tag) \<and> isStale (staleTag tag) \<and> imageRepo (staleTag tag) = imageRepo tag \<and>
    markStale w (staleTag tag) s m1 = (Inr (None, s), m1)"
proof -
  from imageRepo_cut [OF assms(2)] obtain t where t: "tag = imageRepo tag @ CHR '':'' # t" "plainTag t" .
  define repo where "repo = imageRepo tag"
  have "trimPrefix tag (repo @ '':'') = t" using t(1) trimPrefix_append [of "repo @ '':''" t] by (simp add: repo_def)
  then have stale: "staleTag tag = repo @ CHR '':'' # staleTagPrefix @ t" by (simp add: staleTag_def repo_def)
  have plain: "plainTag (staleTagPrefix @ t)" using t(2) by (auto simp: plainTag_def staleTagPrefix_def)
  have same: "imageRepo (staleTag tag) = repo" unfolding stale by (rule imageRepo_tag [OF plain])
  have marked: "isStale (staleTag tag)" unfolding isStale_def same
    using trimPrefix_append [of "repo @ '':''" "staleTagPrefix @ t"] by (simp add: stale hasPrefix_iff)
  have "launchName (challengeRegistry m) r \<noteq> staleTag tag" if "r \<in> set (launchRows (db m))" for r
  proof
    assume eq: "launchName (challengeRegistry m) r = staleTag tag"
    let ?id = "dockerId (lrSeed r) (lrChecksum r) (lrHost r)" and ?home = "imageRepository (challengeRegistry m) (lrChallenge r)"
    have name: "launchName (challengeRegistry m) r = ?home @ CHR '':'' # ?id" by (simp add: launchName_def instanceImageName_def)
    have "plainTag ?id" using assms(3) that by (intro dockerId_plainTag) (simp add: list_all_iff)
    then have "?home = repo" using imageRepo_tag [of ?id ?home] eq name same by simp
    then show False using eq name stale dockerId_not_stale by simp
  qed
  then have "outdated m (staleTag tag)" using assms(1) same by (simp add: outdated_def list_all_iff repo_def)
  moreover have "markStale w (staleTag tag) s m1 = (Inr (None, s), m1)" using marked by (simp add: markStale_def)
  ultimately show ?thesis using marked same by (simp add: repo_def)
qed

text \<open>
  Retrying a failing preload. However the passes before went, after one that succeeded and
  \<open>k\<close> in a row that failed the next wait is thirty seconds doubled \<open>k\<close> times, and never above the
  five minutes of the sweep.
\<close>

theorem preload_retry_backoff:
  "fold nextRetry (passes @ False # replicate k True) r = min (preloadRetryAfter * 2 ^ k) preloadSweepInterval"
proof -
  have "fold nextRetry (replicate k True) preloadRetryAfter = min (preloadRetryAfter * 2 ^ k) preloadSweepInterval"
  proof (induction k)
    case (Suc k)
    have "fold nextRetry (replicate (Suc k) True) preloadRetryAfter = nextRetry True (fold nextRetry (replicate k True) preloadRetryAfter)"
      by (simp add: replicate_append_same [symmetric] del: replicate_Suc)
    also have "\<dots> = min (preloadRetryAfter * 2 ^ Suc k) preloadSweepInterval"
      unfolding Suc by (simp add: nextRetry_def min_def preloadRetryAfter_def preloadSweepInterval_def)
    finally show ?case .
  qed (simp add: preloadRetryAfter_def preloadSweepInterval_def)
  then show ?thesis by (simp add: nextRetry_def)
qed

section \<open>A fleet of one\<close>

definition preload_conn :: workerConn where
  "preload_conn = \<lparr>ip = ''10.0.0.1'', public = '''', cli = 1, reachable = workerReachableOk, load = workerLoadOk, since = 0, reason = None,
     ejections = 0, unreachCh = Some 0, retired = False, reconciled = True, fromRecovery = False, daemonFailed = False, timeouts = [], probeNow = False\<rparr>"

definition preload_manager :: manager where
  "preload_manager = sample_store\<lparr>challengeRegistry := ''reg:5000'', workers := [''10.0.0.1'' \<mapsto> preload_conn], workerOrder := [''10.0.0.1''],
     replies := [okReply\<lparr>rNames := [''reg:5000/pico/a:old'', ''alpine:3'']\<rparr>],
     db := (db sample_store)\<lparr>builds := [sample_row\<lparr>bFlag := ''flag{x}''\<rparr>], preloads := [''event''],
       portNames := [\<lparr>pnChallenge = ''pico/a'', pnName = ''web'', pnHost = '''', pnPort = 80\<rparr>],
       images := [\<lparr>imId = 1, imBuild = 1, imHost = ''challenge'', imPorts = []\<rparr>]\<rparr>\<rparr>"

definition preload_status :: preloadStatus where
  "preload_status = \<lparr>plHeld = [], plFailed = [], plPulling = '''', plPasses = 0\<rparr>"

abbreviation preload_tag :: string where
  "preload_tag \<equiv> instanceImageName ''reg:5000'' ''pico/a'' 7 5 ''challenge''"

lemma preload_manager_facts:
  "covered preload_manager preload_tag" "outdated preload_manager ''reg:5000/pico/a:old''" "\<not> outdated preload_manager ''alpine:3''"
  "preloadable preload_manager preload_conn" "faults preload_manager = []" "slotChoices preload_manager = []" "preloads (db preload_manager) \<noteq> []"
  "list_all (\<lambda>r. plainTag (lrHost r)) (launchRows (db preload_manager))" "calls preload_manager = []"
  "replies preload_manager = [okReply\<lparr>rNames := [''reg:5000/pico/a:old'', ''alpine:3'']\<rparr>]"
  by code_simp+

lemma preload_listing: "list_all (\<lambda>rep. rErr rep = None) [okReply\<lparr>rNames := [''reg:5000/pico/a:old'', ''alpine:3'']\<rparr>]"
  by (simp add: okReply_def)

theorem preloadPass_completes_witness:
  "\<exists>s' m'. preloadPass (\<lambda>_ m. m) preload_conn preload_status preload_manager = (Inr (False, s'), m') \<and>
     preload_tag \<in> set (plHeld s') \<and> ''alpine:3'' \<in> set (plHeld s') \<and> ''reg:5000/pico/a:old'' \<notin> set (plHeld s')"
proof -
  note f = preload_manager_facts
  from preloadPass_completes [OF f(4,5,6) f(10) preload_listing f(7), of preload_status] obtain s' m' where
    run: "preloadPass (\<lambda>_ m. m) preload_conn preload_status preload_manager = (Inr (False, s'), m')"
    and held: "set (plHeld s') = {tag. covered preload_manager tag \<or>
      tag \<in> set (rNames (okReply\<lparr>rNames := [''reg:5000/pico/a:old'', ''alpine:3'']\<rparr>)) \<and> \<not> outdated preload_manager tag}" by blast
  have "''reg:5000/pico/a:old'' \<notin> set (plHeld s')" "preload_tag \<in> set (plHeld s')"
    unfolding held using f(1,2) covered_current by blast+
  moreover have "''alpine:3'' \<in> set (plHeld s')" unfolding held using f(3) by simp
  ultimately show ?thesis using run by blast
qed

definition preload_run :: "(err + bool \<times> preloadStatus) \<times> manager" where
  "preload_run = preloadPass (\<lambda>_ m. m) preload_conn preload_status preload_manager"

lemma preload_run_calls:
  "map fst (calls (snd preload_run)) =
     [ImageList (WorkerClient 1), ImagePull (WorkerClient 1) preload_tag, ImageRemove (WorkerClient 1) ''reg:5000/pico/a:old'']"
  by code_simp


definition unpreload_run :: "(err + string list) \<times> manager" where
  "unpreload_run = RemovePreload ''event'' preload_manager"

lemma unpreload_run_result: "fst unpreload_run = Inr [preload_tag]"
  by code_simp

theorem RemovePreload_accounts_witness:
  "preloads (db (snd unpreload_run)) = [] \<and> \<not> covered (snd unpreload_run) preload_tag \<and> \<not> outdated (snd unpreload_run) preload_tag"
proof -
  have "RemovePreload ''event'' preload_manager = (Inr [preload_tag], snd unpreload_run)"
    using unpreload_run_result by (metis prod.collapse unpreload_run_def)
  from RemovePreload_accounts [OF this] have rm: "preloads (db (snd unpreload_run)) = filter (\<lambda>s. s \<noteq> ''event'') (preloads (db preload_manager))"
    "set [preload_tag] = {name. covered preload_manager name \<and> \<not> covered (snd unpreload_run) name \<and> \<not> outdated (snd unpreload_run) name}"
    by blast+
  have "preload_tag \<in> set [preload_tag]" by simp
  then have "\<not> covered (snd unpreload_run) preload_tag \<and> \<not> outdated (snd unpreload_run) preload_tag" unfolding rm(2) by blast
  moreover have "preloads (db preload_manager) = [''event'']" by code_simp
  ultimately show ?thesis using rm(1) by simp
qed

theorem stale_tag_stays_outdated_witness:
  "outdated preload_manager ''reg:5000/pico/a:stale-old''"
proof -
  have "staleTag ''reg:5000/pico/a:old'' = ''reg:5000/pico/a:stale-old''" "imageRepo ''reg:5000/pico/a:old'' \<noteq> ''reg:5000/pico/a:old''" by code_simp+
  then show ?thesis using stale_tag_stays_outdated [OF preload_manager_facts(2) _ preload_manager_facts(8)] by metis
qed

end
