(* ===== verification/Build_Reconcile.thy ===== *)
theory Build_Reconcile
  imports Build_Trace
begin

text \<open>
  What happens around a build once it is made (\<open>src/cork/docker.go\<close>, \<open>src/cork/purge.go\<close>,
  \<open>src/cork/database_challenges.go\<close>, \<open>src/cork/api.go\<close>): untagging and destroying images,
  committing a new generation and bringing its instances onto it, and bringing a build to its
  number of instances.
\<close>

section \<open>Untagging\<close>

definition removeLocalImage :: "string \<Rightarrow> err option mio" where
  "removeLocalImage name =
     bnd (gets externalBuildPlane) (\<lambda>external.
     if external then ret (Some [NotFound])
     else bnd (dockerDo (ImageRemove LocalClient name)) (\<lambda>r. ret (rErr r)))"

definition retireRegistryTag :: "string \<Rightarrow> err option mio" where
  "retireRegistryTag name =
     bnd (gets (\<lambda>m. challengeRegistry m = '''' \<or> buildPlane m)) (\<lambda>exempt.
     if exempt then ret None
     else bnd (dockerDo (RegistryDelete name)) (\<lambda>r. ret (rErr r)))"

text \<open>One image of a generation: a failure to remove it is logged, whatever it is.\<close>

definition untagImage :: "bool \<Rightarrow> string \<Rightarrow> unit mio" where
  "untagImage retire name =
     bnd (removeLocalImage name) (\<lambda>_.
     if retire then bnd (retireRegistryTag name) (\<lambda>_. ret ()) else ret ())"

text \<open>The images of one generation of a build, unless another row still needs the content.\<close>

definition untagGeneration :: "bool \<Rightarrow> int \<Rightarrow> buildMeta \<Rightarrow> unit mio" where
  "untagGeneration retire excludeBuild b =
     bnd (contentReferenced (mChallenge b) (mSeed b) (mChecksum b) excludeBuild) (\<lambda>referenced.
     if referenced then ret ()
     else
       for_each (mImages b) (\<lambda>img.
         bnd (gets (\<lambda>m. imageName m b (imgHost img))) (\<lambda>name.
         untagImage (retire \<and> imgHost img \<noteq> ''builder'') name)))"

definition dropBundle :: "buildMeta \<Rightarrow> unit mio" where
  "dropBundle b =
     bnd (gets externalBuildPlane) (\<lambda>external.
     if mHasArtifacts b \<and> \<not> external then
       bnd (removeArtifactBundle (mSchema b) (getArtifactsFilename (mId b))) (\<lambda>failure.
       (case failure of
          None \<Rightarrow> ret ()
        | Some e \<Rightarrow> if errors_Is e NotFound then ret () else fail e))
     else ret ())"

definition destroyImages :: "int \<Rightarrow> bool \<Rightarrow> unit mio" where
  "destroyImages build retire =
     bnd (lookupBuildMetadata build) (\<lambda>b.
     bnd (removeBuildMetadata build) (\<lambda>_.
     bnd (dropBundle b) (\<lambda>_.
     bnd (untagGeneration retire (mId b) b) (\<lambda>_.
     if mPrevChecksum b \<noteq> 0 \<and> mPrevChecksum b \<noteq> mChecksum b
     then untagGeneration retire (mId b) (b\<lparr>mChecksum := mPrevChecksum b\<rparr>)
     else ret ()))))"

definition pruneReplacedImages :: "(string list \<times> buildMeta) list \<Rightarrow> unit mio" where
  "pruneReplacedImages replaced =
     for_each replaced (\<lambda>(tags, b).
       bnd (contentReferenced (mChallenge b) (mSeed b) (mChecksum b) 0) (\<lambda>referenced.
       if referenced then ret () else for_each tags (untagImage True)))"

definition purgeBuiltImages :: "buildMeta \<Rightarrow> unit mio" where
  "purgeBuiltImages b =
     bnd (gets (\<lambda>m. purgeAfterPush m \<and> challengeRegistry m \<noteq> '''')) (\<lambda>purge.
     if \<not> purge then ret ()
     else
       for_each (mImages b) (\<lambda>img.
         bnd (gets (\<lambda>m. imageName m b (imgHost img))) (\<lambda>name.
         bnd (dockerDo (ImageRemove LocalClient name)) (\<lambda>_. ret ()))))"

section \<open>The number of instances\<close>

fun stopSurplus :: "int list \<Rightarrow> err list \<Rightarrow> err list mio" where
  "stopSurplus [] errs = ret errs"
| "stopSurplus (iid # iids) errs =
     bnd (tryIO (bnd (lookupInstanceMetadata iid) stopInstance)) (\<lambda>r.
     (case r of
        Inl e \<Rightarrow> stopSurplus iids (errs @ [e])
      | Inr _ \<Rightarrow> stopSurplus iids errs))"

text \<open>The build is looked up when it comes without images, and stays as it was looked up.\<close>

fun launchMissing :: "launchEnv \<Rightarrow> nat \<Rightarrow> buildMeta \<Rightarrow> err list \<Rightarrow> err list mio" where
  "launchMissing env 0 build errs = ret errs"
| "launchMissing env (Suc n) build errs =
     bnd (if mImages build = [] then tryIO (lookupBuildMetadata (mId build)) else ret (Inr build)) (\<lambda>b.
     (case b of
        Inl e \<Rightarrow> ret (errs @ [e])
      | Inr build' \<Rightarrow>
          bnd (gets restartLimits) (\<lambda>limits.
          bnd (newInstance (env\<lparr>leEnvVars := []\<rparr>) build' limits) (\<lambda>(_, failure).
          (case failure of
             Some e \<Rightarrow> ret (errs @ [e])
           | None \<Rightarrow> launchMissing env n build' errs)))))"

text \<open>
  \<open>instances[i]\<close> is read from \<open>i = target\<close> on: below zero that is a panic of the whole
  call, which is \<open>Inl\<close> here; every other outcome is a list of errors.
\<close>

definition convergeBuildInstances :: "launchEnv \<Rightarrow> buildMeta \<Rightarrow> int \<Rightarrow> err list mio" where
  "convergeBuildInstances env build target =
     bnd (tryIO (getBuildInstances (mId build))) (\<lambda>r.
     (case r of
        Inl e \<Rightarrow> ret [e]
      | Inr iids \<Rightarrow>
          if target < 0 then fail [GoPanic ''index out of range'']
          else
            bnd (stopSurplus (drop (nat target) iids) []) (\<lambda>errs.
            launchMissing env (nat target - length iids) build errs)))"

section \<open>A new generation\<close>

definition isUnknownIdentifier :: "err \<Rightarrow> bool" where
  "isUnknownIdentifier e = (case e of [UnknownIdentifierError _ _] \<Rightarrow> True | _ \<Rightarrow> False)"

definition reconcileInstance ::
    "launchEnv \<Rightarrow> buildMeta \<Rightarrow> challengeMeta \<Rightarrow> (string \<Rightarrow> string option) \<Rightarrow> int \<Rightarrow> err list mio" where
  "reconcileInstance env build cMeta revPortMap iid =
     bnd (tryIO (lookupInstanceMetadata iid)) (\<lambda>r.
     (case r of
        Inl e \<Rightarrow> ret (if isUnknownIdentifier e then [] else [e])
      | Inr inst \<Rightarrow>
          if \<not> nFinalized inst then ret []
          else if mInstanceCount build = DYNAMIC_INSTANCES \<or> \<not> NeedsInstance cMeta then
            bnd (tryIO (stopInstance inst)) (\<lambda>s. ret (case s of Inl e \<Rightarrow> [e] | Inr _ \<Rightarrow> []))
          else
            bnd (gets (\<lambda>m. nWorker inst \<noteq> '''' \<and> workerUnreachable m (nWorker inst))) (\<lambda>out.
            bnd (if out then ret (Some [Msg ''worker is not reachable''], inst)
                 else restartInstance env build cMeta revPortMap inst) (\<lambda>(failure, inst').
            (case failure of
               None \<Rightarrow> ret []
             | Some _ \<Rightarrow>
                 bnd (tryIO (stopInstance inst')) (\<lambda>s.
                 ret (case s of
                        Inl _ \<Rightarrow> [[Msg ''could not be restarted nor removed'']]
                      | Inr _ \<Rightarrow> [[Msg ''removed instead of restarted'']])))))))"

fun reconcileInstances ::
    "launchEnv \<Rightarrow> buildMeta \<Rightarrow> challengeMeta \<Rightarrow> (string \<Rightarrow> string option) \<Rightarrow> int list \<Rightarrow> err list \<Rightarrow> err list mio" where
  "reconcileInstances env build cMeta revPortMap [] errs = ret errs"
| "reconcileInstances env build cMeta revPortMap (iid # iids) errs =
     bnd (reconcileInstance env build cMeta revPortMap iid) (\<lambda>es.
     reconcileInstances env build cMeta revPortMap iids (errs @ es))"

text \<open>What follows the commit of the row: the instances, the number of them, the builder's copies, and what leaves retention.\<close>

definition applyGeneration ::
    "buildEnv \<Rightarrow> buildMeta \<Rightarrow> challengeMeta \<Rightarrow> (string \<Rightarrow> string option) \<Rightarrow> bool \<Rightarrow> 32 word \<Rightarrow> 32 word \<Rightarrow>
     ((string list \<times> buildMeta) option \<times> err list) mio" where
  "applyGeneration env build cMeta revPortMap pruneOldImages oldChecksum displaced =
     bnd (tryIO (getBuildInstances (mId build))) (\<lambda>i.
     (case i of
        Inl e \<Rightarrow> bnd (purgeBuiltImages build) (\<lambda>_. ret (None, [e]))
      | Inr iids \<Rightarrow>
          bnd (reconcileInstances (beLaunch env) build cMeta revPortMap iids []) (\<lambda>errs.
          bnd (if mInstanceCount build > 0 \<and> NeedsInstance cMeta
               then convergeBuildInstances (beLaunch env) build (mInstanceCount build) else ret []) (\<lambda>more.
          bnd (purgeBuiltImages build) (\<lambda>_.
          bnd (gets (\<lambda>m. map (\<lambda>img. imageName m (build\<lparr>mChecksum := displaced\<rparr>) (imgHost img)) (mImages build))) (\<lambda>tags.
          ret (if pruneOldImages \<and> displacedPruneCandidate oldChecksum (mChecksum build) displaced
               then Some (tags, build\<lparr>mChecksum := displaced\<rparr>) else None,
               errs @ more)))))))"

definition reconcileBuild ::
    "buildEnv \<Rightarrow> buildMeta \<Rightarrow> challengeMeta \<Rightarrow> (string \<Rightarrow> string option) \<Rightarrow> bool \<Rightarrow>
     ((string list \<times> buildMeta) option \<times> err list) mio" where
  "reconcileBuild env build0 cMeta revPortMap pruneOldImages =
     bnd (tryIO (storedGeneration (mId build0))) (\<lambda>g.
     (case g of
        Inl e \<Rightarrow> ret (None, [e])
      | Inr (oldChecksum, displaced) \<Rightarrow>
          (let build = build0\<lparr>mPrevChecksum := rotatedPrevChecksum oldChecksum (mChecksum build0) displaced\<rparr> in
           bnd (tryIO (finalizeBuild build)) (\<lambda>f.
           (case f of
              Inl e \<Rightarrow> ret (None, [e])
            | Inr _ \<Rightarrow> applyGeneration env build cMeta revPortMap pruneOldImages oldChecksum displaced)))))"

fun rebuildEach ::
    "buildEnv \<Rightarrow> challengeMeta \<Rightarrow> challengeMeta \<Rightarrow> (string \<Rightarrow> string option) \<Rightarrow> bool \<Rightarrow> string \<Rightarrow> int list \<Rightarrow>
     (string list \<times> buildMeta) list \<Rightarrow> err list \<Rightarrow> ((string list \<times> buildMeta) list \<times> err list) mio" where
  "rebuildEach env metadata cMeta revPortMap prune ctxFile [] replaced errs = ret (replaced, errs)"
| "rebuildEach env metadata cMeta revPortMap prune ctxFile (buildId # ids) replaced errs =
     bnd (tryIO (bnd (lookupBuildMetadata buildId) (\<lambda>build. executeBuild env metadata (build\<lparr>mFlag := ''''\<rparr>) ctxFile))) (\<lambda>b.
     (case b of
        Inl e \<Rightarrow> rebuildEach env metadata cMeta revPortMap prune ctxFile ids replaced (errs @ [e])
      | Inr build \<Rightarrow>
          bnd (reconcileBuild env build cMeta revPortMap prune) (\<lambda>(candidate, es).
          rebuildEach env metadata cMeta revPortMap prune ctxFile ids
            (case candidate of None \<Rightarrow> replaced | Some c \<Rightarrow> replaced @ [c]) (errs @ es))))"

definition rebuildBuilds :: "buildEnv \<Rightarrow> bool \<Rightarrow> challengeMeta \<Rightarrow> int list \<Rightarrow> err list mio" where
  "rebuildBuilds env prune metadata buildIds =
     (if buildIds = [] then ret []
      else
        (case beContext env metadata of
           Inl e \<Rightarrow> ret [e]
         | Inr ctxFile \<Rightarrow>
             bnd (tryIO (
               bnd (lookupChallengeMetadata (cId metadata)) (\<lambda>cMeta.
               bnd (getReversePortMap (cId metadata)) (\<lambda>revPortMap.
               ret (cMeta, revPortMap))))) (\<lambda>looked.
             bnd (case looked of
                    Inl e \<Rightarrow> ret [e]
                  | Inr (cMeta, revPortMap) \<Rightarrow>
                      bnd (rebuildEach env metadata cMeta revPortMap prune ctxFile buildIds [] []) (\<lambda>(replaced, errs).
                      bnd (pruneReplacedImages replaced) (\<lambda>_.
                      ret errs))) (\<lambda>errs.
             bnd (dockerDo (FileRemove ctxFile)) (\<lambda>_.
             ret errs)))))"

section \<open>Whose images go\<close>

text \<open>The tag a call takes away, and the tags a row resolves to: those it serves and those it may roll back to.\<close>

definition untags :: "dockerCall \<times> dockerReply \<Rightarrow> string option" where
  "untags cr = (case fst cr of ImageRemove _ name \<Rightarrow> Some name | RegistryDelete name \<Rightarrow> Some name | _ \<Rightarrow> None)"

definition retires :: "dockerCall \<times> dockerReply \<Rightarrow> bool" where
  "retires cr = (case fst cr of RegistryDelete _ \<Rightarrow> True | _ \<Rightarrow> False)"

definition resolves :: "string \<Rightarrow> buildRow \<Rightarrow> string \<Rightarrow> bool" where
  "resolves registry r name \<longleftrightarrow>
     (\<exists>host. name = instanceImageName registry (bChallenge r) (bSeed r) (bChecksum r) host \<or>
             name = instanceImageName registry (bChallenge r) (bSeed r) (bPrevChecksum r) host)"

text \<open>Names without a colon keep the tags of two challenges apart.\<close>

definition plain_ids :: "database \<Rightarrow> bool" where
  "plain_ids d \<longleftrightarrow> list_all (\<lambda>r. CHR '':'' \<notin> set (bChallenge r)) (builds d)"

lemma image_name_apart:
  assumes "CHR '':'' \<notin> set c" "CHR '':'' \<notin> set c'"
    "instanceImageName registry c seed checksum host = instanceImageName registry c' seed' checksum' host'"
  shows "c = c' \<and> seed = seed' \<and> checksum = checksum'"
proof -
  have "c @ CHR '':'' # dockerId seed checksum host = c' @ CHR '':'' # dockerId seed' checksum' host'"
    using assms(3) by (simp add: instanceImageName_def imageRepository_def split: if_splits)
  moreover have "takeWhile (\<lambda>x. x \<noteq> CHR '':'') (d @ CHR '':'' # t) = d" if "CHR '':'' \<notin> set d" for d t
    using that by (induction d) auto
  ultimately have "c = c'" using assms(1,2) by metis
  with assms(3) show ?thesis using image_name_inj by blast
qed

lemma resolves_needed:
  assumes "plain_ids d" "CHR '':'' \<notin> set (mChallenge b)" "\<not> needed_elsewhere d b" "row \<in> set (builds d)" "bId row \<noteq> mId b"
  shows "\<not> resolves registry row (instanceImageName registry (mChallenge b) (mSeed b) (mChecksum b) host)"
proof
  assume "resolves registry row (instanceImageName registry (mChallenge b) (mSeed b) (mChecksum b) host)"
  moreover have "CHR '':'' \<notin> set (bChallenge row)" using assms(1,4) by (simp add: plain_ids_def list_all_iff)
  ultimately have "mChallenge b = bChallenge row \<and> mSeed b = bSeed row \<and> (mChecksum b = bChecksum row \<or> mChecksum b = bPrevChecksum row)"
    using image_name_apart [OF assms(2)] unfolding resolves_def by metis
  then show False using assms(3-5) by (auto simp: needed_elsewhere_def)
qed

definition untagging :: "manager \<Rightarrow> bool \<Rightarrow> int \<Rightarrow> buildMeta \<Rightarrow> dockerCall \<times> dockerReply \<Rightarrow> bool" where
  "untagging m retire x b cr \<longleftrightarrow>
     (\<forall>name. untags cr = Some name \<longrightarrow> \<not> needed_elsewhere (db m) (b\<lparr>mId := x\<rparr>) \<and> (\<exists>host. name = imageName m b host)) \<and>
     (retires cr \<longrightarrow> retire \<and> \<not> buildPlane m)"

lemma steady_untagging: "steady m m1 \<Longrightarrow> untagging m1 = untagging m"
  by (simp add: untagging_def fun_eq_iff steady_settings steady_names)

lemma untagImage_logs:
  assumes "\<not> needed_elsewhere (db m) (b\<lparr>mId := x\<rparr>)" "retire' \<longrightarrow> retire"
  shows "logs m (untagImage retire' (imageName m b host)) (each (untagging m retire x b))"
  using assms unfolding untagImage_def removeLocalImage_def retireRegistryTag_def
  by (intro each_intros logs_gets_bnd) (auto simp: untagging_def untags_def retires_def steady_settings)

lemma contentReferenced_free:
  "contentReferenced (mChallenge b) (mSeed b) (mChecksum b) x m = (r, m') \<Longrightarrow>
   \<exists>y. r = Inr y \<and> (\<not> y \<longrightarrow> \<not> needed_elsewhere (db m) (b\<lparr>mId := x\<rparr>))"
  using contentReferenced_elsewhere [of "b\<lparr>mId := x\<rparr>"] by simp

lemma untagGeneration_logs: "logs m (untagGeneration retire x b) (each (untagging m retire x b))"
  unfolding untagGeneration_def
proof (rule logs_each_seq)
  show "logs m (contentReferenced (mChallenge b) (mSeed b) (mChecksum b) x)
      (\<lambda>r new. each (untagging m retire x b) r new \<and> (\<forall>y. r = Inr y \<longrightarrow> (\<not> y \<longrightarrow> \<not> needed_elsewhere (db m) (b\<lparr>mId := x\<rparr>))))"
    by (rule logs_reads [OF reads_contentReferenced]) (auto dest: contentReferenced_free)
next
  fix y m1 assume y: "\<not> y \<longrightarrow> \<not> needed_elsewhere (db m) (b\<lparr>mId := x\<rparr>)" and m1: "steady m m1"
  have "logs m2 (untagImage (retire \<and> imgHost img \<noteq> ''builder'') (imageName m2 b (imgHost img))) (each (untagging m retire x b))"
    if "steady m1 m2" "\<not> y" for m2 img
  proof -
    have m2: "steady m m2" by (rule steady_trans [OF m1 that(1)])
    show ?thesis using untagImage_logs [where m = m2 and b = b and x = x and retire = retire] y that(2) by (simp add: steady_untagging [OF m2] steady_settings(3) [OF m2])
  qed
  then show "logs m1 (if y then ret () else for_each (mImages b) (\<lambda>img. bnd (gets (\<lambda>m. imageName m b (imgHost img))) (\<lambda>name.
       untagImage (retire \<and> imgHost img \<noteq> ''builder'') name))) (each (untagging m retire x b))"
    by (intro logs_cases each_basic logs_each_for logs_gets_bnd) simp
qed

definition without_build :: "int \<Rightarrow> database \<Rightarrow> database" where
  "without_build build d = d\<lparr>builds := filter (\<lambda>r. bId r \<noteq> build) (builds d), images := filter (\<lambda>i. imBuild i \<noteq> build) (images d),
     lookupData := filter (\<lambda>l. fst l \<noteq> build) (lookupData d)\<rparr>"

lemma lookupBuild_of:
  assumes "lookupBuildMetadata build m = (Inr b, m')"
  shows "\<exists>r\<in>set (builds (db m)). bId r = build \<and> b = buildMeta_of r (mLookup b) (mImages b)"
  using assms unfolding lookupBuildMetadata_def
  by (auto simp: buildMeta_of_def find_Some_iff dest!: txn_Inr query_Inr elim!: bnd_InrE split: option.splits prod.splits)
     (metis nth_mem)

lemma removeBuild_db_only: "db_only (removeBuildMetadata build)"
  unfolding removeBuildMetadata_def by (intro keeps_intros)

lemma removeBuild_cases:
  assumes "removeBuildMetadata build m = (r, m')"
  shows "case r of Inl e \<Rightarrow> db m' = db m | Inr _ \<Rightarrow> db m' = without_build build (db m)"
proof (cases r)
  case (Inl e)
  then have "fst (removeBuildMetadata build m) = Inl e" using assms by simp
  from txn_rollback [OF this [unfolded removeBuildMetadata_def]] show ?thesis
    using assms Inl by (simp add: removeBuildMetadata_def)
next
  case (Inr u)
  show ?thesis using assms unfolding removeBuildMetadata_def Inr
    by (auto simp: deleteBuild_def without_build_def dest!: txn_Inr exec_Inr sqlChecked_Inr elim!: bnd_InrE split: if_splits)
qed

interpretation untagging: watcher "untagging m retire x b" for m retire x b
  by unfold_locales (simp_all add: untagging_def untags_def retires_def)

lemma dropBundle_logs: "logs m (dropBundle b) (each (untagging m retire x b))"
  unfolding dropBundle_def removeArtifactBundle_def findArtifactBundle_def artifactDirs_def
  by (intro each_intros untagging.asking untagging.o_markedDirs untagging.o_firstHolding)
     (simp_all add: untagging_def untags_def retires_def)

definition destroying :: "manager \<Rightarrow> bool \<Rightarrow> buildMeta \<Rightarrow> dockerCall \<times> dockerReply \<Rightarrow> bool" where
  "destroying m retire b cr \<longleftrightarrow>
     untagging m retire (mId b) b cr \<or> untagging m retire (mId b) (b\<lparr>mChecksum := mPrevChecksum b\<rparr>) cr"

lemma each_weaken: "logs m f (each P) \<Longrightarrow> (\<And>cr. P cr \<Longrightarrow> Q cr) \<Longrightarrow> logs m f (each Q)"
  by (erule logs_mono) (auto simp: each_def list_all_iff)

lemma destroyed_logs:
  "logs m (bnd (dropBundle b) (\<lambda>_. bnd (untagGeneration retire (mId b) b) (\<lambda>_.
     if mPrevChecksum b \<noteq> 0 \<and> mPrevChecksum b \<noteq> mChecksum b
     then untagGeneration retire (mId b) (b\<lparr>mChecksum := mPrevChecksum b\<rparr>) else ret ()))) (each (destroying m retire b))"
proof -
  have "logs m1 (untagGeneration retire (mId b) b') (each (destroying m retire b))"
    if "steady m m1" "b' = b \<or> b' = b\<lparr>mChecksum := mPrevChecksum b\<rparr>" for m1 b'
    using each_weaken [OF untagGeneration_logs [of m1 retire "mId b" b'], of "destroying m retire b"] that
    by (auto simp: destroying_def steady_untagging)
  moreover have "logs m (dropBundle b) (each (destroying m retire b))"
    by (rule each_weaken [OF dropBundle_logs [where retire = retire and x = "mId b"]]) (simp add: destroying_def)
  ultimately show ?thesis by (intro logs_each_bnd logs_cases each_basic) (auto intro: steady_trans)
qed

lemma reads_steady: "reads f \<Longrightarrow> f m = (r, m') \<Longrightarrow> steady m m' \<and> calls m' = calls m"
  by (erule logsE [OF logs_reads, of _ m "\<lambda>_ new. new = []"]) auto

lemma destroyImages_cases:
  assumes "destroyImages build retire m = (r, m')"
  obtains (kept) e where "r = Inl e" "db m' = db m" "calls m' = calls m"
  | (gone) b row new m2 where "row \<in> set (builds (db m))" "bId row = build" "b = buildMeta_of row (mLookup b) (mImages b)"
      "db m2 = without_build build (db m)" "config m2 = config m" "steady m2 m'" "calls m' = calls m @ new" "list_all (destroying m2 retire b) new"
proof -
  obtain rb m1 where b: "lookupBuildMetadata build m = (rb, m1)" by fastforce
  have m1: "steady m m1" "calls m1 = calls m" using reads_steady [OF reads_lookups(2) b] by auto
  show ?thesis
  proof (cases rb)
    case (Inl e)
    then show ?thesis using kept assms b m1 by (auto simp: destroyImages_def bnd_def steady_settings)
  next
    case (Inr b')
    then obtain row where row: "row \<in> set (builds (db m))" "bId row = build" "b' = buildMeta_of row (mLookup b') (mImages b')"
      using lookupBuild_of b by blast
    obtain rr m2 where rm: "removeBuildMetadata build m1 = (rr, m2)" by fastforce
    have m2: "calls m2 = calls m1" "config m2 = config m1" using db_onlyD [OF removeBuild_db_only rm] by (auto simp: config_def)
    show ?thesis
    proof (cases rr)
      case (Inl e)
      then show ?thesis using kept assms b m1 rm m2 Inr removeBuild_cases [OF rm] by (auto simp: destroyImages_def bnd_def steady_settings)
    next
      case gone': (Inr u)
      have "logs m2 (\<lambda>m. (r, m')) (each (destroying m2 retire b'))"
        using destroyed_logs [of m2 b' retire] assms b rm unfolding destroyImages_def logs_def by (simp add: bnd_def Inr gone')
      then obtain new where new: "calls m' = calls m2 @ new" "steady m2 m'" "list_all (destroying m2 retire b') new"
        by (auto simp: logs_def each_def)
      have "db m2 = without_build build (db m)" using removeBuild_cases [OF rm] gone' m1 by (simp add: steady_settings)
      moreover have "config m2 = config m" using m1 m2 by (simp add: steady_def)
      moreover have "calls m' = calls m @ new" using new(1) m1 m2 by simp
      ultimately show ?thesis using new(2,3) by (intro gone [OF row])
    qed
  qed
qed

lemma untagging_name:
  "untagging m retire x b cr \<Longrightarrow> untags cr = Some name \<Longrightarrow>
   \<exists>host. \<not> needed_elsewhere (db m) (b\<lparr>mId := x\<rparr>) \<and> name = imageName m b host"
  by (auto simp: untagging_def)

lemma destroying_name:
  assumes "destroying m retire b cr" "untags cr = Some name"
  shows "\<exists>b' host. mChallenge b' = mChallenge b \<and> \<not> needed_elsewhere (db m) (b'\<lparr>mId := mId b\<rparr>) \<and> name = imageName m b' host"
proof -
  obtain b' where "mChallenge b' = mChallenge b" "untagging m retire (mId b) b' cr"
    using that [of b] that [of "b\<lparr>mChecksum := mPrevChecksum b\<rparr>"] assms(1) unfolding destroying_def by auto
  then show ?thesis using untagging_name assms(2) by blast
qed

text \<open>
  C14. Destroying a build takes down only what nobody else resolves to. Every tag it removes, here or in
  the registry, is one that no row left in the table resolves to, as what it serves or as its
  rollback generation; without the order to retire tags, or on a build plane, the registry is not
  touched at all; and when it succeeds exactly the row of the build is gone.
\<close>

theorem destroyImages_spares_needed_tags:
  assumes "destroyImages build retire m = (r, m')" "plain_ids (db m)"
  shows "\<exists>new. calls m' = calls m @ new \<and>
    (\<forall>cr\<in>set new. \<forall>name row. untags cr = Some name \<and> row \<in> set (builds (db m')) \<longrightarrow> \<not> resolves (challengeRegistry m) row name) \<and>
    (\<forall>cr\<in>set new. retires cr \<longrightarrow> retire \<and> \<not> buildPlane m) \<and>
    (r = Inr () \<longrightarrow> builds (db m') = filter (\<lambda>row. bId row \<noteq> build) (builds (db m)))"
  using assms(1)
proof (cases rule: destroyImages_cases)
  case (gone b row new m2)
  have b: "mId b = build" "mChallenge b = bChallenge row" using gone(2) by (subst gone(3), simp add: buildMeta_of_def)+
  have same: "db m' = db m2" "challengeRegistry m2 = challengeRegistry m" "buildPlane m2 = buildPlane m"
    using gone(5,6) by (simp_all add: steady_def config_def)
  have plain: "plain_ids (db m2)" "CHR '':'' \<notin> set (mChallenge b)"
    using assms(2) gone(1,4) b by (auto simp: plain_ids_def without_build_def list_all_iff)
  have other: "bId row' \<noteq> build" if "row' \<in> set (builds (db m2))" for row' using that gone(4) by (simp add: without_build_def)
  have "\<not> resolves (challengeRegistry m) row' (imageName m2 b' host)"
    if "\<not> needed_elsewhere (db m2) (b'\<lparr>mId := build\<rparr>)" "row' \<in> set (builds (db m2))" "mChallenge b' = mChallenge b" for b' row' host
    using resolves_needed [OF plain(1), of "b'\<lparr>mId := build\<rparr>"] that plain(2) other [OF that(2)] by (simp add: imageName_def same)
  then have "\<not> resolves (challengeRegistry m) row' name" if "cr \<in> set new" "untags cr = Some name" "row' \<in> set (builds (db m'))" for cr name row'
    using destroying_name [OF _ that(2), of m2 retire b] gone(8) that by (auto simp: list_all_iff b(1) same(1))
  moreover have "retires cr \<longrightarrow> retire \<and> \<not> buildPlane m" if "cr \<in> set new" for cr
    using gone(8) that by (auto simp: list_all_iff destroying_def untagging_def same)
  ultimately show ?thesis using gone(4,7) by (intro exI [of _ new]) (auto simp: same(1) without_build_def)
qed auto

section \<open>Reaching a number of instances\<close>

definition owned :: "database \<Rightarrow> int \<Rightarrow> int list" where
  "owned d build = map iId (filter (\<lambda>i. iBuild i = build) (instances d))"

definition others :: "database \<Rightarrow> int \<Rightarrow> (int \<times> int \<times> string) list" where
  "others d build = filter (\<lambda>k. fst (snd k) \<noteq> build) (row_keys d)"

lemma owned_keys: "owned d build = map fst (filter (\<lambda>k. fst (snd k) = build) (row_keys d))"
  by (simp add: owned_def row_keys_def filter_map o_def)

lemma store_keys: "store_inv d \<Longrightarrow> distinct (map fst (row_keys d))"
  by (simp add: store_inv_def row_keys_def o_def)

lemma stopInstance_rows:
  assumes "stopInstance inst m = (Inr u, m')"
  shows "row_keys (db m') = filter (\<lambda>k. fst k \<noteq> nId inst) (row_keys (db m))"
proof -
  have removed: "row_keys (db m') = filter (\<lambda>k. fst k \<noteq> nId inst) (row_keys (db m))"
    if "removeInstanceMetadata (nId inst) m1 = (Inr u, m')" "instances (db m1) = instances (db m)" for m1
    using removeInstance_Inr [OF that(1)] that(2) by (simp add: row_keys_def delete_instances_def filter_map o_def Let_def)
  show ?thesis using assms
  proof (cases rule: stopInstance_cases)
    case (torn f inst' m1)
    show ?thesis by (rule removed [OF torn(4)]) (use teardown_other_rows [OF torn(2)] in \<open>simp add: other_rows_def\<close>)
  qed (auto intro: removed)
qed

lemma stopSurplus_rows:
  assumes "stopSurplus iids errs m = (Inr errs', m')"
  shows "\<exists>es. errs' = errs @ es \<and> (es = [] \<longrightarrow> row_keys (db m') = filter (\<lambda>k. fst k \<notin> set iids) (row_keys (db m)))"
  using assms
proof (induction iids arbitrary: errs m)
  case (Cons iid iids)
  obtain r m1 where r: "bnd (lookupInstanceMetadata iid) stopInstance m = (r, m1)" by fastforce
  show ?case
  proof (cases r)
    case (Inl e)
    then show ?thesis using Cons.IH [of "errs @ [e]" m1] Cons.prems r by (auto simp: bnd_def [of "tryIO _"] tryIO_def)
  next
    case (Inr u)
    then obtain inst m0 where l: "lookupInstanceMetadata iid m = (Inr inst, m0)" "stopInstance inst m0 = (Inr u, m1)"
      using r by (auto elim: bnd_InrE)
    have "nId inst = iid" "db m0 = db m" using lookupInstance_Inr [OF l(1)] inst_abs_worker by blast+
    with stopInstance_rows [OF l(2)] have "row_keys (db m1) = filter (\<lambda>k. fst k \<noteq> iid) (row_keys (db m))" by simp
    moreover have "stopSurplus iids errs m1 = (Inr errs', m')" using Cons.prems r Inr by (simp add: bnd_def [of "tryIO _"] tryIO_def)
    ultimately show ?thesis using Cons.IH [of errs m1] by (auto simp: conj_commute intro!: filter_cong)
  qed
qed simp

lemma insertInstance_keys: "insertInstance meta d = Inr (iid, d') \<Longrightarrow> row_keys d' = row_keys d @ [(iid, nBuild meta, nWorker meta)]"
  by (auto simp: insertInstance_def row_keys_def Let_def split: if_splits)

lemma newInstance_rows:
  assumes "newInstance env build limits m = (Inr (iid, None), m')"
  shows "\<exists>nid worker. row_keys (db m') = row_keys (db m) @ [(nid, mId build, worker)]"
  using assms
proof (cases rule: newInstance_cases)
  case (opened env' worker inst m2 m3)
  obtain nid where ins: "insertInstance (freshInstance build worker) (db m2) = Inr (nid, db m3)" "inst = (freshInstance build worker)\<lparr>nId := nid\<rparr>"
    by (rule openInstance_Inr [OF opened(3)])
  have new: "row_keys (db m3) = row_keys (db m2) @ [(nid, mId build, worker)]"
    using insertInstance_keys [OF ins(1)] by (simp add: freshInstance_def)
  from opened(4) have "row_keys (db m') = row_keys (db m3)"
  proof (cases rule: launchRecorded_cases)
    case (launched rpm inst1 m4 started inst2 m5)
    then show ?thesis using staysD [OF rows_launch.w_launch launched(6)] by simp
  qed auto
  then show ?thesis using new opened(1) by auto
qed simp

lemma launchMissing_rows:
  assumes "launchMissing env n build errs m = (Inr errs', m')"
  shows "\<exists>es. errs' = errs @ es \<and> (es = [] \<longrightarrow>
     (\<exists>new. row_keys (db m') = row_keys (db m) @ new \<and> length new = n \<and> (\<forall>k\<in>set new. fst (snd k) = mId build)))"
  using assms
proof (induction n arbitrary: build m)
  case (Suc n)
  obtain rb m1 where b: "(if mImages build = [] then tryIO (lookupBuildMetadata (mId build)) else ret (Inr build)) m = (Inr rb, m1)"
    using answers_case(1) [OF answers_basic(4) answers_basic(1)] unfolding answers_def by meson
  then have m1: "db m1 = db m" using reads_steady [OF reads_tryIO [OF reads_lookups(2)]]
    by (auto simp: steady_settings split: if_splits)
  show ?case
  proof (cases rb)
    case (Inl e)
    then show ?thesis using Suc.prems b by (auto simp: bnd_def [of "if _ then _ else _"])
  next
    case (Inr build')
    have id: "mId build' = mId build"
      using b Inr lookupBuild_row by (auto simp: tryIO_def split: if_splits prod.splits)
    have run: "bnd (newInstance (env\<lparr>leEnvVars := []\<rparr>) build' (restartLimits m1)) (\<lambda>(_, failure).
        case failure of Some e \<Rightarrow> ret (errs @ [e]) | None \<Rightarrow> launchMissing env n build' errs) m1 = (Inr errs', m')"
      using Suc.prems b Inr by (simp add: bnd_def [of "if _ then _ else _"] bnd_def [of "gets _"])
    then obtain iid failure m2 where n: "newInstance (env\<lparr>leEnvVars := []\<rparr>) build' (restartLimits m1) m1 = (Inr (iid, failure), m2)"
      by (auto elim!: bnd_InrE)
    show ?thesis
    proof (cases failure)
      case (Some e)
      then show ?thesis using run n by (auto simp: bnd_def)
    next
      case None
      then have rest: "launchMissing env n build' errs m2 = (Inr errs', m')" using run n by (simp add: bnd_def)
      from newInstance_rows [OF n [unfolded None]] obtain nid worker where new: "row_keys (db m2) = row_keys (db m) @ [(nid, mId build, worker)]"
        using m1 id by auto
      from Suc.IH [OF rest] show ?thesis using new id by force
    qed
  qed
qed simp

lemma distinct_filter_drop: "distinct xs \<Longrightarrow> filter (\<lambda>x. x \<notin> set (drop t xs)) xs = take t xs"
proof -
  assume "distinct xs"
  then have disjoint: "set (take t xs) \<inter> set (drop t xs) = {}" by (rule set_take_disj_set_drop_if_distinct) simp
  have "filter (\<lambda>x. x \<notin> set (drop t xs)) (take t xs @ drop t xs) = take t xs"
    using disjoint by (subst filter_append) (auto simp: filter_id_conv filter_empty_conv)
  then show ?thesis by simp
qed

lemma distinct_surplus:
  fixes ks :: "('k \<times> 'v) list"
  assumes "distinct (map fst ks)"
  shows "map fst (filter P (filter (\<lambda>k. fst k \<notin> set (drop t (map fst (filter P ks)))) ks)) = take t (map fst (filter P ks))"
    "filter (\<lambda>k. \<not> P k) (filter (\<lambda>k. fst k \<notin> set (drop t (map fst (filter P ks)))) ks) = filter (\<lambda>k. \<not> P k) ks"
proof -
  let ?ids = "map fst (filter P ks)"
  have "map fst (filter P (filter (\<lambda>k. fst k \<notin> set (drop t ?ids)) ks)) = filter (\<lambda>i. i \<notin> set (drop t ?ids)) ?ids"
    by (simp add: filter_map o_def conj_commute)
  also have "\<dots> = take t ?ids" using assms by (intro distinct_filter_drop) (simp add: distinct_map_filter)
  finally show "map fst (filter P (filter (\<lambda>k. fst k \<notin> set (drop t ?ids)) ks)) = take t ?ids" .
  have "fst k \<notin> set (drop t ?ids)" if "k \<in> set ks" "\<not> P k" for k
  proof
    assume "fst k \<in> set (drop t ?ids)"
    then obtain k' where "k' \<in> set ks" "P k'" "fst k' = fst k" by (auto dest!: in_set_dropD)
    then show False using assms that by (auto simp: distinct_map dest: inj_onD)
  qed
  then show "filter (\<lambda>k. \<not> P k) (filter (\<lambda>k. fst k \<notin> set (drop t ?ids)) ks) = filter (\<lambda>k. \<not> P k) ks"
    by (auto intro!: filter_cong)
qed

text \<open>
  C17. A converge that reports no error has brought the build to its number of instances: exactly
  \<open>target\<close> are recorded, the oldest ones kept, and no instance of any other build has come or gone.
\<close>

theorem convergeBuildInstances_reaches_target:
  assumes "store_inv (db m)" "convergeBuildInstances env build target m = (Inr [], m')"
  shows "length (owned (db m') (mId build)) = nat target \<and>
    take (nat target) (owned (db m) (mId build)) = take (length (owned (db m) (mId build))) (owned (db m') (mId build)) \<and>
    others (db m') (mId build) = others (db m) (mId build)"
proof -
  let ?P = "\<lambda>k :: int \<times> int \<times> string. fst (snd k) = mId build" and ?ids = "owned (db m) (mId build)" and ?t = "nat target"
  obtain r m1 where r: "getBuildInstances (mId build) m = (r, m1)" by fastforce
  then obtain ids where ids: "r = Inr ids" using assms(2) by (cases r) (auto simp: convergeBuildInstances_def bnd_def tryIO_def)
  have m1: "ids = ?ids" "db m1 = db m" using query_Inr [OF r [unfolded getBuildInstances_def ids]] by (simp_all add: owned_def)
  have run: "bnd (stopSurplus (drop ?t ?ids) []) (launchMissing env (?t - length ?ids) build) m1 = (Inr [], m')"
    using assms(2) r ids m1 by (auto simp: convergeBuildInstances_def bnd_def [of "tryIO _"] tryIO_def split: if_splits)
  then obtain errs m2 where s: "stopSurplus (drop ?t ?ids) [] m1 = (Inr errs, m2)" "launchMissing env (?t - length ?ids) build errs m2 = (Inr [], m')"
    by (auto elim!: bnd_InrE)
  have errs: "errs = []" using launchMissing_rows [OF s(2)] by auto
  have rows2: "row_keys (db m2) = filter (\<lambda>k. fst k \<notin> set (drop ?t ?ids)) (row_keys (db m))"
    using stopSurplus_rows [OF s(1)] errs m1 by simp
  obtain new where new: "row_keys (db m') = row_keys (db m2) @ new" "length new = ?t - length ?ids" "\<forall>k\<in>set new. ?P k"
    using launchMissing_rows [OF s(2)] errs by auto
  note surplus = distinct_surplus [OF store_keys [OF assms(1)], of ?P ?t, folded owned_keys, folded rows2]
  have "owned (db m') (mId build) = take ?t ?ids @ map fst new"
    using new(1,3) surplus(1) by (simp add: owned_keys)
  moreover have "others (db m') (mId build) = others (db m) (mId build)"
    using new(1,3) surplus(2) by (auto simp: others_def filter_empty_conv)
  ultimately show ?thesis using new(2) by (cases "length ?ids \<le> ?t") auto
qed

section \<open>Committing a generation\<close>

context store_contract
begin

lemma w_stopSurplus: "stays R (stopSurplus iids errs)"
proof (induction iids arbitrary: errs)
  case (Cons iid iids)
  show ?case unfolding stopSurplus.simps by (intro contract_intros w_stopInstance Cons.IH)
qed (unfold stopSurplus.simps, rule w_basic)

lemma w_launchMissing: "stays R (launchMissing env n build errs)"
proof (induction n arbitrary: build)
  case (Suc n)
  show ?case unfolding launchMissing.simps by (intro contract_intros w_newInstance Suc.IH)
qed (unfold launchMissing.simps, rule w_basic)

lemma w_convergeBuildInstances: "stays R (convergeBuildInstances env build target)"
  unfolding convergeBuildInstances_def getBuildInstances_def by (intro contract_intros w_stopSurplus w_launchMissing)

lemma w_reconcileInstances: "stays R (reconcileInstances env build cMeta rpm iids errs)"
proof (induction iids arbitrary: errs)
  case (Cons iid iids)
  show ?case unfolding reconcileInstances.simps reconcileInstance_def by (intro contract_intros w_stopInstance w_restart Cons.IH)
qed (unfold reconcileInstances.simps, rule w_basic)

lemma w_purgeBuiltImages: "stays R (purgeBuiltImages b)"
  unfolding purgeBuiltImages_def by (intro contract_intros w_dockerDo) simp

end

lemma finalizeBuild_db_only: "db_only (finalizeBuild build)"
  unfolding finalizeBuild_def finalizeImage_def by (intro keeps_intros db_only_if) (auto intro!: keeps_intros split: prod.split)

abbreviation finalizedRows :: "buildMeta \<Rightarrow> buildRow list \<Rightarrow> buildRow list" where
  "finalizedRows build \<equiv> map (\<lambda>r. if bId r = mId build then finalizeRow build r else r)"

interpretation builds_effect: table_effect "on_tables (\<lambda>d d'. builds d' = builds d)"
  by unfold_locales (auto simp: tables_def)

lemma finalizeImage_builds: "stays (on_tables (\<lambda>d d'. builds d' = builds d)) (finalizeImage build img)"
  unfolding finalizeImage_def
  by (intro builds_effect.w_intros exec_stays sql_stays) (auto simp: insertImage_def addImagePort_def Let_def)

lemma finalizeBuild_rows:
  assumes "finalizeBuild build m = (r, m')"
  shows "case r of Inl e \<Rightarrow> db m' = db m | Inr _ \<Rightarrow> builds (db m') = finalizedRows build (builds (db m))"
proof (cases r)
  case (Inl e)
  then have "fst (finalizeBuild build m) = Inl e" using assms by simp
  from txn_rollback [OF this [unfolded finalizeBuild_def]] show ?thesis
    using assms Inl by (simp add: finalizeBuild_def)
next
  case (Inr u)
  define rest where "rest = bnd (exec (\<lambda>d. d\<lparr>lookupData := filter (\<lambda>l. fst l \<noteq> mId build) (lookupData d)\<rparr>)) (\<lambda>_.
     bnd (for_each (mLookup build) (\<lambda>(k, v). exec (\<lambda>d. d\<lparr>lookupData := lookupData d @ [(mId build, k, v)]\<rparr>))) (\<lambda>_.
     bnd (exec (\<lambda>d. d\<lparr>images := filter (\<lambda>i. imBuild i \<noteq> mId build) (images d)\<rparr>)) (\<lambda>_.
     for_each (mImages build) (finalizeImage (mId build)))))"
  have rest: "stays (on_tables (\<lambda>d d'. builds d' = builds d)) rest"
    unfolding rest_def
    by (intro builds_effect.w_intros exec_stays finalizeImage_builds) (auto intro!: exec_stays split: prod.split)
  obtain m1 where body: "bnd (sql (\<lambda>d. (length (filter (\<lambda>r. bId r = mId build) (builds d)),
      d\<lparr>builds := finalizedRows build (builds d)\<rparr>))) (\<lambda>n. if n \<noteq> 1 then fail [Msg ''finalized an unexpected number of builds''] else rest) m = (Inr u, m1)"
    "db m' = db m1" using txn_Inr [OF assms [unfolded finalizeBuild_def Inr, folded rest_def]] by auto
  obtain n m2 where n: "sql (\<lambda>d. (length (filter (\<lambda>r. bId r = mId build) (builds d)), d\<lparr>builds := finalizedRows build (builds d)\<rparr>)) m = (Inr n, m2)"
    "(if n \<noteq> 1 then fail [Msg ''finalized an unexpected number of builds''] else rest) m2 = (Inr u, m1)" by (rule bnd_InrE [OF body(1)])
  have "builds (db m1) = builds (db m2)" using n(2) staysD [OF rest] by (auto split: if_splits)
  moreover have "builds (db m2) = finalizedRows build (builds (db m))"
    using n(1) by (auto simp: sql_def split: list.splits option.splits)
  ultimately show ?thesis using body(2) Inr by simp
qed

text \<open>What follows the commit of a generation touches no build row and hands out at most the displaced generation.\<close>

lemma catalogued_builds: "stays (on_tables (\<lambda>d d'. catalog d' = catalog d)) f \<Longrightarrow> stays (on_tables (\<lambda>d d'. builds d' = builds d)) f"
  by (simp add: stays_def catalog_def)

lemma applyGeneration_builds:
  "stays (on_tables (\<lambda>d d'. builds d' = builds d)) (applyGeneration env build cMeta rpm prune old displaced)"
  unfolding applyGeneration_def getBuildInstances_def
  by (intro builds_effect.w_intros catalogued_builds [OF catalogued.w_purgeBuiltImages] catalogued_builds [OF catalogued.w_reconcileInstances]
      catalogued_builds [OF catalogued.w_convergeBuildInstances])

lemma applyGeneration_candidate:
  assumes "applyGeneration env build cMeta rpm prune old displaced m = (Inr (Some (tags, g), errs), m')"
  shows "prune \<and> displacedPruneCandidate old (mChecksum build) displaced \<and> mChecksum g = displaced"
  using assms unfolding applyGeneration_def by (auto elim!: bnd_InrE split: sum.splits if_splits)

text \<open>
  C16. A generation is committed before anything that runs it is touched. Either the commit fails, and
  then the tables are as they were and no daemon was asked for anything; or the row of the build
  holds the new generation with the replaced one as its rollback target, every other row is
  untouched, and the generation handed out for pruning is the one that was displaced, never the
  one just committed.
\<close>

theorem reconcileBuild_commits_first:
  assumes "reconcileBuild env build cMeta rpm prune m = (Inr (candidate, errs), m')"
  shows "(candidate = None \<and> errs \<noteq> [] \<and> db m' = db m \<and> calls m' = calls m) \<or>
    (\<exists>old displaced. fst (storedGeneration (mId build) m) = Inr (old, displaced) \<and>
       builds (db m') = finalizedRows (build\<lparr>mPrevChecksum := rotatedPrevChecksum old (mChecksum build) displaced\<rparr>) (builds (db m)) \<and>
       (\<forall>tags g. candidate = Some (tags, g) \<longrightarrow> prune \<and> mChecksum g = displaced \<and> displaced \<noteq> 0 \<and>
          displaced \<noteq> mChecksum build \<and> old \<noteq> mChecksum build))"
proof -
  have reads_stored: "reads (storedGeneration i)" for i unfolding storedGeneration_def by (intro reads_intros)
  obtain g m1 where g: "storedGeneration (mId build) m = (g, m1)" by fastforce
  have m1: "db m1 = db m" "calls m1 = calls m" using reads_steady [OF reads_stored g] by (auto simp: steady_settings)
  show ?thesis
  proof (cases g)
    case (Inl e)
    then show ?thesis using assms g m1 by (auto simp: reconcileBuild_def bnd_def tryIO_def)
  next
    case (Inr pair)
    then obtain old displaced where pair: "g = Inr (old, displaced)" by (cases pair) auto
    let ?b = "build\<lparr>mPrevChecksum := rotatedPrevChecksum old (mChecksum build) displaced\<rparr>"
    let ?rest = "applyGeneration env ?b cMeta rpm prune old displaced"
    obtain f m2 where f: "finalizeBuild ?b m1 = (f, m2)" by fastforce
    have m2: "calls m2 = calls m1" using db_only_calls [OF finalizeBuild_db_only, of ?b m1] f by simp
    have step: "reconcileBuild env build cMeta rpm prune m = (case f of Inl e \<Rightarrow> (Inr (None, [e]), m2) | Inr _ \<Rightarrow> ?rest m2)"
      by (simp add: reconcileBuild_def bnd_def tryIO_def g pair f Let_def split: sum.split)
    show ?thesis
    proof (cases f)
      case (Inl e)
      then show ?thesis using assms m1 m2 finalizeBuild_rows [OF f] step by auto
    next
      case (Inr u)
      have run: "?rest m2 = (Inr (candidate, errs), m')" using assms step Inr by simp
      have "builds (db m') = finalizedRows ?b (builds (db m))"
        using staysD [OF applyGeneration_builds run] finalizeBuild_rows [OF f] Inr m1(1) by simp
      moreover have "prune \<and> mChecksum g' = displaced \<and> displaced \<noteq> 0 \<and> displaced \<noteq> mChecksum build \<and> old \<noteq> mChecksum build"
        if "candidate = Some (tags, g')" for tags g'
        using applyGeneration_candidate [OF run [unfolded that]] by (auto simp: displacedPruneCandidate_def)
      moreover have "fst (storedGeneration (mId build) m) = Inr (old, displaced)" using g pair by simp
      ultimately show ?thesis by blast
    qed
  qed
qed

section \<open>Runs\<close>

text \<open>Two rows share a generation; the one destroyed also keeps a generation for rollback.\<close>

definition sharing_manager :: manager where
  "sharing_manager = sample_store\<lparr>challengeRegistry := ''reg:5000'',
     db := (db sample_store)\<lparr>builds := [sample_row\<lparr>bPrevChecksum := 6\<rparr>, sample_row\<lparr>bId := 2, bSchema := ''other''\<rparr>],
       images := [\<lparr>imId = 1, imBuild = 1, imHost = ''challenge'', imPorts = []\<rparr>]\<rparr>\<rparr>"

definition sharing_run :: "(err + unit) \<times> manager" where
  "sharing_run = destroyImages 1 True sharing_manager"

abbreviation sharing_tag :: "32 word \<Rightarrow> string" where
  "sharing_tag checksum \<equiv> instanceImageName ''reg:5000'' ''pico/a'' 7 checksum ''challenge''"

lemma sharing_run_result:
  "fst sharing_run = Inr ()" "list_ex (\<lambda>cr. untags cr = Some (sharing_tag 6)) (calls (snd sharing_run))"
  "calls sharing_manager = []" "plain_ids (db sharing_manager)" "challengeRegistry sharing_manager = ''reg:5000''"
  by code_simp+

theorem destroyImages_spares_needed_tags_witness:
  "list_ex (\<lambda>cr. untags cr = Some (sharing_tag 6)) (calls (snd sharing_run)) \<and>
   list_all (\<lambda>cr. untags cr \<noteq> Some (sharing_tag 5)) (calls (snd sharing_run))"
proof -
  let ?row = "sample_row\<lparr>bId := 2, bSchema := ''other''\<rparr>"
  have run: "destroyImages 1 True sharing_manager = (Inr (), snd sharing_run)"
    using sharing_run_result(1) by (metis prod.collapse sharing_run_def)
  note ok = destroyImages_spares_needed_tags [OF run sharing_run_result(4), unfolded sharing_run_result(3,5)]
  then have "builds (db (snd sharing_run)) = filter (\<lambda>row. bId row \<noteq> 1) (builds (db sharing_manager))" by blast
  then have row: "?row \<in> set (builds (db (snd sharing_run)))" by (simp add: sharing_manager_def)
  have "resolves ''reg:5000'' ?row (sharing_tag 5)" by (auto simp: resolves_def sample_row_def)
  then show ?thesis using ok row sharing_run_result(2) by (auto simp: list_all_iff)
qed

definition resized_build :: buildMeta where
  "resized_build = sample_build\<lparr>mChallenge := ''c'', mImages := []\<rparr>"

definition resized_run :: "(err + err list) \<times> manager" where
  "resized_run = convergeBuildInstances start_env resized_build 3 started_manager"

lemma resized_run_result: "fst resized_run = Inr []" "owned (db started_manager) 1 = [4, 6]" "mId resized_build = 1"
  by code_simp+

theorem convergeBuildInstances_reaches_target_witness:
  "\<exists>iid. owned (db (snd resized_run)) 1 = [4, 6, iid]"
proof -
  have inv: "store_inv (db started_manager)"
    by (simp add: started_manager_def lifecycle_manager_def freshManager_def emptyDatabase_def store_inv_def)
  have "convergeBuildInstances start_env resized_build 3 started_manager = (Inr [], snd resized_run)"
    using resized_run_result(1) by (metis prod.collapse resized_run_def)
  from convergeBuildInstances_reaches_target [OF inv this, unfolded resized_run_result(2,3)]
  have "length (owned (db (snd resized_run)) 1) = 3" "take (Suc (Suc 0)) (owned (db (snd resized_run)) 1) = [4, 6]" by auto
  then show ?thesis by (cases "owned (db (snd resized_run)) 1" rule: list.exhaust) (auto simp: length_Suc_conv numeral_eq_Suc)
qed

text \<open>A build whose row serves generation 5 and keeps generation 3 is committed at generation 9.\<close>

definition committed_manager :: manager where
  "committed_manager = sample_store\<lparr>db := (db sample_store)\<lparr>builds := [sample_row\<lparr>bFlag := ''f'', bPrevChecksum := 3\<rparr>]\<rparr>\<rparr>"

definition committed_run :: "(err + (string list \<times> buildMeta) option \<times> err list) \<times> manager" where
  "committed_run = reconcileBuild sample_benv (sample_build\<lparr>mChecksum := 9\<rparr>) sample_cmeta (\<lambda>_. None) True committed_manager"

lemma committed_run_result:
  "(case fst committed_run of Inl _ \<Rightarrow> False | Inr (candidate, errs) \<Rightarrow> candidate \<noteq> None \<and> errs = [])"
  "fst (storedGeneration 1 committed_manager) = Inr (5, 3)"
  by code_simp+

theorem reconcileBuild_commits_first_witness:
  "map (\<lambda>r. (bChecksum r, bPrevChecksum r)) (builds (db (snd committed_run))) = [(9, 5)]"
proof -
  obtain c errs where c: "fst committed_run = Inr (Some c, errs)" using committed_run_result(1) by (auto split: sum.splits)
  then have "reconcileBuild sample_benv (sample_build\<lparr>mChecksum := 9\<rparr>) sample_cmeta (\<lambda>_. None) True committed_manager = (Inr (Some c, errs), snd committed_run)"
    by (metis prod.collapse committed_run_def)
  from reconcileBuild_commits_first [OF this] committed_run_result(2)
  have "builds (db (snd committed_run)) = finalizedRows (sample_build\<lparr>mChecksum := 9, mPrevChecksum := rotatedPrevChecksum 5 9 3\<rparr>) (builds (db committed_manager))"
    by simp
  then show ?thesis by (simp add: committed_manager_def finalizeRow_def rotatedPrevChecksum_def)
qed

end
