(* ===== verification/Schema_Ops.thy ===== *)
theory Schema_Ops
  imports Build_Reconcile
begin

text \<open>
  Builds on request and schemas (\<open>src/cork/api.go\<close>, \<open>src/cork/docker.go\<close>,
  \<open>src/cork/buildplane.go\<close>): making the builds that are missing, creating, updating and
  deleting a schema, and what a schema looks like. A schema operation is serialized with updates
  and other schema operations by one lock, so it runs here from one state of the manager to the
  next; its result is its list of errors, and \<open>Inl\<close> is a panic of the call.
\<close>

section \<open>Data\<close>

record BuildSpecification =
  bsSeeds :: "int list"
  bsInstanceCount :: int

text \<open>The challenges are a map, listed in the order this run ranges over it.\<close>

record Schema =
  sName :: string
  sFlagFormat :: string
  sChallenges :: "(string \<times> BuildSpecification) list"

definition manualSchemaPrefix :: string where
  "manualSchemaPrefix = ''manual-''"

text \<open>A build as a schema asks for it, before its row is opened.\<close>

definition wantedBuild :: "string \<Rightarrow> string \<Rightarrow> string \<Rightarrow> int \<Rightarrow> int \<Rightarrow> buildMeta" where
  "wantedBuild schema format challenge count seed =
     \<lparr>mId = 0, mFlag = '''', mLookup = [], mSeed = seed, mFormat = format, mChecksum = 0, mPrevChecksum = 0, mSourceChecksum = 0,
      mImages = [], mHasArtifacts = False, mLastSolved = 0, mChallenge = challenge, mSchema = schema, mInstanceCount = count\<rparr>"

section \<open>The external build plane\<close>

fun joinStrings :: "string \<Rightarrow> string list \<Rightarrow> string" where
  "joinStrings sep [] = ''''"
| "joinStrings sep [s] = s"
| "joinStrings sep (s # ss) = s @ sep @ joinStrings sep ss"

definition missingHandOverError :: "string \<Rightarrow> string \<Rightarrow> string \<Rightarrow> int list \<Rightarrow> err" where
  "missingHandOverError challenge schema format seeds =
     [Msg (''no build of '' @ challenge @ '' for schema '' @ schema @ '' (format '' @ format @ '', seed '' @
           joinStrings '', '' (map show_int seeds) @ '') has been handed over''), ErrExternalBuildPlane]"

definition handOverGap :: "string list \<Rightarrow> (string \<times> int) list \<Rightarrow> Schema \<Rightarrow> string \<times> BuildSpecification \<Rightarrow> err list" where
  "handOverGap known built schema entry =
     (let missing = filter (\<lambda>seed. (fst entry, seed) \<notin> set built) (bsSeeds (snd entry)) in
      if bsSeeds (snd entry) = [] then []
      else if fst entry \<notin> set known then [[Msg (''challenge '' @ fst entry @ '' has not been handed over''), ErrExternalBuildPlane]]
      else if missing \<noteq> [] then [missingHandOverError (fst entry) (sName schema) (sFlagFormat schema) missing]
      else [])"

definition requireHandedOver :: "Schema \<Rightarrow> err list mio" where
  "requireHandedOver schema =
     catch
       (bnd (query (\<lambda>d. map cId (challenges d))) (\<lambda>known.
        bnd (query (\<lambda>d. map (\<lambda>r. (bChallenge r, bSeed r))
               (filter (\<lambda>r. bSchema r = sName schema \<and> bFormat r = sFlagFormat schema \<and> bFlag r \<noteq> '''') (builds d)))) (\<lambda>built.
        ret (concat (map (handOverGap known built schema) (sortBy (\<lambda>a b. string_le (fst a) (fst b)) (sChallenges schema)))))))
       (\<lambda>e. ret [e])"

definition requireIngestedBuilds :: "buildMeta list \<Rightarrow> unit mio" where
  "requireIngestedBuilds wanted =
     (let missing = map mSeed (filter (\<lambda>b. mFlag b = '''') wanted); first = hd wanted in
      if missing \<noteq> [] then fail (missingHandOverError (mChallenge first) (mSchema first) (mFormat first) missing)
      else bnd (tryIO (challengeHasStaleBuild (mChallenge first))) (\<lambda>_. ret ()))"

section \<open>Making the builds that are missing\<close>

definition generateOne :: "buildEnv \<Rightarrow> challengeMeta \<Rightarrow> string \<Rightarrow> buildMeta \<Rightarrow> buildMeta mio" where
  "generateOne env cMeta ctxFile build =
     (if mFlag build \<noteq> '''' then ret build
      else
        bnd (openBuild (beSum env) build) (\<lambda>opened.
        bnd (tryIO (executeBuild env cMeta opened ctxFile)) (\<lambda>r.
        (case r of
           Inl e \<Rightarrow> bnd (tryIO (removeBuildMetadata (mId opened))) (\<lambda>_. fail e)
         | Inr made \<Rightarrow>
             bnd (finalizeBuild made) (\<lambda>_.
             bnd (purgeBuiltImages made) (\<lambda>_.
             ret made))))))"

fun generateEach :: "buildEnv \<Rightarrow> challengeMeta \<Rightarrow> string \<Rightarrow> buildMeta list \<Rightarrow> buildMeta list mio" where
  "generateEach env cMeta ctxFile [] = ret []"
| "generateEach env cMeta ctxFile (b # bs) =
     bnd (generateOne env cMeta ctxFile b) (\<lambda>b'.
     bnd (generateEach env cMeta ctxFile bs) (\<lambda>bs'.
     ret (b' # bs')))"

definition inList :: "challengeMeta \<Rightarrow> challengeMeta list \<Rightarrow> bool" where
  "inList cMeta = list_ex (\<lambda>md. cId md = cId cMeta)"

definition buildMissing :: "buildEnv \<Rightarrow> challengeMeta \<Rightarrow> buildMeta list \<Rightarrow> buildMeta list mio" where
  "buildMissing env cMeta wanted =
     (case beContext env cMeta of
        Inl e \<Rightarrow> fail e
      | Inr ctxFile \<Rightarrow>
          bnd (tryIO (generateEach env cMeta ctxFile wanted)) (\<lambda>r.
          bnd (dockerDo (FileRemove ctxFile)) (\<lambda>_.
          (case r of Inl e \<Rightarrow> fail e | Inr bs \<Rightarrow> ret bs))))"

definition generateBuilds :: "buildEnv \<Rightarrow> buildMeta list \<Rightarrow> buildMeta list mio" where
  "generateBuilds env wanted =
     (if wanted = [] then ret []
      else
        bnd (gets externalBuildPlane) (\<lambda>external.
        if external then bnd (requireIngestedBuilds wanted) (\<lambda>_. ret wanted)
        else
          bnd (lookupChallengeMetadata (mChallenge (hd wanted))) (\<lambda>cMeta.
          bnd (DetectChanges (beNormalize env) (beInventory env) (beChalDir env) (filepath_Dir (cPath cMeta))) (\<lambda>updates.
          if list_all (\<lambda>b. mFlag b \<noteq> '''') wanted then ret wanted
          else if cuErrors updates \<noteq> [] then fail [Msg (''errors detected in directory for '' @ cId cMeta)]
          else if inList cMeta (cuUpdated updates) \<or> inList cMeta (cuRefreshed updates) \<or> inList cMeta (cuRemoved updates)
          then fail [Msg (cId cMeta @ '' has changed since last update'')]
          else buildMissing env cMeta wanted))))"

text \<open>\<open>draw\<close> is the number drawn for the name of the schema.\<close>

definition Build :: "buildEnv \<Rightarrow> nat \<Rightarrow> string \<Rightarrow> int list \<Rightarrow> string \<Rightarrow> buildMeta list mio" where
  "Build env draw challenge seeds flagFormat =
     bnd (gets externalBuildPlane) (\<lambda>external.
     if external then fail [ErrExternalBuildPlane]
     else generateBuilds env (map (wantedBuild (manualSchemaPrefix @ show_hex draw) flagFormat challenge DYNAMIC_INSTANCES) seeds))"

text \<open>Slicing a shorter name is a panic.\<close>

definition Destroy :: "int \<Rightarrow> unit mio" where
  "Destroy build =
     bnd (lookupBuildMetadata build) (\<lambda>b.
     if length (mSchema b) < length manualSchemaPrefix then fail [GoPanic ''slice bounds out of range'']
     else if take (length manualSchemaPrefix) (mSchema b) \<noteq> manualSchemaPrefix
     then fail [Msg ''locked build: change the schema definition to destroy this build'']
     else destroyImages build True)"

section \<open>Converging a schema\<close>

text \<open>A build whose row could not be opened stays in the list, with the checksum stamped on it.\<close>

fun openSeeds :: "buildEnv \<Rightarrow> buildMeta list \<Rightarrow> (buildMeta list \<times> err list) mio" where
  "openSeeds env [] = ret ([], [])"
| "openSeeds env (b # bs) =
     bnd (stampChecksum (beSum env) b) (\<lambda>stampedBuild.
     bnd (tryIO (openRow stampedBuild)) (\<lambda>r.
     bnd (openSeeds env bs) (\<lambda>(bs', errs).
     ret (case r of
            Inl e \<Rightarrow> (stampedBuild # bs', e # errs)
          | Inr opened \<Rightarrow> (opened # bs', errs)))))"

fun openSchema :: "buildEnv \<Rightarrow> Schema \<Rightarrow> (string \<times> BuildSpecification) list \<Rightarrow> (buildMeta list list \<times> err list) mio" where
  "openSchema env schema [] = ret ([], [])"
| "openSchema env schema ((challenge, spec) # entries) =
     bnd (openSeeds env (map (wantedBuild (sName schema) (sFlagFormat schema) challenge (bsInstanceCount spec)) (bsSeeds spec))) (\<lambda>(bs, errs).
     bnd (openSchema env schema entries) (\<lambda>(groups, errs').
     ret (bs # groups, errs @ errs')))"

fun stopEach :: "int list \<Rightarrow> unit mio" where
  "stopEach [] = ret ()"
| "stopEach (iid # iids) =
     bnd (lookupInstanceMetadata iid) (\<lambda>inst.
     bnd (stopInstance inst) (\<lambda>_.
     stopEach iids))"

definition cleanupSchemaResources :: "string \<Rightarrow> bool \<Rightarrow> unit mio" where
  "cleanupSchemaResources name retire =
     bnd (removedSchemaInstances name) (\<lambda>iids.
     bnd (stopEach iids) (\<lambda>_.
     bnd (removedSchemaBuilds name) (\<lambda>ids.
     for_each ids (\<lambda>build. destroyImages build retire))))"

fun convergeBuilds :: "buildEnv \<Rightarrow> Schema \<Rightarrow> challengeMeta \<Rightarrow> buildMeta list \<Rightarrow> err list mio" where
  "convergeBuilds env schema cMeta [] = ret []"
| "convergeBuilds env schema cMeta (b # bs) =
     (let target = (case map_of (sChallenges schema) (mChallenge b) of None \<Rightarrow> 0 | Some spec \<Rightarrow> bsInstanceCount spec) in
      bnd (if \<not> NeedsInstance cMeta then convergeBuildInstances (beLaunch env) b 0
           else if target = DYNAMIC_INSTANCES \<or> target = LOCKED then ret []
           else convergeBuildInstances (beLaunch env) b target) (\<lambda>errs.
      bnd (convergeBuilds env schema cMeta bs) (\<lambda>errs'.
      ret (errs @ errs'))))"

fun convergeGroups :: "buildEnv \<Rightarrow> Schema \<Rightarrow> buildMeta list list \<Rightarrow> err list mio" where
  "convergeGroups env schema [] = ret []"
| "convergeGroups env schema (wanted # groups) =
     bnd (tryIO (generateBuilds env wanted)) (\<lambda>r.
     bnd (case r of
            Inl e \<Rightarrow> ret [e]
          | Inr made \<Rightarrow>
              if made = [] then ret []
              else
                bnd (tryIO (lookupChallengeMetadata (mChallenge (hd made)))) (\<lambda>c.
                (case c of
                   Inl e \<Rightarrow> ret [e]
                 | Inr cMeta \<Rightarrow> convergeBuilds env schema cMeta made))) (\<lambda>errs.
     bnd (convergeGroups env schema groups) (\<lambda>errs'.
     ret (errs @ errs'))))"

text \<open>The converge once nothing stands against it: mark, open, release what is not named, make and start the rest.\<close>

definition convergeNamed :: "buildEnv \<Rightarrow> Schema \<Rightarrow> err list mio" where
  "convergeNamed env schema =
     bnd (tryIO (lockSchema (sName schema))) (\<lambda>locked.
     (case locked of
        Inl e \<Rightarrow> ret [e]
      | Inr _ \<Rightarrow>
          bnd (openSchema env schema (sChallenges schema)) (\<lambda>(groups, errs).
          bnd (tryIO (cleanupSchemaResources (sName schema) True)) (\<lambda>c.
          bnd (convergeGroups env schema groups) (\<lambda>more.
          ret (errs @ (case c of Inl e \<Rightarrow> [e] | Inr _ \<Rightarrow> []) @ more))))))"

definition convergeSchema :: "buildEnv \<Rightarrow> Schema \<Rightarrow> err list mio" where
  "convergeSchema env schema =
     bnd (gets externalBuildPlane) (\<lambda>external.
     bnd (if external then requireHandedOver schema else ret []) (\<lambda>gaps.
     if gaps \<noteq> [] then ret gaps else convergeNamed env schema))"

definition createSchema :: "buildEnv \<Rightarrow> Schema \<Rightarrow> err list mio" where
  "createSchema env schema =
     bnd (tryIO (schemaExists (sName schema))) (\<lambda>r.
     (case r of
        Inl e \<Rightarrow> ret [e]
      | Inr exists \<Rightarrow> if exists then ret [[Msg ''schema already exists'']] else convergeSchema env schema))"

definition UpdateSchema :: "buildEnv \<Rightarrow> Schema \<Rightarrow> err list mio" where
  "UpdateSchema env schema =
     bnd (tryIO (schemaExists (sName schema))) (\<lambda>r.
     (case r of
        Inl e \<Rightarrow> ret [e]
      | Inr exists \<Rightarrow> if exists then convergeSchema env schema else createSchema env schema))"

definition DeleteSchema :: "string \<Rightarrow> bool \<Rightarrow> unit mio" where
  "DeleteSchema name retire =
     bnd (lockSchema name) (\<lambda>_.
     bnd (cleanupSchemaResources name retire) (\<lambda>_.
     exec (\<lambda>d. d\<lparr>preloads := filter (\<lambda>s. s \<noteq> name) (preloads d)\<rparr>)))"

section \<open>The state of a schema\<close>

text \<open>
  The challenges with their builds and instances: one entry per run of builds of one challenge,
  in the order of the builds.
\<close>

type_synonym schemaState = "(challengeMeta \<times> (buildMeta \<times> instanceMeta list) list) list"

fun stateLoop :: "int list \<Rightarrow> (challengeMeta \<times> (buildMeta \<times> instanceMeta list) list) option \<Rightarrow> schemaState \<Rightarrow> schemaState mio" where
  "stateLoop [] current acc = ret (case current of None \<Rightarrow> acc | Some entry \<Rightarrow> acc @ [entry])"
| "stateLoop (buildId # ids) current acc =
     bnd (lookupBuildMetadata buildId) (\<lambda>build.
     bnd (lookupBuildInstances (mId build)) (\<lambda>insts.
     (case current of
        Some entry \<Rightarrow>
          if cId (fst entry) = mChallenge build
          then stateLoop ids (Some (fst entry, snd entry @ [(build, insts)])) acc
          else bnd (lookupChallengeMetadata (mChallenge build)) (\<lambda>c. stateLoop ids (Some (c, [(build, insts)])) (acc @ [entry]))
      | None \<Rightarrow> bnd (lookupChallengeMetadata (mChallenge build)) (\<lambda>c. stateLoop ids (Some (c, [(build, insts)])) acc))))"

definition GetSchemaState :: "string \<Rightarrow> schemaState mio" where
  "GetSchemaState name = bnd (getSchemaBuilds name) (\<lambda>ids. stateLoop ids None [])"

section \<open>A schema that is not handed over is refused whole\<close>

lemma requireHandedOver_answers:
  assumes "requireHandedOver schema m = (r, m')"
  shows "db m' = db m \<and> calls m' = calls m \<and>
    (\<exists>gaps. r = Inr gaps \<and>
      (gaps = [] \<longrightarrow> (\<forall>(challenge, spec)\<in>set (sChallenges schema). \<forall>seed\<in>set (bsSeeds spec).
         \<exists>row\<in>set (builds (db m)). bSchema row = sName schema \<and> bFormat row = sFlagFormat schema \<and> bChallenge row = challenge \<and>
            bSeed row = seed \<and> bFlag row \<noteq> '''')))"
proof -
  have "db_only (requireHandedOver schema)" unfolding requireHandedOver_def by (intro keeps_intros)
  then have calls: "calls m' = calls m" using db_only_calls [of "requireHandedOver schema" m] assms by simp
  obtain k m1 where k: "query (\<lambda>d. map cId (challenges d)) m = (k, m1)" by fastforce
  show ?thesis
  proof (cases k)
    case (Inl e)
    then show ?thesis using assms k calls query_Inl [OF k [unfolded Inl]] by (auto simp: requireHandedOver_def catch_def bnd_def)
  next
    case (Inr known)
    have m1: "db m1 = db m" using query_Inr [OF k [unfolded Inr]] by simp
    obtain q m2 where q: "query (\<lambda>d. map (\<lambda>r. (bChallenge r, bSeed r))
        (filter (\<lambda>r. bSchema r = sName schema \<and> bFormat r = sFlagFormat schema \<and> bFlag r \<noteq> '''') (builds d))) m1 = (q, m2)" by fastforce
    show ?thesis
    proof (cases q)
      case (Inl e)
      then show ?thesis using assms k Inr q m1 calls query_Inl [OF q [unfolded Inl]]
        by (auto simp: requireHandedOver_def catch_def bnd_def)
    next
      case built: (Inr built)
      note rows = query_Inr [OF q [unfolded built]]
      have "requireHandedOver schema m =
          (Inr (concat (map (handOverGap known built schema) (sortBy (\<lambda>a b. string_le (fst a) (fst b)) (sChallenges schema)))), m2)"
        using k Inr q built by (simp add: requireHandedOver_def catch_def bnd_def)
      then have r: "r = Inr (concat (map (handOverGap known built schema) (sortBy (\<lambda>a b. string_le (fst a) (fst b)) (sChallenges schema))))"
        "m' = m2" using assms by simp_all
      have "\<exists>row\<in>set (builds (db m)). bSchema row = sName schema \<and> bFormat row = sFlagFormat schema \<and> bChallenge row = challenge \<and>
            bSeed row = seed \<and> bFlag row \<noteq> ''''"
        if "handOverGap known built schema (challenge, spec) = []" "seed \<in> set (bsSeeds spec)" for challenge spec seed
      proof -
        have "(challenge, seed) \<in> set built" using that
          by (auto simp: handOverGap_def Let_def filter_empty_conv split: if_splits)
        then show ?thesis using rows m1 by auto
      qed
      then show ?thesis using r calls rows m1 by (auto simp: set_sortBy concat_eq_Nil_conv)
    qed
  qed
qed

text \<open>
  On an external build plane a schema whose builds have not all been handed over is refused whole:
  the answer names what is missing, no row is locked, opened or removed and nothing is asked of any
  daemon, so what runs goes on running.
\<close>

theorem convergeSchema_refused_whole:
  assumes "externalBuildPlane m" "convergeSchema env schema m = (r, m')"
    "(challenge, spec) \<in> set (sChallenges schema)" "seed \<in> set (bsSeeds spec)"
    "\<not> (\<exists>row\<in>set (builds (db m)). bSchema row = sName schema \<and> bFormat row = sFlagFormat schema \<and> bChallenge row = challenge \<and>
          bSeed row = seed \<and> bFlag row \<noteq> '''')"
  shows "db m' = db m \<and> calls m' = calls m \<and> (\<exists>errs. r = Inr errs \<and> errs \<noteq> [])"
proof -
  obtain g m1 where g: "requireHandedOver schema m = (g, m1)" by fastforce
  obtain gaps where gaps: "g = Inr gaps" "gaps \<noteq> []" using requireHandedOver_answers [OF g] assms(3-5) by fastforce
  then have "r = Inr gaps" "m' = m1" using assms(1,2) g by (auto simp: convergeSchema_def bnd_def)
  then show ?thesis using requireHandedOver_answers [OF g] gaps by auto
qed

section \<open>Deleting a schema\<close>

context store_contract
begin

lemma w_stopEach: "stays R (stopEach iids)"
proof (induction iids)
  case (Cons iid iids)
  show ?case unfolding stopEach.simps by (intro contract_intros w_stopInstance Cons.IH)
qed (unfold stopEach.simps, rule w_basic)

end

lemma stopEach_rows:
  "stopEach iids m = (Inr u, m') \<Longrightarrow> row_keys (db m') = filter (\<lambda>k. fst k \<notin> set iids) (row_keys (db m))"
proof (induction iids arbitrary: m)
  case (Cons iid iids)
  obtain inst m1 v m2 where l: "lookupInstanceMetadata iid m = (Inr inst, m1)" "stopInstance inst m1 = (Inr v, m2)" "stopEach iids m2 = (Inr u, m')"
    using Cons.prems by (auto elim!: bnd_InrE)
  have "nId inst = iid" "db m1 = db m" using lookupInstance_Inr [OF l(1)] inst_abs_worker by blast+
  with stopInstance_rows [OF l(2)] have "row_keys (db m2) = filter (\<lambda>k. fst k \<noteq> iid) (row_keys (db m))" by simp
  then show ?case using Cons.IH [OF l(3)] by (auto simp: conj_commute intro!: filter_cong)
qed simp

lemma destroyImages_done:
  assumes "destroyImages build retire m = (Inr u, m')"
  shows "db m' = without_build build (db m)"
  using assms by (cases rule: destroyImages_cases) (auto simp: steady_settings)

lemma destroyEach_done:
  "for_each ids (\<lambda>build. destroyImages build retire) m = (Inr u, m') \<Longrightarrow>
   builds (db m') = filter (\<lambda>r. bId r \<notin> set ids) (builds (db m)) \<and> instances (db m') = instances (db m)"
proof (induction ids arbitrary: m)
  case (Cons build ids)
  obtain v m1 where d: "destroyImages build retire m = (Inr v, m1)" "for_each ids (\<lambda>build. destroyImages build retire) m1 = (Inr u, m')"
    using Cons.prems by (auto elim!: bnd_InrE)
  show ?case using Cons.IH [OF d(2)] destroyImages_done [OF d(1)] by (auto simp: without_build_def conj_commute intro!: filter_cong)
qed simp

definition lockedRows :: "string \<Rightarrow> buildRow list \<Rightarrow> buildRow list" where
  "lockedRows name = map (\<lambda>r. if bSchema r = name then r\<lparr>bInstanceCount := LOCKED\<rparr> else r)"

lemma filter_lockedRows:
  "(\<And>r. r \<in> set rs \<Longrightarrow> P (bId r) \<longleftrightarrow> bSchema r \<noteq> name) \<Longrightarrow>
   filter (\<lambda>r. P (bId r)) (lockedRows name rs) = filter (\<lambda>r. bSchema r \<noteq> name) rs"
  by (induction rs) (auto simp: lockedRows_def)

lemma obsolete_lockedRows:
  "(\<exists>r\<in>set (lockedRows name rs). bId r = i \<and> bSchema r = name \<and> bInstanceCount r = LOCKED) \<longleftrightarrow>
   (\<exists>r\<in>set rs. bId r = i \<and> bSchema r = name)"
  by (induction rs) (simp_all add: lockedRows_def)

text \<open>What a cleanup that succeeds removes: the locked builds of the schema, with their instances.\<close>

definition obsolete :: "string \<Rightarrow> database \<Rightarrow> int \<Rightarrow> bool" where
  "obsolete name d build \<longleftrightarrow> (\<exists>r\<in>set (builds d). bId r = build \<and> bSchema r = name \<and> bInstanceCount r = LOCKED)"

lemma cleanupSchema_done:
  assumes "cleanupSchemaResources name retire m = (Inr u, m')" "store_inv (db m)"
  shows "builds (db m') = filter (\<lambda>r. \<not> obsolete name (db m) (bId r)) (builds (db m)) \<and>
    row_keys (db m') = filter (\<lambda>k. \<not> obsolete name (db m) (fst (snd k))) (row_keys (db m))"
proof -
  obtain iids m1 m2 ids m3 where run: "removedSchemaInstances name m = (Inr iids, m1)" "stopEach iids m1 = (Inr (), m2)"
    "removedSchemaBuilds name m2 = (Inr ids, m3)" "for_each ids (\<lambda>build. destroyImages build retire) m3 = (Inr u, m')"
    using assms(1) unfolding cleanupSchemaResources_def by (auto elim!: bnd_InrE)
  note q1 = query_Inr [OF run(1) [unfolded removedSchemaInstances_def]] and q2 = query_Inr [OF run(3) [unfolded removedSchemaBuilds_def]]
  have b2: "builds (db m2) = builds (db m)"
    using staysD [OF catalogued.w_stopEach run(2)] q1 by (simp add: catalog_def)
  have iids: "iids = map iId (filter (\<lambda>i. obsolete name (db m) (iBuild i)) (instances (db m)))"
    using q1 by (auto simp: obsolete_def list_ex_iff intro!: filter_cong)
  have ids: "set ids = {i. obsolete name (db m) i}" using q2 b2 by (auto simp: obsolete_def)
  have "fst k \<notin> set iids \<longleftrightarrow> \<not> obsolete name (db m) (fst (snd k))" if k: "k \<in> set (row_keys (db m))" for k
  proof -
    obtain i where i: "i \<in> set (instances (db m))" "k = (iId i, iBuild i, iWorker i)"
      using k unfolding row_keys_def set_map by blast
    have "inj_on iId (set (instances (db m)))" using assms(2) by (simp add: store_inv_def distinct_map)
    then show ?thesis using i by (auto simp: iids dest: inj_onD)
  qed
  then have "row_keys (db m2) = filter (\<lambda>k. \<not> obsolete name (db m) (fst (snd k))) (row_keys (db m))"
    using stopEach_rows [OF run(2)] q1 by (auto intro!: filter_cong)
  moreover have "row_keys (db m') = row_keys (db m2)" using destroyEach_done [OF run(4)] q2 by (simp add: row_keys_def)
  moreover have "builds (db m') = filter (\<lambda>r. \<not> obsolete name (db m) (bId r)) (builds (db m))"
    using destroyEach_done [OF run(4), unfolded ids] q2 b2 by simp
  ultimately show ?thesis by simp
qed

text \<open>
  C18. Deleting a schema that succeeds is complete and touches nothing else: every build of the schema
  and every instance of such a build is gone from the tables, the builds of other schemas and their
  instances are all still there as they were, and the schema is no longer preloaded.
\<close>

theorem DeleteSchema_complete:
  assumes "DeleteSchema name retire m = (Inr u, m')" "builds_keyed m" "store_inv (db m)"
  shows "builds (db m') = filter (\<lambda>r. bSchema r \<noteq> name) (builds (db m)) \<and>
    row_keys (db m') = filter (\<lambda>k. \<not> (\<exists>r\<in>set (builds (db m)). bId r = fst (snd k) \<and> bSchema r = name)) (row_keys (db m)) \<and>
    name \<notin> set (preloads (db m'))"
proof -
  obtain m1 m2 where run: "lockSchema name m = (Inr (), m1)" "cleanupSchemaResources name retire m1 = (Inr (), m2)"
    "exec (\<lambda>d. d\<lparr>preloads := filter (\<lambda>s. s \<noteq> name) (preloads d)\<rparr>) m2 = (Inr u, m')"
    using assms(1) unfolding DeleteSchema_def by (auto elim!: bnd_InrE)
  have m1: "db m1 = (db m)\<lparr>builds := lockedRows name (builds (db m))\<rparr>"
    using exec_Inr [OF run(1) [unfolded lockSchema_def]] by (simp add: lockedRows_def)
  then have inv: "store_inv (db m1)" using assms(3) by (simp add: store_inv_def)
  have obsolete: "obsolete name (db m1) i \<longleftrightarrow> (\<exists>r\<in>set (builds (db m)). bId r = i \<and> bSchema r = name)" for i
    unfolding obsolete_def m1 using obsolete_lockedRows by simp
  have inj: "inj_on bId (set (builds (db m)))" using assms(2) by (simp add: builds_keyed_def distinct_map)
  have same: "r' = r" if "r \<in> set (builds (db m))" "r' \<in> set (builds (db m))" "bId r' = bId r" for r r'
    using inj_onD [OF inj that(3,2,1)] .
  have "filter (\<lambda>r. \<not> obsolete name (db m1) (bId r)) (builds (db m1)) = filter (\<lambda>r. bSchema r \<noteq> name) (builds (db m))"
    using filter_lockedRows [of "builds (db m)" "\<lambda>i. \<not> obsolete name (db m1) i" name] same obsolete by (auto simp: m1)
  moreover have "row_keys (db m1) = row_keys (db m)" by (simp add: m1 row_keys_def)
  ultimately show ?thesis using cleanupSchema_done [OF run(2) inv] exec_Inr [OF run(3)] by (simp add: obsolete row_keys_def)
qed

end
