(* ===== verification/Schema_Converge.thy ===== *)
theory Schema_Converge
  imports Schema_Ops
begin

text \<open>
  What a converge of a schema achieves: when it reports no error, the builds on record for the
  schema are exactly the ones the schema names, each of them finished.
\<close>

section \<open>What making a build returns\<close>

lemma settleBuild_Inr: "settleBuild b cid staged pushed failure m = (Inr b', m') \<Longrightarrow> b' = b"
  unfolding settleBuild_def by (auto elim!: bnd_InrE split: option.splits)

lemma concludeBuild_Inr: "concludeBuild cMeta b present cid ex m = (Inr b', m') \<Longrightarrow> b' = b"
  unfolding concludeBuild_def by (auto elim!: bnd_InrE dest: settleBuild_Inr split: prod.splits)

lemma extractBuild_Inr: "extractBuild b cid m = (Inr ex, m') \<Longrightarrow> exFlag ex \<noteq> ''''"
  unfolding extractBuild_def by (auto elim!: bnd_InrE split: option.splits if_splits)

lemma produceBuild_Inr:
  assumes "produceBuild env cMeta b present imgs buildImage m = (Inr b', m')"
  shows "\<exists>ex :: extraction. exFlag ex \<noteq> '''' \<and> b' = b\<lparr>mFlag := exFlag ex, mLookup := exLookups ex, mImages := imgs, mHasArtifacts := (exFiles ex \<noteq> [])\<rparr>"
proof -
  obtain cid m1 m2 where "bnd (extractBuild b cid) (\<lambda>ex. concludeBuild cMeta
        (b\<lparr>mFlag := exFlag ex, mLookup := exLookups ex, mImages := imgs, mHasArtifacts := (exFiles ex \<noteq> [])\<rparr>) present cid ex) m1 = (Inr b', m2)"
    using assms unfolding produceBuild_def
    by (auto simp: tryIO_def elim!: bnd_InrE split: option.splits sum.splits prod.splits)
  then obtain ex m3 where ex: "extractBuild b cid m1 = (Inr ex, m3)" "concludeBuild cMeta
        (b\<lparr>mFlag := exFlag ex, mLookup := exLookups ex, mImages := imgs, mHasArtifacts := (exFiles ex \<noteq> [])\<rparr>) present cid ex m3 = (Inr b', m2)"
    by (rule bnd_InrE)
  show ?thesis by (rule exI [of _ ex]) (simp add: extractBuild_Inr [OF ex(1)] concludeBuild_Inr [OF ex(2)])
qed

text \<open>A build that was made is the one that was asked for, with a flag.\<close>

lemma executeBuild_Inr:
  assumes "executeBuild env cMeta prior ctxFile m = (Inr b, m')"
  shows "mFlag b \<noteq> '''' \<and> mId b = mId prior \<and> same_build b = same_build prior"
proof -
  obtain present imgs bi m1 where "produceBuild env cMeta (stamped env cMeta prior) present imgs bi m1 = (Inr b, m')"
    using assms unfolding executeBuild_def Let_def by (auto elim!: bnd_InrE split: prod.splits if_splits)
  from produceBuild_Inr [OF this] show ?thesis by (auto simp: stamped_def same_build_def fun_eq_iff)
qed

section \<open>Rows along a converge\<close>

definition delivered :: "database \<Rightarrow> buildMeta \<Rightarrow> bool" where
  "delivered d b \<longleftrightarrow> (\<exists>row\<in>set (builds d). same_build b row \<and> bFlag row \<noteq> '''')"

text \<open>\<open>stray S d\<close> is a row of the schema that is not among the builds \<open>S\<close>.\<close>

definition stray :: "string \<Rightarrow> (buildRow \<Rightarrow> bool) \<Rightarrow> database \<Rightarrow> bool" where
  "stray name W d \<longleftrightarrow> (\<exists>row\<in>set (builds d). bSchema row = name \<and> \<not> W row)"

text \<open>What every step after the cleanup keeps: finished builds stay finished, and no stray row appears.\<close>

definition advances :: "string \<Rightarrow> (buildRow \<Rightarrow> bool) \<Rightarrow> database \<Rightarrow> database \<Rightarrow> bool" where
  "advances name W d d' \<longleftrightarrow> (\<forall>b. delivered d b \<longrightarrow> delivered d' b) \<and> (stray name W d' \<longrightarrow> stray name W d)"

lemma advances_same: "builds d' = builds d \<Longrightarrow> advances name W d d'"
  by (simp add: advances_def delivered_def stray_def)

interpretation advancing: table_effect "on_tables (advances name W)" for name W
  by unfold_locales (auto simp: tables_def advances_def)

text \<open>A property of rows that looks at their key only.\<close>

definition by_key :: "(buildRow \<Rightarrow> bool) \<Rightarrow> bool" where
  "by_key W \<longleftrightarrow> (\<forall>r r'. build_key r = build_key r' \<longrightarrow> W r = W r')"

lemma same_build_rows: "build_key r = build_key r' \<Longrightarrow> same_build b r = same_build b r'"
  by (simp add: same_build_key)

lemma insertBuild_advances:
  assumes "insertBuild b d = Inr ((), d')" "by_key W" "\<And>row. same_build b row \<Longrightarrow> W row"
  shows "advances name W d d'"
proof -
  define f where "f = (\<lambda>r. if same_build b r then r\<lparr>bInstanceCount := mInstanceCount b\<rparr> else r)"
  have f: "build_key (f r) = build_key r" "bFlag (f r) = bFlag r" "bSchema (f r) = bSchema r" for r by (simp_all add: f_def build_key_def)
  have W: "W (f r) = W r" for r using assms(2) f(1) unfolding by_key_def by blast
  have sb: "same_build x (f r) = same_build x r" for x r using same_build_rows f(1) by blast
  show ?thesis
  proof (cases "list_ex (same_build b) (builds d)")
    case True
    then have "builds d' = map f (builds d)" using assms(1) by (auto simp: insertBuild_def f_def)
    then show ?thesis by (auto simp: advances_def delivered_def stray_def sb f W)
  next
    case False
    then obtain row where "builds d' = builds d @ [row]" "same_build b row"
      using assms(1) by (auto simp: insertBuild_def same_build_def split: if_splits)
    then show ?thesis using assms(3) by (auto simp: advances_def delivered_def stray_def)
  qed
qed

lemma finalizedRows_advances:
  assumes "builds d' = finalizedRows made (builds d)" "by_key W" "mFlag made \<noteq> ''''"
  shows "advances name W d d'"
proof -
  define f where "f = (\<lambda>r. if bId r = mId made then finalizeRow made r else r)"
  have f: "build_key (f r) = build_key r" "bSchema (f r) = bSchema r" "bFlag r \<noteq> '''' \<Longrightarrow> bFlag (f r) \<noteq> ''''" for r
    using assms(3) by (simp_all add: f_def build_key_def finalizeRow_def)
  have W: "W (f r) = W r" for r using assms(2) f(1) unfolding by_key_def by blast
  have sb: "same_build x (f r) = same_build x r" for x r using same_build_rows f(1) by blast
  have "builds d' = map f (builds d)" using assms(1) by (simp add: f_def)
  then show ?thesis using f(3) by (auto simp: advances_def delivered_def stray_def sb f W)
qed

lemma executeBuild_db: "executeBuild env cMeta prior ctxFile m = (r, m') \<Longrightarrow> db m' = db m"
  using logsE [OF executeBuild_logs] steady_settings(3) by metis

lemma generateOne_delivers:
  assumes "generateOne env cMeta ctxFile b m = (Inr b', m')" "by_key W" "\<And>row. same_build b row \<Longrightarrow> W row"
    "mFlag b \<noteq> '''' \<longrightarrow> delivered (db m) b"
  shows "advances name W (db m) (db m') \<and> delivered (db m') b \<and> same_build b' = same_build b"
proof (cases "mFlag b = ''''")
  case False
  then show ?thesis using assms by (simp add: generateOne_def advances_same)
next
  case True
  obtain opened m1 made m2 m3 where run: "openBuild (beSum env) b m = (Inr opened, m1)" "executeBuild env cMeta opened ctxFile m1 = (Inr made, m2)"
    "finalizeBuild made m2 = (Inr (), m3)" "purgeBuiltImages made m3 = (Inr (), m')" "b' = made"
    using assms(1) True unfolding generateOne_def by (auto simp: tryIO_def elim!: bnd_InrE split: sum.splits prod.splits)
  obtain c r rs where o: "insertBuild (b\<lparr>mChecksum := c\<rparr>) (db m) = Inr ((), db m1)" "filter (same_build b) (builds (db m1)) = r # rs"
    and opened: "mId opened = bId r" "same_build opened = same_build b"
    by (rule openBuild_Inr [OF run(1)]) (auto simp: same_build_def fun_eq_iff)
  note made = executeBuild_Inr [OF run(2)]
  have "r \<in> set (filter (same_build b) (builds (db m1)))" using o(2) by simp
  then have r: "r \<in> set (builds (db m1))" "same_build b r" by simp_all
  have rows: "builds (db m3) = finalizedRows made (builds (db m1))" "builds (db m') = builds (db m3)"
    using finalizeBuild_rows [OF run(3)] executeBuild_db [OF run(2)] staysD [OF catalogued.w_purgeBuiltImages run(4)] by (simp_all add: catalog_def)
  have "advances name W (db m) (db m1)"
    using insertBuild_advances [OF o(1) assms(2)] assms(3) by (simp add: same_build_def)
  moreover have "advances name W (db m1) (db m')" by (rule finalizedRows_advances [OF _ assms(2)]) (use made rows in auto)
  ultimately have "advances name W (db m) (db m')" by (rule advancing.chain)
  moreover have "finalizeRow made r \<in> set (builds (db m'))" using r(1) rows made opened(1) by force
  then have "delivered (db m') b" using r(2) made
    by (auto simp: delivered_def finalizeRow_def same_build_def intro!: bexI [of _ "finalizeRow made r"])
  ultimately show ?thesis using made opened(2) run(5) by simp
qed

lemma advances_delivered: "advances name W d d' \<Longrightarrow> delivered d b \<Longrightarrow> delivered d' b"
  by (simp add: advances_def)

lemma delivered_cong: "same_build b = same_build b' \<Longrightarrow> delivered d b = delivered d b'"
  by (simp add: delivered_def)

lemma generateEach_delivers:
  assumes "generateEach env cMeta ctxFile bs m = (Inr bs', m')" "by_key W"
    "\<And>b row. b \<in> set bs \<Longrightarrow> same_build b row \<Longrightarrow> W row" "\<And>b. b \<in> set bs \<Longrightarrow> mFlag b \<noteq> '''' \<Longrightarrow> delivered (db m) b"
  shows "advances name W (db m) (db m') \<and> (\<forall>b\<in>set bs. delivered (db m') b) \<and> map same_build bs' = map same_build bs"
  using assms
proof (induction bs arbitrary: m bs')
  case Nil
  then show ?case by (simp add: advances_same)
next
  case (Cons b bs)
  obtain b1 m1 bs1 where run: "generateOne env cMeta ctxFile b m = (Inr b1, m1)" "generateEach env cMeta ctxFile bs m1 = (Inr bs1, m')" "bs' = b1 # bs1"
    using Cons.prems(1) by (auto elim!: bnd_InrE)
  have 1: "advances name W (db m) (db m1) \<and> delivered (db m1) b \<and> same_build b1 = same_build b"
    by (rule generateOne_delivers [OF run(1) Cons.prems(2)]) (use Cons.prems(3,4) in auto)
  have 2: "advances name W (db m1) (db m') \<and> (\<forall>b\<in>set bs. delivered (db m') b) \<and> map same_build bs1 = map same_build bs"
    by (rule Cons.IH [OF run(2) Cons.prems(2)]) (use Cons.prems(3,4) 1 advances_delivered in auto)
  show ?case using advancing.chain [of name W m m1 m'] 1 2 run(3) advances_delivered by auto
qed

lemma reads_classifyRows: "reads (classifyRows inventory stale removed rows cu)"
proof (induction rows arbitrary: cu)
  case (Cons row rows)
  show ?case unfolding classifyRows.simps classifyChallenge_def safeToRefresh_def
    by (intro reads_intros reads_catch Cons.IH)
qed (unfold classifyRows.simps, intro reads_intros)

lemma reads_DetectChanges [reads_intros]: "reads (DetectChanges normalizeDir inventory chalDir fp)"
  unfolding DetectChanges_def listChallenges_def staleChallengeSet_def classifyChallenges_def Let_def
  by (auto intro!: reads_intros reads_catch reads_classifyRows split: sum.split)

lemma reads_db: "reads f \<Longrightarrow> f m = (r, m') \<Longrightarrow> db m' = db m"
  using reads_steady steady_settings(3) by blast

lemma requireIngestedBuilds_Inr:
  assumes "requireIngestedBuilds bs m = (Inr u, m')"
  shows "db m' = db m \<and> (\<forall>b\<in>set bs. mFlag b \<noteq> '''')"
proof -
  have "reads (requireIngestedBuilds bs)"
    unfolding requireIngestedBuilds_def challengeHasStaleBuild_def Let_def by (intro reads_intros)
  then show ?thesis using reads_db assms by (auto simp: requireIngestedBuilds_def Let_def filter_empty_conv split: if_splits)
qed

lemma generateBuilds_delivers:
  assumes "generateBuilds env bs m = (Inr made, m')" "by_key W"
    "\<And>b row. b \<in> set bs \<Longrightarrow> same_build b row \<Longrightarrow> W row" "\<And>b. b \<in> set bs \<Longrightarrow> mFlag b \<noteq> '''' \<Longrightarrow> delivered (db m) b"
  shows "advances name W (db m) (db m') \<and> (\<forall>b\<in>set bs. delivered (db m') b) \<and> map same_build made = map same_build bs"
proof -
  have complete: ?thesis if "made = bs" "db m' = db m" "\<And>b. b \<in> set bs \<Longrightarrow> mFlag b \<noteq> ''''"
    using that assms(4) by (auto simp: advances_same)
  consider (none) "bs = []"
    | (external) "bs \<noteq> []" "externalBuildPlane m"
    | (local) "bs \<noteq> []" "\<not> externalBuildPlane m" by blast
  then show ?thesis
  proof cases
    case external
    then obtain m1 where "requireIngestedBuilds bs m = (Inr (), m1)" "m' = m1" "made = bs"
      using assms(1) unfolding generateBuilds_def by (auto elim!: bnd_InrE)
    then show ?thesis using requireIngestedBuilds_Inr complete by blast
  next
    case local
    obtain cMeta m1 updates m2 where run: "lookupChallengeMetadata (mChallenge (hd bs)) m = (Inr cMeta, m1)"
      "DetectChanges (beNormalize env) (beInventory env) (beChalDir env) (filepath_Dir (cPath cMeta)) m1 = (Inr updates, m2)"
      "list_all (\<lambda>b. mFlag b \<noteq> '''') bs \<and> made = bs \<and> m' = m2 \<or> buildMissing env cMeta bs m2 = (Inr made, m')"
      using assms(1) local unfolding generateBuilds_def by (auto elim!: bnd_InrE split: if_splits)
    have m2: "db m2 = db m" using reads_db [OF reads_lookups(3) run(1)] reads_db [OF reads_DetectChanges run(2)] by simp
    from run(3) show ?thesis
    proof
      assume "buildMissing env cMeta bs m2 = (Inr made, m')"
      then obtain ctxFile m3 where each: "generateEach env cMeta ctxFile bs m2 = (Inr made, m3)" "db m' = db m3"
        unfolding buildMissing_def by (auto simp: tryIO_def dockerDo_def Let_def elim!: bnd_InrE split: sum.splits prod.splits)
      have "advances name W (db m2) (db m3) \<and> (\<forall>b\<in>set bs. delivered (db m3) b) \<and> map same_build made = map same_build bs"
        by (rule generateEach_delivers [OF each(1) assms(2)]) (use assms(3,4) m2 in auto)
      then show ?thesis using each(2) m2 by simp
    qed (rule complete, auto simp: m2 list_all_iff)
  qed (use assms(1) in \<open>auto simp: generateBuilds_def advances_same\<close>)
qed

section \<open>Opening the rows of a schema\<close>

definition opened :: "database \<Rightarrow> buildMeta \<Rightarrow> bool" where
  "opened d b \<longleftrightarrow> (\<exists>row\<in>set (builds d). same_build b row \<and> bInstanceCount row \<noteq> LOCKED \<and> (mFlag b \<noteq> '''' \<longrightarrow> bFlag row \<noteq> ''''))"

definition loose :: "string \<Rightarrow> (buildRow \<Rightarrow> bool) \<Rightarrow> database \<Rightarrow> bool" where
  "loose name W d \<longleftrightarrow> (\<exists>row\<in>set (builds d). bSchema row = name \<and> bInstanceCount row \<noteq> LOCKED \<and> \<not> W row)"

text \<open>What opening a row keeps: rows once opened, no unlocked row the schema does not name, ids, and every instance.\<close>

definition opens_rows :: "string \<Rightarrow> (buildRow \<Rightarrow> bool) \<Rightarrow> database \<Rightarrow> database \<Rightarrow> bool" where
  "opens_rows name W d d' \<longleftrightarrow>
     (\<forall>b. opened d b \<longrightarrow> opened d' b) \<and> (loose name W d' \<longrightarrow> loose name W d) \<and>
     (distinct (map bId (builds d)) \<longrightarrow> distinct (map bId (builds d'))) \<and> (store_inv d \<longrightarrow> store_inv d')"

lemma opens_rows_refl: "opens_rows name W d d"
  by (simp add: opens_rows_def)

lemma opens_rows_trans: "opens_rows name W d1 d2 \<Longrightarrow> opens_rows name W d2 d3 \<Longrightarrow> opens_rows name W d1 d3"
  by (simp add: opens_rows_def)

lemma store_inv_builds: "store_inv (d\<lparr>builds := bs\<rparr>) = store_inv d"
  by (simp add: store_inv_def)

lemma insertBuild_opens:
  assumes "insertBuild b d = Inr ((), d')" "by_key W" "\<And>row. same_build b row \<Longrightarrow> W row" "mInstanceCount b \<noteq> LOCKED"
  shows "opens_rows name W d d' \<and> (\<forall>row\<in>set (builds d'). same_build b row \<longrightarrow> bInstanceCount row \<noteq> LOCKED)"
proof (cases "list_ex (same_build b) (builds d)")
  case True
  define f where "f = (\<lambda>r. if same_build b r then r\<lparr>bInstanceCount := mInstanceCount b\<rparr> else r)"
  have f: "build_key (f r) = build_key r" "bFlag (f r) = bFlag r" "bSchema (f r) = bSchema r" "bId (f r) = bId r"
    "bInstanceCount r \<noteq> LOCKED \<Longrightarrow> bInstanceCount (f r) \<noteq> LOCKED" "same_build b r \<Longrightarrow> bInstanceCount (f r) \<noteq> LOCKED"
    "\<not> same_build b r \<Longrightarrow> f r = r" for r
    using assms(4) by (simp_all add: f_def build_key_def)
  have W: "W (f r) = W r" for r using assms(2) f(1) unfolding by_key_def by blast
  have sb: "same_build x (f r) = same_build x r" for x r using same_build_rows f(1) by blast
  have d': "d' = d\<lparr>builds := map f (builds d)\<rparr>" using assms(1) True by (auto simp: insertBuild_def f_def)
  have "opened d' x" if o: "opened d x" for x
  proof -
    obtain row where "row \<in> set (builds d)" "same_build x row" "bInstanceCount row \<noteq> LOCKED" "mFlag x \<noteq> '''' \<longrightarrow> bFlag row \<noteq> ''''"
      using o unfolding opened_def by blast
    then show ?thesis unfolding opened_def d' by (intro bexI [of _ "f row"]) (simp_all add: sb f)
  qed
  moreover have "loose name W d" if l: "loose name W d'"
  proof -
    obtain row where row: "row \<in> set (builds d)" "bSchema row = name" "bInstanceCount (f row) \<noteq> LOCKED" "\<not> W row"
      using l by (auto simp: loose_def d' f W)
    then have "f row = row" using assms(3) f(7) by blast
    then show ?thesis using row by (auto simp: loose_def)
  qed
  moreover have "map bId (builds d') = map bId (builds d)" by (simp add: d' f(4))
  moreover have "store_inv d' = store_inv d" by (simp add: d' store_inv_builds)
  moreover have "\<forall>row\<in>set (builds d'). same_build b row \<longrightarrow> bInstanceCount row \<noteq> LOCKED" using f(6) by (auto simp: d' sb)
  ultimately show ?thesis by (simp add: opens_rows_def)
next
  case False
  define row where "row = \<lparr>bId = (if mId b \<noteq> 0 then mId b else nextRowId (map bId (builds d))), bFlag = mFlag b, bFormat = mFormat b,
          bSeed = mSeed b, bChecksum = mChecksum b, bPrevChecksum = 0, bSourceChecksum = 0,
          bHasArtifacts = mHasArtifacts b, bLastSolved = mLastSolved b, bChallenge = mChallenge b,
          bSchema = mSchema b, bInstanceCount = mInstanceCount b\<rparr>"
  have d': "d' = d\<lparr>builds := builds d @ [row]\<rparr>" and taken: "\<not> (mId b \<noteq> 0 \<and> list_ex (\<lambda>r. bId r = mId b) (builds d))"
    using assms(1) False by (simp_all add: insertBuild_def row_def split: if_splits)
  have fresh: "bId row \<notin> bId ` set (builds d)"
    using taken nextRowId_fresh [of "nextRowId (map bId (builds d))" "map bId (builds d)"] by (auto simp: row_def list_ex_iff)
  have "same_build b row" by (simp add: row_def same_build_def)
  then have "loose name W d' = loose name W d" using assms(3) by (auto simp: loose_def d')
  moreover have "opened d x \<Longrightarrow> opened d' x" for x by (auto simp: opened_def d')
  moreover have "distinct (map bId (builds d)) \<longrightarrow> distinct (map bId (builds d'))" using fresh by (simp add: d')
  moreover have "store_inv d' = store_inv d" by (simp add: d' store_inv_builds)
  moreover have "\<forall>r\<in>set (builds d'). same_build b r \<longrightarrow> bInstanceCount r \<noteq> LOCKED"
    using False assms(4) by (simp add: d' list_ex_iff row_def)
  ultimately show ?thesis by (simp add: opens_rows_def)
qed

lemma openRow_opens:
  assumes "openRow b m = (Inr b', m')" "by_key W" "\<And>row. same_build b row \<Longrightarrow> W row" "mInstanceCount b \<noteq> LOCKED"
  shows "opens_rows name W (db m) (db m') \<and> opened (db m') b' \<and> same_build b' = same_build b"
proof -
  obtain r rs where o: "insertBuild b (db m) = Inr ((), db m')" "filter (same_build b) (builds (db m')) = r # rs"
    "mFlag b' = bFlag r" "same_build b' = same_build b"
    by (rule openRow_Inr [OF assms(1)]) (auto simp: same_build_def fun_eq_iff)
  have "r \<in> set (filter (same_build b) (builds (db m')))" using o(2) by simp
  then have r: "r \<in> set (builds (db m'))" "same_build b r" by simp_all
  note ins = insertBuild_opens [OF o(1) assms(2-4), of name]
  then have "opened (db m') b'" using r o(3,4) by (auto simp: opened_def)
  then show ?thesis using ins o(4) by blast
qed

lemma openSeeds_opens:
  assumes "openSeeds env bs m = (Inr (bs', []), m')" "by_key W"
    "\<And>b row. b \<in> set bs \<Longrightarrow> same_build b row \<Longrightarrow> W row" "\<And>b. b \<in> set bs \<Longrightarrow> mInstanceCount b \<noteq> LOCKED"
  shows "opens_rows name W (db m) (db m') \<and> (\<forall>b\<in>set bs'. opened (db m') b) \<and> map same_build bs' = map same_build bs"
  using assms
proof (induction bs arbitrary: m bs')
  case Nil
  then show ?case by (simp add: opens_rows_refl)
next
  case (Cons b bs)
  obtain b1 m1 r m2 bs1 errs where run: "stampChecksum (beSum env) b m = (Inr b1, m1)" "openRow b1 m1 = (r, m2)"
    "openSeeds env bs m2 = (Inr (bs1, errs), m')" "(bs', []) = (case r of Inl e \<Rightarrow> (b1 # bs1, e # errs) | Inr o' \<Rightarrow> (o' # bs1, errs))"
    using Cons.prems(1) by (auto simp: tryIO_def elim!: bnd_InrE split: prod.splits)
  obtain b2 where b2: "r = Inr b2" "bs' = b2 # bs1" "errs = []" using run(4) by (auto split: sum.splits)
  obtain c where b1: "b1 = b\<lparr>mChecksum := c\<rparr>" "db m1 = db m" using stampChecksum_frame [OF run(1)] by auto
  have sb: "same_build b1 = same_build b" by (simp add: b1 same_build_def fun_eq_iff)
  have 1: "opens_rows name W (db m1) (db m2) \<and> opened (db m2) b2 \<and> same_build b2 = same_build b1"
    by (rule openRow_opens [OF run(2) [unfolded b2(1)] Cons.prems(2)]) (use Cons.prems(3,4) sb b1 in auto)
  have 2: "opens_rows name W (db m2) (db m') \<and> (\<forall>b\<in>set bs1. opened (db m') b) \<and> map same_build bs1 = map same_build bs"
    by (rule Cons.IH [OF run(3) [unfolded b2(3)] Cons.prems(2)]) (use Cons.prems(3,4) in auto)
  have "opened (db m') b2" using 1 2 by (simp add: opens_rows_def)
  then show ?case using 1 2 b1(2) b2(2) sb opens_rows_trans [of name W "db m1" "db m2" "db m'"] by auto
qed

definition wantedOf :: "Schema \<Rightarrow> string \<times> BuildSpecification \<Rightarrow> buildMeta list" where
  "wantedOf schema entry =
     map (wantedBuild (sName schema) (sFlagFormat schema) (fst entry) (bsInstanceCount (snd entry))) (bsSeeds (snd entry))"

lemma wantedOf_count: "b \<in> set (wantedOf schema entry) \<Longrightarrow> mInstanceCount b = bsInstanceCount (snd entry)"
  by (auto simp: wantedOf_def wantedBuild_def)

lemma openSchema_opens:
  assumes "openSchema env schema entries m = (Inr (groups, []), m')" "by_key W"
    "\<And>entry b row. entry \<in> set entries \<Longrightarrow> b \<in> set (wantedOf schema entry) \<Longrightarrow> same_build b row \<Longrightarrow> W row"
    "\<And>entry. entry \<in> set entries \<Longrightarrow> bsInstanceCount (snd entry) \<noteq> LOCKED"
  shows "opens_rows name W (db m) (db m') \<and> (\<forall>bs\<in>set groups. \<forall>b\<in>set bs. opened (db m') b) \<and>
    map (map same_build) groups = map (map same_build \<circ> wantedOf schema) entries"
  using assms
proof (induction entries arbitrary: m groups)
  case Nil
  then show ?case by (simp add: opens_rows_refl)
next
  case (Cons entry entries)
  obtain bs m1 groups1 where run: "openSeeds env (wantedOf schema entry) m = (Inr (bs, []), m1)"
    "openSchema env schema entries m1 = (Inr (groups1, []), m')" "groups = bs # groups1"
    using Cons.prems(1) by (cases entry) (auto simp: wantedOf_def elim!: bnd_InrE split: prod.splits)
  have 1: "opens_rows name W (db m) (db m1) \<and> (\<forall>b\<in>set bs. opened (db m1) b) \<and> map same_build bs = map same_build (wantedOf schema entry)"
    by (rule openSeeds_opens [OF run(1) Cons.prems(2)]) (simp_all add: wantedOf_count Cons.prems(3) [of entry] Cons.prems(4) [of entry])
  have 2: "opens_rows name W (db m1) (db m') \<and> (\<forall>bs\<in>set groups1. \<forall>b\<in>set bs. opened (db m') b) \<and>
      map (map same_build) groups1 = map (map same_build \<circ> wantedOf schema) entries"
    by (rule Cons.IH [OF run(2) Cons.prems(2)]) (use Cons.prems(3,4) in auto)
  then show ?case using 1 run(3) opens_rows_trans [of name W "db m" "db m1" "db m'"] by (auto simp: opens_rows_def)
qed

section \<open>The whole converge\<close>

context store_contract
begin

lemma w_convergeBuilds: "stays R (convergeBuilds env schema cMeta bs)"
proof (induction bs)
  case (Cons b bs)
  show ?case unfolding convergeBuilds.simps Let_def by (intro contract_intros w_convergeBuildInstances Cons.IH)
qed (unfold convergeBuilds.simps, rule w_basic)

end

lemma convergeGroups_delivers:
  assumes "convergeGroups env schema groups m = (Inr [], m')" "by_key W"
    "\<And>bs b row. bs \<in> set groups \<Longrightarrow> b \<in> set bs \<Longrightarrow> same_build b row \<Longrightarrow> W row"
    "\<And>bs b. bs \<in> set groups \<Longrightarrow> b \<in> set bs \<Longrightarrow> mFlag b \<noteq> '''' \<Longrightarrow> delivered (db m) b"
  shows "advances name W (db m) (db m') \<and> (\<forall>bs\<in>set groups. \<forall>b\<in>set bs. delivered (db m') b)"
  using assms
proof (induction groups arbitrary: m)
  case Nil
  then show ?case by (simp add: advances_same)
next
  case (Cons bs groups)
  let ?converge = "\<lambda>made. if made = [] then ret [] else bnd (tryIO (lookupChallengeMetadata (mChallenge (hd made)))) (\<lambda>c.
      (case c of Inl e \<Rightarrow> ret [e] | Inr cMeta \<Rightarrow> convergeBuilds env schema cMeta made))"
  obtain made m1 m2 where run: "generateBuilds env bs m = (Inr made, m1)" "?converge made m1 = (Inr [], m2)"
    "convergeGroups env schema groups m2 = (Inr [], m')"
    using Cons.prems(1) by (auto simp: tryIO_def elim!: bnd_InrE split: sum.splits prod.splits)
  have 1: "advances name W (db m) (db m1) \<and> (\<forall>b\<in>set bs. delivered (db m1) b) \<and> map same_build made = map same_build bs"
    by (rule generateBuilds_delivers [OF run(1) Cons.prems(2)]) (use Cons.prems(3) [of bs] Cons.prems(4) [of bs] in auto)
  have "stays (on_tables (\<lambda>d d'. catalog d' = catalog d)) (?converge made)"
    by (intro catalogued.contract_intros catalogued.w_convergeBuilds)
  from staysD [OF this run(2)] have same: "builds (db m2) = builds (db m1)" by (simp add: catalog_def)
  then have 12: "advances name W (db m) (db m2)" using 1 advances_same advancing.chain [of name W m m1 m2] by blast
  have 3: "advances name W (db m2) (db m') \<and> (\<forall>bs\<in>set groups. \<forall>b\<in>set bs. delivered (db m') b)"
  proof (rule Cons.IH [OF run(3) Cons.prems(2)])
    show "delivered (db m2) b" if "bsa \<in> set groups" "b \<in> set bsa" "mFlag b \<noteq> ''''" for bsa b
      using advances_delivered [OF 12] Cons.prems(4) [of bsa b] that by simp
  qed (use Cons.prems(3) in auto)
  have "\<forall>b\<in>set bs. delivered (db m') b" using 1 3 same advances_delivered by (auto simp: delivered_def)
  then show ?case using 3 12 advancing.chain [of name W m m2 m'] by auto
qed

text \<open>The rows a schema names.\<close>

definition named_row :: "Schema \<Rightarrow> buildRow \<Rightarrow> bool" where
  "named_row schema row \<longleftrightarrow> bFormat row = sFlagFormat schema \<and>
     (\<exists>(challenge, spec)\<in>set (sChallenges schema). bChallenge row = challenge \<and> bSeed row \<in> set (bsSeeds spec))"

lemma named_row_key: "by_key (named_row schema)"
  by (auto simp: by_key_def named_row_def build_key_def)

lemma wantedOf_named: "entry \<in> set (sChallenges schema) \<Longrightarrow> b \<in> set (wantedOf schema entry) \<Longrightarrow> same_build b row \<Longrightarrow> named_row schema row"
  by (cases entry) (auto simp: wantedOf_def wantedBuild_def same_build_def named_row_def)

lemma lockSchema_loose:
  assumes "lockSchema name m = (Inr u, m')"
  shows "\<not> loose name W (db m') \<and> (distinct (map bId (builds (db m))) \<longrightarrow> distinct (map bId (builds (db m')))) \<and> (store_inv (db m) \<longrightarrow> store_inv (db m'))"
proof -
  have d: "db m' = (db m)\<lparr>builds := lockedRows name (builds (db m))\<rparr>"
    using exec_Inr [OF assms [unfolded lockSchema_def]] by (simp add: lockedRows_def)
  have "map bId (lockedRows name rs) = map bId rs" for rs by (simp add: lockedRows_def)
  moreover have "bInstanceCount row = LOCKED" if "row \<in> set (lockedRows name rs)" "bSchema row = name" for row rs
  proof -
    have "\<exists>r. row = (if bSchema r = name then r\<lparr>bInstanceCount := LOCKED\<rparr> else r)" using that(1) unfolding lockedRows_def set_map by blast
    then obtain r where r: "row = (if bSchema r = name then r\<lparr>bInstanceCount := LOCKED\<rparr> else r)" by (rule exE)
    then have "bSchema r = name" using that(2) by (cases "bSchema r = name") simp_all
    then show ?thesis by (simp add: r)
  qed
  then have "\<not> loose name W (db m')" unfolding loose_def d by auto
  ultimately show ?thesis by (simp add: d store_inv_builds)
qed

lemma cleanup_leaves:
  assumes "cleanupSchemaResources name retire m = (Inr u, m')" "store_inv (db m)" "distinct (map bId (builds (db m)))" "\<not> loose name W (db m)"
  shows "\<not> stray name W (db m') \<and> (\<forall>b. opened (db m) b \<longrightarrow> mFlag b \<noteq> '''' \<longrightarrow> delivered (db m') b)"
proof -
  have rows: "builds (db m') = filter (\<lambda>r. \<not> obsolete name (db m) (bId r)) (builds (db m))"
    using cleanupSchema_done [OF assms(1,2)] by simp
  have inj: "inj_on bId (set (builds (db m)))" using assms(3) by (simp add: distinct_map)
  have kept: "\<not> obsolete name (db m) (bId r)" if "r \<in> set (builds (db m))" "bInstanceCount r \<noteq> LOCKED" for r
  proof
    assume "obsolete name (db m) (bId r)"
    then obtain r' where r': "r' \<in> set (builds (db m))" "bId r' = bId r" "bInstanceCount r' = LOCKED" unfolding obsolete_def by blast
    then have "r' = r" using inj_onD [OF inj r'(2) r'(1) that(1)] by simp
    then show False using r'(3) that(2) by simp
  qed
  have "bInstanceCount r \<noteq> LOCKED" if "r \<in> set (builds (db m'))" "bSchema r = name" for r
    using that rows by (auto simp: obsolete_def)
  then have "\<not> stray name W (db m')" using assms(4) rows by (auto simp: stray_def loose_def)
  moreover have "delivered (db m') b" if "opened (db m) b" "mFlag b \<noteq> ''''" for b
    using that kept rows by (auto simp: opened_def delivered_def)
  ultimately show ?thesis by blast
qed


section \<open>Runs\<close>

definition sample_schema :: Schema where
  "sample_schema = \<lparr>sName = ''event'', sFlagFormat = ''flag{%s}'', sChallenges = [(''pico/a'', \<lparr>bsSeeds = [7], bsInstanceCount = -1\<rparr>)]\<rparr>"

definition external_store :: manager where
  "external_store = sample_store\<lparr>externalBuildPlane := True\<rparr>"

theorem convergeSchema_refused_whole_witness:
  "db (snd (convergeSchema sample_benv sample_schema external_store)) = db external_store \<and>
   fst (convergeSchema sample_benv sample_schema external_store) \<noteq> Inr []"
proof -
  let ?run = "convergeSchema sample_benv sample_schema external_store"
  have run: "?run = (fst ?run, snd ?run)" by simp
  show ?thesis
    using convergeSchema_refused_whole [OF _ run, of "''pico/a''" "\<lparr>bsSeeds = [7], bsInstanceCount = -1\<rparr>" 7]
    by (auto simp: external_store_def sample_schema_def sample_row_def)
qed

text \<open>A schema with one build and two instances is deleted.\<close>

definition deleted_run :: "(err + unit) \<times> manager" where
  "deleted_run = DeleteSchema ''s'' True lifecycle_manager"

lemma deleted_run_result: "fst deleted_run = Inr ()" "length (row_keys (db lifecycle_manager)) = 2"
  "list_all (\<lambda>k. fst (snd k) = 1) (row_keys (db lifecycle_manager))"
  "map (\<lambda>r. (bId r, bSchema r)) (builds (db lifecycle_manager)) = [(1, ''s'')]" "images (db lifecycle_manager) = []"
  by code_simp+

theorem DeleteSchema_complete_witness:
  "builds (db (snd deleted_run)) = [] \<and> row_keys (db (snd deleted_run)) = []"
proof -
  have run: "DeleteSchema ''s'' True lifecycle_manager = (Inr (), snd deleted_run)"
    using deleted_run_result(1) by (metis prod.collapse deleted_run_def)
  obtain row where row: "builds (db lifecycle_manager) = [row]" "bId row = 1" "bSchema row = ''s''"
    using deleted_run_result(4) by auto
  have keyed: "builds_keyed lifecycle_manager" using row deleted_run_result(5) by (simp add: builds_keyed_def)
  show ?thesis using DeleteSchema_complete [OF run keyed lifecycle_manager_inv(1)] row deleted_run_result(3)
    by (auto simp: filter_empty_conv list_all_iff)
qed

text \<open>A schema whose one build is not made yet is converged.\<close>

definition converge_env :: buildEnv where
  "converge_env = sample_benv\<lparr>beInventory := (\<lambda>_. ([sample_cmeta], []))\<rparr>"

definition converge_store :: manager where
  "converge_store = sample_store\<lparr>db := (db sample_store)\<lparr>challenges := [sample_challenge\<lparr>cHosts := [(''challenge'', '''')], cOverrides := []\<rparr>]\<rparr>,
     replies := [okReply, okReply, okReply\<lparr>rId := ''c1''\<rparr>, okReply\<lparr>rTree := [tree_of [(''flag'', ''f'')]]\<rparr>]\<rparr>"

definition converged_run :: "(err + err list) \<times> manager" where
  "converged_run = convergeSchema converge_env sample_schema converge_store"

lemma converged_run_result: "fst converged_run = Inr []"
  by code_simp


text \<open>
  A schema may say any number of instances, and nothing checks it. Below zero, and other than the
  two reserved numbers, the converge of a build of a service reads its list of instances at that
  index: the call panics, after the builds were locked and made.
\<close>

theorem negative_count_panics:
  assumes "target < 0" "faults m = []"
  shows "fst (convergeBuildInstances env build target m) = Inl [GoPanic ''index out of range'']"
  using assms by (simp add: convergeBuildInstances_def getBuildInstances_def bnd_def tryIO_def)

theorem negative_count_panics_witness:
  "fst (convergeBuildInstances start_env resized_build (-3) started_manager) = Inl [GoPanic ''index out of range'']"
  using negative_count_panics [of "-3" started_manager start_env resized_build]
  by (simp add: started_manager_def lifecycle_manager_def freshManager_def)

text \<open>
  Destroying a build asks whether its schema is a manual one by the first seven characters of the
  name. A shorter name, such as \<open>event\<close>, has no such slice: the call panics where it means to
  say that the build is locked.
\<close>

theorem Destroy_panics_on_short_names:
  assumes "lookupBuildMetadata build m = (Inr b, m1)" "length (mSchema b) < 7"
  shows "Destroy build m = (Inl [GoPanic ''slice bounds out of range''], m1)"
  using assms by (simp add: Destroy_def bnd_def manualSchemaPrefix_def)

theorem Destroy_panics_on_short_names_witness:
  "fst (Destroy 1 sample_store) = Inl [GoPanic ''slice bounds out of range'']"
proof -
  have "\<exists>b. fst (lookupBuildMetadata 1 sample_store) = Inr b \<and> mSchema b = ''event''"
    by (simp add: lookupBuildMetadata_no_fault sample_row_def buildMeta_of_def)
  then obtain b where "lookupBuildMetadata 1 sample_store = (Inr b, snd (lookupBuildMetadata 1 sample_store))" "mSchema b = ''event''"
    by (metis prod.collapse)
  from Destroy_panics_on_short_names [OF this(1)] this(2) show ?thesis by simp
qed

definition busy_store :: manager where
  "busy_store = started_manager\<lparr>faults := [None, None, Some SqlBusy]\<rparr>"

definition busy_schema :: Schema where
  "busy_schema = \<lparr>sName = ''s'', sFlagFormat = ''flag{%s}'', sChallenges = [(''c'', \<lparr>bsSeeds = [7], bsInstanceCount = -1\<rparr>)]\<rparr>"

text \<open>
  A statement that fails while a schema is updated can take a running build down. The rows of the
  schema are locked first and unlocked as they are opened again; when opening one fails, here because
  the database was busy once, the error is noted and the converge goes on: the cleanup finds the row
  locked and destroys the build, which the schema still names, with the instances it serves.
\<close>

theorem busy_database_destroys_named_build:
  "map bFlag (builds (db busy_store)) = [''f''] \<and> owned (db busy_store) 1 = [4, 6] \<and>
   list_all (named_row busy_schema) (builds (db busy_store)) \<and>
   builds (db (snd (convergeSchema sample_benv busy_schema busy_store))) = [] \<and>
   instances (db (snd (convergeSchema sample_benv busy_schema busy_store))) = []"
  by code_simp

end
