(* ===== verification/Hand_Over.thy ===== *)
theory Hand_Over
  imports Schema_Converge
begin

unbundle bit_operations_syntax

text \<open>
  Builds made elsewhere (\<open>src/cork/handover.go\<close>, \<open>src/cork/registry.go\<close>,
  \<open>src/cork/database.go\<close>): what a hand-over must say, the question to the registry for
  every image it names, recording the challenge and committing its builds, and taking a challenge
  off the catalogue.
\<close>

section \<open>Asking the registry\<close>

fun cutAt :: "char \<Rightarrow> string \<Rightarrow> (string \<times> string) option" where
  "cutAt c [] = None"
| "cutAt c (x # xs) = (if x = c then Some ('''', xs) else map_option (\<lambda>(a, b). (x # a, b)) (cutAt c xs))"

definition trimBoth :: "char \<Rightarrow> string \<Rightarrow> string" where
  "trimBoth c s = rev (dropWhile (\<lambda>x. x = c) (rev (dropWhile (\<lambda>x. x = c) s)))"

definition registryEndpoint :: "string \<Rightarrow> string \<times> string" where
  "registryEndpoint registry =
     (case cutAt (CHR ''/'') registry of
        None \<Rightarrow> (registry, '''')
      | Some (host, prefix) \<Rightarrow> (host, trimBoth (CHR ''/'') prefix))"

text \<open>The host and the path of the request for the manifest a name stands for.\<close>

definition registryManifestRequest :: "string \<Rightarrow> string \<Rightarrow> err + string \<times> string" where
  "registryManifestRequest registry name =
     (let qualified = registry @ ''/'' in
      if take (length qualified) name \<noteq> qualified then Inl [Msg ''image is not qualified with registry'']
      else
        (case cutAt (CHR '':'') (drop (length qualified) name) of
           None \<Rightarrow> Inl [Msg ''image has no tag'']
         | Some (repo, tag) \<Rightarrow>
             (let (host, prefix) = registryEndpoint registry in
              Inr (host, ''/v2/'' @ (if prefix \<noteq> '''' then prefix @ ''/'' @ repo else repo) @ ''/manifests/'' @ tag))))"

definition registryTagPresent :: "string \<Rightarrow> bool mio" where
  "registryTagPresent name =
     bnd (gets challengeRegistry) (\<lambda>registry.
     bnd (retryRegistry registryAttempts (
            (case registryManifestRequest registry name of
               Inl e \<Rightarrow> ret (Inl e, False)
             | Inr (host, path) \<Rightarrow>
                 bnd (dockerDo (RegistryHead host path)) (\<lambda>r.
                 ret (case rErr r of None \<Rightarrow> Inr (rStatus r) | Some e \<Rightarrow> Inl e, rDone r))))) (\<lambda>code.
     if code = 200 then ret True
     else if code = 404 then ret False
     else fail [Msg ''registry lookup returned another status'']))"

section \<open>What a hand-over says\<close>

text \<open>The challenge with its options and its builds; \<open>None\<close> is JSON null.\<close>

record HandOver =
  hoChallenge :: "challengeMeta option"
  hoOptions :: ChallengeOptions
  hoBuilds :: "buildMeta option list"
  hoPinFingerprint :: "32 word"
  hoSeccompProfiles :: "(string \<times> string) list"

text \<open>What the daemon brings: its templates, and decoding and hashing seccomp profiles.\<close>

record handOverEnv =
  heBuild :: buildEnv
  heDockerfile :: "string \<Rightarrow> 8 word list"
  heDecode :: "string \<Rightarrow> seccompProfile option"
  heSha256 :: "string \<Rightarrow> string"

definition is_lower_alnum :: "char \<Rightarrow> bool" where
  "is_lower_alnum c \<longleftrightarrow> (let n = (of_char c :: nat) in 48 \<le> n \<and> n \<le> 57 \<or> 97 \<le> n \<and> n \<le> 122)"

text \<open>\<open>^([a-z0-9]+(/[a-z0-9]+)*/)?[a-z0-9]([a-z0-9-]*[a-z0-9])?$\<close>\<close>

definition validChallengeId :: "string \<Rightarrow> bool" where
  "validChallengeId cid =
     (let parts = splitOn (CHR ''/'') cid; name = last parts in
      list_all (\<lambda>p. p \<noteq> '''' \<and> list_all is_lower_alnum p) (butlast parts) \<and>
      name \<noteq> '''' \<and> is_lower_alnum (hd name) \<and> is_lower_alnum (last name) \<and>
      list_all (\<lambda>c. is_lower_alnum c \<or> c = CHR ''-'') name)"

definition validHostName :: "string \<Rightarrow> bool" where
  "validHostName name = (name \<noteq> '''' \<and> list_all is_word_char name)"

definition invalid :: "string \<Rightarrow> err" where
  "invalid why = [Msg why, ErrHandOverInvalid]"

fun checkImages :: "string list \<Rightarrow> image list \<Rightarrow> string list \<Rightarrow> err + string list" where
  "checkImages hosts [] imaged = Inr imaged"
| "checkImages hosts (img # imgs) imaged =
     (if imgHost img \<notin> set hosts then Inl (invalid ''an image for a host the challenge does not name'')
      else if imgHost img \<in> set imaged then Inl (invalid ''two images for a host'')
      else checkImages hosts imgs (imgHost img # imaged))"

definition handOverKey :: "buildMeta \<Rightarrow> string" where
  "handOverKey b = mSchema b @ [CHR 0x00] @ mFormat b @ [CHR 0x00] @ show_int (mSeed b)"

definition checkBuild :: "challengeMeta \<Rightarrow> 32 word \<Rightarrow> 32 word \<Rightarrow> string list \<Rightarrow> buildMeta \<Rightarrow> err option" where
  "checkBuild challenge template pins seen b =
     (let hosts = map fst (cHosts challenge) in
      if mChallenge b \<noteq> '''' \<and> mChallenge b \<noteq> cId challenge then Some (invalid ''belongs to another challenge'')
      else if mId b \<le> 0 then Some (invalid ''carries no build id'')
      else if mSchema b = '''' \<or> mFormat b = '''' then Some (invalid ''names no schema or no flag format'')
      else if handOverKey b \<in> set seen then Some (invalid ''is handed over twice'')
      else if mFlag b = '''' then Some (invalid ''has no flag'')
      else if mInstanceCount b < DYNAMIC_INSTANCES then Some (invalid ''has an instance count no schema gives'')
      else if mSourceChecksum b \<noteq> cSourceChecksum challenge then Some (invalid ''was built from another source generation'')
      else if mChecksum b \<noteq> contentChecksum (mSourceChecksum b) (mFormat b) pins template
      then Some (invalid ''carries another content checksum than its inputs give'')
      else if mImages b = [] then Some (invalid ''has no images'')
      else
        (case checkImages hosts (mImages b) [] of
           Inl e \<Rightarrow> Some e
         | Inr imaged \<Rightarrow>
             if list_ex (\<lambda>h. h \<notin> set imaged) hosts then Some (invalid ''has no image for a host the challenge names'') else None))"

fun checkBuilds :: "challengeMeta \<Rightarrow> 32 word \<Rightarrow> 32 word \<Rightarrow> string list \<Rightarrow> buildMeta option list \<Rightarrow> err option" where
  "checkBuilds challenge template pins seen [] = None"
| "checkBuilds challenge template pins seen (None # bs) = Some (invalid ''a build is null'')"
| "checkBuilds challenge template pins seen (Some b # bs) =
     (case checkBuild challenge template pins seen b of
        Some e \<Rightarrow> Some e
      | None \<Rightarrow> checkBuilds challenge template pins (handOverKey b # seen) bs)"

definition checkHandOver :: "handOverEnv \<Rightarrow> string \<Rightarrow> HandOver option \<Rightarrow> err option" where
  "checkHandOver env cid handOver =
     (case handOver of
        None \<Rightarrow> Some (invalid ''no hand-over'')
      | Some h \<Rightarrow>
          (case hoChallenge h of
             None \<Rightarrow> Some (invalid ''no challenge'')
           | Some challenge \<Rightarrow>
               if cId challenge \<noteq> cid then Some (invalid ''the payload describes another challenge'')
               else if \<not> validChallengeId cid then Some (invalid ''is not a challenge id'')
               else if cType challenge = '''' then Some (invalid ''has no challenge type'')
               else if cHosts challenge = [] then Some (invalid ''names no hosts'')
               else if \<not> list_all (validHostName \<circ> fst) (cHosts challenge) then Some (invalid ''names a host which is not a stage name'')
               else if list_ex (\<lambda>(_, host, _). host \<notin> fst ` set (cHosts challenge)) (hPortMap challenge)
               then Some (invalid ''a port is on a host the challenge does not name'')
               else checkBuilds challenge (templateChecksum (heDockerfile env) (cType challenge)) (hoPinFingerprint h) [] (hoBuilds h)))"

section \<open>Committing\<close>

text \<open>Every tag the builds resolve to is asked for; the ones not served are named together.\<close>

fun missingTags :: "string list \<Rightarrow> string list mio" where
  "missingTags [] = ret []"
| "missingTags (name # names) =
     bnd (catch (registryTagPresent name) (\<lambda>e. fail (Msg (''could not ask the registry for '' @ name) # e))) (\<lambda>present.
     bnd (missingTags names) (\<lambda>missing.
     ret (if present then missing else name # missing)))"

definition handOverTags :: "manager \<Rightarrow> challengeMeta \<Rightarrow> buildMeta list \<Rightarrow> string list" where
  "handOverTags m challenge bs =
     concat (map (\<lambda>b. map (\<lambda>img. instanceImageName (challengeRegistry m) (cId challenge) (mSeed b) (mChecksum b) (imgHost img))
                          (filter (\<lambda>img. imgHost img \<noteq> ''builder'') (mImages b))) bs)"

definition requireInRegistry :: "challengeMeta \<Rightarrow> buildMeta list \<Rightarrow> unit mio" where
  "requireInRegistry challenge bs =
     bnd (gets (\<lambda>m. handOverTags m challenge bs)) (\<lambda>names.
     bnd (missingTags names) (\<lambda>missing.
     if missing \<noteq> [] then fail [Msg (joinStrings '', '' missing), ErrNotInRegistry] else ret ()))"

definition commitOpened ::
    "handOverEnv \<Rightarrow> challengeMeta \<Rightarrow> buildMeta \<Rightarrow> buildMeta \<Rightarrow> (string \<Rightarrow> string option) \<Rightarrow> bool \<Rightarrow>
     ((string list \<times> buildMeta) option \<times> err list) mio" where
  "commitOpened env cMeta handed row revPortMap prune =
     (let build = handed\<lparr>mId := mId row, mChallenge := cId cMeta, mPrevChecksum := mPrevChecksum row\<rparr> in
      if mFlag row = mFlag handed \<and> mChecksum row = mChecksum handed \<and> mSourceChecksum row = mSourceChecksum handed \<and>
         mHasArtifacts row = mHasArtifacts handed
      then
        (if \<not> NeedsInstance cMeta then
           bnd (convergeBuildInstances (beLaunch (heBuild env)) build 0) (\<lambda>errs. ret (None, errs))
         else if mInstanceCount build = DYNAMIC_INSTANCES then ret (None, [])
         else bnd (convergeBuildInstances (beLaunch (heBuild env)) build (mInstanceCount build)) (\<lambda>errs. ret (None, errs)))
      else
        bnd (reconcileBuild (heBuild env) build cMeta revPortMap prune) (\<lambda>(candidate, errs).
        if mFlag row = '''' \<and> errs \<noteq> [] then
          bnd (tryIO (lookupBuildMetadata (mId row))) (\<lambda>stored.
          (case stored of
             Inr s \<Rightarrow>
               if mFlag s = '''' then
                 bnd (tryIO (removeBuildMetadata (mId row))) (\<lambda>rm.
                 ret (None, (Msg ''was not committed'' # concat errs) # (case rm of Inl e \<Rightarrow> [e] | Inr _ \<Rightarrow> [])))
               else ret (candidate, errs)
           | Inl _ \<Rightarrow> ret (candidate, errs)))
        else ret (candidate, errs)))"

definition commitHandedOverBuild ::
    "handOverEnv \<Rightarrow> challengeMeta \<Rightarrow> (string \<Rightarrow> string option) \<Rightarrow> bool \<Rightarrow> buildMeta \<Rightarrow>
     ((string list \<times> buildMeta) option \<times> err list) mio" where
  "commitHandedOverBuild env cMeta revPortMap prune handed =
     bnd (tryIO (openBuild (beSum (heBuild env))
            ((wantedBuild (mSchema handed) (mFormat handed) (cId cMeta) (mInstanceCount handed) (mSeed handed))
               \<lparr>mId := mId handed, mChecksum := mChecksum handed\<rparr>))) (\<lambda>r.
     (case r of
        Inl e \<Rightarrow> ret (None, [e])
      | Inr row \<Rightarrow>
          if mId handed \<noteq> 0 \<and> mId row \<noteq> mId handed
          then ret (None, [[Msg ''is on record under another id: the build plane has renumbered it'']])
          else commitOpened env cMeta handed row revPortMap prune))"

fun commitEach ::
    "handOverEnv \<Rightarrow> challengeMeta \<Rightarrow> (string \<Rightarrow> string option) \<Rightarrow> bool \<Rightarrow> buildMeta list \<Rightarrow>
     ((string list \<times> buildMeta) list \<times> err list) mio" where
  "commitEach env cMeta revPortMap prune [] = ret ([], [])"
| "commitEach env cMeta revPortMap prune (b # bs) =
     bnd (commitHandedOverBuild env cMeta revPortMap prune b) (\<lambda>(candidate, errs).
     bnd (commitEach env cMeta revPortMap prune bs) (\<lambda>(replaced, errs').
     ret ((case candidate of None \<Rightarrow> replaced | Some c \<Rightarrow> c # replaced), errs @ errs')))"

section \<open>The hand-over\<close>

fun dumpBuilds :: "int list \<Rightarrow> (buildMeta \<times> instanceMeta list) list mio" where
  "dumpBuilds [] = ret []"
| "dumpBuilds (i # ids) =
     bnd (lookupBuildMetadata i) (\<lambda>b.
     bnd (lookupBuildInstances (mId b)) (\<lambda>insts.
     bnd (dumpBuilds ids) (\<lambda>rest.
     ret ((b, insts) # rest))))"

definition dumpChallenge :: "string \<Rightarrow> (challengeMeta \<times> (buildMeta \<times> instanceMeta list) list) mio" where
  "dumpChallenge cid =
     bnd (lookupChallengeMetadata cid) (\<lambda>c.
     bnd (query (\<lambda>d. map bId (filter (\<lambda>r. bChallenge r = cid) (builds d)))) (\<lambda>ids.
     bnd (dumpBuilds ids) (\<lambda>bs.
     ret (c, bs))))"

text \<open>The challenge is persisted under its verdict; a failure there is the failure of the hand-over.\<close>

definition persistVerdict :: "challengeVerdict \<Rightarrow> challengeMeta \<Rightarrow> unit mio" where
  "persistVerdict verdict challenge =
     bnd (if verdict = verdictAdded then addChallenges [challenge] []
          else if verdict = verdictUpdated \<or> verdict = verdictRefreshed then updateChallenges (\<lambda>_ _. ret []) None [challenge] []
          else ret []) (\<lambda>errs.
     if errs \<noteq> [] then fail (concat errs) else ret ())"

definition commitChallenge :: "handOverEnv \<Rightarrow> string \<Rightarrow> buildMeta list \<Rightarrow> bool \<Rightarrow> err list mio" where
  "commitChallenge env cid bs prune =
     bnd (tryIO (
       bnd (lookupChallengeMetadata cid) (\<lambda>cMeta.
       bnd (getReversePortMap cid) (\<lambda>revPortMap.
       ret (cMeta, revPortMap))))) (\<lambda>looked.
     (case looked of
        Inl e \<Rightarrow> ret [e]
      | Inr (cMeta, revPortMap) \<Rightarrow>
          bnd (commitEach env cMeta revPortMap prune bs) (\<lambda>(replaced, errs).
          bnd (pruneReplacedImages replaced) (\<lambda>_.
          bnd (tryIO (staleBuildIds (cId cMeta) (cSourceChecksum cMeta))) (\<lambda>_.
          bnd (tryIO (dumpChallenge cid)) (\<lambda>recorded.
          ret (errs @ (case recorded of Inl e \<Rightarrow> [e] | Inr _ \<Rightarrow> []))))))))"

definition recordHandOver :: "handOverEnv \<Rightarrow> string \<Rightarrow> challengeMeta \<Rightarrow> buildMeta list \<Rightarrow> bool \<Rightarrow> (challengeVerdict \<times> err list) mio" where
  "recordHandOver env cid challenge bs prune =
     bnd (tryIO (lookupChallengeMetadata cid)) (\<lambda>l.
     bnd (case l of
            Inr c \<Rightarrow> ret (Some c)
          | Inl e \<Rightarrow> if isUnknownIdentifier e then ret None else fail e) (\<lambda>current.
     bnd (if current \<noteq> None then challengeHasStaleBuild cid else ret False) (\<lambda>stale.
     bnd (classifyChallenge current challenge stale) (\<lambda>verdict.
     bnd (persistVerdict verdict challenge) (\<lambda>_.
     bnd (commitChallenge env cid bs prune) (\<lambda>errs.
     ret (verdict, errs)))))))"

definition HandOverChallenge :: "handOverEnv \<Rightarrow> string \<Rightarrow> HandOver option \<Rightarrow> bool \<Rightarrow> (challengeVerdict \<times> err list) mio" where
  "HandOverChallenge env cid handOver prune =
     bnd (gets externalBuildPlane) (\<lambda>external.
     if \<not> external then fail [ErrLocalBuildPlane]
     else
       (case checkHandOver env cid handOver of
          Some e \<Rightarrow> fail e
        | None \<Rightarrow>
            (let h = the handOver; challenge = the (hoChallenge h); bs = map the (hoBuilds h) in
             (case applySeccompProfiles (heDecode env) (heSha256 env) (hoOptions h) (hoSeccompProfiles h) of
                Inl _ \<Rightarrow> fail (invalid ''a seccomp profile was not handed over as declared'')
              | Inr options \<Rightarrow>
                  (let challenge' = challenge\<lparr>cOverrides := chOverrides options\<rparr> in
                   bnd (requireInRegistry challenge' bs) (\<lambda>_.
                   recordHandOver env cid challenge' bs prune))))))"

definition RemoveChallenge :: "string \<Rightarrow> unit mio" where
  "RemoveChallenge cid =
     bnd (lookupChallengeMetadata cid) (\<lambda>c.
     bnd (query (\<lambda>d. length (filter (\<lambda>r. bChallenge r = cid) (builds d)))) (\<lambda>count.
     if count > 0 then fail [Msg ''challenge has builds on record'', ErrChallengeHasBuilds]
     else removeChallenges [c]))"

section \<open>What is accepted\<close>

lemma checkImages_Inr:
  "checkImages hosts imgs imaged = Inr x \<longleftrightarrow>
     imgHost ` set imgs \<subseteq> set hosts \<and> distinct (map imgHost imgs) \<and> set imaged \<inter> imgHost ` set imgs = {} \<and>
     x = rev (map imgHost imgs) @ imaged"
  by (induction imgs arbitrary: imaged) auto

text \<open>What a build handed over has to be, whatever else is in the payload.\<close>

definition build_acceptable :: "challengeMeta \<Rightarrow> 32 word \<Rightarrow> 32 word \<Rightarrow> buildMeta \<Rightarrow> bool" where
  "build_acceptable challenge template pins b \<longleftrightarrow>
     mChallenge b \<in> {'''', cId challenge} \<and> 0 < mId b \<and> mSchema b \<noteq> '''' \<and> mFormat b \<noteq> '''' \<and> mFlag b \<noteq> '''' \<and>
     - 1 \<le> mInstanceCount b \<and> mSourceChecksum b = cSourceChecksum challenge \<and>
     mChecksum b = contentChecksum (mSourceChecksum b) (mFormat b) pins template \<and>
     mImages b \<noteq> [] \<and> distinct (map imgHost (mImages b)) \<and> imgHost ` set (mImages b) = fst ` set (cHosts challenge)"

lemma checkBuild_None:
  "checkBuild challenge template pins seen b = None \<longleftrightarrow> build_acceptable challenge template pins b \<and> handOverKey b \<notin> set seen"
proof (cases "checkImages (map fst (cHosts challenge)) (mImages b) []")
  case (Inl e)
  then have "\<nexists>x. checkImages (map fst (cHosts challenge)) (mImages b) [] = Inr x" by simp
  then have "\<not> (imgHost ` set (mImages b) \<subseteq> fst ` set (cHosts challenge) \<and> distinct (map imgHost (mImages b)))"
    by (simp add: checkImages_Inr)
  then show ?thesis unfolding checkBuild_def build_acceptable_def Let_def Inl sum.case by auto
next
  case (Inr imaged)
  then have "imgHost ` set (mImages b) \<subseteq> fst ` set (cHosts challenge)" "distinct (map imgHost (mImages b))"
    and imaged: "set imaged = imgHost ` set (mImages b)"
    by (simp_all add: checkImages_Inr)
  then show ?thesis unfolding checkBuild_def build_acceptable_def Let_def Inr sum.case DYNAMIC_INSTANCES_def by (auto simp: list_ex_iff)
qed

lemma checkBuilds_None:
  "checkBuilds challenge template pins seen bs = None \<longleftrightarrow>
     None \<notin> set bs \<and> (\<forall>b. Some b \<in> set bs \<longrightarrow> build_acceptable challenge template pins b) \<and>
     distinct (map (handOverKey \<circ> the) bs) \<and> set seen \<inter> (handOverKey \<circ> the) ` set bs = {}"
proof (induction challenge template pins seen bs rule: checkBuilds.induct)
  case (3 challenge template pins seen b bs)
  show ?case
  proof (cases "checkBuild challenge template pins seen b")
    case None
    then have step: "checkBuilds challenge template pins seen (Some b # bs) = checkBuilds challenge template pins (handOverKey b # seen) bs"
      by simp
    have ok: "build_acceptable challenge template pins b" "handOverKey b \<notin> set seen" using None unfolding checkBuild_None by auto
    show ?thesis unfolding step 3 [OF None] using ok by (auto simp: o_def)
  next
    case (Some e)
    then have "\<not> (build_acceptable challenge template pins b \<and> handOverKey b \<notin> set seen)" using checkBuild_None by (metis option.distinct(1))
    then show ?thesis using Some by auto
  qed
qed simp_all

lemma checkHandOver_None:
  "checkHandOver env cid handOver = None \<longleftrightarrow>
     (\<exists>h challenge. handOver = Some h \<and> hoChallenge h = Some challenge \<and> cId challenge = cid \<and> validChallengeId cid \<and>
        cType challenge \<noteq> '''' \<and> cHosts challenge \<noteq> [] \<and> (\<forall>host\<in>set (cHosts challenge). validHostName (fst host)) \<and>
        (\<forall>(name, host, port)\<in>set (hPortMap challenge). host \<in> fst ` set (cHosts challenge)) \<and>
        None \<notin> set (hoBuilds h) \<and> distinct (map (handOverKey \<circ> the) (hoBuilds h)) \<and>
        (\<forall>b. Some b \<in> set (hoBuilds h) \<longrightarrow>
           build_acceptable challenge (templateChecksum (heDockerfile env) (cType challenge)) (hoPinFingerprint h) b))"
proof (cases handOver)
  case (Some h)
  show ?thesis
  proof (cases "hoChallenge h")
    case challenge: (Some challenge)
    show ?thesis unfolding checkHandOver_def Some challenge option.case
      by (auto simp: checkBuilds_None list_all_iff list_ex_iff challenge split: if_splits)
  qed (use Some in \<open>auto simp: checkHandOver_def\<close>)
qed (auto simp: checkHandOver_def)

text \<open>
  C15. A hand-over is accepted exactly when it is addressed to the challenge it describes, under an
  id the loader could have made; the challenge has a type and hosts with stage names, and ports
  only on those; and every build is of the challenge's source generation, has an id, a schema, a
  format, a flag and a count a schema may give, carries the content checksum its inputs give under
  this daemon's template, and has exactly one image for each host - and no build is handed over
  twice.
\<close>

theorem checkHandOver_exact:
  "checkHandOver env cid handOver = None \<longleftrightarrow>
     (\<exists>h challenge. handOver = Some h \<and> hoChallenge h = Some challenge \<and> cId challenge = cid \<and> validChallengeId cid \<and>
        cType challenge \<noteq> '''' \<and> cHosts challenge \<noteq> [] \<and> (\<forall>host\<in>set (cHosts challenge). validHostName (fst host)) \<and>
        (\<forall>(name, host, port)\<in>set (hPortMap challenge). host \<in> fst ` set (cHosts challenge)) \<and>
        None \<notin> set (hoBuilds h) \<and> distinct (map (handOverKey \<circ> the) (hoBuilds h)) \<and>
        (\<forall>b. Some b \<in> set (hoBuilds h) \<longrightarrow>
           build_acceptable challenge (templateChecksum (heDockerfile env) (cType challenge)) (hoPinFingerprint h) b))"
  by (rule checkHandOver_None)

section \<open>The request for a manifest\<close>

lemma cutAt_append: "c \<notin> set s \<Longrightarrow> cutAt c (s @ c # t) = Some (s, t)"
  by (induction s) auto

lemma requestPath_of:
  assumes "registry \<noteq> ''''" "CHR '':'' \<notin> set cid"
  shows "registryManifestRequest registry (instanceImageName registry cid seed checksum host) =
     (let (server, prefix) = registryEndpoint registry in
      Inr (server, ''/v2/'' @ (if prefix \<noteq> '''' then prefix @ ''/'' @ cid else cid) @ ''/manifests/'' @ dockerId seed checksum host))"
  using assms cutAt_append [of "CHR '':''" cid "dockerId seed checksum host"]
  by (simp add: registryManifestRequest_def instanceImageName_def imageRepository_def)

text \<open>The characters a name may have in the path of a request: none of them divides a URL anew.\<close>

definition plain_char :: "char \<Rightarrow> bool" where
  "plain_char c \<longleftrightarrow> is_word_char c \<or> c = CHR ''-''"

lemma lower_alnum_plain: "is_lower_alnum c \<Longrightarrow> plain_char c"
  by (auto simp: is_lower_alnum_def plain_char_def is_word_char_def is_alnum_def is_digit_def Let_def)

lemma joinWith_splitOn: "joinWith c (splitOn c s) = s"
proof (induction s)
  case (Cons x s)
  obtain p ps where "splitOn c s = p # ps" by (cases "splitOn c s") auto
  with Cons show ?case by (cases ps) auto
qed simp

lemma set_splitOn: "set s \<subseteq> insert c (\<Union> (set ` set (splitOn c s)))"
proof (induction s)
  case (Cons x s)
  obtain p ps where "splitOn c s = p # ps" by (cases "splitOn c s") auto
  with Cons show ?case by auto
qed simp

lemma validChallengeId_plain:
  assumes "validChallengeId cid"
  shows "list_all (\<lambda>c. plain_char c \<or> c = CHR ''/'') cid" and "\<And>p. p \<in> set (splitOn (CHR ''/'') cid) \<Longrightarrow> p \<noteq> '''' \<and> list_all plain_char p"
proof -
  let ?parts = "splitOn (CHR ''/'') cid"
  show parts: "p \<noteq> '''' \<and> list_all plain_char p" if "p \<in> set ?parts" for p
  proof -
    have "?parts = butlast ?parts @ [last ?parts]" by simp
    with that have "p \<in> set (butlast ?parts) \<or> p = last ?parts" by (metis Un_iff empty_iff insert_iff list.set set_append)
    then show ?thesis
    proof
      assume "p \<in> set (butlast ?parts)"
      then show ?thesis using assms lower_alnum_plain by (auto simp: validChallengeId_def Let_def list_all_iff)
    next
      assume "p = last ?parts"
      then have "p \<noteq> ''''" "list_all (\<lambda>c. is_lower_alnum c \<or> c = CHR ''-'') p"
        using assms unfolding validChallengeId_def Let_def by auto
      then show ?thesis by (auto simp: list_all_iff plain_char_def dest!: lower_alnum_plain)
    qed
  qed
  show "list_all (\<lambda>c. plain_char c \<or> c = CHR ''/'') cid"
    using parts set_splitOn [of cid "CHR ''/''"] by (fastforce simp: list_all_iff)
qed

lemma dockerId_plain:
  assumes "validHostName host" shows "list_all plain_char (dockerId seed checksum host)"
proof -
  have digit: "is_digit c \<Longrightarrow> plain_char c" for c
    by (auto simp: plain_char_def is_word_char_def is_alnum_def is_digit_def Let_def)
  have "list_all plain_char (show_int seed)" using set_show_int [of seed] digit by (auto simp: list_all_iff plain_char_def)
  moreover have "list_all plain_char (show_hex (unat checksum))"
  proof -
    have "is_hex c \<Longrightarrow> plain_char c" for c
      by (auto simp: is_hex_def plain_char_def is_word_char_def is_alnum_def is_digit_def)
    then show ?thesis using hexs_show_hex [of "unat checksum"] by (simp add: list_all_iff)
  qed
  moreover have "list_all plain_char host" using assms by (simp add: validHostName_def plain_char_def list_all_iff)
  moreover have "plain_char (CHR ''s'')" "plain_char (CHR ''-'')" by (simp_all add: plain_char_def is_word_char_def is_alnum_def)
  ultimately show ?thesis by (simp add: dockerId_def)
qed

text \<open>
  C24. The question a hand-over makes the daemon ask cannot be aimed elsewhere. For every image of an
  accepted hand-over, the request for its manifest goes to the registry's host, and below the
  registry's prefix its path is the challenge id, \<open>manifests\<close> and the tag, segment by segment,
  each of letters, digits, \<open>_\<close> and \<open>-\<close> only - no \<open>..\<close>, no \<open>?\<close> and no \<open>#\<close> can
  arrive from the payload.
\<close>

theorem handed_over_request_confined:
  assumes "checkHandOver env cid (Some h) = None" "Some b \<in> set (hoBuilds h)" "img \<in> set (mImages b)" "registry \<noteq> ''''"
  shows "\<exists>tail. registryManifestRequest registry (instanceImageName registry cid (mSeed b) (mChecksum b) (imgHost img)) =
           Inr (fst (registryEndpoint registry),
                ''/v2/'' @ (if snd (registryEndpoint registry) \<noteq> '''' then snd (registryEndpoint registry) @ ''/'' else '''') @ tail) \<and>
         splitOn (CHR ''/'') tail = splitOn (CHR ''/'') cid @ [''manifests'', dockerId (mSeed b) (mChecksum b) (imgHost img)] \<and>
         (\<forall>segment\<in>set (splitOn (CHR ''/'') tail). segment \<noteq> '''' \<and> list_all plain_char segment)"
proof -
  let ?tag = "dockerId (mSeed b) (mChecksum b) (imgHost img)"
  let ?tail = "cid @ ''/manifests/'' @ ?tag"
  from assms(1) obtain challenge where cid: "validChallengeId cid"
    and hosts: "\<forall>host\<in>set (cHosts challenge). validHostName (fst host)"
    and ok: "\<forall>b. Some b \<in> set (hoBuilds h) \<longrightarrow>
      build_acceptable challenge (templateChecksum (heDockerfile env) (cType challenge)) (hoPinFingerprint h) b"
    unfolding checkHandOver_None by auto
  have "imgHost img \<in> fst ` set (cHosts challenge)"
    using ok assms(2,3) unfolding build_acceptable_def by blast
  then have tag: "list_all plain_char ?tag" using hosts dockerId_plain by auto
  then have "CHR ''/'' \<notin> set ?tag" by (auto simp: list_all_iff plain_char_def is_word_char_def is_alnum_def)
  then have split: "splitOn (CHR ''/'') ?tail = splitOn (CHR ''/'') cid @ [''manifests'', ?tag]"
    using splitOn_append [of "CHR ''/''" cid "''manifests/'' @ ?tag"] splitOn_append_sep [of "CHR ''/''" "''manifests''" ?tag]
    by (simp add: splitOn_plain)
  have "?tag \<noteq> ''''" "list_all plain_char ''manifests''"
    by (simp_all add: dockerId_def plain_char_def is_word_char_def is_alnum_def)
  then have "\<forall>segment\<in>set (splitOn (CHR ''/'') ?tail). segment \<noteq> '''' \<and> list_all plain_char segment"
    unfolding split using tag validChallengeId_plain(2) [OF cid] by auto
  moreover have "CHR '':'' \<notin> set cid"
    using validChallengeId_plain(1) [OF cid] by (auto simp: list_all_iff plain_char_def is_word_char_def is_alnum_def)
  ultimately show ?thesis
    using requestPath_of [OF assms(4)] split by (intro exI [of _ ?tail]) (simp add: case_prod_beta)
qed

section \<open>Verified before anything is written\<close>

definition is_head :: "dockerCall \<times> dockerReply \<Rightarrow> bool" where
  "is_head cr \<longleftrightarrow> (\<exists>server path. fst cr = RegistryHead server path)"

text \<open>The registry answered, in the log, that it serves the tag.\<close>

definition served :: "string \<Rightarrow> string \<Rightarrow> callLog \<Rightarrow> bool" where
  "served registry name new \<longleftrightarrow> (\<exists>server path rep. registryManifestRequest registry name = Inr (server, path) \<and>
     (RegistryHead server path, rep) \<in> set new \<and> rErr rep = None \<and> rStatus rep = 200)"

lemma served_append: "served registry name new \<Longrightarrow> served registry name (before @ new) \<and> served registry name (new @ after)"
  by (auto simp: served_def)

lemma retryRegistry_each:
  assumes "\<And>m. logs m exchange (each P)" shows "logs m (retryRegistry n exchange) (each P)"
proof (induction n arbitrary: m rule: less_induct)
  case (less n)
  show ?case by (subst retryRegistry.simps) (auto intro!: each_intros assms less.IH split: sum.split)
qed

lemma registryTagPresent_logs:
  "logs m (registryTagPresent name) (\<lambda>r new. list_all is_head new \<and> (r = Inr True \<longrightarrow> served (challengeRegistry m) name new))"
proof -
  let ?registry = "challengeRegistry m"
  let ?ask = "case registryManifestRequest ?registry name of
      Inl e \<Rightarrow> ret (Inl e, False)
    | Inr (host, path) \<Rightarrow>
        bnd (dockerDo (RegistryHead host path)) (\<lambda>r. ret (case rErr r of None \<Rightarrow> Inr (rStatus r) | Some e \<Rightarrow> Inl e, rDone r))"
  have heads: "logs m1 (retryRegistry registryAttempts ?ask) (each is_head)" for m1
    by (rule retryRegistry_each) (auto intro!: each_intros simp: is_head_def split: sum.split)
  have answer: "logs m1 (retryRegistry registryAttempts ?ask)
      (\<lambda>r new. no_writes new \<and> (\<forall>code. r = Inr code \<longrightarrow> (code = 200 \<longrightarrow> served ?registry name new)))" for m1
    by (rule retryRegistry_logs)
       (auto intro!: logs_intros simp: served_def touches_tags_def split: option.splits)
  show ?thesis unfolding registryTagPresent_def
    by (intro logs_gets_bnd, rule logs_seq [OF logs_conj [OF heads answer]])
       (auto intro!: logs_intros simp: each_def)
qed

lemma missingTags_logs:
  "logs m (missingTags names) (\<lambda>r new. list_all is_head new \<and>
     (\<forall>missing. r = Inr missing \<longrightarrow> (\<forall>name\<in>set names. name \<in> set missing \<or> served (challengeRegistry m) name new)))"
proof (induction names arbitrary: m)
  case Nil
  show ?case unfolding missingTags.simps by (rule logs_basic) simp
next
  case (Cons name names)
  have ask: "logs m (catch (registryTagPresent name) (\<lambda>e. fail (Msg (''could not ask the registry for '' @ name) # e)))
     (\<lambda>r new. list_all is_head new \<and> (r = Inr True \<longrightarrow> served (challengeRegistry m) name new))"
    using registryTagPresent_logs [of m name] by (auto simp: logs_def catch_def split: prod.split sum.split)
  show ?case unfolding missingTags.simps
    by (rule logs_seq [OF ask], simp, rule logs_seq [OF Cons.IH])
       (auto intro!: logs_intros simp: steady_settings served_append)
qed

lemma requireInRegistry_logs:
  "logs m (requireInRegistry challenge bs) (\<lambda>r new. list_all is_head new \<and>
     (r = Inr () \<longrightarrow> (\<forall>name\<in>set (handOverTags m challenge bs). served (challengeRegistry m) name new)))"
  unfolding requireInRegistry_def
  by (intro logs_gets_bnd, rule logs_seq [OF missingTags_logs]) (auto intro!: logs_intros)

text \<open>
  C13. A hand-over verifies before it writes. If anything in the tables changed, or the hand-over was
  not refused, then the daemon is on an external build plane, the payload passed every check, the
  declared seccomp profiles arrived, and before the recording began the registry had answered 200
  to a request for the tag of every image of every build, the builder's excepted - with nothing
  written and nothing but such requests made until then.
\<close>

theorem HandOver_verifies_first:
  assumes "HandOverChallenge env cid handOver prune m = (r, m')" and "db m' \<noteq> db m \<or> (\<exists>x. r = Inr x)"
  shows "\<exists>h challenge options m1 new.
     externalBuildPlane m \<and> handOver = Some h \<and> hoChallenge h = Some challenge \<and> checkHandOver env cid handOver = None \<and>
     applySeccompProfiles (heDecode env) (heSha256 env) (hoOptions h) (hoSeccompProfiles h) = Inr options \<and>
     db m1 = db m \<and> calls m1 = calls m @ new \<and> list_all is_head new \<and>
     (\<forall>b. Some b \<in> set (hoBuilds h) \<longrightarrow> (\<forall>img\<in>set (mImages b). imgHost img \<noteq> ''builder'' \<longrightarrow>
        served (challengeRegistry m) (instanceImageName (challengeRegistry m) cid (mSeed b) (mChecksum b) (imgHost img)) new)) \<and>
     recordHandOver env cid (challenge\<lparr>cOverrides := chOverrides options\<rparr>) (map the (hoBuilds h)) prune m1 = (r, m')"
proof -
  have plane: "externalBuildPlane m" and ok: "checkHandOver env cid handOver = None"
    using assms by (auto simp: HandOverChallenge_def bnd_def split: if_splits option.splits)
  from ok obtain h challenge where h: "handOver = Some h" "hoChallenge h = Some challenge" "cId challenge = cid"
    unfolding checkHandOver_None by blast
  obtain options where options: "applySeccompProfiles (heDecode env) (heSha256 env) (hoOptions h) (hoSeccompProfiles h) = Inr options"
    using assms plane ok h by (cases "applySeccompProfiles (heDecode env) (heSha256 env) (hoOptions h) (hoSeccompProfiles h)")
      (auto simp: HandOverChallenge_def bnd_def Let_def)
  let ?challenge = "challenge\<lparr>cOverrides := chOverrides options\<rparr>" and ?bs = "map the (hoBuilds h)"
  have run: "bnd (requireInRegistry ?challenge ?bs) (\<lambda>_. recordHandOver env cid ?challenge ?bs prune) m = (r, m')"
    using assms(1) plane ok h options by (simp add: HandOverChallenge_def bnd_def Let_def)
  obtain q m1 where q: "requireInRegistry ?challenge ?bs m = (q, m1)" by fastforce
  from logsE [OF requireInRegistry_logs q] obtain new where new: "calls m1 = calls m @ new" "steady m m1" "list_all is_head new"
    "q = Inr () \<longrightarrow> (\<forall>name\<in>set (handOverTags m ?challenge ?bs). served (challengeRegistry m) name new)" by blast
  have q': "q = Inr ()" using run q assms(2) new(2) by (cases q) (auto simp: bnd_def steady_def)
  have "served (challengeRegistry m) (instanceImageName (challengeRegistry m) cid (mSeed b) (mChecksum b) (imgHost img)) new"
    if "Some b \<in> set (hoBuilds h)" "img \<in> set (mImages b)" "imgHost img \<noteq> ''builder''" for b img
    using new(4) q' that h(3) by (force simp: handOverTags_def)
  then show ?thesis using plane ok h options new q q' run by (auto simp: bnd_def steady_def)
qed

section \<open>A hand-over\<close>

definition handed_challenge :: challengeMeta where
  "handed_challenge = sample_cmeta\<lparr>cOverrides := []\<rparr>"

definition handed_build :: buildMeta where
  "handed_build = sample_build\<lparr>mImages := [\<lparr>imgHost = ''challenge'', imgPorts = []\<rparr>],
     mFormat := ''bgnpzqpr'', mChecksum := 5\<rparr>"

definition handed_over :: HandOver where
  "handed_over = \<lparr>hoChallenge = Some handed_challenge, hoOptions = \<lparr>chDefault = plain_options, chOverrides = []\<rparr>,
     hoBuilds = [Some handed_build], hoPinFingerprint = 0, hoSeccompProfiles = []\<rparr>"

definition handing_env :: handOverEnv where
  "handing_env = \<lparr>heBuild = sample_benv, heDockerfile = (\<lambda>_. []), heDecode = sample_decode, heSha256 = (\<lambda>s. s)\<rparr>"

definition taking_manager :: manager where
  "taking_manager = freshManager\<lparr>externalBuildPlane := True, challengeRegistry := ''reg:5000''\<rparr>"

lemma crcByte_bits: "crcByte b c = crcBit (crcBit (crcBit (crcBit (crcBit (crcBit (crcBit (crcBit (c XOR ucast b))))))))"
  by (simp add: crcByte_def eval_nat_numeral)

lemma handed_bytes:
  "crcByte 0 4294967295 = 771559538" "crcByte 0 771559538 = 3190222080" "crcByte 0 3190222080 = 12461805"
  "crcByte 9 12461805 = 2808584263" "crcByte 98 2808584263 = 1269019615" "crcByte 103 1269019615 = 3320944653"
  "crcByte 110 3320944653 = 3565076858" "crcByte 112 3565076858 = 3758200799" "crcByte 122 3758200799 = 2791069424"
  "crcByte 113 2791069424 = 2585391072" "crcByte 112 2585391072 = 4036332203" "crcByte 114 4036332203 = 4294967290"
  by (simp_all add: crcByte_bits crcBit_def)

lemma handed_checksum: "contentChecksum 9 ''bgnpzqpr'' 0 0 = 5"
proof -
  have ones: "NOT 0 = (4294967295 :: 32 word)" "NOT 4294967290 = (5 :: 32 word)" by (simp_all add: not_eq_complement)
  have bytes: "bigEndian32 9 = [0, 0, 0, 9]" "bytes_of_string ''bgnpzqpr'' = [98, 103, 110, 112, 122, 113, 112, 114]"
    by (simp_all add: bigEndian32_def bytes_of_string_def)
  have "fold crcByte (bigEndian32 9 @ bytes_of_string ''bgnpzqpr'') 4294967295 = 4294967290"
    unfolding bytes by (simp add: handed_bytes)
  then have "crc32 (bigEndian32 9 @ bytes_of_string ''bgnpzqpr'') = 5" unfolding crc32_def ones(1) using ones(2) by (simp only:)
  then show ?thesis by (simp add: contentChecksum_def)
qed

lemma handed_over_accepted: "checkHandOver handing_env ''pico/a'' (Some handed_over) = None"
proof -
  have "validChallengeId ''pico/a''" "validHostName ''challenge''" by code_simp+
  then show ?thesis unfolding checkHandOver_None
    by (simp add: handed_over_def handed_challenge_def sample_cmeta_def challengeMeta_of_def sample_challenge_def challengeRow.defs
        handed_build_def sample_build_def build_acceptable_def handed_checksum handing_env_def templateChecksum_def)
qed

lemma handed_over_run: "\<exists>x. fst (HandOverChallenge handing_env ''pico/a'' (Some handed_over) False taking_manager) = Inr x"
proof -
  have "fst (bnd (requireInRegistry handed_challenge [handed_build])
     (\<lambda>_. recordHandOver handing_env ''pico/a'' handed_challenge [handed_build] False) taking_manager) = Inr (verdictAdded, [])"
    by code_simp
  moreover have "HandOverChallenge handing_env ''pico/a'' (Some handed_over) False taking_manager =
     bnd (requireInRegistry handed_challenge [handed_build])
       (\<lambda>_. recordHandOver handing_env ''pico/a'' handed_challenge [handed_build] False) taking_manager"
  proof -
    have "externalBuildPlane taking_manager" by (simp add: taking_manager_def)
    moreover have "applySeccompProfiles (heDecode handing_env) (heSha256 handing_env) (hoOptions handed_over) (hoSeccompProfiles handed_over) =
        Inr \<lparr>chDefault = plain_options, chOverrides = []\<rparr>"
      by code_simp
    moreover have "hoChallenge handed_over = Some handed_challenge" "hoBuilds handed_over = [Some handed_build]"
      "handed_challenge\<lparr>cOverrides := []\<rparr> = handed_challenge"
      by (simp_all add: handed_over_def handed_challenge_def)
    ultimately show ?thesis unfolding HandOverChallenge_def using handed_over_accepted by (simp add: bnd_def Let_def)
  qed
  ultimately show ?thesis by auto
qed

theorem checkHandOver_exact_witness:
  "build_acceptable handed_challenge (templateChecksum (heDockerfile handing_env) (cType handed_challenge)) (hoPinFingerprint handed_over) handed_build"
proof -
  have "hoChallenge handed_over = Some handed_challenge" "Some handed_build \<in> set (hoBuilds handed_over)"
    by (simp_all add: handed_over_def)
  then show ?thesis using handed_over_accepted checkHandOver_exact [of handing_env "''pico/a''" "Some handed_over"] by auto
qed

theorem handed_over_request_confined_witness:
  "\<exists>tail. registryManifestRequest ''reg:5000/ctf'' (instanceImageName ''reg:5000/ctf'' ''pico/a'' (mSeed handed_build) (mChecksum handed_build) ''challenge'') =
     Inr (''reg:5000'', ''/v2/ctf/'' @ tail) \<and> ''manifests'' \<in> set (splitOn (CHR ''/'') tail)"
proof -
  have endpoint: "registryEndpoint ''reg:5000/ctf'' = (''reg:5000'', ''ctf'')" by code_simp
  have "Some handed_build \<in> set (hoBuilds handed_over)" "\<lparr>imgHost = ''challenge'', imgPorts = []\<rparr> \<in> set (mImages handed_build)"
    by (simp_all add: handed_over_def handed_build_def)
  from handed_over_request_confined [OF handed_over_accepted this, of "''reg:5000/ctf''"] show ?thesis
    unfolding endpoint by auto
qed

theorem HandOver_verifies_first_witness:
  "\<exists>new. list_all is_head new \<and> served ''reg:5000'' (instanceImageName ''reg:5000'' ''pico/a'' (mSeed handed_build) (mChecksum handed_build) ''challenge'') new"
proof -
  obtain x m' where run: "HandOverChallenge handing_env ''pico/a'' (Some handed_over) False taking_manager = (Inr x, m')"
    using handed_over_run by (metis prod.collapse)
  have "Some handed_build \<in> set (hoBuilds handed_over)" "\<lparr>imgHost = ''challenge'', imgPorts = []\<rparr> \<in> set (mImages handed_build)"
    "challengeRegistry taking_manager = ''reg:5000''"
    by (simp_all add: handed_over_def handed_build_def taking_manager_def)
  with HandOver_verifies_first [OF run] show ?thesis by fastforce
qed

section \<open>The registry is asked at most three times\<close>

lemma retryRegistry_bounded:
  assumes "\<And>m. logs m exchange (\<lambda>r new. \<exists>answer ctxDone. r = Inr (answer, ctxDone) \<and>
      length new \<le> 1 \<and> (isl answer \<longrightarrow> list_all (\<lambda>cr. rErr (snd cr) \<noteq> None) new))"
  shows "logs m (retryRegistry (Suc n) exchange)
    (\<lambda>r new. length new \<le> Suc n \<and> list_all (\<lambda>cr. rErr (snd cr) \<noteq> None) (butlast new))"
proof (induction n arbitrary: m)
  case 0
  show ?case
    by (subst retryRegistry.simps, rule logs_seq [OF assms])
       (auto intro!: logs_intros simp: length_Suc_conv le_Suc_eq split: sum.split)
next
  case (Suc n)
  show ?case
  proof (subst retryRegistry.simps, rule logs_seq [OF assms], goal_cases)
    case (2 x new m1)
    then obtain answer ctxDone where x: "x = (answer, ctxDone)" "length new \<le> 1"
      "isl answer \<longrightarrow> list_all (\<lambda>cr. rErr (snd cr) \<noteq> None) new" by auto
    have nil: "butlast new = []" using x(2) by (cases new) auto
    have "logs m1 (retryRegistry (Suc n) exchange)
      (\<lambda>r new'. length (new @ new') \<le> Suc (Suc n) \<and> list_all (\<lambda>cr. rErr (snd cr) \<noteq> None) (butlast (new @ new')))"
      if "isl answer"
      by (rule logs_mono [OF Suc.IH]) (use x that in \<open>auto simp: butlast_append nil\<close>)
    then show ?case using x nil by (cases answer) (auto intro!: logs_basic)
  qed auto
qed

text \<open>
  C29. Asking the registry for a tag ends: there are at most three requests, and another is made only
  after one that went without an answer - whatever the registry does, and with \<open>404\<close> an answer
  like any other.
\<close>

theorem registryTagPresent_ends:
  "\<exists>new. calls (snd (registryTagPresent name m)) = calls m @ new \<and> length new \<le> 3 \<and>
     list_all (\<lambda>cr. rErr (snd cr) \<noteq> None) (butlast new) \<and> list_all is_head new \<and> db (snd (registryTagPresent name m)) = db m"
proof -
  have "logs m (registryTagPresent name) (\<lambda>r new. length new \<le> 3 \<and> list_all (\<lambda>cr. rErr (snd cr) \<noteq> None) (butlast new))"
    unfolding registryTagPresent_def registryAttempts_def numeral_3_eq_3
  proof (rule logs_gets_bnd, rule logs_seq [OF retryRegistry_bounded], goal_cases)
    case (1 m1)
    show ?case by (auto intro!: logs_intros split: sum.split option.splits)
  qed (auto intro!: logs_intros)
  from logs_conj [OF this registryTagPresent_logs] show ?thesis
    by (auto simp: logs_def steady_settings)
qed

end
