(* ===== verification/Base_Pins.thy ===== *)
theory Base_Pins
  imports Hand_Over
begin

text \<open>
  Base image pins (\<open>src/cork/basepins.go\<close>): which lines of a Dockerfile name a base image,
  rewriting them to pinned digests, the fingerprint of the pins, and refreshing them. Text is a
  list of bytes; where the code folds case or trims space beyond ASCII, the UTF-8 sequences that
  can matter are written out.
\<close>

section \<open>Reading a Dockerfile\<close>

definition nonspace :: "char \<Rightarrow> bool" where
  "nonspace c \<longleftrightarrow> \<not> is_space c"

definition lowerChar :: "char \<Rightarrow> char" where
  "lowerChar c = (let n = (of_char c :: nat) in if 65 \<le> n \<and> n \<le> 90 then char_of (n + 32) else c)"

text \<open>\<open>strings.ToLower\<close>: two letters outside ASCII, the Kelvin sign and the dotted capital I, have lower case within it.\<close>

fun lowerText :: "string \<Rightarrow> string" where
  "lowerText [] = []"
| "lowerText (c # cs) =
     (if c = CHR 0xE2 \<and> take 2 cs = [CHR 0x84, CHR 0xAA] then CHR ''k'' # lowerText (drop 2 cs)
      else if c = CHR 0xC4 \<and> take 1 cs = [CHR 0xB0] then CHR ''i'' # lowerText (drop 1 cs)
      else lowerChar c # lowerText cs)"

text \<open>The text after the leading space \<open>strings.TrimSpace\<close> takes off.\<close>

definition unicodeSpaces :: "string list" where
  "unicodeSpaces =
     [[CHR 0xC2, CHR 0x85], [CHR 0xC2, CHR 0xA0], [CHR 0xE1, CHR 0x9A, CHR 0x80], [CHR 0xE2, CHR 0x80, CHR 0xA8],
      [CHR 0xE2, CHR 0x80, CHR 0xA9], [CHR 0xE2, CHR 0x80, CHR 0xAF], [CHR 0xE2, CHR 0x81, CHR 0x9F], [CHR 0xE3, CHR 0x80, CHR 0x80]] @
     map (\<lambda>n. [CHR 0xE2, CHR 0x80, char_of (n :: nat)]) [128..<139]"

fun trimLeftSpace :: "string \<Rightarrow> string" where
  "trimLeftSpace [] = []"
| "trimLeftSpace (c # cs) =
     (if is_space c \<or> c = CHR 0x0B then trimLeftSpace cs
      else
        (case List.find (hasPrefix (c # cs)) unicodeSpaces of
           None \<Rightarrow> c # cs
         | Some p \<Rightarrow> trimLeftSpace (drop (length p - 1) cs)))"

definition trimRightBlank :: "string \<Rightarrow> string" where
  "trimRightBlank s = rev (dropWhile (\<lambda>c. c = CHR '' '' \<or> c = CHR 0x09 \<or> c = CHR 0x0D) (rev s))"

definition backslash :: char where "backslash = CHR 0x5C"

definition endsWith :: "char \<Rightarrow> string \<Rightarrow> bool" where
  "endsWith c s = (s \<noteq> [] \<and> last s = c)"

text \<open>The marker of a here-document anywhere, or one that would form where a continued line is joined.\<close>

definition heredocLine :: "string \<Rightarrow> bool" where
  "heredocLine line =
     (contains line ''<<'' \<or>
      (let body = trimRightBlank line in endsWith (CHR ''<'') (if endsWith backslash body then butlast body else body)))"

text \<open>
  \<open>(?i)^(\s*FROM\s+)((?:--\S+\s+)*)(\S+)(.*)$\<close>: the flags are as many as leave a reference; when they
  would take everything, the last of them is the reference.
\<close>

function flagLoop :: "string \<Rightarrow> (string \<times> string) list \<times> string" where
  "flagLoop s =
     (let token = takeWhile nonspace s; gap = takeWhile is_space (dropWhile nonspace s);
          rest = dropWhile is_space (dropWhile nonspace s) in
      if hasPrefix token ''--'' \<and> 2 < length token \<and> gap \<noteq> []
      then (case flagLoop rest of (flags, s') \<Rightarrow> ((token, gap) # flags, s'))
      else ([], s))"
  by pat_completeness auto
termination
proof (relation "measure length", goal_cases)
  case (2 s token gap rest)
  have "length rest \<le> length (dropWhile nonspace s)" using 2 by (simp add: length_dropWhile_le)
  moreover have "length (dropWhile nonspace s) < length s"
    using 2 by (cases s) (auto simp: hasPrefix_def length_dropWhile_le less_Suc_eq_le split: if_splits)
  ultimately show ?case by simp
qed simp

declare flagLoop.simps [simp del]

record fromLine =
  flPrefix :: string
  flFlags :: string
  flRef :: string
  flRest :: string

definition matchFrom :: "string \<Rightarrow> fromLine option" where
  "matchFrom line =
     (let indent = takeWhile is_space line; s1 = dropWhile is_space line; word = take 4 s1;
          gap = takeWhile is_space (drop 4 s1); s2 = dropWhile is_space (drop 4 s1) in
      if map lowerChar word \<noteq> ''from'' \<or> gap = [] \<or> s2 = [] then None
      else
        (case flagLoop s2 of (flags, s3) \<Rightarrow>
           if s3 \<noteq> []
           then Some \<lparr>flPrefix = indent @ word @ gap, flFlags = concat (map (\<lambda>(t, g). t @ g) flags),
                      flRef = takeWhile nonspace s3, flRest = dropWhile nonspace s3\<rparr>
           else Some \<lparr>flPrefix = indent @ word @ gap, flFlags = concat (map (\<lambda>(t, g). t @ g) (butlast flags)),
                      flRef = fst (last flags), flRest = snd (last flags)\<rparr>))"

text \<open>\<open>(?i)^\s+AS\s+(\S+)\s*$\<close>; the long s folds to s.\<close>

definition afterAs :: "string \<Rightarrow> string option" where
  "afterAs s =
     (if map lowerChar (take 2 s) = ''as'' then Some (drop 2 s)
      else if map lowerChar (take 1 s) = ''a'' \<and> take 2 (drop 1 s) = [CHR 0xC5, CHR 0xBF] then Some (drop 3 s)
      else None)"

definition asClause :: "string \<Rightarrow> string option" where
  "asClause rest =
     (if takeWhile is_space rest = [] then None
      else
        (case afterAs (dropWhile is_space rest) of
           None \<Rightarrow> None
         | Some s \<Rightarrow>
             (let name = takeWhile nonspace (dropWhile is_space s) in
              if takeWhile is_space s \<noteq> [] \<and> name \<noteq> [] \<and> dropWhile is_space (dropWhile nonspace (dropWhile is_space s)) = []
              then Some name else None)))"

definition refShape :: "string \<Rightarrow> bool" where
  "refShape ref = (ref \<noteq> [] \<and> is_alnum (hd ref) \<and> list_all (\<lambda>c. is_alnum c \<or> c \<in> set ''._:/@-'') ref)"

section \<open>Base images\<close>

record baseRef =
  brLine :: "nat option" \<comment> \<open>None: the instruction spans a continued line\<close>
  brFrom :: fromLine

definition externalRef :: "string list \<Rightarrow> string \<Rightarrow> bool" where
  "externalRef stages ref =
     (lowerText ref \<notin> set stages \<and> map lowerChar ref \<noteq> ''scratch'' \<and> CHR ''@'' \<notin> set ref \<and> CHR ''$'' \<notin> set ref \<and> refShape ref)"

definition stagesAfter :: "fromLine \<Rightarrow> string list \<Rightarrow> string list" where
  "stagesAfter f stages = (case asClause (flRest f) of None \<Rightarrow> stages | Some name \<Rightarrow> lowerText name # stages)"

text \<open>\<open>None\<close>: the file is refused.\<close>

fun scanLoop :: "nat \<Rightarrow> string list \<Rightarrow> bool \<Rightarrow> string list \<Rightarrow> baseRef list option" where
  "scanLoop i [] continued stages = Some []"
| "scanLoop i (line # lines) continued stages =
     (if heredocLine line then None
      else if trimLeftSpace line = [] \<or> hasPrefix (trimLeftSpace line) ''#'' then scanLoop (Suc i) lines continued stages
      else
        (let goesOn = endsWith backslash (trimRightBlank line) in
         if continued then scanLoop (Suc i) lines goesOn stages
         else
           (case matchFrom line of
              None \<Rightarrow> scanLoop (Suc i) lines goesOn stages
            | Some f \<Rightarrow>
                (let stages' = stagesAfter f stages; rest = scanLoop (Suc i) lines goesOn stages' in
                 if externalRef stages' (flRef f)
                 then map_option (Cons \<lparr>brLine = (if goesOn then None else Some i), brFrom = f\<rparr>) rest
                 else rest))))"

definition scanFromInstructions :: "string list \<Rightarrow> baseRef list option" where
  "scanFromInstructions lines = scanLoop 0 lines False []"

text \<open>A colon after the last slash ends the name.\<close>

definition refHasTag :: "string \<Rightarrow> bool" where
  "refHasTag ref = (CHR '':'' \<in> set ref \<and> CHR ''/'' \<notin> set (takeWhile (\<lambda>c. c \<noteq> CHR '':'') (rev ref)))"

definition refName :: "string \<Rightarrow> string" where
  "refName ref = (if refHasTag ref then rev (tl (dropWhile (\<lambda>c. c \<noteq> CHR '':'') (rev ref))) else ref)"

type_synonym pinMap = "(string \<times> string) list"

definition lookupPin :: "pinMap \<Rightarrow> string \<Rightarrow> string option" where
  "lookupPin pins ref =
     (case map_of pins ref of
        Some d \<Rightarrow> Some d
      | None \<Rightarrow> if refHasTag ref then None else map_of pins (ref @ '':latest''))"

section \<open>Rewriting\<close>

definition pinned :: "fromLine \<Rightarrow> string \<Rightarrow> string" where
  "pinned f digest = flPrefix f @ flFlags f @ refName (flRef f) @ ''@'' @ digest @ flRest f"

definition pinStep :: "pinMap \<Rightarrow> baseRef \<Rightarrow> string list \<times> string list \<Rightarrow> string list \<times> string list" where
  "pinStep pins from acc =
     (case (brLine from, lookupPin pins (flRef (brFrom from))) of
        (Some i, Some digest) \<Rightarrow> ((fst acc)[i := pinned (brFrom from) digest], snd acc @ [flRef (brFrom from)])
      | _ \<Rightarrow> acc)"

definition newline :: char where "newline = CHR 0x0A"

definition pinDockerfile :: "pinMap \<Rightarrow> string \<Rightarrow> string \<times> string list \<times> bool" where
  "pinDockerfile pins dockerfile =
     (if pins = [] \<or> dockerfile = [] then (dockerfile, [], True)
      else
        (let lines = splitOn newline dockerfile in
         (case scanFromInstructions lines of
            None \<Rightarrow> (dockerfile, [], False)
          | Some froms \<Rightarrow>
              (let (lines', applied) = fold (pinStep pins) froms (lines, []) in
               if applied = [] then (dockerfile, [], True)
               else (joinWith newline lines', sortBy string_le applied, True)))))"

definition externalBaseRefs :: "string \<Rightarrow> string list" where
  "externalBaseRefs dockerfile =
     (if dockerfile = [] then []
      else
        (case scanFromInstructions (splitOn newline dockerfile) of
           None \<Rightarrow> []
         | Some froms \<Rightarrow> remdups (map (flRef \<circ> brFrom) froms)))"

text \<open>The fingerprint of the pins.\<close>

definition pinBytes :: "pinMap \<Rightarrow> 8 word list" where
  "pinBytes pins =
     concat (map (\<lambda>ref. bytes_of_string ref @ [0] @ bytes_of_string (the (map_of pins ref)) @ [10])
       (sortBy string_le (remdups (map fst pins))))"

definition pinsChecksum :: "pinMap \<Rightarrow> 32 word" where
  "pinsChecksum pins =
     (if pins = [] then 0 else (let sum = crc32 (pinBytes pins) in if sum = 0 then 1 else sum))"

section \<open>The pins in force\<close>

record pinState =
  bpPath :: string
  bpPins :: pinMap

definition basePinsChecksum :: "pinState option \<Rightarrow> 32 word" where
  "basePinsChecksum state = (case state of None \<Rightarrow> 0 | Some st \<Rightarrow> pinsChecksum (bpPins st))"

definition pinBases :: "pinState option \<Rightarrow> string \<Rightarrow> string" where
  "pinBases state dockerfile = (case state of None \<Rightarrow> dockerfile | Some st \<Rightarrow> fst (pinDockerfile (bpPins st) dockerfile))"

text \<open>
  Reading the file: \<open>NotFound\<close> is that it does not exist, and \<open>unmarshal\<close> what
  \<open>json.Unmarshal\<close> makes of its text.
\<close>

definition readBasePins :: "(string \<Rightarrow> err + pinMap) \<Rightarrow> err + string \<Rightarrow> err + pinMap" where
  "readBasePins unmarshal file =
     (case file of
        Inl e \<Rightarrow> if errors_Is e NotFound then Inr [] else Inl e
      | Inr data \<Rightarrow>
          if trimLeftSpace data = [] then Inr []
          else
            (case unmarshal data of
               Inl e \<Rightarrow> Inl e
             | Inr pins \<Rightarrow>
                 if list_all (\<lambda>(ref, digest). hasPrefix digest ''sha256:'') pins then Inr pins
                 else Inl [Msg ''a pin is not a sha256 digest'']))"

definition initBasePins :: "(string \<Rightarrow> err + pinMap) \<Rightarrow> string \<Rightarrow> err + string \<Rightarrow> bool \<Rightarrow> err + pinState option" where
  "initBasePins unmarshal path file external =
     (if external then Inr None
      else
        (case readBasePins unmarshal file of
           Inl e \<Rightarrow> Inl e
         | Inr pins \<Rightarrow> Inr (Some \<lparr>bpPath = path, bpPins = pins\<rparr>)))"

section \<open>The references in use\<close>

text \<open>
  The tree below the challenge directory as \<open>filepath.Walk\<close> meets it: a file with what reading it
  gives, a directory with the error of listing it, which is met before anything else, and its
  entries, and an entry that cannot be looked at.
\<close>

datatype walkNode =
    WalkFile string "err + string"
  | WalkDir string "err option" "walkNode list"
  | WalkGone string err

fun walkName :: "walkNode \<Rightarrow> string" where
  "walkName (WalkFile name _) = name"
| "walkName (WalkDir name _ _) = name"
| "walkName (WalkGone name _) = name"

definition readable :: "walkNode \<Rightarrow> bool" where
  "readable n = (case n of WalkGone _ _ \<Rightarrow> False | _ \<Rightarrow> True)"

definition countRef :: "string \<Rightarrow> (string \<times> nat) list \<Rightarrow> (string \<times> nat) list" where
  "countRef ref refs = mapPut ref (case map_of refs ref of None \<Rightarrow> 1 | Some n \<Rightarrow> Suc n) refs"

definition scanFile :: "string \<Rightarrow> (string \<times> nat) list \<Rightarrow> (string \<times> nat) list" where
  "scanFile content refs =
     (case scanFromInstructions (splitOn newline content) of
        None \<Rightarrow> refs
      | Some found \<Rightarrow> fold (\<lambda>f. countRef (flRef (brFrom f))) found refs)"

text \<open>\<open>beside\<close>: there is a \<open>problem.md\<close> beside the entry.\<close>

fun scanNode :: "bool \<Rightarrow> bool \<Rightarrow> walkNode \<Rightarrow> (string \<times> nat) list \<Rightarrow> err + (string \<times> nat) list"
and scanNodes :: "bool \<Rightarrow> walkNode list \<Rightarrow> (string \<times> nat) list \<Rightarrow> err + (string \<times> nat) list" where
  "scanNode atRoot beside (WalkGone name e) refs = Inl e"
| "scanNode atRoot beside (WalkFile name content) refs =
     (if name \<noteq> ''Dockerfile'' \<or> \<not> beside then Inr refs
      else (case content of Inl e \<Rightarrow> Inl e | Inr data \<Rightarrow> Inr (scanFile data refs)))"
| "scanNode atRoot beside (WalkDir name failure nodes) refs =
     (case failure of
        Some e \<Rightarrow> Inl e
      | None \<Rightarrow>
          if hasPrefix name ''.'' \<and> \<not> atRoot then Inr refs
          else scanNodes (list_ex (\<lambda>n. walkName n = ''problem.md'' \<and> readable n) nodes) nodes refs)"
| "scanNodes beside [] refs = Inr refs"
| "scanNodes beside (n # ns) refs =
     (case scanNode False beside n refs of
        Inl e \<Rightarrow> Inl e
      | Inr refs' \<Rightarrow> scanNodes beside ns refs')"

definition scanBaseRefs :: "(string \<Rightarrow> string) \<Rightarrow> walkNode \<Rightarrow> err + (string \<times> nat) list" where
  "scanBaseRefs dockerfileOf tree =
     (case scanNode True False tree [] of
        Inl e \<Rightarrow> Inl e
      | Inr refs \<Rightarrow>
          Inr (fold (\<lambda>t. fold countRef (externalBaseRefs (dockerfileOf t))) [''flag-only'', ''remote-make'', ''static-make''] refs))"

section \<open>What a rewrite changes\<close>

lemma flagLoop_text:
  "flagLoop s = (flags, s') \<Longrightarrow> s = concat (map (\<lambda>(t, g). t @ g) flags) @ s' \<and> (\<forall>(t, g)\<in>set flags. t \<noteq> [] \<and> list_all nonspace t)"
proof (induction s arbitrary: flags rule: flagLoop.induct)
  case (1 s)
  let ?token = "takeWhile nonspace s" and ?gap = "takeWhile is_space (dropWhile nonspace s)"
    and ?rest = "dropWhile is_space (dropWhile nonspace s)"
  show ?case
  proof (cases "hasPrefix ?token ''--'' \<and> 2 < length ?token \<and> ?gap \<noteq> []")
    case True
    obtain fs where fs: "flagLoop ?rest = (fs, s')" "flags = (?token, ?gap) # fs"
      using "1.prems" True by (subst (asm) flagLoop.simps) (auto simp: Let_def split: prod.splits)
    have "?rest = concat (map (\<lambda>(t, g). t @ g) fs) @ s' \<and> (\<forall>(t, g)\<in>set fs. t \<noteq> [] \<and> list_all nonspace t)"
      using "1.IH" [OF refl refl refl True fs(1)] .
    moreover have "s = ?token @ ?gap @ ?rest" by simp
    moreover have "?token \<noteq> []" "list_all nonspace ?token" using True by (auto simp: list_all_iff dest: set_takeWhileD)
    ultimately show ?thesis using fs(2) by (auto simp: list_all_iff)
  next
    case False
    have "flags = []" "s' = s"
      using "1.prems" False by (subst (asm) flagLoop.simps, auto simp: Let_def)+
    then show ?thesis by simp
  qed
qed

text \<open>The parts of a FROM line are the line, cut at the reference.\<close>

lemma matchFrom_text:
  assumes "matchFrom line = Some f"
  shows "line = flPrefix f @ flFlags f @ flRef f @ flRest f"
proof -
  let ?s1 = "dropWhile is_space line"
  let ?s2 = "dropWhile is_space (drop 4 ?s1)"
  obtain flags s3 where fl: "flagLoop ?s2 = (flags, s3)" by fastforce
  have whole: "?s2 = concat (map (\<lambda>(t, g). t @ g) flags) @ s3" using flagLoop_text [OF fl] by simp
  have line: "line = takeWhile is_space line @ take 4 ?s1 @ takeWhile is_space (drop 4 ?s1) @ ?s2"
    by simp
  have s2: "?s2 \<noteq> []" using assms by (auto simp: matchFrom_def Let_def split: if_splits)
  show ?thesis
  proof (cases "s3 = []")
    case True
    then have "flags \<noteq> []" using whole s2 by auto
    then have "flags = butlast flags @ [last flags]" by simp
    then have "?s2 = concat (map (\<lambda>(t, g). t @ g) (butlast flags)) @ fst (last flags) @ snd (last flags)"
      using whole True by (metis (no_types, lifting) append_Nil2 case_prod_beta concat_append concat.simps map_append list.map append_assoc)
    then show ?thesis using assms fl line True s2 by (auto simp: matchFrom_def Let_def split: if_splits)
  next
    case False
    then have "?s2 = concat (map (\<lambda>(t, g). t @ g) flags) @ takeWhile nonspace s3 @ dropWhile nonspace s3" using whole by simp
    then show ?thesis using assms fl line False s2 by (auto simp: matchFrom_def Let_def split: if_splits)
  qed
qed

lemma set_tl_subset: "set (tl xs) \<subseteq> set xs"
  by (cases xs) auto

lemma scanLoop_sound:
  assumes "scanLoop i lines continued stages = Some froms" "br \<in> set froms"
  shows "\<exists>k<length lines. matchFrom (lines ! k) = Some (brFrom br) \<and> (brLine br = Some (i + k) \<or> brLine br = None) \<and>
    (\<exists>st. externalRef st (flRef (brFrom br)))"
  using assms
proof (induction lines arbitrary: i continued stages froms)
  case (Cons line lines)
  let ?goes = "endsWith backslash (trimRightBlank line)"
  have later: ?case if "scanLoop (Suc i) lines c st = Some rest" "br \<in> set rest" for c st rest
  proof -
    from Cons.IH [OF that] obtain k where "k < length lines" "matchFrom (lines ! k) = Some (brFrom br)"
      "brLine br = Some (Suc i + k) \<or> brLine br = None" "\<exists>st. externalRef st (flRef (brFrom br))" by blast
    then show ?thesis by (intro exI [of _ "Suc k"]) simp
  qed
  show ?case
  proof (cases "trimLeftSpace line = [] \<or> hasPrefix (trimLeftSpace line) ''#'' \<or> continued \<or> matchFrom line = None")
    case True
    then obtain c where "scanLoop (Suc i) lines c stages = Some froms" using Cons.prems(1) by (auto simp: Let_def split: if_splits)
    then show ?thesis using later Cons.prems(2) by blast
  next
    case False
    then obtain f where f: "matchFrom line = Some f" by auto
    obtain rest where rest: "scanLoop (Suc i) lines ?goes (stagesAfter f stages) = Some rest"
      "froms = (if externalRef (stagesAfter f stages) (flRef f) then \<lparr>brLine = (if ?goes then None else Some i), brFrom = f\<rparr> # rest else rest)"
      using Cons.prems(1) False f by (auto simp: Let_def split: if_splits)
    show ?thesis
    proof (cases "br \<in> set rest")
      case True
      then show ?thesis using later [OF rest(1)] by blast
    next
      case False
      then have "externalRef (stagesAfter f stages) (flRef f)" "br = \<lparr>brLine = (if ?goes then None else Some i), brFrom = f\<rparr>"
        using rest(2) Cons.prems(2) by (auto split: if_splits)
      then show ?thesis using f by (auto intro!: exI [of _ 0])
    qed
  qed
qed simp

text \<open>Folding the rewrites: a line is rewritten exactly when a base on it has a pin.\<close>

lemma pinStep_fold:
  assumes "\<forall>br\<in>set froms. \<forall>k. brLine br = Some k \<longrightarrow> k < length lines \<and> matchFrom (orig ! k) = Some (brFrom br)" "length lines = length orig"
    "k < length orig"
  shows "fst (fold (pinStep pins) froms (lines, applied)) ! k =
      (case matchFrom (orig ! k) of
         None \<Rightarrow> lines ! k
       | Some f \<Rightarrow> (case lookupPin pins (flRef f) of
                     None \<Rightarrow> lines ! k
                   | Some d \<Rightarrow> if \<exists>br\<in>set froms. brLine br = Some k then pinned f d else lines ! k)) \<and>
    length (fst (fold (pinStep pins) froms (lines, applied))) = length lines \<and>
    set (snd (fold (pinStep pins) froms (lines, applied))) =
      set applied \<union> {flRef (brFrom br) | br. br \<in> set froms \<and> brLine br \<noteq> None \<and> lookupPin pins (flRef (brFrom br)) \<noteq> None}"
  using assms
proof (induction froms arbitrary: lines applied)
  case Nil
  then show ?case by (auto split: option.splits)
next
  case (Cons br froms)
  obtain lines1 applied1 where step: "pinStep pins br (lines, applied) = (lines1, applied1)" by fastforce
  have len: "length lines1 = length orig" using step Cons.prems(2) by (auto simp: pinStep_def split: option.splits)
  have "\<forall>br\<in>set froms. \<forall>k. brLine br = Some k \<longrightarrow> k < length lines1 \<and> matchFrom (orig ! k) = Some (brFrom br)"
    using Cons.prems(1,2) len by auto
  note IH = Cons.IH [OF this len Cons.prems(3), of applied1]
  have here: "lines1 ! k = (case (brLine br, lookupPin pins (flRef (brFrom br))) of
      (Some i, Some d) \<Rightarrow> if i = k then pinned (brFrom br) d else lines ! k | _ \<Rightarrow> lines ! k)"
    and app: "set applied1 = set applied \<union> (if brLine br \<noteq> None \<and> lookupPin pins (flRef (brFrom br)) \<noteq> None then {flRef (brFrom br)} else {})"
    using step Cons.prems by (auto simp: pinStep_def split: option.splits)
  have from_here: "brLine br = Some k \<Longrightarrow> matchFrom (orig ! k) = Some (brFrom br)" using Cons.prems(1) by simp
  show ?case
  proof (intro conjI)
    show "length (fst (fold (pinStep pins) (br # froms) (lines, applied))) = length lines"
      using IH len Cons.prems(2) step by simp
    show "set (snd (fold (pinStep pins) (br # froms) (lines, applied))) =
      set applied \<union> {flRef (brFrom b) | b. b \<in> set (br # froms) \<and> brLine b \<noteq> None \<and> lookupPin pins (flRef (brFrom b)) \<noteq> None}"
      using IH app step by (auto split: if_splits)
  qed (use IH step here from_here in \<open>auto split: option.splits if_splits\<close>)
qed


definition sample_dockerfile :: string where
  "sample_dockerfile = ''FROM --platform=linux ubuntu:24.04 AS base'' @ [newline] @ ''FROM base'' @ [newline] @ ''RUN ./from ubuntu:24.04''"


section \<open>The references found\<close>

text \<open>What a scan may hold: references that can be asked for as they are, each once.\<close>

definition plainRef :: "string \<Rightarrow> bool" where
  "plainRef ref \<longleftrightarrow> refShape ref \<and> CHR ''@'' \<notin> set ref \<and> CHR ''$'' \<notin> set ref"

definition plainRefs :: "(string \<times> nat) list \<Rightarrow> bool" where
  "plainRefs refs \<longleftrightarrow> distinct (map fst refs) \<and> list_all (\<lambda>(ref, n). plainRef ref \<and> 0 < n) refs"

lemma set_mapPutD: "x \<in> set (mapPut k v xs) \<Longrightarrow> x = (k, v) \<or> x \<in> set xs"
  by (induction k v xs rule: mapPut.induct) (auto split: if_splits)

lemma countRef_plain: "plainRefs refs \<Longrightarrow> plainRef ref \<Longrightarrow> plainRefs (countRef ref refs)"
  unfolding plainRefs_def countRef_def
  by (auto simp: list_all_iff distinct_mapPut dest!: set_mapPutD split: option.split)

lemma scanned_plain: "scanFromInstructions lines = Some froms \<Longrightarrow> f \<in> set froms \<Longrightarrow> plainRef (flRef (brFrom f))"
  unfolding scanFromInstructions_def using scanLoop_sound by (fastforce simp: plainRef_def externalRef_def)

lemma fold_countRef_plain: "plainRefs refs \<Longrightarrow> (\<And>x. x \<in> set xs \<Longrightarrow> plainRef (g x)) \<Longrightarrow> plainRefs (fold (\<lambda>x. countRef (g x)) xs refs)"
  by (induction xs arbitrary: refs) (auto intro: countRef_plain)

lemma scanFile_plain: "plainRefs refs \<Longrightarrow> plainRefs (scanFile content refs)"
  unfolding scanFile_def by (auto split: option.split intro!: fold_countRef_plain dest: scanned_plain)

lemma scanNode_plain:
  "plainRefs refs \<Longrightarrow> scanNode atRoot beside n refs = Inr refs' \<Longrightarrow> plainRefs refs'"
  "plainRefs refs \<Longrightarrow> scanNodes beside ns refs = Inr refs' \<Longrightarrow> plainRefs refs'"
  by (induction atRoot beside n refs and beside ns refs arbitrary: refs' and refs' rule: scanNode_scanNodes.induct)
    (auto split: if_splits sum.splits option.splits intro: scanFile_plain)

lemma externalBaseRefs_plain: "ref \<in> set (externalBaseRefs dockerfile) \<Longrightarrow> plainRef ref"
  by (auto simp: externalBaseRefs_def split: if_splits option.splits intro: scanned_plain [OF sym])


definition sample_tree :: walkNode where
  "sample_tree = WalkDir ''challenges'' None
     [WalkDir ''.git'' None [WalkFile ''Dockerfile'' (Inr ''FROM redis''), WalkFile ''problem.md'' (Inr '''')],
      WalkDir ''a'' None [WalkFile ''Dockerfile'' (Inr sample_dockerfile), WalkFile ''problem.md'' (Inr '''')],
      WalkDir ''b'' None [WalkFile ''Dockerfile'' (Inr ''FROM redis'')]]"


section \<open>Refreshing\<close>

text \<open>What a registry says a tag points at; a reply carries the digest as its id, and the repository digests of a local image as its names.\<close>

definition firstDigest :: "string \<Rightarrow> string list \<Rightarrow> string option" where
  "firstDigest name rds = map_option (\<lambda>rd. snd (the (cutAt (CHR ''@'') rd))) (List.find (\<lambda>rd. hasPrefix rd (name @ ''@'')) rds)"

definition resolveDigest :: "string \<Rightarrow> string mio" where
  "resolveDigest ref =
     bnd (dockerDo (DistributionInspect ref)) (\<lambda>r.
     if rErr r = None \<and> rId r \<noteq> '''' then ret (rId r)
     else
       bnd (dockerDo (ImageInspect LocalClient ref)) (\<lambda>l.
       let refuse = (\<lambda>e. fail (case rErr r of Some registryErr \<Rightarrow> registryErr | None \<Rightarrow> e)) in
       (case rErr l of
          Some localErr \<Rightarrow> refuse localErr
        | None \<Rightarrow>
            (case firstDigest (refName ref) (rNames l) of
               Some digest \<Rightarrow> ret digest
             | None \<Rightarrow> refuse [Msg ''no digest'']))))"

definition seedPins :: "pinMap \<Rightarrow> string list \<Rightarrow> pinMap" where
  "seedPins existing used =
     concat (map (\<lambda>ref. case lookupPin existing ref of None \<Rightarrow> [] | Some d \<Rightarrow> [(ref, d)]) used)"

definition basePinsRefreshBudget :: "duration \<Rightarrow> nat \<Rightarrow> duration" where
  "basePinsRefreshBudget perCall n =
     wrap64 (wrap64 (2 * perCall) + max (wrap64 (2 * perCall)) (go_div (wrap64 (int n * perCall)) 5))"

text \<open>
  The loop over the references in use; \<open>clock k\<close> is the time when \<open>k\<close> of them remain. The
  errors are only counted.
\<close>

fun refreshLoop :: "(nat \<Rightarrow> timestamp) \<Rightarrow> timestamp \<Rightarrow> duration \<Rightarrow> string list \<Rightarrow> pinMap \<Rightarrow> nat \<Rightarrow> (pinMap \<times> nat) mio" where
  "refreshLoop clock until reserve [] pins errs = ret (pins, errs)"
| "refreshLoop clock until reserve (ref # refs) pins errs =
     (if until - clock (length refs) < reserve then ret (pins, Suc errs)
      else
        bnd (tryIO (resolveDigest ref)) (\<lambda>r.
        (case r of
           Inl _ \<Rightarrow> refreshLoop clock until reserve refs pins (Suc errs)
         | Inr digest \<Rightarrow> refreshLoop clock until reserve refs (mapPut ref digest pins) errs)))"

definition writeBasePins :: "string \<Rightarrow> pinMap \<Rightarrow> unit mio" where
  "writeBasePins path pins =
     bnd (dockerDo (FileTemp (filepath_Dir path))) (\<lambda>t.
     (case rErr t of
        Some e \<Rightarrow> fail e
      | None \<Rightarrow>
          (let tmpName = path @ ''.tmp'' @ show_nat (nat (rNow t)) in
           bnd (dockerDo (PinsWrite tmpName pins)) (\<lambda>w.
           bnd (case rErr w of
                  Some e \<Rightarrow> ret (Some e)
                | None \<Rightarrow> bnd (dockerDo (FileRename tmpName path)) (\<lambda>r. ret (rErr r))) (\<lambda>failure.
           bnd (dockerDo (FileRemove tmpName)) (\<lambda>_.
           (case failure of Some e \<Rightarrow> fail e | None \<Rightarrow> ret ())))))))"

text \<open>
  \<open>scan\<close> is what walking the challenge directory finds (\<open>scanBaseRefs\<close>): the references in use with how often.
  The list answered is the pins with their uses; an error may come with it. Which pins are in force
  afterwards is the second part of the result.
\<close>

definition ListBasePins :: "(err + (string \<times> nat) list) \<Rightarrow> pinState option \<Rightarrow> (string \<times> string \<times> nat) list mio" where
  "ListBasePins scan state =
     bnd (gets externalBuildPlane) (\<lambda>external.
     if external then fail [ErrExternalBuildPlane]
     else
       (case state of
          None \<Rightarrow> ret []
        | Some st \<Rightarrow>
            (case scan of
               Inl e \<Rightarrow> fail e
             | Inr used \<Rightarrow>
                 ret (sortBy (\<lambda>a b. string_le (fst a) (fst b))
                   (map (\<lambda>(ref, digest). (ref, digest, case map_of used ref of None \<Rightarrow> 0 | Some n \<Rightarrow> n)) (bpPins st))))))"

definition RefreshBasePins ::
    "(nat \<Rightarrow> timestamp) \<Rightarrow> (err + (string \<times> nat) list) \<Rightarrow> (err + (string \<times> nat) list) \<Rightarrow> pinState option \<Rightarrow>
     (((string \<times> string \<times> nat) list \<times> err option) \<times> pinState option) mio" where
  "RefreshBasePins clock scan scanAfter state =
     bnd (gets (\<lambda>m. (externalBuildPlane m, controlTimeout (timing m)))) (\<lambda>(external, perCall).
     if external then ret (([], Some [ErrExternalBuildPlane]), state)
     else
       (case state of
          None \<Rightarrow> ret (([], Some [Msg ''base pinning is not configured'']), state)
        | Some st \<Rightarrow>
            (case scan of
               Inl e \<Rightarrow> ret (([], Some e), state)
             | Inr used \<Rightarrow>
                 (let refs = map fst used;
                      until = clock (Suc (length refs)) + basePinsRefreshBudget perCall (length refs) in
                  bnd (refreshLoop clock until (wrap64 (2 * perCall)) refs (seedPins (bpPins st) refs) 0) (\<lambda>(pins, errs).
                  if 0 < errs \<and> pins = [] then ret (([], Some [Msg ''could not resolve any base image'']), state)
                  else
                    bnd (tryIO (writeBasePins (bpPath st) pins)) (\<lambda>w.
                    (case w of
                       Inl e \<Rightarrow> ret (([], Some e), state)
                     | Inr _ \<Rightarrow>
                         bnd (tryIO (ListBasePins scanAfter (Some (st\<lparr>bpPins := pins\<rparr>)))) (\<lambda>out.
                         ret ((case out of
                                 Inl e \<Rightarrow> ([], Some e)
                               | Inr l \<Rightarrow> (l, if 0 < errs then Some [Msg ''some references could not be resolved''] else None)),
                              Some (st\<lparr>bpPins := pins\<rparr>))))))))))"

text \<open>A digest that was asked for and answered in the log: by the registry, or as that of a local image.\<close>

definition answered :: "string \<Rightarrow> string \<Rightarrow> callLog \<Rightarrow> bool" where
  "answered ref digest new \<longleftrightarrow>
     list_ex (\<lambda>cr. fst cr = DistributionInspect ref \<and> rErr (snd cr) = None \<and> rId (snd cr) = digest \<or>
                   fst cr = ImageInspect LocalClient ref \<and> rErr (snd cr) = None \<and> firstDigest (refName ref) (rNames (snd cr)) = Some digest) new"

lemma answered_append [simp]: "answered ref d (new @ new') \<longleftrightarrow> answered ref d new \<or> answered ref d new'"
  by (simp add: answered_def)

lemma resolveDigest_logs:
  "logs m (resolveDigest ref) (\<lambda>r new. length new \<le> 2 \<and> (\<forall>d. r = Inr d \<longrightarrow> answered ref d new))"
  unfolding resolveDigest_def Let_def
proof (rule logs_dockerDo_bnd, rule logs_cases(1), goal_cases)
  case (1 r m1)
  then show ?case by (intro logs_basic) (simp add: answered_def)
next
  case (2 r m1)
  show ?case
  proof (rule logs_dockerDo_bnd, rule logs_cases(2), goal_cases)
    case (1 l m2)
    show ?case
    proof (cases "firstDigest (refName ref) (rNames l)")
      case (Some d)
      then show ?thesis using 1 by (simp add: logs_basic answered_def)
    qed (simp add: logs_basic)
  qed (simp add: logs_basic)
qed

definition refreshed :: "string list \<Rightarrow> pinMap \<Rightarrow> pinMap \<Rightarrow> callLog \<Rightarrow> bool" where
  "refreshed refs pins pins' new \<longleftrightarrow> dom (map_of pins) \<subseteq> dom (map_of pins') \<and> fst ` set pins' \<subseteq> fst ` set pins \<union> set refs \<and>
     (\<forall>ref d. map_of pins' ref = Some d \<longrightarrow> map_of pins ref = Some d \<or> answered ref d new)"

lemma refreshed_step:
  assumes "refreshed refs (mapPut ref d pins) pins' new'" "answered ref d new"
  shows "refreshed (ref # refs) pins pins' (new @ new')"
proof -
  have "dom (map_of (mapPut ref d pins)) = insert ref (dom (map_of pins))" by auto
  moreover have "map_of pins r = Some x \<or> answered r x (new @ new')" if "map_of pins' r = Some x" for r x
  proof -
    have "map_of (mapPut ref d pins) r = Some x \<or> answered r x new'" using assms(1) that unfolding refreshed_def by blast
    then show ?thesis using assms(2) by (auto split: if_splits)
  qed
  moreover have "fst ` set (mapPut ref d pins) = insert ref (fst ` set pins)" by (rule fst_mapPut)
  ultimately show ?thesis using assms(1) unfolding refreshed_def by auto
qed

lemma refreshLoop_logs:
  "logs m (refreshLoop clock until reserve refs pins errs) (\<lambda>r new. \<exists>pins' errs'. r = Inr (pins', errs') \<and> refreshed refs pins pins' new)"
proof (induction refs arbitrary: m pins errs)
  case Nil
  show ?case unfolding refreshLoop.simps by (rule logs_basic) (simp add: refreshed_def)
next
  case (Cons ref refs)
  have weaker: "refreshed (ref # refs) pins pins' (new @ new')" if "refreshed refs pins pins' new'" for new new' pins'
    using that unfolding refreshed_def by auto
  show ?case
  proof (cases "until - clock (length refs) < reserve")
    case True
    then have stop: "refreshLoop clock until reserve (ref # refs) pins errs = ret (pins, Suc errs)" by simp
    show ?thesis unfolding stop by (rule logs_basic) (auto simp: refreshed_def)
  next
    case False
    have "logs m (bnd (tryIO (resolveDigest ref)) (\<lambda>r. case r of
           Inl _ \<Rightarrow> refreshLoop clock until reserve refs pins (Suc errs)
         | Inr digest \<Rightarrow> refreshLoop clock until reserve refs (mapPut ref digest pins) errs))
       (\<lambda>r new. \<exists>pins' errs'. r = Inr (pins', errs') \<and> refreshed (ref # refs) pins pins' new)"
    proof (rule logs_seq [OF logs_tryIO [OF logs_mono [OF resolveDigest_logs]], where Q = "\<lambda>r new. \<exists>a. r = Inr a \<and> (\<forall>d. a = Inr d \<longrightarrow> answered ref d new)"], goal_cases)
      case (3 x new m1)
      show ?case
      proof (cases x)
        case (Inl e)
        then show ?thesis by simp (rule logs_mono [OF Cons.IH], use weaker in blast)
      next
        case (Inr d)
        then have "answered ref d new" using 3 by auto
        then show ?thesis using Inr by simp (rule logs_mono [OF Cons.IH], use refreshed_step in blast)
      qed
    qed auto
    then show ?thesis using False by simp
  qed
qed

lemma map_of_seedPins: "map_of (seedPins existing refs) ref = (if ref \<in> set refs then lookupPin existing ref else None)"
  by (induction refs) (auto simp: seedPins_def split: option.splits)

lemma fst_seedPins: "fst ` set (seedPins existing refs) \<subseteq> set refs"
  by (auto simp: seedPins_def split: option.splits)

definition written :: "string \<Rightarrow> pinMap \<Rightarrow> callLog \<Rightarrow> bool" where
  "written path pins new \<longleftrightarrow>
     (\<exists>tmp w r. (PinsWrite tmp pins, w) \<in> set new \<and> rErr w = None \<and> (FileRename tmp path, r) \<in> set new \<and> rErr r = None)"

lemma written_append: "written path pins new \<Longrightarrow> written path pins (before @ new)"
  by (auto simp: written_def)

lemma refreshed_append: "refreshed refs pins pins' new \<Longrightarrow> refreshed refs pins pins' (new @ after)"
  by (auto simp: refreshed_def)

lemma writeBasePins_logs: "logs m (writeBasePins path pins) (\<lambda>r new. r = Inr () \<longrightarrow> written path pins new)"
  unfolding writeBasePins_def Let_def
proof (rule logs_dockerDo_bnd, rule logs_cases(2), goal_cases)
  case (1 t m1)
  let ?tmp = "path @ ''.tmp'' @ show_nat (nat (rNow t))"
  show ?case
  proof (rule logs_dockerDo_bnd, goal_cases)
    case (1 w m2)
    let ?rename = "case rErr w of Some e \<Rightarrow> ret (Some e) | None \<Rightarrow> bnd (dockerDo (FileRename ?tmp path)) (\<lambda>r. ret (rErr r))"
    have renamed: "logs m2 ?rename (\<lambda>r new. \<exists>failure. r = Inr failure \<and> (failure = None \<longrightarrow> rErr w = None \<and> (\<exists>r'. (FileRename ?tmp path, r') \<in> set new \<and> rErr r' = None)))"
      by (cases "rErr w") (auto intro!: logs_dockerDo_bnd logs_basic)
    show ?case
    proof (rule logs_seq [OF renamed], simp, goal_cases)
      case (1 failure new m3)
      then show ?case by (cases failure) (auto intro!: logs_dockerDo_bnd logs_basic simp: written_def)
    qed
  qed
qed (simp add: logs_basic)

text \<open>
  C22. A refresh never loses a pin that is in use. Whatever the registry answers, when it comes back
  with pins in force that are not the ones before, every reference some Dockerfile uses that had a
  pin still has one: the digest it had, or one answered for it during this pass. Every other pin
  was answered during this pass, pins of references nothing uses are gone, and the new pins had
  been written to the file before.
\<close>

theorem RefreshBasePins_keeps_pins:
  assumes "RefreshBasePins clock scan scanAfter (Some st) m = (Inr ((out, failure), Some st'), m')" "bpPins st' \<noteq> bpPins st"
  shows "\<exists>used new. scan = Inr used \<and> calls m' = calls m @ new \<and> db m' = db m \<and>
    fst ` set (bpPins st') \<subseteq> fst ` set used \<and>
    (\<forall>ref\<in>fst ` set used. \<forall>d. lookupPin (bpPins st) ref = Some d \<longrightarrow> (\<exists>d'. map_of (bpPins st') ref = Some d' \<and> (d' = d \<or> answered ref d' new))) \<and>
    (\<forall>ref d. map_of (bpPins st') ref = Some d \<longrightarrow> lookupPin (bpPins st) ref = Some d \<or> answered ref d new) \<and>
    (\<exists>tmp w r. (PinsWrite tmp (bpPins st'), w) \<in> set new \<and> rErr w = None \<and> (FileRename tmp (bpPath st), r) \<in> set new \<and> rErr r = None)"
proof -
  define settled where "settled = (\<lambda>(r :: err + ((string \<times> string \<times> nat) list \<times> err option) \<times> pinState option) new.
    \<forall>x st'. r = Inr (x, Some st') \<and> bpPins st' \<noteq> bpPins st \<longrightarrow>
      (\<exists>used. scan = Inr used \<and> refreshed (map fst used) (seedPins (bpPins st) (map fst used)) (bpPins st') new \<and>
         written (bpPath st) (bpPins st') new))"
  have quiet: "settled (Inr (x, Some st)) new" "settled (Inl e) new" for x e new by (simp_all add: settled_def)
  have "logs m (RefreshBasePins clock scan scanAfter (Some st)) settled"
  proof (cases scan)
    case (Inl e)
    then show ?thesis unfolding RefreshBasePins_def by (auto intro!: logs_intros quiet)
  next
    case (Inr used)
    show ?thesis unfolding RefreshBasePins_def Inr option.case sum.case Let_def
    proof (rule logs_gets_bnd, simp only: prod.case, rule logs_cases(1), goal_cases)
      case 2
      show ?case
      proof (rule logs_seq [OF refreshLoop_logs], simp, goal_cases)
        case (1 x new m1)
        then obtain pins errs where x: "x = (pins, errs)" and pins: "refreshed (map fst used) (seedPins (bpPins st) (map fst used)) pins new" by auto
        have fin: "settled (Inr (y, Some (st\<lparr>bpPins := pins\<rparr>))) (new @ new')" if "written (bpPath st) pins new'" for y new'
          using Inr refreshed_append [OF pins] written_append [OF that] by (auto simp: settled_def)
        have stored: "logs m1 (tryIO (writeBasePins (bpPath st) pins)) (\<lambda>r new'. \<exists>w. r = Inr w \<and> (w = Inr () \<longrightarrow> written (bpPath st) pins new'))"
          by (rule logs_tryIO, rule logs_mono [OF writeBasePins_logs]) auto
        have listing: "logs m2 (tryIO (ListBasePins scanAfter z)) (\<lambda>r new'. (\<exists>l. r = Inr l) \<and> new' = [])" for m2 z
          by (rule logs_tryIO, rule logs_reads) (auto intro!: reads_intros simp: ListBasePins_def split: sum.split)
        show ?case unfolding x prod.case
        proof (rule logs_cases(1), goal_cases)
          case 2
          show ?case
          proof (rule logs_seq [OF stored], simp, goal_cases)
            case (1 w new' m2)
            show ?case
            proof (cases w)
              case (Inr u)
              then have "written (bpPath st) pins new'" using 1 by auto
              then show ?thesis unfolding Inr sum.case by (intro logs_seq [OF listing]) (auto intro!: logs_basic fin)
            qed (auto intro!: logs_basic quiet)
          qed
        qed (auto intro!: logs_basic quiet)
      qed
    qed (auto intro!: logs_basic quiet)
  qed
  from logsE [OF this assms(1)] obtain new where new: "calls m' = calls m @ new" "steady m m'" "settled (Inr ((out, failure), Some st')) new" by blast
  then obtain used where used: "scan = Inr used" "refreshed (map fst used) (seedPins (bpPins st) (map fst used)) (bpPins st') new"
    "written (bpPath st) (bpPins st') new" using assms(2) unfolding settled_def by blast
  have "\<exists>d'. map_of (bpPins st') ref = Some d' \<and> (d' = d \<or> answered ref d' new)"
    if "ref \<in> fst ` set used" "lookupPin (bpPins st) ref = Some d" for ref d
  proof -
    have seed: "map_of (seedPins (bpPins st) (map fst used)) ref = Some d" using that by (simp add: map_of_seedPins)
    then obtain d' where "map_of (bpPins st') ref = Some d'" using used(2) unfolding refreshed_def by (metis domD domI subsetD)
    then show ?thesis using used(2) seed unfolding refreshed_def by (metis option.inject)
  qed
  moreover have "fst ` set (bpPins st') \<subseteq> fst ` set used" using used(2) fst_seedPins [of "bpPins st" "map fst used"] unfolding refreshed_def set_map by blast
  moreover have "lookupPin (bpPins st) ref = Some d \<or> answered ref d new" if "map_of (bpPins st') ref = Some d" for ref d
  proof -
    have "map_of (seedPins (bpPins st) (map fst used)) ref = Some d \<or> answered ref d new" using used(2) that unfolding refreshed_def by blast
    then show ?thesis unfolding map_of_seedPins by (metis option.distinct(1))
  qed
  moreover have "db m' = db m" using new(2) by (simp add: steady_settings)
  ultimately show ?thesis using used(1) used(3) [unfolded written_def] new(1) by (intro exI [of _ used] exI [of _ new]) blast
qed

text \<open>One reference that nobody can resolve and has a pin, and one that is new.\<close>

definition refresh_manager :: manager where
  "refresh_manager = freshManager\<lparr>replies :=
     [okReply\<lparr>rErr := Some [ConnectionFailed]\<rparr>, okReply\<lparr>rErr := Some [NotFound]\<rparr>, okReply\<lparr>rId := ''sha256:bb''\<rparr>]\<rparr>"

definition refresh_run :: "(err + ((string \<times> string \<times> nat) list \<times> err option) \<times> pinState option) \<times> manager" where
  "refresh_run = RefreshBasePins (\<lambda>_. 0) (Inr [(''ubuntu:24.04'', 1), (''nginx'', 2)]) (Inr [(''ubuntu:24.04'', 1), (''nginx'', 2)])
     (Some \<lparr>bpPath = ''/pins.json'', bpPins = [(''ubuntu:24.04'', ''sha256:aa'')]\<rparr>) refresh_manager"

lemma refresh_run_result:
  "fst refresh_run = Inr (([(''nginx'', ''sha256:bb'', 2), (''ubuntu:24.04'', ''sha256:aa'', 1)], Some [Msg ''some references could not be resolved'']),
     Some \<lparr>bpPath = ''/pins.json'', bpPins = [(''ubuntu:24.04'', ''sha256:aa''), (''nginx'', ''sha256:bb'')]\<rparr>)"
  by code_simp

theorem RefreshBasePins_keeps_pins_witness:
  "answered ''nginx'' ''sha256:bb'' (calls (snd refresh_run)) \<and>
     (\<exists>tmp w. (PinsWrite tmp [(''ubuntu:24.04'', ''sha256:aa''), (''nginx'', ''sha256:bb'')], w) \<in> set (calls (snd refresh_run)))"
proof -
  let ?old = "[(''ubuntu:24.04'', ''sha256:aa'')]" and ?new = "[(''ubuntu:24.04'', ''sha256:aa''), (''nginx'', ''sha256:bb'')]"
  obtain m' where run: "refresh_run = (Inr (([(''nginx'', ''sha256:bb'', 2), (''ubuntu:24.04'', ''sha256:aa'', 1)],
      Some [Msg ''some references could not be resolved'']), Some \<lparr>bpPath = ''/pins.json'', bpPins = ?new\<rparr>), m')"
    using refresh_run_result by (metis prod.collapse)
  have old: "lookupPin ?old ''nginx'' = None" "map_of ?new ''nginx'' = Some ''sha256:bb''" by code_simp+
  have fresh: "calls refresh_manager = []" by (simp add: refresh_manager_def freshManager_def)
  have differ: "bpPins \<lparr>bpPath = ''/pins.json'', bpPins = ?new\<rparr> \<noteq> bpPins \<lparr>bpPath = ''/pins.json'', bpPins = ?old\<rparr>" by simp
  from RefreshBasePins_keeps_pins [OF run [unfolded refresh_run_def] differ, unfolded pinState.simps fresh append_Nil] obtain new where
    new: "calls m' = new" "\<forall>ref d. map_of ?new ref = Some d \<longrightarrow> lookupPin ?old ref = Some d \<or> answered ref d new"
      "\<exists>tmp w r. (PinsWrite tmp ?new, w) \<in> set new \<and> rErr w = None \<and> (FileRename tmp ''/pins.json'', r) \<in> set new \<and> rErr r = None"
    by blast
  have "answered ''nginx'' ''sha256:bb'' new" using new(2) [rule_format, OF old(2)] unfolding old(1) by blast
  then show ?thesis unfolding run snd_conv new(1) using new(3) by blast
qed

end
