(* ===== verification/Challenge_Loader.thy ===== *)
theory Challenge_Loader
  imports Base_Pins "HOL-Library.Monad_Syntax"
begin

text \<open>
  Loading a challenge (\<open>src/cork/loader.go\<close>, the scan in \<open>src/cork/filesystem.go\<close>): its
  hosts and ports from the Dockerfile, the normalisation of its texts, the checks on its options,
  and the inventory of a directory. What \<open>problem.md\<close> says is an argument, as are the parsers
  of rationals, sizes, ulimits and seccomp profiles. Text is a list of bytes of valid UTF-8.
\<close>

section \<open>Hosts and ports of a Dockerfile\<close>

definition blanks :: "string \<Rightarrow> string" where
  "blanks = dropWhile (\<lambda>c. c = CHR '' '')"

definition blanks1 :: "string \<Rightarrow> string option" where
  "blanks1 s = (if blanks s = s then None else Some (blanks s))"

lemma blanks_shorter: "blanks s \<noteq> s \<Longrightarrow> length (blanks s) < length s"
  by (cases s) (auto simp: blanks_def length_dropWhile_le less_Suc_eq_le split: if_splits)

definition word1 :: "(char \<Rightarrow> bool) \<Rightarrow> string \<Rightarrow> (string \<times> string) option" where
  "word1 P s = (if takeWhile P s = [] then None else Some (takeWhile P s, dropWhile P s))"

text \<open>\<open>FROM +\S+(?: +[aA][sS] +(\w+))?\<close>\<close>

definition asTarget :: "string \<Rightarrow> (string \<times> string) option" where
  "asTarget s = do {
     r \<leftarrow> blanks1 s;
     if map lowerChar (take 2 r) = ''as'' then do { r1 \<leftarrow> blanks1 (drop 2 r); word1 is_word_char r1 } else None
   }"

definition matchTarget :: "string \<Rightarrow> (string option \<times> string) option" where
  "matchTarget s = do {
     r \<leftarrow> cutPrefix s ''FROM'';
     r1 \<leftarrow> blanks1 r;
     (image, r2) \<leftarrow> word1 nonspace r1;
     (case asTarget r2 of Some (name, r3) \<Rightarrow> Some (Some name, r3) | None \<Rightarrow> Some (None, r2))
   }"

text \<open>\<open># *PUBLISH +(\d+) +AS +(\w+)\s*\<close>\<close>

definition matchPublish :: "string \<Rightarrow> ((string \<times> string) \<times> string) option" where
  "matchPublish s = do {
     r \<leftarrow> cutPrefix s ''#'';
     r1 \<leftarrow> cutPrefix (blanks r) ''PUBLISH'';
     r2 \<leftarrow> blanks1 r1;
     (port, r3) \<leftarrow> word1 is_digit r2;
     r4 \<leftarrow> blanks1 r3;
     r5 \<leftarrow> cutPrefix r4 ''AS'';
     r6 \<leftarrow> blanks1 r5;
     (name, r7) \<leftarrow> word1 is_word_char r6;
     Some ((port, name), dropWhile is_space r7)
   }"

text \<open>\<open># *LAUNCH +(\w+(?: +\w+)*)\<close>, with the words found in the group.\<close>

function moreWords :: "string \<Rightarrow> string list" where
  "moreWords s =
     (let r = blanks s; w = takeWhile is_word_char r in
      if r = s \<or> w = [] then [] else w # moreWords (dropWhile is_word_char r))"
  by pat_completeness auto
termination
proof (relation "measure length", goal_cases)
  case (2 s r w)
  then have "length r < length s" using blanks_shorter by simp
  then show ?case using length_dropWhile_le [of is_word_char r] by simp
qed simp

declare moreWords.simps [simp del]

definition matchLaunch :: "string \<Rightarrow> (string list \<times> string) option" where
  "matchLaunch s = do {
     r \<leftarrow> cutPrefix s ''#'';
     r1 \<leftarrow> cutPrefix (blanks r) ''LAUNCH'';
     r2 \<leftarrow> blanks1 r1;
     (w, r3) \<leftarrow> word1 is_word_char r2;
     Some (w # moreWords r3, r3)
   }"

text \<open>Every match of a pattern, leftmost first, with where it starts.\<close>

function scanMatches :: "(string \<Rightarrow> ('a \<times> string) option) \<Rightarrow> nat \<Rightarrow> string \<Rightarrow> (nat \<times> 'a) list" where
  "scanMatches m pos [] = []"
| "scanMatches m pos (c # cs) =
     (case m (c # cs) of
        Some (x, r) \<Rightarrow>
          if length r < length (c # cs) then (pos, x) # scanMatches m (pos + (length (c # cs) - length r)) r
          else scanMatches m (Suc pos) cs
      | None \<Rightarrow> scanMatches m (Suc pos) cs)"
  by pat_completeness auto
termination
  by (relation "measure (\<lambda>(_, _, s). length s)") auto

text \<open>The stages as hosts: name and target.\<close>

definition stageHosts :: "(nat \<times> string option) list \<Rightarrow> (string \<times> string) list" where
  "stageHosts stages =
     map (\<lambda>(i, pos, target).
        (case target of
           Some t \<Rightarrow> (t, t)
         | None \<Rightarrow> (if i + 1 = length stages then ''challenge'' else '''', '''')))
       (zip [0..<length stages] stages)"

text \<open>\<open>None\<close>: one of the names is no stage.\<close>

fun pickLaunches :: "(string \<times> string) list \<Rightarrow> string list \<Rightarrow> (string \<times> string) list option" where
  "pickLaunches hosts [] = Some []"
| "pickLaunches hosts (name # names) = do {
     host \<leftarrow> List.find (\<lambda>h. fst h = name) hosts;
     later \<leftarrow> pickLaunches hosts names;
     Some (host # later)
   }"

text \<open>The stage a position is in: the host now, and the stages after it.\<close>

fun advanceTo :: "nat \<Rightarrow> (string \<times> string) \<times> (nat \<times> (string \<times> string)) list \<Rightarrow> (string \<times> string) \<times> (nat \<times> (string \<times> string)) list" where
  "advanceTo p (host, []) = (host, [])"
| "advanceTo p (host, (start, host') # rest) = (if start < p then advanceTo p (host', rest) else (host, (start, host') # rest))"

fun publishPorts ::
    "(string \<times> string) list \<Rightarrow> (string \<times> string) \<times> (nat \<times> (string \<times> string)) list \<Rightarrow> (nat \<times> string \<times> string) list \<Rightarrow>
     (string \<times> string \<times> int) list \<Rightarrow> err + (string \<times> string \<times> int) list" where
  "publishPorts hosts here [] portMap = Inr portMap"
| "publishPorts hosts here ((pos, digits, portName) # later) portMap =
     (let here' = advanceTo pos here; host = fst here' in
      (case atoi digits of
         None \<Rightarrow> Inl [Msg ''could not convert Dockerfile port to int'']
       | Some port \<Rightarrow>
           if fst host = '''' then Inl [Msg ''published port uses a stage with no reference name'']
           else if fst host = ''builder'' then Inl [Msg ''published port is from the builder host'']
           else if \<not> list_ex (\<lambda>h. h = host) hosts then Inl [Msg ''published port is on a host which is not marked for launching'']
           else publishPorts hosts here' later (mapPut portName (fst host, port) portMap)))"

record loaderEnv =
  leBuiltin :: "string \<Rightarrow> string option" \<comment> \<open>the Dockerfile of a built-in type\<close>
  leCustom :: "(err + string) option" \<comment> \<open>the challenge's own Dockerfile, if it has one\<close>
  leParsers :: configParsers
  leUlimitName :: "string \<Rightarrow> string option"
  leDecode :: "string \<Rightarrow> seccompProfile option"
  leSha256 :: "string \<Rightarrow> string"
  leProfiles :: "string \<Rightarrow> profileFile"
  leSolver :: bool \<comment> \<open>there is a directory named solver\<close>

definition dockerfileOf :: "loaderEnv \<Rightarrow> string \<Rightarrow> err + string" where
  "dockerfileOf env chalType =
     (if chalType = '''' then Inl [Msg ''missing the challenge type'']
      else if chalType = ''custom'' then
        (case leCustom env of
           None \<Rightarrow> Inl [Msg ''custom challenge type is missing Dockerfile'']
         | Some (Inl e) \<Rightarrow> Inl e
         | Some (Inr content) \<Rightarrow> if content = [] then Inl [Msg ''could not find valid Dockerfile''] else Inr content)
      else if leCustom env \<noteq> None then Inl [Msg ''Dockerfile forbidden except for custom challenge type'']
      else
        (case leBuiltin env chalType of
           None \<Rightarrow> Inl [Msg ''unrecognized type'']
         | Some content \<Rightarrow> if content = [] then Inl [Msg ''could not find valid Dockerfile''] else Inr content))"

definition launchHosts :: "string \<Rightarrow> (string \<times> string) list \<Rightarrow> (string \<times> string) list option" where
  "launchHosts dockerfile hosts =
     map_option (\<lambda>launched. if list_ex (\<lambda>h. snd h = ''builder'') hosts then (''builder'', ''builder'') # launched else launched)
       (case scanMatches matchLaunch 0 dockerfile of
          [] \<Rightarrow> Some [last hosts]
        | (pos, names) # _ \<Rightarrow> pickLaunches hosts names)"

definition processDockerfile :: "loaderEnv \<Rightarrow> challengeMeta \<Rightarrow> err + challengeMeta" where
  "processDockerfile env md =
     (case dockerfileOf env (cType md) of
        Inl e \<Rightarrow> Inl e
      | Inr dockerfile \<Rightarrow>
          (let stages = scanMatches matchTarget 0 dockerfile; hosts = stageHosts stages in
           if stages = [] then Inl [Msg ''could not find FROM line in Dockerfile'']
           else
             (case launchHosts dockerfile hosts of
                None \<Rightarrow> Inl [Msg ''cannot launch what is not a Docker target'']
              | Some launched \<Rightarrow>
                  (case publishPorts hosts (hd hosts, zip (map fst (tl stages)) (tl hosts)) (scanMatches matchPublish 0 dockerfile) (hPortMap md) of
                     Inl e \<Rightarrow> Inl e
                   | Inr portMap \<Rightarrow>
                       if list_all (\<lambda>(host, opts). host = '''' \<or> list_ex (\<lambda>h. fst h = host) hosts) (cOverrides md)
                       then Inr (md\<lparr>cHosts := launched, hPortMap := portMap, hDelivery := deriveDeliveryType (cType md) (length portMap)\<rparr>)
                       else Inl [Msg ''container options are specified for a host which is not present in Dockerfile'']))))"

section \<open>Texts\<close>

definition anyCall :: "string \<Rightarrow> atom list" where
  "anyCall name = call_re name [Quote, Run is_word_char, Quote]"

definition bareCall :: "string \<Rightarrow> atom list" where
  "bareCall name = [Lit ''{{'', Spaces, Lit name, Spaces, Lit ''}}'']"

definition templateRe :: "atom list" where
  "templateRe = [Lit ''{{'', RunOpt (\<lambda>c. c \<noteq> CHR ''}''), Lit ''}}'']"

definition urlForRe :: "atom list" where
  "urlForRe = call_re ''url_for'' [Quote, Run is_filename_char, Quote, Lit '','', Spaces, Quote, Run is_display_char, Quote]"

definition shortUrlForRe :: "atom list" where
  "shortUrlForRe = call_re ''url_for'' [Quote, Run is_filename_char, Quote]"

definition httpBaseRe :: "atom list" where "httpBaseRe = anyCall ''http_base''"
definition shortHttpBaseRe :: "atom list" where "shortHttpBaseRe = bareCall ''http_base''"
definition portRe :: "atom list" where "portRe = anyCall ''port''"
definition shortPortRe :: "atom list" where "shortPortRe = bareCall ''port''"
definition serverRe :: "atom list" where "serverRe = anyCall ''server''"
definition shortServerRe :: "atom list" where "shortServerRe = bareCall ''server''"

definition linkRe :: "atom list" where
  "linkRe = call_re ''link'' [Quote, Run is_word_char, Quote, Lit '','', Spaces, Quote, Slash, RunOpt is_url_char, Quote]"

definition shortLinkRe :: "atom list" where
  "shortLinkRe = call_re ''link'' [Quote, Slash, RunOpt is_url_char, Quote]"

definition linkAsRe :: "atom list" where
  "linkAsRe = [Lit ''{{'', Spaces, Lit ''link_as('', Quote, Run is_word_char, Quote, Lit '','', Spaces, Quote, Slash, RunOpt is_url_char, Quote,
     Lit '','', Spaces, Quote, Run is_display_char, Quote, Spaces, Lit '')}}'']"

definition shortLinkAsRe :: "atom list" where
  "shortLinkAsRe = [Lit ''{{'', Spaces, Lit ''link_as('', Quote, Slash, RunOpt is_url_char, Quote,
     Lit '','', Spaces, Quote, Run is_display_char, Quote, Spaces, Lit '')}}'']"

definition replaceAll :: "atom list \<Rightarrow> (string list \<Rightarrow> string) \<Rightarrow> string \<Rightarrow> string" where
  "replaceAll p f s = (case findFrom p [] s of (ms, rest) \<Rightarrow> concat (map (\<lambda>(gap, caps). gap @ f caps) ms) @ rest)"

definition quoted :: "string \<Rightarrow> string" where
  "quoted s = [CHR 0x22] @ s @ [CHR 0x22]"

definition expandShort :: "string \<Rightarrow> string \<Rightarrow> string" where
  "expandShort portName s =
     replaceAll shortLinkAsRe (\<lambda>caps. ''{{link_as('' @ quoted portName @ '', '' @ quoted (caps ! 0) @ '', '' @ quoted (caps ! 1) @ '')}}'')
      (replaceAll shortLinkRe (\<lambda>caps. ''{{link('' @ quoted portName @ '', '' @ quoted (caps ! 0) @ '')}}'')
      (replaceAll shortServerRe (\<lambda>caps. ''{{server('' @ quoted portName @ '')}}'')
      (replaceAll shortPortRe (\<lambda>caps. ''{{port('' @ quoted portName @ '')}}'')
      (replaceAll shortHttpBaseRe (\<lambda>caps. ''{{http_base('' @ quoted portName @ '')}}'') s))))"

definition apos :: string where "apos = [CHR 0x27]"

definition expandLinks :: "string \<Rightarrow> string" where
  "expandLinks s =
     replaceAll linkAsRe (\<lambda>caps. ''<a href='' @ apos @ ''{{http_base('' @ quoted (caps ! 0) @ '')}}:{{port('' @ quoted (caps ! 0) @ '')}}/'' @ caps ! 1 @
         apos @ '' target='' @ apos @ ''_blank'' @ apos @ ''>'' @ caps ! 2 @ ''</a>'')
      (replaceAll linkRe (\<lambda>caps. ''<a href='' @ apos @ ''{{http_base('' @ quoted (caps ! 0) @ '')}}:{{port('' @ quoted (caps ! 0) @ '')}}/'' @ caps ! 1 @
         apos @ '' target='' @ apos @ ''_blank'' @ apos @ ''>/'' @ caps ! 1 @ ''</a>'')
      (replaceAll urlForRe (\<lambda>caps. ''<a href='' @ apos @ ''{{url('' @ quoted (caps ! 0) @ '')}}'' @ apos @ '' download>'' @ caps ! 1 @ ''</a>'') s))"

definition shortForms :: "atom list list" where
  "shortForms = [shortUrlForRe, shortHttpBaseRe, shortPortRe, shortServerRe, shortLinkRe, shortLinkAsRe]"

definition firstCapture :: "atom list \<Rightarrow> string \<Rightarrow> string option" where
  "firstCapture p s = (case findAll p s of [] \<Rightarrow> None | caps # _ \<Rightarrow> Some (hd caps))"

type_synonym portRefs = "(string \<times> bool) list"

definition checkTemplate :: "(string \<times> string \<times> int) list \<Rightarrow> string \<Rightarrow> err option \<times> portRefs \<Rightarrow> err option \<times> portRefs" where
  "checkTemplate portMap tmpl = (\<lambda>(e, refPort).
     if findAll urlRe tmpl \<noteq> [] \<or> findAll lookupRe tmpl \<noteq> [] then (e, refPort)
     else
       (let http = firstCapture httpBaseRe tmpl; port = firstCapture portRe tmpl;
            res = (if http \<noteq> None then http else if port \<noteq> None then port else firstCapture serverRe tmpl) in
        (case res of
           None \<Rightarrow> (Some [Msg ''unrecognized template string''], refPort)
         | Some name \<Rightarrow>
             if portMap = [] then (Some [Msg ''unrecognized template string''], refPort)
             else if map_of portMap name = None then (Some [Msg ''unrecognized port in template''], refPort)
             else (e, if http = None \<and> port \<noteq> None then mapPut name True refPort else refPort))))"

definition templatesOf :: "string \<Rightarrow> string list" where
  "templatesOf s = map (\<lambda>caps. ''{{'' @ hd caps @ ''}}'') (findAll templateRe s)"

definition normalizeText :: "(string \<times> string \<times> int) list \<Rightarrow> string \<Rightarrow> string" where
  "normalizeText portMap s =
     (let s1 = replaceAll shortUrlForRe (\<lambda>caps. ''{{url_for('' @ quoted (caps ! 0) @ '', '' @ quoted (caps ! 0) @ '')}}'') s
      in expandLinks (if length portMap = 1 then expandShort (fst (hd portMap)) s1 else s1))"

definition normalizeAndCheckTemplated :: "(string \<times> string \<times> int) list \<Rightarrow> string \<Rightarrow> portRefs \<Rightarrow> string \<times> err option \<times> portRefs" where
  "normalizeAndCheckTemplated portMap s refPort =
     (let s1 = replaceAll shortUrlForRe (\<lambda>caps. ''{{url_for('' @ quoted (caps ! 0) @ '', '' @ quoted (caps ! 0) @ '')}}'') s;
          e = (if length portMap \<noteq> 1 \<and> list_ex (\<lambda>p. findAll p s1 \<noteq> []) shortForms then Some [Msg ''cannot use a short form''] else None);
          s2 = normalizeText portMap s
      in (s2, fold (checkTemplate portMap) (templatesOf s2) (e, refPort)))"

section \<open>Options\<close>

definition droppableCapabilities :: "string list" where
  "droppableCapabilities =
     map (\<lambda>name. ''CAP_'' @ name)
       [''ALL'', ''AUDIT_WRITE'', ''CHOWN'', ''DAC_OVERRIDE'', ''FOWNER'', ''FSETID'', ''KILL'', ''MKNOD'', ''NET_BIND_SERVICE'', ''NET_RAW'',
        ''SETFCAP'', ''SETGID'', ''SETPCAP'', ''SETUID'', ''SYS_CHROOT'']"

text \<open>\<open>units.ParseUlimit\<close> returns a nil pointer with its error, and the name is read all the same.\<close>

fun ulimitProblems :: "(string \<Rightarrow> string option) \<Rightarrow> string list \<Rightarrow> err + err list" where
  "ulimitProblems ulimitName [] = Inr []"
| "ulimitProblems ulimitName (u # us) =
     (case ulimitName u of
        None \<Rightarrow> Inl [GoPanic ''nil pointer dereference'']
      | Some name \<Rightarrow> map_sum id (\<lambda>ps. (if name = ''nproc'' then [[Msg ''nproc ulimits are not supported'']] else []) @ ps) (ulimitProblems ulimitName us))"

definition seccompProblems :: "loaderEnv \<Rightarrow> ContainerOptions \<Rightarrow> err list \<times> ContainerOptions" where
  "seccompProblems env co =
     (case coSeccomp co of
        None \<Rightarrow> ([], co)
      | Some so \<Rightarrow>
          (case resolve (leDecode env) (leSha256 env) (leProfiles env) so of
             (e, so') \<Rightarrow> (if e = None then [] else [[Msg ''seccomp'']], co\<lparr>coSeccomp := Some so'\<rparr>)))"

definition optionProblems :: "loaderEnv \<Rightarrow> ContainerOptions \<Rightarrow> err + err list \<times> ContainerOptions" where
  "optionProblems env co =
     (case seccompProblems env co of (seccomp, co') \<Rightarrow>
        map_sum id (\<lambda>ulimits.
          (seccomp @
           (if coCpus co \<noteq> '''' \<and> isl (parseNanoCPUs (ratSetString (leParsers env)) (coCpus co)) then [[Msg ''cpus'']] else []) @
           (if coMemory co \<noteq> '''' \<and> ramInBytes (leParsers env) (coMemory co) = None then [[Msg ''memory'']] else []) @
           ulimits @
           (if coPidsLimit co < -1 then [[Msg ''pidslimit'']] else []) @
           map (\<lambda>name. [Msg ''DroppedCaps'']) (filter (\<lambda>name. name \<notin> set droppableCapabilities \<and> ''CAP_'' @ name \<notin> set droppableCapabilities) (coDroppedCaps co)) @
           (if coDiskQuota co \<noteq> '''' \<and> ramInBytes (leParsers env) (coDiskQuota co) = None then [[Msg ''DiskQuota'']] else []),
           co'))
          (ulimitProblems (leUlimitName env) (coUlimits co)))"

fun checkOptions :: "loaderEnv \<Rightarrow> (string \<times> ContainerOptions) list \<Rightarrow> err + err list \<times> (string \<times> ContainerOptions) list" where
  "checkOptions env [] = Inr ([], [])"
| "checkOptions env ((host, co) # opts) =
     (case optionProblems env co of
        Inl e \<Rightarrow> Inl e
      | Inr (ps, co') \<Rightarrow> map_sum id (\<lambda>(ps', opts'). (ps @ ps', (host, co') # opts')) (checkOptions env opts))"

section \<open>The metadata\<close>

definition validNamespace :: "string \<Rightarrow> bool" where
  "validNamespace ns = (ns = '''' \<or> list_all (\<lambda>p. p \<noteq> '''' \<and> list_all is_lower_alnum p) (splitOn (CHR ''/'') ns))"

definition connectionForms :: "atom list list" where
  "connectionForms = [httpBaseRe, shortHttpBaseRe, portRe, shortPortRe, serverRe, shortServerRe, linkRe, shortLinkRe]"

fun normalizeAll :: "(string \<times> string \<times> int) list \<Rightarrow> string list \<Rightarrow> portRefs \<Rightarrow> string list \<times> err list \<times> portRefs" where
  "normalizeAll portMap [] refPort = ([], [], refPort)"
| "normalizeAll portMap (s # ss) refPort =
     (case normalizeAndCheckTemplated portMap s refPort of (s', e, refPort') \<Rightarrow>
        (case normalizeAll portMap ss refPort' of (ss', es, refPort'') \<Rightarrow>
           (s' # ss', (case e of None \<Rightarrow> es | Some e' \<Rightarrow> e' # es), refPort'')))"

text \<open>
  The problems in the order they are noted, of which the last is returned; \<open>Inl\<close> is a panic.
\<close>

definition validateMetadata :: "loaderEnv \<Rightarrow> challengeMeta \<Rightarrow> err + challengeMeta \<times> err option" where
  "validateMetadata env md =
     (let start = (if cName md = '''' then [[Msg ''missing name'']] else []) @
            (if validNamespace (cNamespace md) then [] else [[Msg ''invalid namespace'']]) @
            map (\<lambda>_. [Msg ''template strings not allowed in the description'']) (filter (\<lambda>p. findAll p (cDescription md) \<noteq> []) connectionForms);
          (texts, es, refPort) = normalizeAll (hPortMap md) (cDescription md # cDetails md # cHints md) (map (\<lambda>(k, _). (k, False)) (hPortMap md));
          unused = map (\<lambda>_. [Msg ''port published but not referenced'']) (filter (\<lambda>(k, used). \<not> used) refPort)
      in map_sum id (\<lambda>(ps, opts).
           (let all = start @ es @ unused @ ps in
            (md\<lparr>cDescription := texts ! 0, cDetails := texts ! 1, cHints := drop 2 texts, cOverrides := opts\<rparr>,
             if all = [] then None else Some (last all))))
           (checkOptions env (cOverrides md)))"

section \<open>A challenge\<close>

definition isContinuation :: "char \<Rightarrow> bool" where
  "isContinuation c = (let n = (of_char c :: nat) in 128 \<le> n \<and> n < 192)"

definition trimDashes :: "string \<Rightarrow> string" where
  "trimDashes s = rev (dropWhile (\<lambda>c. c = CHR ''-'') (rev (dropWhile (\<lambda>c. c = CHR ''-'') s)))"

definition sanitizeName :: "string \<Rightarrow> string" where
  "sanitizeName dirty = trimDashes (concat (map (\<lambda>c. if is_alnum c then [c] else if isContinuation c then [] else ''-'') (lowerText dirty)))"

definition dropEmptySeccomp :: "ContainerOptions \<Rightarrow> ContainerOptions" where
  "dropEmptySeccomp co = (case coSeccomp co of None \<Rightarrow> co | Some so \<Rightarrow> if soProfile so = '''' then co\<lparr>coSeccomp := None\<rparr> else co)"

text \<open>\<open>parsed\<close>: what \<open>loadMarkdownChallenge\<close> makes of the file, with the options that are not of one host.\<close>

definition loadChallenge :: "loaderEnv \<Rightarrow> string \<Rightarrow> string \<Rightarrow> err + (challengeMeta \<times> ContainerOptions) option \<Rightarrow> err + challengeMeta option" where
  "loadChallenge env path fileName parsed =
     (if fileName \<noteq> ''problem.md'' then Inr None
      else
        (case parsed of
           Inl e \<Rightarrow> Inl e
         | Inr None \<Rightarrow> Inr None
         | Inr (Some (md0, opts)) \<Rightarrow>
             (let prefix = (if cNamespace md0 = '''' then '''' else cNamespace md0 @ ''/'');
                  md = md0\<lparr>cId := prefix @ sanitizeName (if cId md0 \<noteq> '''' then cId md0 else cName md0), cPath := filepath_Dir path,
                           cSolveScript := leSolver env,
                           cOverrides := map (\<lambda>(h, co). (h, dropEmptySeccomp co)) (mapPut '''' opts (cOverrides md0))\<rparr> in
              (case processDockerfile env md of
                 Inl e \<Rightarrow> Inl e
               | Inr md1 \<Rightarrow>
                   (case validateMetadata env md1 of
                      Inl e \<Rightarrow> Inl e
                    | Inr (md2, Some e) \<Rightarrow> Inl e
                    | Inr (md2, None) \<Rightarrow> Inr (Some md2))))))"

section \<open>The inventory\<close>

text \<open>The tree as \<open>filepath.Walk\<close> meets it, with what loading each file gives and the checksum of its directory.\<close>

datatype chalNode =
    ChalFile string string "err + challengeMeta option" "err + 32 word" \<comment> \<open>name and path\<close>
  | ChalDir string "err option" "chalNode list"
  | ChalGone err

type_synonym inventory = "(string \<times> challengeMeta) list \<times> err list"

definition findChallenge_at :: "string \<Rightarrow> err + challengeMeta option \<Rightarrow> err + 32 word \<Rightarrow> inventory \<Rightarrow> inventory \<times> err option" where
  "findChallenge_at path loaded checksum = (\<lambda>(found, errs).
     (case loaded of
        Inl e \<Rightarrow> ((found, errs @ [e]), None)
      | Inr None \<Rightarrow> ((found, errs), None)
      | Inr (Some md) \<Rightarrow>
          (case checksum of
             Inl e \<Rightarrow> ((found, errs @ [e]), None)
           | Inr c \<Rightarrow>
               (case map_of found (cId md) of
                  Some _ \<Rightarrow> ((found, errs), Some [Msg ''found multiple challenges with one id''])
                | None \<Rightarrow> ((found @ [(cId md, md\<lparr>cSourceChecksum := (if c = 0 then 1 else c), cPath := path\<rparr>)], errs), None)))))"

fun findChallenges :: "chalNode \<Rightarrow> inventory \<Rightarrow> inventory \<times> err option"
and findAllChallenges :: "chalNode list \<Rightarrow> inventory \<Rightarrow> inventory \<times> err option" where
  "findChallenges (ChalGone e) (found, errs) = ((found, errs @ [e]), None)"
| "findChallenges (ChalFile name path loaded checksum) sofar =
     (if hasPrefix name ''.'' then (sofar, None) else findChallenge_at path loaded checksum sofar)"
| "findChallenges (ChalDir name failure nodes) (found, errs) =
     (case failure of
        Some e \<Rightarrow> ((found, errs @ [e]), None)
      | None \<Rightarrow> if hasPrefix name ''.'' then ((found, errs), None) else findAllChallenges nodes (found, errs))"
| "findAllChallenges [] sofar = (sofar, None)"
| "findAllChallenges (n # ns) sofar =
     (case findChallenges n sofar of
        (sofar', Some e) \<Rightarrow> (sofar', Some e)
      | (sofar', None) \<Rightarrow> findAllChallenges ns sofar')"

definition inventoryChallenges :: "chalNode \<Rightarrow> (string \<times> challengeMeta) list option \<times> err list" where
  "inventoryChallenges tree =
     (case findChallenges tree ([], []) of
        ((found, errs), None) \<Rightarrow> (Some found, errs)
      | ((found, errs), Some e) \<Rightarrow> (None, errs @ [e]))"

section \<open>What a Dockerfile yields\<close>

lemma word1_Some: "word1 P s = Some (w, r) \<Longrightarrow> w \<noteq> [] \<and> list_all P w"
  by (auto simp: word1_def list_all_iff dest: set_takeWhileD split: if_splits)

lemma asTarget_name: "asTarget s = Some (name, r) \<Longrightarrow> validHostName name"
  by (auto simp: asTarget_def validHostName_def bind_eq_Some_conv split: if_splits dest!: word1_Some)

lemma matchTarget_name: "matchTarget s = Some (Some name, r) \<Longrightarrow> validHostName name"
  by (auto simp: matchTarget_def bind_eq_Some_conv split: option.splits dest: asTarget_name)

lemma moreWords_valid: "w \<in> set (moreWords s) \<Longrightarrow> validHostName w"
proof (induction s rule: moreWords.induct)
  case (1 s)
  let ?r = "blanks s" and ?w = "takeWhile is_word_char (blanks s)"
  from "1.prems" have go: "\<not> (?r = s \<or> ?w = [])" by (subst (asm) moreWords.simps) (auto simp: Let_def split: if_splits)
  then have "w = ?w \<or> w \<in> set (moreWords (dropWhile is_word_char ?r))"
    using "1.prems" by (subst (asm) moreWords.simps) (auto simp: Let_def)
  then show ?case using "1.IH" [OF refl refl go] go by (auto simp: validHostName_def list_all_iff dest: set_takeWhileD)
qed

lemma matchLaunch_names: "matchLaunch s = Some (names, r) \<Longrightarrow> names \<noteq> [] \<and> list_all validHostName names"
proof -
  assume "matchLaunch s = Some (names, r)"
  then obtain w r2 where w: "word1 is_word_char r2 = Some (w, r)" and names: "names = w # moreWords r"
    by (auto simp: matchLaunch_def bind_eq_Some_conv)
  have "validHostName w" using word1_Some [OF w] by (simp add: validHostName_def)
  moreover have "list_all validHostName (moreWords r)" by (simp add: list_all_iff moreWords_valid)
  ultimately show ?thesis using names by simp
qed

lemma scanMatches_sound: "(p, x) \<in> set (scanMatches m pos s) \<Longrightarrow> \<exists>t r. m t = Some (x, r)"
proof (induction m pos s rule: scanMatches.induct)
  case (2 m pos c cs)
  show ?case
  proof (cases "m (c # cs)")
    case None
    then show ?thesis using "2.IH" "2.prems" by simp
  next
    case (Some found)
    obtain y r where y: "found = (y, r)" by fastforce
    show ?thesis using "2.IH" "2.prems" Some y by (auto split: if_splits)
  qed
qed simp

lemma stageHosts_valid:
  assumes "stages = scanMatches matchTarget pos s" "h \<in> set (stageHosts stages)"
  shows "fst h = '''' \<or> validHostName (fst h)"
proof -
  from assms(2) obtain i p target where it: "(i, p, target) \<in> set (zip [0..<length stages] stages)"
    and h: "h = (case target of Some t \<Rightarrow> (t, t) | None \<Rightarrow> (if i + 1 = length stages then ''challenge'' else '''', ''''))"
    by (auto simp: stageHosts_def)
  from it have "(p, target) \<in> set (scanMatches matchTarget pos s)" using assms(1) by (auto dest: set_zip_rightD)
  then have "validHostName t" if "target = Some t" for t using scanMatches_sound matchTarget_name that by metis
  moreover have "validHostName ''challenge''" by code_simp
  ultimately show ?thesis using h by (cases target) auto
qed

lemma stageHosts_last: "stages \<noteq> [] \<Longrightarrow> stages = scanMatches matchTarget pos s \<Longrightarrow> validHostName (fst (last (stageHosts stages)))"
proof -
  assume ne: "stages \<noteq> []" and eq: "stages = scanMatches matchTarget pos s"
  obtain p target where l: "last stages = (p, target)" by fastforce
  have "last (stageHosts stages) = (case target of Some t \<Rightarrow> (t, t) | None \<Rightarrow> (''challenge'', ''''))"
    using ne l by (simp add: stageHosts_def last_map last_zip split: option.split)
  moreover have "validHostName t" if "target = Some t" for t
    using ne l that scanMatches_sound [of p target matchTarget pos s] matchTarget_name last_in_set [OF ne] eq by metis
  moreover have "validHostName ''challenge''" by code_simp
  ultimately show ?thesis by (cases target) auto
qed

lemma pickLaunches_Some: "pickLaunches hosts names = Some picked \<Longrightarrow> set picked \<subseteq> set hosts \<and> map fst picked = names"
  by (induction names arbitrary: picked) (auto simp: bind_eq_Some_conv find_Some_iff)

lemma launchHosts_valid:
  assumes "stages = scanMatches matchTarget 0 dockerfile" "stages \<noteq> []" "launchHosts dockerfile (stageHosts stages) = Some launched"
  shows "launched \<noteq> [] \<and> list_all (validHostName \<circ> fst) launched \<and> set launched \<subseteq> set (stageHosts stages) \<union> {(''builder'', ''builder'')}"
proof -
  let ?hosts = "stageHosts stages"
  obtain picked where picked: "(case scanMatches matchLaunch 0 dockerfile of [] \<Rightarrow> Some [last ?hosts] | (pos, names) # _ \<Rightarrow> pickLaunches ?hosts names) = Some picked"
    and launched: "launched = (if list_ex (\<lambda>h. snd h = ''builder'') ?hosts then (''builder'', ''builder'') # picked else picked)"
    using assms(3) by (auto simp: launchHosts_def)
  have ne: "?hosts \<noteq> []" using assms(2) by (simp add: stageHosts_def)
  have "picked \<noteq> [] \<and> list_all (validHostName \<circ> fst) picked \<and> set picked \<subseteq> set ?hosts"
  proof (cases "scanMatches matchLaunch 0 dockerfile")
    case Nil
    then show ?thesis using picked stageHosts_last [OF assms(2,1)] ne by auto
  next
    case (Cons m ms)
    obtain pos names where m: "m = (pos, names)" by fastforce
    have "names \<noteq> [] \<and> list_all validHostName names" using scanMatches_sound [of pos names matchLaunch 0 dockerfile] matchLaunch_names Cons m by fastforce
    moreover have "set picked \<subseteq> set ?hosts \<and> map fst picked = names" using pickLaunches_Some [of ?hosts names picked] picked Cons m by simp
    ultimately show ?thesis by (fastforce simp: list_all_iff)
  qed
  moreover have "validHostName ''builder''" by code_simp
  ultimately show ?thesis using launched by auto
qed

lemma advanceTo_in: "set (fst here # map snd (snd here)) \<subseteq> H \<Longrightarrow> set (fst (advanceTo p here) # map snd (snd (advanceTo p here))) \<subseteq> H"
  by (induction p here rule: advanceTo.induct) auto

definition port_hosted :: "(string \<times> string) list \<Rightarrow> string \<times> string \<times> int \<Rightarrow> bool" where
  "port_hosted hosts p \<longleftrightarrow> fst (snd p) \<in> fst ` set hosts \<and> fst (snd p) \<noteq> '''' \<and> fst (snd p) \<noteq> ''builder''"

lemma publishPorts_hosted:
  assumes "publishPorts hosts here ports portMap = Inr portMap'" "list_all (port_hosted hosts) portMap"
  shows "list_all (port_hosted hosts) portMap'"
  using assms
proof (induction hosts here ports portMap rule: publishPorts.induct)
  case (2 hosts here pos digits portName later portMap)
  let ?host = "fst (advanceTo pos here)"
  from "2.prems"(1) obtain port where port: "atoi digits = Some port" "fst ?host \<noteq> ''''" "fst ?host \<noteq> ''builder''" "list_ex (\<lambda>h. h = ?host) hosts"
    and rest: "publishPorts hosts (advanceTo pos here) later (mapPut portName (fst ?host, port) portMap) = Inr portMap'"
    by (auto simp: Let_def split: option.splits if_splits)
  have "list_all (port_hosted hosts) (mapPut portName (fst ?host, port) portMap)"
    using "2.prems"(2) port by (auto simp: list_all_iff list_ex_iff port_hosted_def dest!: set_mapPutD)
  then show ?case using "2.IH" [OF refl refl port(1) port(2,3)] port(4) rest by simp
qed simp

text \<open>
  What loading takes from a Dockerfile fits what launching and handing over need. Whatever the
  file says, a challenge that gets through has a type, at least one host to launch, every host
  name is made of word characters, every published port is on a named stage other than the
  builder, and options are only given for stages of the file.
\<close>

theorem processDockerfile_hosts:
  assumes "processDockerfile env md = Inr md'" "hPortMap md = []"
  shows "cType md \<noteq> '''' \<and> cHosts md' \<noteq> [] \<and> list_all (validHostName \<circ> fst) (cHosts md') \<and>
    (\<exists>dockerfile. dockerfileOf env (cType md) = Inr dockerfile \<and>
       (let hosts = stageHosts (scanMatches matchTarget 0 dockerfile) in
        list_all (port_hosted hosts) (hPortMap md') \<and> list_all (\<lambda>(h, opts). h = '''' \<or> h \<in> fst ` set hosts) (cOverrides md'))) \<and>
    hDelivery md' = deriveDeliveryType (cType md) (length (hPortMap md'))"
proof -
  from assms(1) obtain dockerfile where dockerfile: "dockerfileOf env (cType md) = Inr dockerfile" by (auto simp: processDockerfile_def split: sum.splits)
  define stages where "stages = scanMatches matchTarget 0 dockerfile"
  let ?hosts = "stageHosts stages"
  from assms(1) dockerfile obtain launched portMap where ne: "stages \<noteq> []" and launched: "launchHosts dockerfile ?hosts = Some launched"
    and ports: "publishPorts ?hosts (hd ?hosts, zip (map fst (tl stages)) (tl ?hosts)) (scanMatches matchPublish 0 dockerfile) (hPortMap md) = Inr portMap"
    and opts: "list_all (\<lambda>(host, opts). host = '''' \<or> list_ex (\<lambda>h. fst h = host) ?hosts) (cOverrides md)"
    and md': "md' = md\<lparr>cHosts := launched, hPortMap := portMap, hDelivery := deriveDeliveryType (cType md) (length portMap)\<rparr>"
    by (auto simp: processDockerfile_def Let_def stages_def split: option.splits sum.splits if_splits)
  have "list_all (port_hosted ?hosts) portMap" using publishPorts_hosted [OF ports] assms(2) by simp
  moreover have "list_all (\<lambda>(h, opts). h = '''' \<or> h \<in> fst ` set ?hosts) (cOverrides md)"
    using opts by (auto simp: list_all_iff list_ex_iff)
  moreover have "cType md \<noteq> ''''" using dockerfile by (auto simp: dockerfileOf_def)
  ultimately show ?thesis using launchHosts_valid [OF stages_def ne launched] dockerfile md' by (simp add: stages_def)
qed


section \<open>What the metadata of a loaded challenge is\<close>

text \<open>A template that something stands behind: an artifact, a lookup, or a port that is published.\<close>

definition template_ok :: "(string \<times> string \<times> int) list \<Rightarrow> string \<Rightarrow> bool" where
  "template_ok portMap t \<longleftrightarrow> findAll urlRe t \<noteq> [] \<or> findAll lookupRe t \<noteq> [] \<or>
     list_ex (\<lambda>p. (case firstCapture p t of None \<Rightarrow> False | Some name \<Rightarrow> name \<in> fst ` set portMap)) [httpBaseRe, portRe, serverRe]"

definition names_port :: "string \<Rightarrow> string \<Rightarrow> bool" where
  "names_port name t \<longleftrightarrow> firstCapture portRe t = Some name"

lemma map_of_None_keys: "map_of xs k \<noteq> None \<longleftrightarrow> k \<in> fst ` set xs"
  by (simp add: map_of_eq_None_iff)

lemma checkTemplate_accepts:
  assumes "checkTemplate portMap t (e, refs) = (None, refs')"
  shows "e = None \<and> template_ok portMap t \<and> (refs' = refs \<or> (\<exists>name. names_port name t \<and> refs' = mapPut name True refs))"
  using assms
  by (auto simp: checkTemplate_def template_ok_def names_port_def Let_def map_of_None_keys [symmetric] split: if_splits option.splits)

lemma checkTemplates_accept:
  assumes "fold (checkTemplate portMap) ts (e, refs) = (None, refs')"
  shows "e = None \<and> list_all (template_ok portMap) ts \<and> fst ` set refs \<subseteq> fst ` set refs' \<and>
    (\<forall>name. (name, True) \<in> set refs' \<longrightarrow> (name, True) \<in> set refs \<or> list_ex (names_port name) ts)"
  using assms
proof (induction ts arbitrary: e refs)
  case (Cons t ts)
  obtain e1 refs1 where one: "checkTemplate portMap t (e, refs) = (e1, refs1)" by fastforce
  note later = Cons.IH [of e1 refs1] Cons.prems one
  then have "e1 = None" by simp
  then have here: "e = None \<and> template_ok portMap t \<and> (refs1 = refs \<or> (\<exists>name. names_port name t \<and> refs1 = mapPut name True refs))"
    using checkTemplate_accepts one by simp
  have "fst ` set refs \<subseteq> fst ` set refs1" using here by (elim conjE disjE exE) (simp_all add: fst_mapPut subset_insertI)
  moreover have "(name, True) \<in> set refs1 \<Longrightarrow> (name, True) \<in> set refs \<or> names_port name t" for name
    using here by (auto dest!: set_mapPutD)
  moreover have rest: "list_all (template_ok portMap) ts \<and> fst ` set refs1 \<subseteq> fst ` set refs' \<and>
      (\<forall>name. (name, True) \<in> set refs' \<longrightarrow> (name, True) \<in> set refs1 \<or> list_ex (names_port name) ts)" using later by simp
  ultimately have "fst ` set refs \<subseteq> fst ` set refs'"
    and "\<forall>name. (name, True) \<in> set refs' \<longrightarrow> (name, True) \<in> set refs \<or> list_ex (names_port name) (t # ts)"
    by (meson subset_trans, unfold list_ex_Cons_iff, blast)
  then show ?case using rest here by simp
qed simp


lemma normalizeAndCheck_accepts:
  assumes "normalizeAndCheckTemplated portMap s refs = (s', None, refs')"
  shows "s' = normalizeText portMap s \<and> list_all (template_ok portMap) (templatesOf s') \<and> fst ` set refs \<subseteq> fst ` set refs' \<and>
    (\<forall>name. (name, True) \<in> set refs' \<longrightarrow> (name, True) \<in> set refs \<or> list_ex (names_port name) (templatesOf s'))"
proof -
  from assms obtain e where "fold (checkTemplate portMap) (templatesOf (normalizeText portMap s)) (e, refs) = (None, refs')"
    and "s' = normalizeText portMap s"
    unfolding normalizeAndCheckTemplated_def Let_def prod.inject by blast
  then show ?thesis using checkTemplates_accept by simp
qed

lemma normalizeAll_accepts:
  assumes "normalizeAll portMap ss refs = (ss', [], refs')"
  shows "ss' = map (normalizeText portMap) ss \<and> list_all (list_all (template_ok portMap) \<circ> templatesOf) ss' \<and> fst ` set refs \<subseteq> fst ` set refs' \<and>
    (\<forall>name. (name, True) \<in> set refs' \<longrightarrow> (name, True) \<in> set refs \<or> list_ex (list_ex (names_port name) \<circ> templatesOf) ss')"
  using assms
proof (induction portMap ss refs arbitrary: ss' refs' rule: normalizeAll.induct)
  case (2 portMap s ss refs)
  obtain s1 e refs1 where one: "normalizeAndCheckTemplated portMap s refs = (s1, e, refs1)" by (metis prod.exhaust)
  obtain ss1 es refs2 where others: "normalizeAll portMap ss refs1 = (ss1, es, refs2)" by (metis prod.exhaust)
  have e: "e = None" "es = []" and out: "ss' = s1 # ss1" "refs' = refs2"
    using "2.prems" one others by (auto split: option.splits)
  note first = normalizeAndCheck_accepts [OF one [unfolded e]]
  note rest = "2.IH" [OF one [symmetric] refl others [unfolded e]]
  have "fst ` set refs \<subseteq> fst ` set refs'" using first rest out by (meson subset_trans)
  moreover have "(name, True) \<in> set refs \<or> list_ex (list_ex (names_port name) \<circ> templatesOf) ss'" if "(name, True) \<in> set refs'" for name
    using first rest out that by (metis comp_apply list_ex_Cons_iff)
  moreover have "list_all (list_all (template_ok portMap) \<circ> templatesOf) ss'" using first rest unfolding out list_all_Cons_iff comp_apply by blast
  moreover have "ss' = map (normalizeText portMap) (s # ss)" using first rest unfolding out list.map by blast
  ultimately show ?case by blast
qed simp

lemma normalizeAll_length: "normalizeAll portMap ss refs = (ss', es, refs') \<Longrightarrow> length ss' = length ss"
  by (induction portMap ss refs arbitrary: ss' es refs' rule: normalizeAll.induct) (auto split: prod.splits)

text \<open>Options that configure a container: what \<open>optionProblems\<close> found nothing wrong with.\<close>

lemma ulimitProblems_none:
  assumes "\<And>u. leUlimitName env u = None \<longleftrightarrow> parseUlimit (leParsers env) u = None" "ulimitProblems (leUlimitName env) us = Inr ps"
  shows "\<exists>limits. parseUlimits (leParsers env) us = Inr limits"
  using assms(2)
proof (induction us arbitrary: ps)
  case (Cons u us)
  then obtain name ps' where "leUlimitName env u = Some name" "ulimitProblems (leUlimitName env) us = Inr ps'"
    by (cases "ulimitProblems (leUlimitName env) us") (auto split: option.splits)
  then show ?case using Cons.IH assms(1) [of u] by auto
qed simp

lemma optionProblems_none:
  assumes "\<And>u. leUlimitName env u = None \<longleftrightarrow> parseUlimit (leParsers env) u = None" "optionProblems env co = Inr ([], co')"
  shows "\<exists>hc'. applyOptions (leParsers env) hs co' hc = Inr hc'"
proof -
  obtain seccomp co1 where sec: "seccompProblems env co = (seccomp, co1)" by fastforce
  then have same: "coCpus co1 = coCpus co" "coMemory co1 = coMemory co" "coUlimits co1 = coUlimits co"
    by (auto simp: seccompProblems_def split: option.splits prod.splits)
  from assms(2) sec obtain ps where ps: "ulimitProblems (leUlimitName env) (coUlimits co) = Inr ps" and co': "co' = co1"
    and cpus: "coCpus co = '''' \<or> \<not> isl (parseNanoCPUs (ratSetString (leParsers env)) (coCpus co))"
    and memory: "coMemory co = '''' \<or> ramInBytes (leParsers env) (coMemory co) \<noteq> None"
    by (cases "ulimitProblems (leUlimitName env) (coUlimits co)") (auto simp: optionProblems_def split: if_splits)
  obtain limits where "parseUlimits (leParsers env) (coUlimits co) = Inr limits" using ulimitProblems_none [OF assms(1) ps] by auto
  then show ?thesis using cpus memory co' same
    by (cases "parseNanoCPUs (ratSetString (leParsers env)) (coCpus co)") (auto simp: applyOptions_def split: option.splits)
qed


lemma checkOptions_none:
  assumes "checkOptions env opts = Inr ([], opts')"
  shows "map fst opts' = map fst opts \<and> list_all (\<lambda>(host, co'). \<exists>co. (host, co) \<in> set opts \<and> optionProblems env co = Inr ([], co')) opts'"
  using assms
proof (induction env opts arbitrary: opts' rule: checkOptions.induct)
  case (2 env host co opts)
  then obtain co' opts1 where co': "optionProblems env co = Inr ([], co')" "checkOptions env opts = Inr ([], opts1)" "opts' = (host, co') # opts1"
    by (cases "checkOptions env opts") (auto split: sum.splits)
  then have "map fst opts1 = map fst opts \<and> list_all (\<lambda>(host, co'). \<exists>co. (host, co) \<in> set opts \<and> optionProblems env co = Inr ([], co')) opts1"
    using "2.IH" by simp
  then show ?case using co' by (auto simp: list_all_iff)
qed simp



section \<open>Loaded challenges and the hand-over\<close>

lemma lowerChar_alnum: "is_alnum (lowerChar c) \<Longrightarrow> is_lower_alnum (lowerChar c)"
proof -
  assume an: "is_alnum (lowerChar c)"
  show ?thesis
  proof (cases "65 \<le> (of_char c :: nat) \<and> (of_char c :: nat) \<le> 90")
    case True
    then have "(of_char (lowerChar c) :: nat) = of_char c + 32" by (simp add: lowerChar_def Let_def)
    then show ?thesis using True by (simp add: is_lower_alnum_def Let_def)
  next
    case False
    then have "lowerChar c = c" unfolding lowerChar_def Let_def by (rule if_not_P)
    then show ?thesis using False an by (auto simp: is_lower_alnum_def is_alnum_def Let_def)
  qed
qed

lemma lowerText_alnum: "c \<in> set (lowerText s) \<Longrightarrow> is_alnum c \<Longrightarrow> is_lower_alnum c"
proof (induction s rule: lowerText.induct)
  case (2 x xs)
  have ki: "is_lower_alnum (CHR ''k'')" "is_lower_alnum (CHR ''i'')" by code_simp+
  show ?case using 2 lowerChar_alnum [of x] by (auto simp: ki split: if_splits)
qed simp

lemma trimDashes_ends: "trimDashes s \<noteq> [] \<Longrightarrow> hd (trimDashes s) \<noteq> CHR ''-'' \<and> last (trimDashes s) \<noteq> CHR ''-''"
proof -
  assume ne: "trimDashes s \<noteq> []"
  define t where "t = dropWhile (\<lambda>c. c = CHR ''-'') s"
  have out: "trimDashes s = rev (dropWhile (\<lambda>c. c = CHR ''-'') (rev t))" by (simp add: trimDashes_def t_def)
  then have kept: "dropWhile (\<lambda>c. c = CHR ''-'') (rev t) \<noteq> []" using ne by simp
  have "last (trimDashes s) \<noteq> CHR ''-''" using hd_dropWhile [OF kept] by (simp add: out last_rev)
  moreover have "hd (trimDashes s) \<noteq> CHR ''-''"
  proof -
    have "trimDashes s @ rev (takeWhile (\<lambda>c. c = CHR ''-'') (rev t)) = rev (rev t)"
      unfolding out rev_append [symmetric] takeWhile_dropWhile_id ..
    then have "hd t = hd (trimDashes s) \<and> t \<noteq> []" using ne hd_append2 [OF ne] by (metis append_is_Nil_conv rev_rev_ident)
    then show ?thesis using hd_dropWhile [of "\<lambda>c. c = CHR ''-''" s] by (simp add: t_def)
  qed
  ultimately show ?thesis by simp
qed

lemma set_trimDashes: "set (trimDashes s) \<subseteq> set s"
  by (auto simp: trimDashes_def dest!: set_dropWhileD)

lemma sanitizeName_chars: "c \<in> set (sanitizeName s) \<Longrightarrow> is_lower_alnum c \<or> c = CHR ''-''"
proof -
  let ?piece = "\<lambda>c. if is_alnum c then [c] else if isContinuation c then [] else ''-''"
  assume "c \<in> set (sanitizeName s)"
  then have "c \<in> set (concat (map ?piece (lowerText s)))" unfolding sanitizeName_def by (rule subsetD [OF set_trimDashes])
  then obtain d where "d \<in> set (lowerText s)" "c \<in> set (?piece d)" by (simp only: set_concat set_map UN_iff) blast
  then show ?thesis using lowerText_alnum [of d s] by (cases "is_alnum d"; cases "isContinuation d") simp_all
qed

lemma sanitizeName_ends:
  "sanitizeName s \<noteq> [] \<Longrightarrow> is_lower_alnum (hd (sanitizeName s)) \<and> is_lower_alnum (last (sanitizeName s))"
  using trimDashes_ends [folded sanitizeName_def] sanitizeName_chars hd_in_set last_in_set trimDashes_ends sanitizeName_def by metis

lemma sanitizeName_no_slash: "CHR ''/'' \<notin> set (sanitizeName s)"
proof -
  have "\<not> is_lower_alnum (CHR ''/'')" by code_simp
  then show ?thesis using sanitizeName_chars by blast
qed

lemma loaded_id_valid:
  assumes "validNamespace ns"
  shows "validChallengeId ((if ns = '''' then '''' else ns @ ''/'') @ sanitizeName s) \<longleftrightarrow> sanitizeName s \<noteq> ''''"
proof (cases "ns = ''''")
  case True
  then show ?thesis using sanitizeName_ends [of s] sanitizeName_chars [of _ s]
    by (auto simp: validChallengeId_def Let_def list_all_iff splitOn_plain [OF sanitizeName_no_slash])
next
  case False
  then have "splitOn (CHR ''/'') ((ns @ ''/'') @ sanitizeName s) = splitOn (CHR ''/'') ns @ [sanitizeName s]"
    by (simp add: splitOn_append splitOn_plain [OF sanitizeName_no_slash])
  then show ?thesis using False assms sanitizeName_ends [of s] sanitizeName_chars [of _ s]
    by (auto simp: validChallengeId_def validNamespace_def Let_def list_all_iff butlast_append)
qed


definition given_id :: "challengeMeta \<Rightarrow> string" where
  "given_id md = (if cId md \<noteq> '''' then cId md else cName md)"

lemma loadChallenge_parts:
  assumes "loadChallenge env path fileName parsed = Inr (Some md)"
  obtains md0 opts md1 md2 where "parsed = Inr (Some (md0, opts))"
    "md1 = md0\<lparr>cId := (if cNamespace md0 = '''' then '''' else cNamespace md0 @ ''/'') @ sanitizeName (given_id md0), cPath := filepath_Dir path,
                 cSolveScript := leSolver env, cOverrides := map (\<lambda>(h, co). (h, dropEmptySeccomp co)) (mapPut '''' opts (cOverrides md0))\<rparr>"
    "processDockerfile env md1 = Inr md2" "validateMetadata env md2 = Inr (md, None)"
  using assms by (auto simp: loadChallenge_def given_id_def Let_def split: if_splits sum.splits option.splits prod.splits)

lemma validateMetadata_keeps:
  assumes "validateMetadata env md = Inr (md', e)"
  shows "cId md' = cId md \<and> cType md' = cType md \<and> cHosts md' = cHosts md \<and> hPortMap md' = hPortMap md \<and> cNamespace md' = cNamespace md"
  using assms by (cases "checkOptions env (cOverrides md)") (auto simp: validateMetadata_def Let_def split: prod.splits)

lemma validateMetadata_namespace: "validateMetadata env md = Inr (md', None) \<Longrightarrow> validNamespace (cNamespace md)"
  by (cases "checkOptions env (cOverrides md)") (auto simp: validateMetadata_def Let_def split: prod.splits if_splits)

lemma processDockerfile_keeps:
  "processDockerfile env md = Inr md' \<Longrightarrow> cId md' = cId md \<and> cType md' = cType md \<and> cNamespace md' = cNamespace md"
  by (auto simp: processDockerfile_def Let_def split: sum.splits option.splits if_splits)

text \<open>A challenge that loads passes the checks of a hand-over on the challenge itself.\<close>

lemma loaded_challenge_handed_over:
  assumes "loadChallenge env path fileName (Inr (Some (md0, opts))) = Inr (Some md)" "hPortMap md0 = []"
    and "sanitizeName (given_id md0) \<noteq> ''''"
    and "list_all (\<lambda>(_, host, _). host \<in> fst ` set (cHosts md)) (hPortMap md)"
    and "hoChallenge h = Some md"
  shows "checkHandOver henv (cId md) (Some h) =
    checkBuilds md (templateChecksum (heDockerfile henv) (cType md)) (hoPinFingerprint h) [] (hoBuilds h)"
proof -
  obtain md1 md2 where md1: "md1 = md0\<lparr>cId := (if cNamespace md0 = '''' then '''' else cNamespace md0 @ ''/'') @ sanitizeName (given_id md0), cPath := filepath_Dir path,
                 cSolveScript := leSolver env, cOverrides := map (\<lambda>(h, co). (h, dropEmptySeccomp co)) (mapPut '''' opts (cOverrides md0))\<rparr>"
    and docker: "processDockerfile env md1 = Inr md2" and valid: "validateMetadata env md2 = Inr (md, None)"
    using loadChallenge_parts [OF assms(1)] by (metis Inr_inject option.inject prod.inject)
  note same = validateMetadata_keeps [OF valid] processDockerfile_keeps [OF docker]
  have "cType md \<noteq> '''' \<and> cHosts md \<noteq> [] \<and> list_all (validHostName \<circ> fst) (cHosts md)"
    using processDockerfile_hosts [OF docker] assms(2) same md1 by simp
  moreover have "validChallengeId (cId md)"
    using loaded_id_valid [of "cNamespace md0"] validateMetadata_namespace [OF valid] same md1 assms(3) by simp
  moreover have "\<not> list_ex (\<lambda>(_, host, _). host \<notin> fst ` set (cHosts md)) (hPortMap md)"
    using assms(4) by (auto simp: list_all_iff list_ex_iff)
  ultimately show ?thesis using assms(5) by (simp add: checkHandOver_def)
qed


section \<open>What an inventory finds\<close>

text \<open>The reference: the files the walk reaches, and of these the challenges that load and hash.\<close>

fun visited :: "chalNode \<Rightarrow> (string \<times> (err + challengeMeta option) \<times> (err + 32 word)) list" where
  "visited (ChalGone e) = []"
| "visited (ChalFile name path loaded checksum) = (if hasPrefix name ''.'' then [] else [(path, loaded, checksum)])"
| "visited (ChalDir name failure nodes) = (if failure \<noteq> None \<or> hasPrefix name ''.'' then [] else concat (map visited nodes))"

definition entry :: "string \<times> (err + challengeMeta option) \<times> (err + 32 word) \<Rightarrow> (string \<times> challengeMeta) list" where
  "entry = (\<lambda>(path, loaded, checksum).
     (case (loaded, checksum) of
        (Inr (Some md), Inr c) \<Rightarrow> [(cId md, md\<lparr>cSourceChecksum := (if c = 0 then 1 else c), cPath := path\<rparr>)]
      | _ \<Rightarrow> []))"

definition entries :: "chalNode \<Rightarrow> (string \<times> challengeMeta) list" where
  "entries tree = concat (map entry (visited tree))"

lemma entries_simps [simp]:
  "entries (ChalGone e) = []"
  "entries (ChalFile name path loaded checksum) = (if hasPrefix name ''.'' then [] else entry (path, loaded, checksum))"
  "entries (ChalDir name failure nodes) = (if failure \<noteq> None \<or> hasPrefix name ''.'' then [] else concat (map entries nodes))"
  by (auto simp: entries_def map_concat comp_def) (induction nodes; simp add: entries_def)

definition found_is :: "(string \<times> challengeMeta) list \<Rightarrow> (string \<times> challengeMeta) list \<Rightarrow> inventory \<times> err option \<Rightarrow> bool" where
  "found_is found news = (\<lambda>((found', errs'), e).
     if distinct (map fst (found @ news)) then e = None \<and> found' = found @ news else e \<noteq> None)"

lemma findChallenge_at_found:
  "distinct (map fst found) \<Longrightarrow> found_is found (entry (path, loaded, checksum)) (findChallenge_at path loaded checksum (found, errs))"
proof (cases "\<exists>md c. loaded = Inr (Some md) \<and> checksum = Inr c")
  case True
  then obtain md c where md: "loaded = Inr (Some md)" "checksum = Inr c" by auto
  assume "distinct (map fst found)"
  then show ?thesis using md map_of_eq_None_iff [of found "cId md"]
    by (cases "map_of found (cId md)") (simp_all add: found_is_def findChallenge_at_def entry_def)
next
  case False
  assume "distinct (map fst found)"
  then show ?thesis using False by (auto simp: found_is_def findChallenge_at_def entry_def split: sum.splits option.splits)
qed

lemma found_is_append: "found_is found (a @ b) = found_is (found @ a) b"
  by (simp only: found_is_def append_assoc)

lemma findChallenges_found:
  "distinct (map fst (fst sofar)) \<Longrightarrow> found_is (fst sofar) (entries node) (findChallenges node sofar)"
  "distinct (map fst (fst sofar)) \<Longrightarrow> found_is (fst sofar) (concat (map entries nodes)) (findAllChallenges nodes sofar)"
proof (induction node sofar and nodes sofar rule: findChallenges_findAllChallenges.induct)
  case (2 name path loaded checksum sofar)
  then show ?case using findChallenge_at_found by (cases sofar) (auto simp: found_is_def)
next
  case (5 n ns sofar)
  obtain found' errs' e where one: "findChallenges n sofar = ((found', errs'), e)" by (metis prod.exhaust)
  have here: "found_is (fst sofar) (entries n) ((found', errs'), e)" using 5 one by simp
  show ?case
  proof (cases e)
    case None
    then have found': "found' = fst sofar @ entries n" "distinct (map fst found')" using here by (auto simp: found_is_def split: if_splits)
    then have "found_is found' (concat (map entries ns)) (findAllChallenges ns (found', errs'))"
      using "5.IH"(2) [OF one [symmetric]] None by simp
    then show ?thesis using one None found' by (simp add: found_is_append)
  next
    case (Some failed)
    then show ?thesis using here one by (auto simp: found_is_def split: if_splits)
  qed
qed (auto simp: found_is_def split: option.splits)

text \<open>
  C19. The inventory of a directory is every challenge in it: each file the walk reaches that loads
  and whose directory hashes, under its id, with its path and a checksum which is never zero. Two
  challenges with one id refuse the whole inventory.
\<close>

theorem inventory_exact:
  "fst (inventoryChallenges tree) = (if distinct (map fst (entries tree)) then Some (entries tree) else None) \<and>
   list_all (\<lambda>(cid, md). cId md = cid \<and> cSourceChecksum md \<noteq> 0) (entries tree)"
proof
  obtain found errs e where walk: "findChallenges tree ([], []) = ((found, errs), e)" by (metis prod.exhaust)
  have "found_is [] (entries tree) ((found, errs), e)" using findChallenges_found(1) [of "([], [])" tree] walk by simp
  then show "fst (inventoryChallenges tree) = (if distinct (map fst (entries tree)) then Some (entries tree) else None)"
    using walk by (auto simp: inventoryChallenges_def found_is_def split: option.splits if_splits)
  show "list_all (\<lambda>(cid, md). cId md = cid \<and> cSourceChecksum md \<noteq> 0) (entries tree)"
    by (auto simp: entries_def entry_def list_all_iff split: sum.splits option.splits prod.splits)
qed


section \<open>Witnesses\<close>

definition newline :: string where "newline = [CHR 0x0A]"

definition web_dockerfile :: string where
  "web_dockerfile = ''FROM ubuntu AS db'' @ newline @ ''FROM ubuntu AS web'' @ newline @ ''# PUBLISH 80 AS http'' @ newline @ ''# LAUNCH web db'' @ newline"

definition loading_env :: loaderEnv where
  "loading_env = \<lparr>leBuiltin = (\<lambda>_. None), leCustom = Some (Inr web_dockerfile), leParsers = sample_parsers, leUlimitName = Some,
     leDecode = (\<lambda>_. None), leSha256 = (\<lambda>s. s), leProfiles = (\<lambda>_. \<lparr>pfLstat = None, pfOpens = False, pfStat = None, pfData = None\<rparr>), leSolver = False\<rparr>"

definition written_meta :: challengeMeta where
  "written_meta = challengeMeta_of (sample_challenge\<lparr>cId := '''', cName := ''Pwn Me!'', cDetails := ''Go to {{link('' @ quoted ''/x'' @ '')}}'', cHints := [],
     cHosts := [], cOverrides := [(''web'', plain_options\<lparr>coCpus := ''1.5''\<rparr>)]\<rparr>) []"

definition docked_meta :: challengeMeta where
  "docked_meta = written_meta\<lparr>hPortMap := [(''http'', ''web'', 80)]\<rparr>"

definition validated_meta :: challengeMeta where
  "validated_meta = (case validateMetadata loading_env docked_meta of Inr (md, _) \<Rightarrow> md | _ \<Rightarrow> docked_meta)"

lemma validated: "validateMetadata loading_env docked_meta = Inr (validated_meta, None)"
  by code_simp


text \<open>
  What is accepted and should not be: a port on a stage that is not launched, which the hand-over
  then refuses, and a name that leaves nothing for the id. A limit that does not parse ends the
  process. Options given for a host with a capital letter are not the ones it is started with.
\<close>

definition unlaunched_env :: loaderEnv where
  "unlaunched_env = loading_env\<lparr>leCustom := Some (Inr (''FROM ubuntu AS web'' @ newline @ ''# PUBLISH 80 AS http'' @ newline @ ''FROM ubuntu AS app'' @ newline))\<rparr>"

lemma unlaunched_port_accepted:
  "processDockerfile unlaunched_env written_meta =
     Inr (written_meta\<lparr>cHosts := [(''app'', ''app'')], hPortMap := [(''http'', ''web'', 80)], hDelivery := DeliveryService\<rparr>)"
  by code_simp

lemma nameless_id: "sanitizeName ''!?'' = '''' \<and> \<not> validChallengeId (''pico/'' @ sanitizeName ''!?'')"
  by code_simp

lemma bad_ulimit_panics:
  "leUlimitName env u = None \<Longrightarrow> optionProblems env (co\<lparr>coUlimits := u # us\<rparr>) = Inl [GoPanic ''nil pointer dereference'']"
  by (simp add: optionProblems_def split: prod.split)

lemma capital_host_options_ignored:
  "checkOptions loading_env [(''Web'', plain_options\<lparr>coReadonlyRootfs := True\<rparr>)] = Inr ([], [(''Web'', plain_options\<lparr>coReadonlyRootfs := True\<rparr>)])"
  "optionsFor [('''', plain_options), (''Web'', plain_options\<lparr>coReadonlyRootfs := True\<rparr>)] ''Web'' = Some plain_options"
  by code_simp+

end
