(* ===== verification/Markdown_Loader.thy ===== *)
theory Markdown_Loader
  imports Challenge_Loader
begin

text \<open>
  Reading \<open>problem.md\<close> (\<open>src/cork/loader_markdown.go\<close>): the name, the attributes at the top,
  the sections, and the conversion in place of the HTML an author wrote. The Markdown parser, the
  HTML tokenizer and converter, and the YAML decoder are arguments. Text is valid UTF-8.
\<close>

section \<open>HTML in Markdown\<close>

record htmlSpan =
  spStart :: nat
  spEnd :: nat

datatype tagKind = tagOpen | tagClose | tagSelfClosing

record rawTag =
  rtStart :: nat
  rtEnd :: nat
  rtName :: string
  rtKind :: tagKind

datatype htmlToken = StartTagToken string | SelfClosingTagToken string | EndTagToken string | OtherToken

definition voidTags :: "string list" where
  "voidTags = [''area'', ''base'', ''br'', ''col'', ''embed'', ''hr'', ''img'', ''input'', ''link'', ''meta'', ''param'', ''source'', ''track'', ''wbr'']"

definition parseRawTag :: "(string \<Rightarrow> htmlToken) \<Rightarrow> string \<Rightarrow> (string \<times> tagKind) option" where
  "parseRawTag token content =
     (case token content of
        StartTagToken b \<Rightarrow> (let n = lowerText b in Some (n, if n \<in> set voidTags then tagSelfClosing else tagOpen))
      | SelfClosingTagToken b \<Rightarrow> Some (lowerText b, tagSelfClosing)
      | EndTagToken b \<Rightarrow> Some (lowerText b, tagClose)
      | OtherToken \<Rightarrow> None)"

text \<open>A slice of Go, which panics outside its bounds.\<close>

definition goSlice :: "'a list \<Rightarrow> nat \<Rightarrow> nat \<Rightarrow> err + 'a list" where
  "goSlice xs a b = (if a \<le> b \<and> b \<le> length xs then Inr (drop a (take b xs)) else Inl [GoPanic ''slice bounds out of range''])"

text \<open>The open tags are a stack, the innermost first.\<close>

definition unstack :: "string \<Rightarrow> rawTag list \<Rightarrow> (rawTag \<times> rawTag list) option" where
  "unstack name stack = (case dropWhile (\<lambda>t. rtName t \<noteq> name) stack of [] \<Rightarrow> None | t # rest \<Rightarrow> Some (t, rest))"

fun pairTags :: "rawTag list \<Rightarrow> rawTag list \<Rightarrow> htmlSpan list \<Rightarrow> htmlSpan list" where
  "pairTags [] stack spans = spans @ map (\<lambda>t. \<lparr>spStart = rtStart t, spEnd = rtEnd t\<rparr>) (rev stack)"
| "pairTags (t # ts) stack spans =
     (case rtKind t of
        tagSelfClosing \<Rightarrow> pairTags ts stack (spans @ [\<lparr>spStart = rtStart t, spEnd = rtEnd t\<rparr>])
      | tagOpen \<Rightarrow> pairTags ts (t # stack) spans
      | tagClose \<Rightarrow>
          (case unstack (rtName t) stack of
             Some (opener, stack') \<Rightarrow> pairTags ts stack' (spans @ [\<lparr>spStart = rtStart opener, spEnd = rtEnd t\<rparr>])
           | None \<Rightarrow> pairTags ts stack (spans @ [\<lparr>spStart = rtStart t, spEnd = rtEnd t\<rparr>])))"

definition pairInlineTags :: "rawTag list \<Rightarrow> htmlSpan list" where
  "pairInlineTags tags = pairTags tags [] []"

text \<open>The document, as the walk visits it: segments are start and stop.\<close>

datatype mdNode =
    HTMLBlock "(nat \<times> nat) list"
  | RawHTML "(nat \<times> nat) list" "mdNode list"
  | OtherNode "mdNode list"

fun rawTags :: "(string \<Rightarrow> htmlToken) \<Rightarrow> string \<Rightarrow> (nat \<times> nat) list \<Rightarrow> err + rawTag list" where
  "rawTags token src [] = Inr []"
| "rawTags token src ((start, stop) # segs) =
     (case goSlice src start stop of
        Inl e \<Rightarrow> Inl e
      | Inr content \<Rightarrow>
          map_sum id (\<lambda>tags. (case parseRawTag token content of
               None \<Rightarrow> tags
             | Some (name, kind) \<Rightarrow> \<lparr>rtStart = start, rtEnd = stop, rtName = name, rtKind = kind\<rparr> # tags)) (rawTags token src segs))"

fun collectNode :: "(string \<Rightarrow> htmlToken) \<Rightarrow> string \<Rightarrow> mdNode \<Rightarrow> err + htmlSpan list \<times> rawTag list"
and collectNodes :: "(string \<Rightarrow> htmlToken) \<Rightarrow> string \<Rightarrow> mdNode list \<Rightarrow> err + htmlSpan list \<times> rawTag list" where
  "collectNode token src (HTMLBlock segs) =
     Inr (if segs = [] then [] else [\<lparr>spStart = fst (hd segs), spEnd = snd (last segs)\<rparr>], [])"
| "collectNode token src (RawHTML segs children) =
     (case rawTags token src segs of
        Inl e \<Rightarrow> Inl e
      | Inr tags \<Rightarrow> map_sum id (\<lambda>(spans, tags'). (spans, tags @ tags')) (collectNodes token src children))"
| "collectNode token src (OtherNode children) = collectNodes token src children"
| "collectNodes token src [] = Inr ([], [])"
| "collectNodes token src (n # ns) =
     (case collectNode token src n of
        Inl e \<Rightarrow> Inl e
      | Inr (spans, tags) \<Rightarrow> map_sum id (\<lambda>(spans', tags'). (spans @ spans', tags @ tags')) (collectNodes token src ns))"

definition collectHTMLSpans :: "(string \<Rightarrow> htmlToken) \<Rightarrow> mdNode \<Rightarrow> string \<Rightarrow> err + htmlSpan list" where
  "collectHTMLSpans token doc src = map_sum id (\<lambda>(spans, tags). spans @ pairInlineTags tags) (collectNode token src doc)"

text \<open>By start; of two with one start, the longer first.\<close>

definition spanLess :: "htmlSpan \<Rightarrow> htmlSpan \<Rightarrow> bool" where
  "spanLess a b = (if spStart a \<noteq> spStart b then spStart a < spStart b else spEnd a > spEnd b)"

fun insertSpan :: "htmlSpan \<Rightarrow> htmlSpan list \<Rightarrow> htmlSpan list" where
  "insertSpan s [] = [s]"
| "insertSpan s (t # ts) = (if spanLess t s then t # insertSpan s ts else s # t # ts)"

definition sortSpans :: "htmlSpan list \<Rightarrow> htmlSpan list" where
  "sortSpans spans = foldr insertSpan spans []"

fun splice :: "(string \<Rightarrow> err + string) \<Rightarrow> string \<Rightarrow> nat \<Rightarrow> htmlSpan list \<Rightarrow> err + string" where
  "splice convert src cursor [] = Inr (drop cursor src)"
| "splice convert src cursor (sp # sps) =
     (if spStart sp < cursor then splice convert src cursor sps
      else
        (case goSlice src cursor (spStart sp) of
           Inl e \<Rightarrow> Inl e
         | Inr gap \<Rightarrow>
             (case goSlice src (spStart sp) (spEnd sp) of
                Inl e \<Rightarrow> Inl e
              | Inr content \<Rightarrow>
                  (case convert content of
                     Inl e \<Rightarrow> Inl e
                   | Inr converted \<Rightarrow> map_sum id (\<lambda>out. gap @ converted @ out) (splice convert src (spEnd sp) sps)))))"

fun trimRightRev :: "string \<Rightarrow> string" where
  "trimRightRev [] = []"
| "trimRightRev (c # cs) =
     (if is_space c \<or> c = CHR 0x0B then trimRightRev cs
      else
        (case List.find (\<lambda>p. hasPrefix (c # cs) (rev p)) unicodeSpaces of
           None \<Rightarrow> c # cs
         | Some p \<Rightarrow> trimRightRev (drop (length p - 1) cs)))"

lemma unicodeSpaces_literal [code]:
  "unicodeSpaces =
     [[CHR 0xC2, CHR 0x85], [CHR 0xC2, CHR 0xA0], [CHR 0xE1, CHR 0x9A, CHR 0x80], [CHR 0xE2, CHR 0x80, CHR 0xA8],
      [CHR 0xE2, CHR 0x80, CHR 0xA9], [CHR 0xE2, CHR 0x80, CHR 0xAF], [CHR 0xE2, CHR 0x81, CHR 0x9F], [CHR 0xE3, CHR 0x80, CHR 0x80],
      [CHR 0xE2, CHR 0x80, CHR 0x80], [CHR 0xE2, CHR 0x80, CHR 0x81], [CHR 0xE2, CHR 0x80, CHR 0x82], [CHR 0xE2, CHR 0x80, CHR 0x83], [CHR 0xE2, CHR 0x80, CHR 0x84], [CHR 0xE2, CHR 0x80, CHR 0x85], [CHR 0xE2, CHR 0x80, CHR 0x86], [CHR 0xE2, CHR 0x80, CHR 0x87], [CHR 0xE2, CHR 0x80, CHR 0x88], [CHR 0xE2, CHR 0x80, CHR 0x89], [CHR 0xE2, CHR 0x80, CHR 0x8A]]"
  by code_simp

definition trimSpace :: "string \<Rightarrow> string" where
  "trimSpace s = rev (trimRightRev (rev (trimLeftSpace s)))"

record markdownEnv =
  mkParse :: "string \<Rightarrow> mdNode"
  mkToken :: "string \<Rightarrow> htmlToken"
  mkConvert :: "string \<Rightarrow> err + string"
  mkYaml :: "string \<Rightarrow> err option \<times> ChallengeOptions"

definition parseMarkdown :: "markdownEnv \<Rightarrow> string \<Rightarrow> err + string" where
  "parseMarkdown env src =
     (case collectHTMLSpans (mkToken env) (mkParse env src) src of
        Inl e \<Rightarrow> Inl e
      | Inr spans \<Rightarrow> map_sum id trimSpace (splice (mkConvert env) src 0 (sortSpans spans)))"


section \<open>The file\<close>

definition parseBool :: "string \<Rightarrow> bool \<times> err option" where
  "parseBool s0 =
     (let s = lowerText s0 in
      if s \<in> set [''yes'', ''true'', ''1'', ''t'', ''y''] then (True, None)
      else if s \<in> set [''no'', ''false'', ''0'', ''f'', ''n''] then (False, None)
      else (False, Some [Msg ''cannot interpret as boolean'']))"

text \<open>\<open>strconv.Atoi\<close> with its value on an error: the nearest integer when the number is out of range, else zero.\<close>

definition atoiValue :: "string \<Rightarrow> int \<times> err option" where
  "atoiValue s =
     (case atoi s of
        Some i \<Rightarrow> (i, None)
      | None \<Rightarrow>
          (let neg = hasPrefix s ''-''; ds = (if neg \<or> hasPrefix s ''+'' then tl s else s) in
           (case parse_digits ds of
              None \<Rightarrow> (0, Some [Msg ''invalid syntax''])
            | Some _ \<Rightarrow> (if neg then - (2 ^ 63) else 2 ^ 63 - 1, Some [Msg ''value out of range'']))))"

text \<open>\<open>^#\s*(.+)\<close> and \<open>^##\s*(.+)\<close> on a line without space around it\<close>

definition headingRe :: "string \<Rightarrow> string \<Rightarrow> string option" where
  "headingRe marks line =
     (case cutPrefix line marks of
        None \<Rightarrow> None
      | Some r \<Rightarrow> if r = [] then None else if dropWhile is_space r = [] then Some [last r] else Some (dropWhile is_space r))"

text \<open>\<open>^\s*-\s*(\w+):\s*(.*)\<close>\<close>

definition kvLineRe :: "string \<Rightarrow> (string \<times> string) option" where
  "kvLineRe line = do {
     r \<leftarrow> cutPrefix (dropWhile is_space line) ''-'';
     (key, r1) \<leftarrow> word1 is_word_char (dropWhile is_space r);
     r2 \<leftarrow> cutPrefix r1 '':'';
     Some (key, dropWhile is_space r2)
   }"

text \<open>\<open>^\s*-\s*(\w+)\s*$\<close>\<close>

definition tagLineRe :: "string \<Rightarrow> string option" where
  "tagLineRe line = do {
     r \<leftarrow> cutPrefix (dropWhile is_space line) ''-'';
     (tag, r1) \<leftarrow> word1 is_word_char (dropWhile is_space r);
     (if dropWhile is_space r1 = [] then Some tag else None)
   }"

text \<open>The challenge as far as it is read, with the options that are not of one host.\<close>

type_synonym markdown = "challengeMeta \<times> ContainerOptions"

function findName :: "string list \<Rightarrow> nat \<Rightarrow> string \<times> nat" where
  "findName lines idx =
     (if idx < length lines then
        (case headingRe ''#'' (trimSpace (lines ! idx)) of
           Some name \<Rightarrow> (name, Suc idx)
         | None \<Rightarrow> findName lines (Suc idx))
      else ('''', idx))"
  by pat_completeness auto
termination
  by (relation "measure (\<lambda>(lines, idx). length lines - idx)") auto

declare findName.simps [simp del]

definition setTop :: "string \<Rightarrow> string \<Rightarrow> challengeMeta \<Rightarrow> err option \<Rightarrow> challengeMeta \<times> err option" where
  "setTop key val md e =
     (let k = lowerText key in
      if k = ''id'' then (md\<lparr>cId := val\<rparr>, e)
      else if k = ''namespace'' then (md\<lparr>cNamespace := val\<rparr>, e)
      else if k = ''type'' then (md\<lparr>cType := val\<rparr>, e)
      else if k = ''category'' then (md\<lparr>cCategory := val\<rparr>, e)
      else if k = ''templatable'' then (case parseBool val of (b, e') \<Rightarrow> (md\<lparr>cTemplatable := b\<rparr>, e'))
      else if k = ''points'' then (case atoiValue val of (i, e') \<Rightarrow> (md\<lparr>cPoints := i\<rparr>, e'))
      else if k = ''maxusers'' then (case atoiValue val of (i, e') \<Rightarrow> (md\<lparr>cMaxUsers := i\<rparr>, e'))
      else (md, Some [Msg ''unrecognized top-level attribute'']))"

text \<open>The lines before the first section; the error is the last one set, which nothing reads again.\<close>

function topLevel :: "string list \<Rightarrow> nat \<Rightarrow> challengeMeta \<Rightarrow> err option \<Rightarrow> challengeMeta \<times> err option \<times> nat" where
  "topLevel lines idx md e =
     (if idx < length lines then
        (let line = trimSpace (lines ! idx) in
         if headingRe ''##'' line \<noteq> None then (md, e, idx)
         else if line = [] then topLevel lines (Suc idx) md e
         else
           (case kvLineRe line of
              None \<Rightarrow> topLevel lines (Suc idx) md (Some [Msg ''unrecognized metadata text''])
            | Some (key, val) \<Rightarrow> (case setTop key val md e of (md', e') \<Rightarrow> topLevel lines (Suc idx) md' e')))
      else (md, e, idx))"
  by pat_completeness auto
termination
  by (relation "measure (\<lambda>(lines, idx, _, _). length lines - idx)") auto

declare topLevel.simps [simp del]

definition joinLines :: "string list \<Rightarrow> string" where
  "joinLines = joinWith (CHR 0x0A)"

text \<open>\<open>^    |^\t\<close> taken off the start of a line\<close>

definition unindent :: "string \<Rightarrow> string" where
  "unindent line = (case cutPrefix line ''    '' of Some r \<Rightarrow> r | None \<Rightarrow> trimPrefix line [CHR 0x09])"

type_synonym hintState = "string list \<times> string list \<times> err option" \<comment> \<open>the hints, the lines of the next, the error\<close>

definition flushHint :: "markdownEnv \<Rightarrow> hintState \<Rightarrow> hintState" where
  "flushHint env = (\<lambda>(hints, hintLines, e).
     if hintLines = [] then (hints, hintLines, e)
     else
       (let (text', e') = (case parseMarkdown env (joinLines hintLines) of Inl x \<Rightarrow> ('''', Some x) | Inr t \<Rightarrow> (t, e));
            hint = trimSpace text'
        in (if hint \<noteq> '''' then hints @ [hint] else hints, hintLines, e')))"

definition hintLine :: "markdownEnv \<Rightarrow> string \<Rightarrow> hintState \<Rightarrow> hintState" where
  "hintLine env rawLine st =
     (if rawLine \<noteq> [] \<and> hd rawLine = CHR ''-'' then
        (case flushHint env st of (hints, _, e) \<Rightarrow> (hints, [trimSpace (tl rawLine)], e))
      else (case st of (hints, hintLines, e) \<Rightarrow> (hints, hintLines @ [unindent rawLine], e)))"

definition parseHints :: "markdownEnv \<Rightarrow> string list \<Rightarrow> string list \<times> err option" where
  "parseHints env lines = (case flushHint env (fold (hintLine env) lines ([], [], None)) of (hints, _, e) \<Rightarrow> (hints, e))"


text \<open>The lines of the options: the last start and end marker, and whether a marker was met before.\<close>

definition yamlMarker :: "string list \<Rightarrow> nat \<Rightarrow> nat \<times> nat \<times> err option \<Rightarrow> nat \<times> nat \<times> err option" where
  "yamlMarker lines i = (\<lambda>(yamlStart, yamlEnd, e).
     if lines ! i = ''```yaml'' then (Suc i, yamlEnd, if yamlStart \<noteq> 0 then Some [Msg ''found multiple start markers for yaml''] else e)
     else if lines ! i = ''```'' then (yamlStart, i, if yamlEnd \<noteq> 0 then Some [Msg ''found multiple end markers for yaml''] else e)
     else (yamlStart, yamlEnd, e))"

definition yamlRange :: "string list \<Rightarrow> nat \<Rightarrow> nat \<Rightarrow> nat \<times> nat \<times> err option" where
  "yamlRange lines startIdx endIdx =
     (case fold (yamlMarker lines) [startIdx..<endIdx] (0, 0, None) of
        (yamlStart, yamlEnd, e) \<Rightarrow>
          if yamlStart = 0 \<and> yamlEnd = 0 then (startIdx, endIdx, e)
          else if (yamlStart = 0) \<noteq> (yamlEnd = 0) then (0, 0, Some [Msg ''found a start/end marker but missing its pair''])
          else (yamlStart, yamlEnd, e))"

definition tagLines :: "string list \<Rightarrow> string list \<times> err option" where
  "tagLines lines =
     fold (\<lambda>raw (tags, e). let line = trimSpace raw in
        if line = '''' then (tags, e)
        else (case tagLineRe line of None \<Rightarrow> (tags, Some [Msg ''unexpected text in tags section'']) | Some t \<Rightarrow> (tags @ [t], e)))
       lines ([], None)"

definition attributeLines :: "string list \<Rightarrow> (string \<times> string) list \<Rightarrow> (string \<times> string) list \<times> err option" where
  "attributeLines lines attrs =
     fold (\<lambda>raw (attrs, e). let line = trimSpace raw in
        if line = '''' then (attrs, e)
        else (case kvLineRe line of None \<Rightarrow> (attrs, Some [Msg ''unexpected text in attributes section'']) | Some (k, v) \<Rightarrow> (mapPut k v attrs, e)))
       lines (attrs, None)"

text \<open>\<open>Inl\<close> is a panic. The error of decoding the options replaces what the markers gave.\<close>

definition processMarkdownSection ::
    "markdownEnv \<Rightarrow> markdown \<Rightarrow> string \<Rightarrow> string list \<Rightarrow> nat \<Rightarrow> nat \<Rightarrow> err + markdown \<times> err option" where
  "processMarkdownSection env st section' lines startIdx endIdx =
     (case (st, goSlice lines startIdx endIdx) of
        (_, Inl e) \<Rightarrow> Inl e
      | ((md, opts), Inr body) \<Rightarrow>
          (let s = lowerText section'; markdown = (case parseMarkdown env (joinLines body) of Inl e \<Rightarrow> ('''', Some e) | Inr t \<Rightarrow> (t, None)) in
           if s = ''description'' then Inr ((md\<lparr>cDescription := fst markdown\<rparr>, opts), snd markdown)
           else if s = ''details'' then Inr ((md\<lparr>cDetails := fst markdown\<rparr>, opts), snd markdown)
           else if s = ''hints'' then (case parseHints env body of (hints, e) \<Rightarrow> Inr ((md\<lparr>cHints := hints\<rparr>, opts), e))
           else if s = ''tags'' then (case tagLines body of (tags, e) \<Rightarrow> Inr ((md\<lparr>cTags := tags\<rparr>, opts), e))
           else if s = ''attributes'' then
             (case attributeLines body (cAttributes md) of (attrs, e) \<Rightarrow> Inr ((md\<lparr>cAttributes := attrs\<rparr>, opts), e))
           else if s = ''challenge options'' then
             (case yamlRange lines startIdx endIdx of
                (yamlStart, yamlEnd, _) \<Rightarrow>
                  (case goSlice lines yamlStart yamlEnd of
                     Inl e \<Rightarrow> Inl e
                   | Inr yaml \<Rightarrow>
                       (case mkYaml env (joinLines yaml) of
                          (e, o') \<Rightarrow> Inr ((md\<lparr>cOverrides := chOverrides o'\<rparr>, chDefault o'), e))))
           else Inr ((md\<lparr>cAttributes := mapPut section' (trimSpace (joinLines body)) (cAttributes md)\<rparr>, opts), None)))"

text \<open>The sections after \<open>idx\<close>; the first error is kept and the rest still read.\<close>

type_synonym sectionState = "markdown \<times> err option \<times> string \<times> nat" \<comment> \<open>with the section and where it starts\<close>

definition endSection :: "markdownEnv \<Rightarrow> string list \<Rightarrow> nat \<Rightarrow> sectionState \<Rightarrow> err + sectionState" where
  "endSection env lines idx = (\<lambda>(st, e, section', startIdx).
     if section' = '''' then Inr (st, e, section', startIdx)
     else
       (case processMarkdownSection env st section' lines startIdx idx of
          Inl p \<Rightarrow> Inl p
        | Inr (st', e') \<Rightarrow> Inr (st', if e' \<noteq> None \<and> e = None then e' else e, section', startIdx)))"

function readSections :: "markdownEnv \<Rightarrow> string list \<Rightarrow> nat \<Rightarrow> sectionState \<Rightarrow> err + sectionState" where
  "readSections env lines idx st =
     (if idx < length lines then
        (case headingRe ''##'' (trimSpace (lines ! idx)) of
           None \<Rightarrow> readSections env lines (Suc idx) st
         | Some section' \<Rightarrow>
             (case endSection env lines idx st of
                Inl p \<Rightarrow> Inl p
              | Inr (md, e, _, _) \<Rightarrow> readSections env lines (Suc idx) (md, e, section', Suc idx)))
      else endSection env lines idx st)"
  by pat_completeness auto
termination
  by (relation "measure (\<lambda>(env, lines, idx, st). length lines - idx)") auto

declare readSections.simps [simp del]

definition zeroContainerOptions :: ContainerOptions where
  "zeroContainerOptions = \<lparr>coInit = False, coCpus = '''', coMemory = '''', coUlimits = [], coPidsLimit = 0, coReadonlyRootfs = False,
     coDroppedCaps = [], coNoNewPrivileges = False, coDiskQuota = '''', coCgroupParent = '''', coCapImmutable = False, coSeccomp = None\<rparr>"

definition zeroChallenge :: challengeMeta where
  "zeroChallenge = challengeRow.extend \<lparr>cId = '''', cName = '''', cNamespace = '''', cType = '''', cDescription = '''', cDetails = '''',
     cSourceChecksum = 0, cMetadataChecksum = 0, cPath = '''', cSolveScript = False, cTemplatable = False, cMaxUsers = 0,
     cCategory = '''', cPoints = 0, cHints = [], cTags = [], cAttributes = [], cHosts = [], cOverrides = []\<rparr> \<lparr>hPortMap = [], hDelivery = DeliveryUnset\<rparr>"

definition loadMarkdownChallenge :: "markdownEnv \<Rightarrow> string \<Rightarrow> err + string \<Rightarrow> err + markdown option" where
  "loadMarkdownChallenge env path file =
     (case file of
        Inl e \<Rightarrow> Inl e
      | Inr data \<Rightarrow>
          (let lines = splitOn (CHR 0x0A) data;
               (name, idx) = findName lines 0;
               (md, e, idx') = topLevel lines idx (zeroChallenge\<lparr>cPath := path, cName := name\<rparr>) None
           in case readSections env lines idx' ((md, zeroContainerOptions), None, '''', 0) of
                Inl p \<Rightarrow> Inl p
              | Inr (st, Some e', _) \<Rightarrow> Inl e'
              | Inr ((md', opts), None, _) \<Rightarrow> Inr (Some (md'\<lparr>cMetadataChecksum := crc32 (bytes_of_string (data @ path))\<rparr>, opts))))"


section \<open>Every tag is converted, once\<close>

text \<open>Tags in the order of the source, without overlap.\<close>

fun orderedFrom :: "nat \<Rightarrow> rawTag list \<Rightarrow> bool" where
  "orderedFrom pos [] = True"
| "orderedFrom pos (t # ts) = (pos \<le> rtStart t \<and> rtStart t < rtEnd t \<and> orderedFrom (rtEnd t) ts)"

definition tagSpan :: "rawTag \<Rightarrow> htmlSpan" where
  "tagSpan t = \<lparr>spStart = rtStart t, spEnd = rtEnd t\<rparr>"

definition encloses :: "htmlSpan \<Rightarrow> htmlSpan \<Rightarrow> bool" where
  "encloses a b \<longleftrightarrow> spStart a \<le> spStart b \<and> spEnd b \<le> spEnd a"

definition apart :: "htmlSpan \<Rightarrow> htmlSpan \<Rightarrow> bool" where
  "apart a b \<longleftrightarrow> spEnd a \<le> spStart b \<or> spEnd b \<le> spStart a"

definition laminar :: "htmlSpan set \<Rightarrow> bool" where
  "laminar S \<longleftrightarrow> (\<forall>a\<in>S. \<forall>b\<in>S. apart a b \<or> encloses a b \<or> encloses b a) \<and> (\<forall>a\<in>S. spStart a < spEnd a)"

lemma tagSpan_simps [simp]: "spStart (tagSpan t) = rtStart t" "spEnd (tagSpan t) = rtEnd t"
  by (simp_all add: tagSpan_def)

text \<open>The state of the pairing: what was read up to \<open>pos\<close> is in a span or still open.\<close>

definition pairing :: "nat \<Rightarrow> rawTag set \<Rightarrow> rawTag list \<Rightarrow> htmlSpan list \<Rightarrow> bool" where
  "pairing pos seen stack spans \<longleftrightarrow>
     (\<forall>t\<in>seen. \<exists>sp\<in>set spans \<union> tagSpan ` set stack. encloses sp (tagSpan t)) \<and>
     laminar (set spans) \<and> (\<forall>sp\<in>set spans. spEnd sp \<le> pos) \<and>
     (\<forall>t\<in>set stack. rtStart t < rtEnd t \<and> rtEnd t \<le> pos \<and> (\<forall>sp\<in>set spans. apart sp (tagSpan t))) \<and>
     sorted_wrt (\<lambda>a b. rtEnd b \<le> rtStart a) stack"

lemma laminar_insert:
  assumes "laminar S" "spStart a < spEnd a" "\<forall>b\<in>S. apart a b \<or> encloses a b \<or> encloses b a"
  shows "laminar (insert a S)"
  using assms by (auto simp: laminar_def apart_def encloses_def)

lemma unstack_Some:
  "unstack name stack = Some (t, rest) \<Longrightarrow> \<exists>inner. stack = inner @ t # rest"
  by (auto simp: unstack_def split: list.splits) (metis takeWhile_dropWhile_id)

lemma pairing_alone:
  assumes "pairing pos seen stack spans" "pos \<le> rtStart t" "rtStart t < rtEnd t"
  shows "pairing (rtEnd t) (insert t seen) stack (spans @ [tagSpan t])"
proof -
  have "laminar (insert (tagSpan t) (set spans))"
    using assms by (intro laminar_insert) (auto simp: pairing_def apart_def)
  then show ?thesis using assms unfolding pairing_def by (fastforce simp: apart_def encloses_def)
qed

lemma pairing_open:
  assumes "pairing pos seen stack spans" "pos \<le> rtStart t" "rtStart t < rtEnd t"
  shows "pairing (rtEnd t) (insert t seen) (t # stack) spans"
  using assms unfolding pairing_def by (fastforce simp: apart_def encloses_def)

lemma pairing_close:
  assumes "pairing pos seen (inner @ opener # rest) spans" "pos \<le> rtStart t" "rtStart t < rtEnd t"
  shows "pairing (rtEnd t) (insert t seen) rest (spans @ [\<lparr>spStart = rtStart opener, spEnd = rtEnd t\<rparr>])"
proof -
  let ?new = "\<lparr>spStart = rtStart opener, spEnd = rtEnd t\<rparr>"
  have opener: "rtStart opener < rtEnd opener" "rtEnd opener \<le> pos" "\<forall>sp\<in>set spans. apart sp (tagSpan opener)"
    and order: "\<forall>a\<in>set inner. rtEnd opener \<le> rtStart a \<and> rtEnd a \<le> pos" "\<forall>r\<in>set rest. rtEnd r \<le> rtStart opener"
    and bounds: "\<forall>sp\<in>set spans. spStart sp < spEnd sp \<and> spEnd sp \<le> pos"
    using assms(1) by (auto simp: pairing_def laminar_def sorted_wrt_append)
  have lam: "laminar (insert ?new (set spans))"
  proof (rule laminar_insert)
    show "laminar (set spans)" using assms(1) by (simp add: pairing_def)
    show "spStart ?new < spEnd ?new" using opener assms by simp
    show "\<forall>b\<in>set spans. apart ?new b \<or> encloses ?new b \<or> encloses b ?new"
    proof
      fix b
      assume b: "b \<in> set spans"
      then have "apart b (tagSpan opener)" "spEnd b \<le> pos" using opener(3) bounds by auto
      then show "apart ?new b \<or> encloses ?new b \<or> encloses b ?new" using opener assms(2,3) by (auto simp: apart_def encloses_def)
    qed
  qed
  have in_new: "encloses ?new (tagSpan a)" if "a \<in> set (inner @ [opener])" for a
    using that opener order assms(2,3) by (auto simp: encloses_def)
  have "\<exists>sp\<in>set (spans @ [?new]) \<union> tagSpan ` set rest. encloses sp (tagSpan u)" if "u \<in> insert t seen" for u
  proof (cases "u = t")
    case True
    then show ?thesis using opener assms(2,3) by (auto simp: encloses_def)
  next
    case False
    then have "u \<in> seen" using that by simp
    then obtain sp where sp: "sp \<in> set spans \<union> tagSpan ` set (inner @ opener # rest)" "encloses sp (tagSpan u)"
      using assms(1) [unfolded pairing_def, THEN conjunct1] by auto
    show ?thesis
    proof (cases "sp \<in> set spans \<union> tagSpan ` set rest")
      case True
      then show ?thesis using sp(2) by auto
    next
      case False
      then obtain a where "a \<in> set (inner @ [opener])" "sp = tagSpan a" using sp(1) by auto
      then have "encloses ?new (tagSpan u)" using in_new [of a] sp(2) by (auto simp: encloses_def)
      then show ?thesis by auto
    qed
  qed
  moreover have "\<forall>r\<in>set rest. \<forall>sp\<in>set (spans @ [?new]). apart sp (tagSpan r)"
    using assms(1) order(2) by (auto simp: pairing_def apart_def)
  ultimately show ?thesis using assms(1) lam bounds opener assms(2,3)
    unfolding pairing_def by (auto simp: sorted_wrt_append)
qed


lemma pairing_end:
  assumes "pairing pos seen stack spans"
  shows "laminar (set spans \<union> tagSpan ` set stack)"
proof -
  have apart_stack: "apart (tagSpan a) (tagSpan b)" if "a \<in> set stack" "b \<in> set stack" "a \<noteq> b" for a b
  proof -
    obtain i j where ij: "i < length stack" "j < length stack" "stack ! i = a" "stack ! j = b" "i \<noteq> j"
      using \<open>a \<in> set stack\<close> \<open>b \<in> set stack\<close> \<open>a \<noteq> b\<close> by (metis in_set_conv_nth)
    have "sorted_wrt (\<lambda>a b. rtEnd b \<le> rtStart a) stack" using assms by (simp add: pairing_def)
    then show ?thesis using ij unfolding sorted_wrt_iff_nth_less by (auto simp: apart_def) (metis linorder_neqE_nat)
  qed
  have lam: "laminar (set spans)" and cross: "\<forall>t\<in>set stack. rtStart t < rtEnd t \<and> (\<forall>sp\<in>set spans. apart sp (tagSpan t))"
    using assms by (simp_all add: pairing_def)
  have "apart a b \<or> encloses a b \<or> encloses b a" if "a \<in> set spans \<union> tagSpan ` set stack" "b \<in> set spans \<union> tagSpan ` set stack" for a b
  proof (cases "a \<in> set spans \<and> b \<in> set spans")
    case True
    then show ?thesis using lam by (simp add: laminar_def)
  next
    case False
    have sym: "apart x y \<longleftrightarrow> apart y x" for x y by (auto simp: apart_def)
    have "apart a b \<or> a = b" using that False cross apart_stack sym by (elim UnE imageE) metis+
    then show ?thesis by (auto simp: encloses_def)
  qed
  moreover have "spStart a < spEnd a" if "a \<in> set spans \<union> tagSpan ` set stack" for a
    using that lam cross by (auto simp: laminar_def)
  ultimately show ?thesis unfolding laminar_def by blast
qed

lemma pairTags_spans:
  assumes "pairing pos seen stack spans" "orderedFrom pos tags"
  shows "laminar (set (pairTags tags stack spans)) \<and>
    (\<forall>t\<in>seen \<union> set tags. \<exists>sp\<in>set (pairTags tags stack spans). encloses sp (tagSpan t))"
  using assms
proof (induction tags stack spans arbitrary: pos seen rule: pairTags.induct)
  case (1 stack spans)
  have "(\<lambda>t. \<lparr>spStart = rtStart t, spEnd = rtEnd t\<rparr>) = tagSpan" by (simp add: fun_eq_iff tagSpan_def)
  then show ?case using pairing_end [OF "1.prems"(1)] "1.prems"(1) by (simp add: pairing_def)
next
  case (2 t ts stack spans)
  have here: "pos \<le> rtStart t" "rtStart t < rtEnd t" "orderedFrom (rtEnd t) ts" using "2.prems" by simp_all
  have seen: "insert t seen \<union> set ts = seen \<union> set (t # ts)" by simp
  note alone = pairing_alone [OF "2.prems"(1) here(1,2), unfolded tagSpan_def]
  show ?case
  proof (cases "rtKind t")
    case tagOpen
    then show ?thesis using "2.IH"(1) [OF tagOpen pairing_open [OF "2.prems"(1) here(1,2)] here(3)] seen by simp
  next
    case tagSelfClosing
    then show ?thesis using "2.IH"(4) [OF tagSelfClosing alone here(3)] seen by simp
  next
    case tagClose
    show ?thesis
    proof (cases "unstack (rtName t) stack")
      case None
      then show ?thesis using "2.IH"(2) [OF tagClose None alone here(3)] tagClose seen by simp
    next
      case (Some found)
      obtain opener rest where found: "found = (opener, rest)" by fastforce
      obtain inner where "stack = inner @ opener # rest" using unstack_Some Some found by blast
      then have "pairing (rtEnd t) (insert t seen) rest (spans @ [\<lparr>spStart = rtStart opener, spEnd = rtEnd t\<rparr>])"
        using pairing_close "2.prems"(1) here(1,2) by blast
      then show ?thesis using "2.IH"(3) [OF tagClose Some [unfolded found] refl _ here(3)] tagClose Some found seen by simp
    qed
  qed
qed


subsection \<open>Choosing and splicing\<close>

lemma set_insertSpan [simp]: "set (insertSpan s ts) = insert s (set ts)"
  by (induction s ts rule: insertSpan.induct) auto

lemma set_sortSpans [simp]: "set (sortSpans spans) = set spans"
  by (induction spans) (auto simp: sortSpans_def)

definition spanLeq :: "htmlSpan \<Rightarrow> htmlSpan \<Rightarrow> bool" where
  "spanLeq a b \<longleftrightarrow> \<not> spanLess b a"

lemma insertSpan_sorted: "sorted_wrt spanLeq ts \<Longrightarrow> sorted_wrt spanLeq (insertSpan s ts)"
  by (induction s ts rule: insertSpan.induct) (auto simp: spanLeq_def spanLess_def split: if_splits)

lemma sortSpans_sorted: "sorted_wrt spanLeq (sortSpans spans)"
  by (induction spans) (auto simp: sortSpans_def insertSpan_sorted)

text \<open>The spans that are converted: those not behind the cursor.\<close>

fun chosen :: "nat \<Rightarrow> htmlSpan list \<Rightarrow> htmlSpan list" where
  "chosen cursor [] = []"
| "chosen cursor (sp # sps) = (if spStart sp < cursor then chosen cursor sps else sp # chosen (spEnd sp) sps)"

lemma chosen_cover:
  assumes "sorted_wrt spanLeq (prev # sps)" "laminar (set (prev # sps))" "a \<in> set sps"
  shows "\<exists>b\<in>set (prev # chosen (spEnd prev) sps). encloses b a"
  using assms
proof (induction sps arbitrary: prev)
  case (Cons sp sps)
  have lam: "laminar (set (prev # sps))" "laminar (set (sp # sps))" using Cons.prems(2) by (auto simp: laminar_def)
  show ?case
  proof (cases "spStart sp < spEnd prev")
    case True
    have "spanLeq prev sp" "apart prev sp \<or> encloses prev sp \<or> encloses sp prev" "spStart sp < spEnd sp"
      using Cons.prems by (simp_all add: laminar_def)
    then have "encloses prev sp" using True by (auto simp: spanLeq_def spanLess_def apart_def encloses_def split: if_splits)
    then show ?thesis using Cons.IH [of prev] Cons.prems lam True by auto
  next
    case False
    show ?thesis
    proof (cases "a = sp")
      case True
      then show ?thesis using False by (auto simp: encloses_def)
    next
      case False
      then show ?thesis using Cons.IH [of sp] Cons.prems lam \<open>\<not> spStart sp < spEnd prev\<close> by auto
    qed
  qed
qed simp

lemma chosen_after: "sp \<in> set (chosen cursor sps) \<Longrightarrow> \<forall>s\<in>set sps. spStart s < spEnd s \<Longrightarrow> cursor \<le> spStart sp"
  by (induction cursor sps rule: chosen.induct) (auto split: if_splits)

lemma chosen_disjoint: "\<forall>s\<in>set sps. spStart s < spEnd s \<Longrightarrow> sorted_wrt (\<lambda>a b. spEnd a \<le> spStart b) (chosen cursor sps)"
  by (induction cursor sps rule: chosen.induct) (auto dest: chosen_after)

text \<open>
  C38. No tag is left in the text and none is converted twice. Given the inline tags of a text in
  their order, well paired or not, the spans that are converted lie one after the other, and each
  tag is within one of them: an opening tag whose closing tag is missing, a stray closing tag and
  an opener between a matched pair as much as a pair.
\<close>

theorem inline_tags_converted_once:
  assumes "orderedFrom 0 tags"
  defines "spans \<equiv> chosen 0 (sortSpans (pairInlineTags tags))"
  shows "sorted_wrt (\<lambda>a b. spEnd a \<le> spStart b) spans \<and> (\<forall>t\<in>set tags. \<exists>sp\<in>set spans. encloses sp (tagSpan t))"
proof -
  let ?all = "pairInlineTags tags"
  have "pairing 0 {} [] []" by (simp add: pairing_def laminar_def)
  then have paired: "laminar (set ?all)" "\<forall>t\<in>set tags. \<exists>sp\<in>set ?all. encloses sp (tagSpan t)"
    using pairTags_spans assms(1) unfolding pairInlineTags_def by auto
  have "\<exists>b\<in>set spans. encloses b a" if "a \<in> set ?all" for a
  proof (cases "sortSpans ?all")
    case Nil
    then show ?thesis using that set_sortSpans [of ?all] by simp
  next
    case (Cons first rest)
    have "set (first # rest) = set ?all" using Cons set_sortSpans [of ?all] by simp
    then have "laminar (set (first # rest))" "a = first \<or> a \<in> set rest" using paired(1) that by auto
    moreover have "sorted_wrt spanLeq (first # rest)" using sortSpans_sorted [of ?all] Cons by simp
    moreover have "encloses a a" by (simp add: encloses_def)
    ultimately show ?thesis using chosen_cover [of first rest a] unfolding spans_def Cons by auto
  qed
  moreover have "encloses b c" if "encloses b a" "encloses a c" for a b c using that by (auto simp: encloses_def)
  ultimately have "\<forall>t\<in>set tags. \<exists>sp\<in>set spans. encloses sp (tagSpan t)" using paired(2) by meson
  moreover have "sorted_wrt (\<lambda>a b. spEnd a \<le> spStart b) spans"
    unfolding spans_def using paired(1) by (intro chosen_disjoint) (auto simp: laminar_def)
  ultimately show ?thesis by simp
qed


text \<open>A text cut at the chosen spans: \<open>True\<close> for what is converted.\<close>

fun pieces :: "string \<Rightarrow> nat \<Rightarrow> htmlSpan list \<Rightarrow> (bool \<times> string) list" where
  "pieces src cursor [] = [(False, drop cursor src)]"
| "pieces src cursor (sp # sps) =
     (False, drop cursor (take (spStart sp) src)) # (True, drop (spStart sp) (take (spEnd sp) src)) # pieces src (spEnd sp) sps"

definition in_bounds :: "string \<Rightarrow> htmlSpan list \<Rightarrow> bool" where
  "in_bounds src = list_all (\<lambda>sp. spStart sp \<le> spEnd sp \<and> spEnd sp \<le> length src)"


lemma goSlice_in: "a \<le> b \<Longrightarrow> b \<le> length xs \<Longrightarrow> goSlice xs a b = Inr (drop a (take b xs))"
  by (simp add: goSlice_def)

lemma splice_pieces:
  assumes "in_bounds src sps" "cursor \<le> length src"
  shows "splice (\<lambda>s. Inr (conv s)) src cursor sps =
    Inr (concat (map (\<lambda>(html, s). if html then conv s else s) (pieces src cursor (chosen cursor sps))))"
  using assms
proof (induction sps arbitrary: cursor)
  case (Cons sp sps)
  then have bounds: "spStart sp \<le> spEnd sp" "spEnd sp \<le> length src" "in_bounds src sps" by (simp_all add: in_bounds_def)
  show ?case
  proof (cases "spStart sp < cursor")
    case True
    then show ?thesis using Cons bounds by simp
  next
    case False
    then show ?thesis using Cons.IH [of "spEnd sp"] bounds by (simp add: goSlice_in)
  qed
qed simp

lemma pieces_whole:
  assumes "in_bounds src sps"
  shows "concat (map snd (pieces src cursor (chosen cursor sps))) = drop cursor src"
  using assms
proof (induction sps arbitrary: cursor)
  case (Cons sp sps)
  then have bounds: "spStart sp \<le> spEnd sp" "spEnd sp \<le> length src" "in_bounds src sps" by (simp_all add: in_bounds_def)
  have cut: "drop a (take b src) @ drop b src = drop a src" if "a \<le> b" for a b
    using that by (metis append_take_drop_id drop_append drop_eq_Nil2 drop_take le_add_diff_inverse drop_drop add.commute)
  show ?case
  proof (cases "spStart sp < cursor")
    case False
    then have "concat (map snd (pieces src cursor (chosen cursor (sp # sps)))) =
        drop cursor (take (spStart sp) src) @ drop (spStart sp) (take (spEnd sp) src) @ drop (spEnd sp) src"
      using Cons.IH [of "spEnd sp"] bounds by simp
    also have "\<dots> = drop cursor src" using cut [OF bounds(1)] cut [of cursor "spStart sp"] False by simp
    finally show ?thesis .
  qed (use Cons.IH bounds in simp)
qed simp

text \<open>What the parser promises of the offsets in a document: inline tags in their order, and everything within the text.\<close>

fun inlineSegs :: "mdNode \<Rightarrow> (nat \<times> nat) list" where
  "inlineSegs (HTMLBlock segs) = []"
| "inlineSegs (RawHTML segs children) = segs @ concat (map inlineSegs children)"
| "inlineSegs (OtherNode children) = concat (map inlineSegs children)"

fun blockSpans :: "mdNode \<Rightarrow> htmlSpan list" where
  "blockSpans (HTMLBlock segs) = (if segs = [] then [] else [\<lparr>spStart = fst (hd segs), spEnd = snd (last segs)\<rparr>])"
| "blockSpans (RawHTML segs children) = concat (map blockSpans children)"
| "blockSpans (OtherNode children) = concat (map blockSpans children)"

fun orderedSegs :: "nat \<Rightarrow> nat \<Rightarrow> (nat \<times> nat) list \<Rightarrow> bool" where
  "orderedSegs n pos [] = True"
| "orderedSegs n pos ((start, stop) # segs) = (pos \<le> start \<and> start < stop \<and> stop \<le> n \<and> orderedSegs n stop segs)"

definition offsets_ok :: "string \<Rightarrow> mdNode \<Rightarrow> bool" where
  "offsets_ok src doc \<longleftrightarrow> orderedSegs (length src) 0 (inlineSegs doc) \<and> in_bounds src (blockSpans doc)"

definition tagOf :: "(string \<Rightarrow> htmlToken) \<Rightarrow> string \<Rightarrow> nat \<times> nat \<Rightarrow> rawTag list" where
  "tagOf token src = (\<lambda>(start, stop). case parseRawTag token (drop start (take stop src)) of
     None \<Rightarrow> [] | Some (name, kind) \<Rightarrow> [\<lparr>rtStart = start, rtEnd = stop, rtName = name, rtKind = kind\<rparr>])"

definition docTags :: "(string \<Rightarrow> htmlToken) \<Rightarrow> string \<Rightarrow> mdNode \<Rightarrow> rawTag list" where
  "docTags token src doc = concat (map (tagOf token src) (inlineSegs doc))"

lemma orderedSegs_in: "orderedSegs n pos segs \<Longrightarrow> seg \<in> set segs \<Longrightarrow> fst seg < snd seg \<and> snd seg \<le> n"
  by (induction n pos segs rule: orderedSegs.induct) auto

lemma rawTags_in:
  "\<forall>seg\<in>set segs. fst seg < snd seg \<and> snd seg \<le> length src \<Longrightarrow> rawTags token src segs = Inr (concat (map (tagOf token src) segs))"
  by (induction token src segs rule: rawTags.induct) (auto simp: goSlice_in tagOf_def split: option.splits)

lemma collectNode_in:
  "\<forall>seg\<in>set (inlineSegs node). fst seg < snd seg \<and> snd seg \<le> length src \<Longrightarrow>
     collectNode token src node = Inr (blockSpans node, docTags token src node)"
  "\<forall>seg\<in>set (concat (map inlineSegs nodes)). fst seg < snd seg \<and> snd seg \<le> length src \<Longrightarrow>
     collectNodes token src nodes = Inr (concat (map blockSpans nodes), concat (map (docTags token src) nodes))"
proof (induction token src node and token src nodes rule: collectNode_collectNodes.induct)
  case (2 token src segs children)
  then have "rawTags token src segs = Inr (concat (map (tagOf token src) segs))" by (intro rawTags_in) simp
  moreover have "docTags token src (RawHTML segs children) = concat (map (tagOf token src) segs) @ concat (map (docTags token src) children)"
    by (induction children) (simp_all add: docTags_def)
  ultimately show ?case using 2 by simp
next
  case (3 token src children)
  have "concat (map (docTags token src) children) = docTags token src (OtherNode children)"
    by (induction children) (simp_all add: docTags_def)
  then show ?case using 3 by simp
qed (simp_all add: docTags_def)

lemma docTags_ordered: "orderedSegs n pos segs \<Longrightarrow> orderedFrom pos (concat (map (tagOf token src) segs))"
proof (induction n pos segs rule: orderedSegs.induct)
  case (2 n pos start stop segs)
  have weaken: "orderedFrom b ts \<Longrightarrow> a \<le> b \<Longrightarrow> orderedFrom a ts" for a b ts by (cases ts) auto
  have "orderedFrom pos (concat (map (tagOf token src) segs))" using 2 weaken [of stop _ pos] by simp
  then show ?case using 2 by (auto simp: tagOf_def split: option.split)
qed simp

lemma pairTags_end:
  "sp \<in> set (pairTags tags stack spans) \<Longrightarrow> sp \<in> set spans \<or> (\<exists>t\<in>set tags \<union> set stack. spEnd sp = rtEnd t)"
proof (induction tags stack spans rule: pairTags.induct)
  case (2 t ts stack spans)
  have "set rest \<subseteq> set stack" if "unstack (rtName t) stack = Some (opener, rest)" for opener rest
    using unstack_Some [OF that] by auto
  note sub = this
  show ?case
  proof (cases "rtKind t")
    case tagOpen
    then show ?thesis using "2.IH"(1) "2.prems" by auto
  next
    case tagSelfClosing
    then show ?thesis using "2.IH"(4) "2.prems" by auto
  next
    case tagClose
    show ?thesis
    proof (cases "unstack (rtName t) stack")
      case None
      then show ?thesis using "2.IH"(2) [OF tagClose None] "2.prems" tagClose by auto
    next
      case (Some found)
      obtain opener rest where found: "found = (opener, rest)" by fastforce
      show ?thesis using "2.IH"(3) [OF tagClose Some [unfolded found] refl] "2.prems" tagClose Some found sub [of opener rest] by auto
    qed
  qed
qed auto

lemma collectHTMLSpans_in:
  assumes "offsets_ok src doc"
  shows "collectHTMLSpans token doc src = Inr (blockSpans doc @ pairInlineTags (docTags token src doc))"
    and "in_bounds src (blockSpans doc @ pairInlineTags (docTags token src doc))" and "orderedFrom 0 (docTags token src doc)"
proof -
  let ?tags = "docTags token src doc"
  have segs: "\<forall>seg\<in>set (inlineSegs doc). fst seg < snd seg \<and> snd seg \<le> length src"
    using assms orderedSegs_in unfolding offsets_ok_def by blast
  show "collectHTMLSpans token doc src = Inr (blockSpans doc @ pairInlineTags ?tags)"
    using collectNode_in(1) [OF segs] by (simp add: collectHTMLSpans_def)
  show ordered: "orderedFrom 0 ?tags"
    unfolding docTags_def by (rule docTags_ordered [of "length src"]) (use assms in \<open>simp add: offsets_ok_def\<close>)
  have "rtEnd t \<le> length src" if "t \<in> set ?tags" for t
    using that segs by (fastforce simp: docTags_def tagOf_def split: option.splits)
  then have "spEnd sp \<le> length src" if "sp \<in> set (pairInlineTags ?tags)" for sp
    using that pairTags_end [of sp ?tags "[]" "[]"] by (auto simp: pairInlineTags_def)
  moreover have "pairing 0 {} [] []" by (simp add: pairing_def laminar_def)
  then have "laminar (set (pairInlineTags ?tags))" using pairTags_spans ordered unfolding pairInlineTags_def by blast
  then have "spStart sp < spEnd sp" if "sp \<in> set (pairInlineTags ?tags)" for sp using that by (simp add: laminar_def)
  ultimately show "in_bounds src (blockSpans doc @ pairInlineTags ?tags)"
    using assms by (auto simp: in_bounds_def offsets_ok_def list_all_iff less_imp_le)
qed

text \<open>
  HTML is converted in place. The text of an author is cut at the blocks and tags found in it;
  what the converter makes of a span takes its place and everything between is kept to the letter,
  so that the pieces put together are the text itself. The offsets a parser gives never make it
  panic, as long as they lie in the text and follow each other.
\<close>

theorem parseMarkdown_in_place:
  assumes "offsets_ok src (mkParse env src)" "mkConvert env = (\<lambda>s. Inr (conv s))"
  defines "ps \<equiv> pieces src 0 (chosen 0 (sortSpans (blockSpans (mkParse env src) @ pairInlineTags (docTags (mkToken env) src (mkParse env src)))))"
  shows "parseMarkdown env src = Inr (trimSpace (concat (map (\<lambda>(html, s). if html then conv s else s) ps))) \<and> concat (map snd ps) = src"
proof -
  let ?spans = "blockSpans (mkParse env src) @ pairInlineTags (docTags (mkToken env) src (mkParse env src))"
  note spans = collectHTMLSpans_in [OF assms(1), of "mkToken env"]
  have "in_bounds src (sortSpans ?spans)" using spans(2) unfolding in_bounds_def list_all_iff set_sortSpans .
  then show ?thesis using assms(2) spans(1) splice_pieces [of src "sortSpans ?spans" 0 conv] pieces_whole [of src "sortSpans ?spans" 0]
    by (simp add: parseMarkdown_def ps_def)
qed


section \<open>Sections and options\<close>

text \<open>The sections of a file: name, and the lines from where to where.\<close>

definition closedAt :: "string \<times> nat \<Rightarrow> nat \<Rightarrow> (string \<times> nat \<times> nat) list" where
  "closedAt cur idx = (if fst cur = '''' then [] else [(fst cur, snd cur, idx)])"

function sectionsFrom :: "string list \<Rightarrow> nat \<Rightarrow> string \<times> nat \<Rightarrow> (string \<times> nat \<times> nat) list" where
  "sectionsFrom lines idx cur =
     (if idx < length lines then
        (case headingRe ''##'' (trimSpace (lines ! idx)) of
           None \<Rightarrow> sectionsFrom lines (Suc idx) cur
         | Some name \<Rightarrow> closedAt cur idx @ sectionsFrom lines (Suc idx) (name, Suc idx))
      else closedAt cur idx)"
  by pat_completeness auto
termination
  by (relation "measure (\<lambda>(lines, idx, cur). length lines - idx)") auto

declare sectionsFrom.simps [simp del]

fun runSections :: "markdownEnv \<Rightarrow> string list \<Rightarrow> (string \<times> nat \<times> nat) list \<Rightarrow> markdown \<times> err option \<Rightarrow> err + markdown \<times> err option" where
  "runSections env lines [] (st, e) = Inr (st, e)"
| "runSections env lines ((name, start, stop) # secs) (st, e) =
     (case processMarkdownSection env st name lines start stop of
        Inl p \<Rightarrow> Inl p
      | Inr (st', e') \<Rightarrow> runSections env lines secs (st', if e' \<noteq> None \<and> e = None then e' else e))"

lemma runSections_append:
  "runSections env lines (a @ b) ste = (case runSections env lines a ste of Inl p \<Rightarrow> Inl p | Inr ste' \<Rightarrow> runSections env lines b ste')"
  by (induction env lines a ste rule: runSections.induct) (auto split: sum.split)

lemma endSection_run:
  "endSection env lines idx (st, e, cur) =
     (case runSections env lines (closedAt cur idx) (st, e) of Inl p \<Rightarrow> Inl p | Inr (st', e') \<Rightarrow> Inr (st', e', cur))"
  by (cases cur) (auto simp: endSection_def closedAt_def split: sum.split prod.split)

definition sectionsDone :: "err + sectionState \<Rightarrow> err + markdown \<times> err option" where
  "sectionsDone r = (case r of Inl p \<Rightarrow> Inl p | Inr (st, e, _) \<Rightarrow> Inr (st, e))"

lemma readSections_run: "sectionsDone (readSections env lines idx (st, e, cur)) = runSections env lines (sectionsFrom lines idx cur) (st, e)"
proof (induction lines idx cur arbitrary: st e rule: sectionsFrom.induct)
  case (1 lines idx cur)
  show ?case
  proof (cases "idx < length lines")
    case False
    then have "readSections env lines idx (st, e, cur) = endSection env lines idx (st, e, cur)" "sectionsFrom lines idx cur = closedAt cur idx"
      by (simp_all add: readSections.simps [of env lines idx] sectionsFrom.simps [of lines idx])
    then show ?thesis by (auto simp: sectionsDone_def endSection_run split: sum.split)
  next
    case True
    show ?thesis
    proof (cases "headingRe ''##'' (trimSpace (lines ! idx))")
      case None
      then show ?thesis using 1(1) [OF True None] True
        by (simp add: readSections.simps [of env lines idx] sectionsFrom.simps [of lines idx])
    next
      case (Some name)
      then have sections: "sectionsFrom lines idx cur = closedAt cur idx @ sectionsFrom lines (Suc idx) (name, Suc idx)"
        and read: "readSections env lines idx (st, e, cur) = (case endSection env lines idx (st, e, cur) of
            Inl p \<Rightarrow> Inl p | Inr (md, e, _, _) \<Rightarrow> readSections env lines (Suc idx) (md, e, name, Suc idx))"
        using True by (simp_all add: readSections.simps [of env lines idx] sectionsFrom.simps [of lines idx])
      show ?thesis
      proof (cases "runSections env lines (closedAt cur idx) (st, e)")
        case (Inl p)
        then show ?thesis unfolding read sections runSections_append endSection_run by (simp add: sectionsDone_def)
      next
        case (Inr ste)
        then show ?thesis using 1(2) [OF True Some, of "fst ste" "snd ste"]
          unfolding read sections runSections_append endSection_run by (cases ste; cases cur) simp
      qed
    qed
  qed
qed


definition is_options :: "string \<times> nat \<times> nat \<Rightarrow> bool" where
  "is_options sec \<longleftrightarrow> lowerText (fst sec) = ''challenge options''"

definition yamlText :: "string list \<Rightarrow> string \<times> nat \<times> nat \<Rightarrow> string" where
  "yamlText lines sec = (case yamlRange lines (fst (snd sec)) (snd (snd sec)) of (a, b, _) \<Rightarrow> joinLines (drop a (take b lines)))"

definition declared :: "markdown \<Rightarrow> ChallengeOptions" where
  "declared st = \<lparr>chDefault = snd st, chOverrides = cOverrides (fst st)\<rparr>"

lemma section_options:
  assumes "processMarkdownSection env st name lines start stop = Inr (st', e)"
  shows "if is_options (name, start, stop) then mkYaml env (yamlText lines (name, start, stop)) = (e, declared st') else declared st' = declared st"
proof (cases "lowerText name = ''challenge options''")
  case True
  obtain a b e0 where range: "yamlRange lines start stop = (a, b, e0)" by (metis prod.exhaust)
  obtain md opts where st: "st = (md, opts)" by fastforce
  obtain e1 o' where yaml: "mkYaml env (joinLines (drop a (take b lines))) = (e1, o')" by fastforce
  have "st' = (md\<lparr>cOverrides := chOverrides o'\<rparr>, chDefault o') \<and> e = e1"
    using assms True range st yaml by (auto simp: processMarkdownSection_def Let_def goSlice_def split: if_splits)
  then show ?thesis using True range yaml by (simp add: is_options_def yamlText_def declared_def)
next
  case False
  then have "declared st' = declared st"
    using assms by (cases st) (auto simp: processMarkdownSection_def Let_def declared_def split: sum.splits if_splits prod.splits)
  then show ?thesis using False by (simp add: is_options_def)
qed

lemma runSections_options:
  assumes "runSections env lines secs (st, e) = Inr (st', None)"
  shows "e = None \<and> list_all (\<lambda>sec. fst (mkYaml env (yamlText lines sec)) = None) (filter is_options secs) \<and>
    declared st' = (if filter is_options secs = [] then declared st else snd (mkYaml env (yamlText lines (last (filter is_options secs)))))"
  using assms
proof (induction env lines secs "(st, e)" arbitrary: st e rule: runSections.induct)
  case (2 env lines name start stop secs st e)
  let ?sec = "(name, start, stop)"
  obtain st1 e1 where one: "processMarkdownSection env st name lines start stop = Inr (st1, e1)"
    using "2.prems" by (auto split: sum.splits)
  have rest: "runSections env lines secs (st1, if e1 \<noteq> None \<and> e = None then e1 else e) = Inr (st', None)" using "2.prems" one by simp
  note later = "2.hyps" [OF one refl rest]
  note here = section_options [OF one]
  have e: "e = None" "e1 = None" using later by (auto split: if_splits)
  show ?case
  proof (cases "is_options ?sec")
    case True
    then have "mkYaml env (yamlText lines ?sec) = (None, declared st1)" using here e by simp
    then show ?thesis using True later e by simp
  next
    case False
    then show ?thesis using later here e by simp
  qed
qed simp

lemma setTop_keeps: "setTop key val md e = (md', e') \<Longrightarrow> (cOverrides md', hPortMap md') = (cOverrides md, hPortMap md)"
  by (auto simp: setTop_def Let_def split: if_splits prod.splits)

lemma topLevel_keeps: "topLevel lines idx md e = (md', e', idx') \<Longrightarrow> (cOverrides md', hPortMap md') = (cOverrides md, hPortMap md)"
proof (induction lines idx md e rule: topLevel.induct)
  case (1 lines idx md e)
  let ?line = "trimSpace (lines ! idx)"
  show ?case
  proof (cases "idx < length lines \<and> headingRe ''##'' ?line = None")
    case False
    then show ?thesis using "1.prems" by (subst (asm) topLevel.simps) (auto simp: Let_def split: if_splits)
  next
    case True
    show ?thesis
    proof (cases "?line = [] \<or> kvLineRe ?line = None")
      case True': True
      then show ?thesis using 1 True by (subst (asm) (3) topLevel.simps) (auto simp: Let_def split: if_splits option.splits)
    next
      case False
      then show ?thesis using 1 True setTop_keeps by (subst (asm) (3) topLevel.simps) (auto simp: Let_def split: if_splits option.splits prod.splits)
    qed
  qed
qed


lemma topLevel_sections: "topLevel lines idx md e = (md', e', idx') \<Longrightarrow> sectionsFrom lines idx' cur = sectionsFrom lines idx cur"
proof (induction lines idx md e rule: topLevel.induct)
  case (1 lines idx md e)
  let ?line = "trimSpace (lines ! idx)"
  show ?case
  proof (cases "idx < length lines \<and> headingRe ''##'' ?line = None")
    case False
    then have "idx' = idx" using "1.prems" by (subst (asm) topLevel.simps) (auto simp: Let_def split: if_splits)
    then show ?thesis by simp
  next
    case True
    then have skip: "sectionsFrom lines idx cur = sectionsFrom lines (Suc idx) cur" by (simp add: sectionsFrom.simps [of lines idx])
    show ?thesis
    proof (cases "?line = [] \<or> kvLineRe ?line = None")
      case True': True
      then show ?thesis using 1 True skip by (subst (asm) (3) topLevel.simps) (auto simp: Let_def split: if_splits option.splits)
    next
      case False
      then show ?thesis using 1 True skip by (subst (asm) (3) topLevel.simps) (auto simp: Let_def split: if_splits option.splits prod.splits)
    qed
  qed
qed

definition sectionsOf :: "string list \<Rightarrow> (string \<times> nat \<times> nat) list" where
  "sectionsOf lines = sectionsFrom lines (snd (findName lines 0)) ('''', 0)"

definition noOptions :: ChallengeOptions where
  "noOptions = \<lparr>chDefault = zeroContainerOptions, chOverrides = []\<rparr>"

text \<open>
  C30. The options of a challenge that loads are those decoded from its file. The text taken from
  each section of options was decoded without an error, and what the last one gave is what the
  challenge has; a file without such a section has none. No error of the decoder is passed over,
  whatever the other sections hold.
\<close>

theorem markdown_options_declared:
  assumes "loadMarkdownChallenge env path (Inr data) = Inr (Some (md, opts))"
  defines "lines \<equiv> splitOn (CHR 0x0A) data"
  defines "secs \<equiv> filter is_options (sectionsOf lines)"
  shows "list_all (\<lambda>sec. fst (mkYaml env (yamlText lines sec)) = None) secs \<and>
    declared (md, opts) = (if secs = [] then noOptions else snd (mkYaml env (yamlText lines (last secs))))"
proof -
  obtain name idx where name: "findName lines 0 = (name, idx)" by fastforce
  obtain md0 e idx' where top: "topLevel lines idx (zeroChallenge\<lparr>cPath := path, cName := name\<rparr>) None = (md0, e, idx')" by (metis prod.exhaust)
  from assms(1) name top obtain md1 cur where read: "readSections env lines idx' ((md0, zeroContainerOptions), None, '''', 0) = Inr ((md1, opts), None, cur)"
    and md: "cOverrides md = cOverrides md1"
    unfolding loadMarkdownChallenge_def lines_def [symmetric] by (auto simp: Let_def lines_def [symmetric] split: sum.splits option.splits)
  have "sectionsOf lines = sectionsFrom lines idx' ('''', 0)" using topLevel_sections [OF top] name by (simp add: sectionsOf_def)
  then have "runSections env lines (sectionsOf lines) ((md0, zeroContainerOptions), None) = Inr ((md1, opts), None)"
    using readSections_run [of env lines idx' "(md0, zeroContainerOptions)" None "('''', 0)"] read by (simp add: sectionsDone_def)
  moreover have "declared (md0, zeroContainerOptions) = noOptions"
    using topLevel_keeps [OF top] by (simp add: declared_def noOptions_def zeroChallenge_def challengeRow.defs)
  moreover have "declared (md1, opts) = declared (md, opts)" using md by (simp add: declared_def)
  ultimately show ?thesis using runSections_options secs_def by metis
qed

text \<open>A file never sets ports: they come from the Dockerfile.\<close>

lemma runSections_ports: "runSections env lines secs ste = Inr ste' \<Longrightarrow> hPortMap (fst (fst ste')) = hPortMap (fst (fst ste))"
proof (induction env lines secs ste rule: runSections.induct)
  case (2 env lines name start stop secs st e)
  have "hPortMap (fst st') = hPortMap (fst st)" if "processMarkdownSection env st name lines start stop = Inr (st', e')" for st' e'
    using that by (cases st) (auto simp: processMarkdownSection_def Let_def split: sum.splits if_splits prod.splits)
  then show ?case using 2 by (fastforce split: sum.splits)
qed simp

lemma loadMarkdown_no_ports:
  assumes "loadMarkdownChallenge env path file = Inr (Some (md, opts))"
  shows "hPortMap md = []"
proof -
  obtain data where data: "file = Inr data" using assms by (auto simp: loadMarkdownChallenge_def split: sum.splits)
  define lines where "lines = splitOn (CHR 0x0A) data"
  obtain name idx where name: "findName lines 0 = (name, idx)" by fastforce
  obtain md0 e idx' where top: "topLevel lines idx (zeroChallenge\<lparr>cPath := path, cName := name\<rparr>) None = (md0, e, idx')" by (metis prod.exhaust)
  from assms data name top obtain md1 cur where "readSections env lines idx' ((md0, zeroContainerOptions), None, '''', 0) = Inr ((md1, opts), None, cur)"
    and md: "hPortMap md = hPortMap md1"
    unfolding loadMarkdownChallenge_def by (auto simp: Let_def lines_def [symmetric] split: sum.splits option.splits)
  then have "runSections env lines (sectionsFrom lines idx' ('''', 0)) ((md0, zeroContainerOptions), None) = Inr ((md1, opts), None)"
    using readSections_run [of env lines idx' "(md0, zeroContainerOptions)" None "('''', 0)"] by (simp add: sectionsDone_def)
  then have "hPortMap md1 = hPortMap md0" using runSections_ports by fastforce
  then show ?thesis using md topLevel_keeps [OF top] by (simp add: zeroChallenge_def challengeRow.defs)
qed

text \<open>
  C27. What the loader makes of a challenge directory is what the daemon takes. A challenge read from
  its \<open>problem.md\<close> and Dockerfile, handed over, passes every check on the challenge itself, so
  that only its builds are judged: its id is a challenge id as soon as its name leaves something
  to name it by, it has a type, and hosts with proper names. What is left to ask is that its ports
  are on hosts that are launched.
\<close>

theorem challenge_file_handed_over:
  assumes "loadMarkdownChallenge menv path file = Inr (Some (md0, opts))"
    and "loadChallenge env path ''problem.md'' (Inr (Some (md0, opts))) = Inr (Some md)"
    and "sanitizeName (given_id md0) \<noteq> ''''"
    and "list_all (\<lambda>(_, host, _). host \<in> fst ` set (cHosts md)) (hPortMap md)"
    and "hoChallenge h = Some md"
  shows "checkHandOver henv (cId md) (Some h) =
    checkBuilds md (templateChecksum (heDockerfile henv) (cType md)) (hoPinFingerprint h) [] (hoBuilds h)"
  using loaded_challenge_handed_over [OF assms(2) loadMarkdown_no_ports [OF assms(1)] assms(3,4,5)] .

lemma unpaired_markers:
  assumes "''```'' \<notin> set (drop start (take stop lines))" "stop \<le> length lines"
  shows "\<exists>ys e. fold (yamlMarker lines) [start..<stop] (ys0, 0, e0) = (ys, 0, e) \<and>
    (ys = 0 \<longleftrightarrow> ys0 = 0 \<and> ''```yaml'' \<notin> set (drop start (take stop lines)))"
  using assms
proof (induction "stop - start" arbitrary: start ys0 e0)
  case (Suc n)
  then have lt: "start < stop" by simp
  have split: "drop start (take stop lines) = lines ! start # drop (Suc start) (take stop lines)"
    using lt Suc.prems(2) by (simp add: Cons_nth_drop_Suc [symmetric])
  have up: "[start..<stop] = start # [Suc start..<stop]" using lt by (simp add: upt_conv_Cons)
  obtain ys1 e1 where one: "yamlMarker lines start (ys0, 0, e0) = (ys1, 0, e1)" and ys1: "ys1 = 0 \<longleftrightarrow> ys0 = 0 \<and> lines ! start \<noteq> ''```yaml''"
  proof (cases "lines ! start = ''```yaml''")
    case True
    then show ?thesis using that [of "Suc start"] by (simp add: yamlMarker_def)
  next
    case False
    moreover have "lines ! start \<noteq> ''```''" using Suc.prems(1) split by auto
    ultimately show ?thesis using that [of ys0 e0] by (simp add: yamlMarker_def)
  qed
  have "n = stop - Suc start" using Suc.hyps(2) by simp
  then obtain ys e where "fold (yamlMarker lines) [Suc start..<stop] (ys1, 0, e1) = (ys, 0, e)"
    and "ys = 0 \<longleftrightarrow> ys1 = 0 \<and> ''```yaml'' \<notin> set (drop (Suc start) (take stop lines))"
    using Suc.hyps(1) [of "Suc start" ys1 e1] Suc.prems split by auto
  then show ?case using one ys1 split up by (intro exI [of _ ys] exI [of _ e]) auto
qed simp



section \<open>Instances\<close>

definition md_env :: markdownEnv where
  "md_env = \<lparr>mkParse = (\<lambda>src. OtherNode [RawHTML [(3, 6), (7, 11)] []]), mkToken = (\<lambda>s. if hasPrefix s ''</'' then EndTagToken ''b'' else StartTagToken ''B''),
     mkConvert = (\<lambda>s. Inr (''*'' @ s @ ''*'')), mkYaml = (\<lambda>s. if s = ''cpus: 1.5'' then (None, noOptions\<lparr>chDefault := zeroContainerOptions\<lparr>coCpus := ''1.5''\<rparr>\<rparr>) else (None, noOptions))\<rparr>"

definition md_src :: string where "md_src = ''ab <b>c</b> d''"

theorem parseMarkdown_in_place_witness: "parseMarkdown md_env md_src = Inr ''ab *<b>c</b>* d''"
proof -
  have "offsets_ok md_src (mkParse md_env md_src)" by code_simp
  moreover have "mkConvert md_env = (\<lambda>s. Inr (''*'' @ s @ ''*''))" by (simp add: md_env_def)
  moreover have "trimSpace (concat (map (\<lambda>(html, s). if html then ''*'' @ s @ ''*'' else s) (pieces md_src 0 (chosen 0 (sortSpans (blockSpans (mkParse md_env md_src) @
      pairInlineTags (docTags (mkToken md_env) md_src (mkParse md_env md_src)))))))) = ''ab *<b>c</b>* d''" by code_simp
  ultimately show ?thesis using parseMarkdown_in_place [of md_src md_env "\<lambda>s. ''*'' @ s @ ''*''"] by simp
qed

definition md_tags :: "rawTag list" where
  "md_tags = [\<lparr>rtStart = 0, rtEnd = 3, rtName = ''b'', rtKind = tagOpen\<rparr>, \<lparr>rtStart = 5, rtEnd = 8, rtName = ''i'', rtKind = tagOpen\<rparr>,
     \<lparr>rtStart = 9, rtEnd = 13, rtName = ''b'', rtKind = tagClose\<rparr>, \<lparr>rtStart = 14, rtEnd = 18, rtName = ''i'', rtKind = tagClose\<rparr>]"

theorem inline_tags_converted_once_witness:
  "list_ex (\<lambda>sp. encloses sp (tagSpan (md_tags ! 1))) (chosen 0 (sortSpans (pairInlineTags md_tags))) \<and>
   map spEnd (chosen 0 (sortSpans (pairInlineTags md_tags))) = [13, 18]"
proof -
  have "orderedFrom 0 md_tags" "map spEnd (chosen 0 (sortSpans (pairInlineTags md_tags))) = [13, 18]" by code_simp+
  moreover have "md_tags ! 1 \<in> set md_tags" by (simp add: md_tags_def)
  ultimately show ?thesis using inline_tags_converted_once [of md_tags] by (auto simp: list_ex_iff)
qed

definition md_file :: string where
  "md_file = joinLines [''# A'', ''- type: custom'', ''## Challenge Options'', ''```yaml'', ''cpus: 1.5'', ''```'', ''## Tags'', ''- web'']"

definition md_read :: markdown where
  "md_read = (case loadMarkdownChallenge md_env ''p'' (Inr md_file) of Inr (Some st) \<Rightarrow> st | _ \<Rightarrow> (zeroChallenge, zeroContainerOptions))"

theorem markdown_options_declared_witness: "coCpus (snd md_read) = ''1.5''"
proof -
  obtain md opts where st: "md_read = (md, opts)" by fastforce
  let ?lines = "splitOn (CHR 0x0A) md_file"
  have "(case readSections md_env ?lines 2 ((fst (topLevel ?lines 1 (zeroChallenge\<lparr>cPath := ''p'', cName := ''A''\<rparr>) None), zeroContainerOptions), None, '''', 0) of
      Inr (_, None, _) \<Rightarrow> True | _ \<Rightarrow> False)"
    "findName ?lines 0 = (''A'', 1)" "snd (snd (topLevel ?lines 1 (zeroChallenge\<lparr>cPath := ''p'', cName := ''A''\<rparr>) None)) = 2" by code_simp+
  then have "(case loadMarkdownChallenge md_env ''p'' (Inr md_file) of Inr (Some _) \<Rightarrow> True | _ \<Rightarrow> False)"
    by (auto simp: loadMarkdownChallenge_def Let_def split: sum.splits option.splits prod.splits)
  then have "loadMarkdownChallenge md_env ''p'' (Inr md_file) = Inr (Some (md, opts))" using st by (auto simp: md_read_def split: sum.splits option.splits)
  note this = markdown_options_declared [OF this]
  moreover have "filter is_options (sectionsOf ?lines) = [(''Challenge Options'', 3, 6)]" by code_simp
  moreover have "coCpus (chDefault (snd (mkYaml md_env (yamlText ?lines (''Challenge Options'', 3, 6))))) = ''1.5''" by code_simp
  ultimately have "coCpus (chDefault (declared (md, opts))) = ''1.5''" by simp
  then show ?thesis using st by (simp add: declared_def)
qed

text \<open>A directory whose Dockerfile is \<open>web_dockerfile\<close>.\<close>

definition plain_env :: markdownEnv where
  "plain_env = md_env\<lparr>mkParse := (\<lambda>src. OtherNode [])\<rparr>"

definition web_text :: string where "web_text = ''Go to {{link('' @ quoted ''/x'' @ '')}}''"

definition web_file :: string where
  "web_file = joinLines [''# Pwn Me!'', ''- namespace: pico'', ''- type: custom'', ''## Details'', web_text]"

definition web_written :: "32 word \<Rightarrow> challengeMeta" where
  "web_written c = zeroChallenge\<lparr>cPath := ''/c/problem.md'', cName := ''Pwn Me!'', cNamespace := ''pico'', cType := ''custom'', cDetails := web_text,
     cMetadataChecksum := c\<rparr>"

definition web_loaded :: "32 word \<Rightarrow> challengeMeta" where
  "web_loaded c = (web_written c)\<lparr>cId := ''pico/pwn-me'', cPath := ''/c'', cDetails := normalizeText [(''http'', ''web'', 80)] web_text,
     cHosts := [(''web'', ''web''), (''db'', ''db'')], cOverrides := [('''', zeroContainerOptions)], hPortMap := [(''http'', ''web'', 80)], hDelivery := DeliveryService\<rparr>"

lemma web_file_read:
  "loadMarkdownChallenge plain_env ''/c/problem.md'' (Inr web_file) =
     Inr (Some (web_written (crc32 (bytes_of_string (web_file @ ''/c/problem.md''))), zeroContainerOptions))"
proof -
  let ?lines = "splitOn (CHR 0x0A) web_file" and ?md = "web_written 0"
  have "findName ?lines 0 = (''Pwn Me!'', 1)"
    "topLevel ?lines 1 (zeroChallenge\<lparr>cPath := ''/c/problem.md'', cName := ''Pwn Me!''\<rparr>) None = (?md\<lparr>cDetails := ''''\<rparr>, None, 3)"
    "readSections plain_env ?lines 3 ((?md\<lparr>cDetails := ''''\<rparr>, zeroContainerOptions), None, '''', 0) = Inr ((?md, zeroContainerOptions), None, ''Details'', 4)"
    by code_simp+
  then show ?thesis by (simp add: loadMarkdownChallenge_def web_written_def)
qed

lemma web_challenge_loads:
  "loadChallenge loading_env ''/c/problem.md'' ''problem.md'' (Inr (Some (web_written c, zeroContainerOptions))) = Inr (Some (web_loaded c))"
  by code_simp

theorem challenge_file_handed_over_witness:
  "checkHandOver handing_env ''pico/pwn-me''
     (Some (handed_over\<lparr>hoChallenge := Some (web_loaded (crc32 (bytes_of_string (web_file @ ''/c/problem.md'')))), hoBuilds := []\<rparr>)) = None"
proof -
  let ?c = "crc32 (bytes_of_string (web_file @ ''/c/problem.md''))"
  let ?h = "handed_over\<lparr>hoChallenge := Some (web_loaded ?c), hoBuilds := []\<rparr>"
  have "sanitizeName ''Pwn Me!'' \<noteq> ''''" by code_simp
  then have name: "sanitizeName (given_id (web_written ?c)) \<noteq> ''''" by (simp add: given_id_def web_written_def zeroChallenge_def challengeRow.defs)
  have ports: "list_all (\<lambda>(_, host, _). host \<in> fst ` set (cHosts (web_loaded ?c))) (hPortMap (web_loaded ?c))" by (simp add: web_loaded_def)
  have "cId (web_loaded ?c) = ''pico/pwn-me''" by (simp add: web_loaded_def)
  then show ?thesis
    using challenge_file_handed_over [OF web_file_read web_challenge_loads name ports, of ?h handing_env] by simp
qed

definition md_unclosed :: "string list" where
  "md_unclosed = [''# A'', ''## Challenge Options'', ''```yaml'', ''cpus: 1.5'', ''``` '']"


text \<open>
  A closing marker before the opening one ends the process. A value at the top that does not parse
  is read as zero, and \<open>loadMarkdownChallenge\<close> does not look at the error.
\<close>

lemma swapped_markers_panic:
  "processMarkdownSection md_env (zeroChallenge, plain_options) ''Challenge Options'' [''# A'', ''## Challenge Options'', ''```'', ''```yaml''] 2 4 =
     Inl [GoPanic ''slice bounds out of range'']"
  by code_simp

lemma bad_points_read:
  "(case topLevel [''# A'', ''- points: ten''] 1 zeroChallenge None of (md, e, _) \<Rightarrow> cPoints md = 0 \<and> e \<noteq> None)"
  by code_simp

end
