(* ===== verification/Spec2Isabelle.thy ===== *)
theory Spec2Isabelle
  imports Worker_Poll Launch_Metrics Preload Markdown_Loader
begin

text \<open>
  \<^bold>\<open>cork\<close>, an orchestrator of capture-the-flag challenges (\<open>src/cork\<close>), keeps challenges,
  their builds and their running instances in an SQLite database and runs instances as networks
  and containers on a fleet of docker workers. This development models the library under
  \<open>src/cork\<close> as HOL functions and proves what makes it correct.

  \<^bold>\<open>How the code is read.\<close> A method of \<open>Manager\<close> that may fail becomes a function from
  the manager's state to a result and the next state (\<open>mio\<close>, theory \<open>Cork_Prelude\<close> and
  \<open>Manager_State\<close>); an early return with an error is \<open>Inl\<close>. A method that mutates the
  metadata it was given and also returns an error returns both. Everything outside the program is
  read from the state: whether a statement fails (\<open>faults\<close>, one entry per statement), what a
  daemon answers (\<open>replies\<close>), how a wait for a slot ends (\<open>slotChoices\<close>), the random draws
  (\<open>rands\<close>); the calls made are appended to \<open>calls\<close>. A theorem that says nothing about
  these fields holds for every pattern of failures and answers. Third-party parsers (docker's
  port, size and ulimit parsers, JSON, SHA-256, rationals) are arguments. Integers are \<open>int\<close>
  with the wrap-around of an int64 written out where it can be reached, checksums are
  \<open>32 word\<close>, the port bitset is a list of \<open>64 word\<close>. Loops are structural recursions or
  have a termination measure; there is no fuel except the 50 attempts that \<open>reservePort\<close> has
  itself.

  \<^bold>\<open>The parts.\<close>

  \<^item> \<open>Settings\<close> (\<open>env.go\<close>, \<open>policy.go\<close>): reading the environment and the limits.

  \<^item> \<open>Seccomp\<close> (\<open>seccomp.go\<close>): which profile files are accepted, validation, persistence and
    hand-over of profiles. Accepted hand-overs are validated text with the declared hash, and
    collecting and applying profiles are inverse.

  \<^item> \<open>Container_Config\<close> (the configuration half of \<open>startContainers\<close> in \<open>docker.go\<close>,
    \<open>cpu.go\<close>): what a container is created with. Every published port is bound to the port
    reserved for it and every container on Linux has exactly one seccomp profile.

  \<^item> \<open>Worker_Health\<close>, \<open>Reachable_Race\<close>, \<open>Worker_Poll\<close> (\<open>workers.go\<close>): timing
    settings, the two health axes of a worker, ejection and recovery, one probe of the poller;
    \<open>setReachable\<close> again as a program of atomic steps, of which any interleaving keeps the
    connection consistent; and when the poller ejects and recovers.

  \<^item> \<open>Manager_State\<close> (\<open>types.go\<close>, \<open>errors.go\<close>, \<open>database.go\<close>): errors, tables with
    their cascades, the manager, statements and transactions.

  \<^item> \<open>Worker_Fleet\<close> (\<open>workers.go\<close>): registering, removing, taking down and recovering
    workers, and placement. Placement only returns a worker that can take an instance, in round
    robin; its refusals hold of the fleet.

  \<^item> \<open>Worker_Reconcile\<close> (\<open>worker_reconcile.go\<close>): what a returning worker still runs and must
    not; nothing of a recorded instance is removed, and a worker is admitted only after a
    finished pass.

  \<^item> \<open>Launch_Slots\<close> (\<open>launch.go\<close>): admission, the estimate of the wait, and the slots of a
    daemon as an interleaving of any number of launches.

  \<^item> \<open>Launch_Metrics\<close> (\<open>launchmetrics.go\<close>): the ring of recent launches and its statistics,
    the stages of a launch, and the exporter as a step function interleaved with the launches that
    record into its queue.

  \<^item> \<open>Port_Pool\<close> (\<open>database_instances.go\<close>, \<open>database.go\<close>): reserving, claiming and
    reassigning ports, exclusive whatever other requests do between the statements.

  \<^item> \<open>Content_Identity\<close> (\<open>docker.go\<close>): checksums and image names, and which generation of
    images may be pruned.

  \<^item> \<open>Build_Store\<close>, \<open>Instance_Store\<close>, \<open>Challenge_Store\<close> (\<open>database_builds.go\<close>,
    \<open>database_instances.go\<close>, \<open>database_challenges.go\<close>, \<open>api.go\<close>): the three groups of
    tables and the operations on them. The instance tables refine a map from ids to instances;
    builds and challenges are read back as they were stored, all or nothing.

  \<^item> \<open>Instance_Runtime\<close> (\<open>docker.go\<close>, \<open>launch.go\<close>): images, networks, containers,
    slots, teardown and launch, one daemon call at a time.

  \<^item> \<open>Daemon_Effects\<close>: what those operations may change, as locales over a relation on
    states. \<open>effect\<close> collects the primitive changes, \<open>teardown_effect\<close>,
    \<open>launch_effect\<close>, \<open>table_effect\<close> and, in \<open>Instance_Lifecycle\<close>, \<open>port_effect\<close>,
    \<open>store_contract\<close> and \<open>statement_contract\<close> build on it. A property is checked statement
    by statement, and holds of every operation by interpretation.

  \<^item> \<open>Instance_Lifecycle\<close> (\<open>api.go\<close>): \<open>Start\<close>, \<open>Stop\<close>, restarts and \<open>Prune\<close>, and
    what any run of them keeps. \<open>Instance_Trace\<close> follows their calls through the log: every
    container a launch creates is accounted for.

  \<^item> \<open>Artifact_Archive\<close>, \<open>Build_Validation\<close>, \<open>Image_Build\<close>, \<open>Build_Trace\<close>
    (\<open>artifacts.go\<close>, \<open>validateBuild\<close> in \<open>loader.go\<close>, \<open>filesystem.go\<close>,
    \<open>executeBuild\<close> in \<open>docker.go\<close>, \<open>registry.go\<close>): which archive is published from
    the one a build produced, what a build must publish, building, extracting, publishing and taking
    back. \<open>Build_Trace\<close> has a logic of runs over the log of calls (\<open>logs\<close>) and shows that
    the registry is write-once and a failing build contained.

  \<^item> \<open>Build_Reconcile\<close> (\<open>docker.go\<close>, \<open>database_challenges.go\<close>, \<open>purge.go\<close>,
    \<open>api.go\<close>): destroying and pruning images, bringing the instances of a build to a number
    and onto a new generation, rebuilding.

  \<^item> \<open>Schema_Ops\<close>, \<open>Schema_Converge\<close> (\<open>api.go\<close>, \<open>buildplane.go\<close>, \<open>docker.go\<close>):
    creating, converging and deleting schemas. A converge without errors has delivered what the
    schema names and nothing else; a deleted schema is gone with its builds and instances.

  \<^item> \<open>Hand_Over\<close> (\<open>handover.go\<close>, \<open>registry.go\<close>): what a hand-over must say, the
    questions to the registry and the commit of what was handed over. Nothing is written before
    everything was verified.

  \<^item> \<open>Preload\<close> (\<open>preload.go\<close>): which images the preloaded schemas launch, and the pass that
    brings a worker to hold them. A pass never removes an image a current build launches, and on a
    worker that answers leaves it with all it should hold.

  \<^item> \<open>Base_Pins\<close> (\<open>basepins.go\<close>): reading the base images of a Dockerfile, rewriting them to
    pinned digests, refreshing the pins. Only lines that name a base are rewritten, and a refresh
    never loses a pin that is in use.

  \<^item> \<open>Challenge_Loader\<close> (\<open>loader.go\<close>, the scan in \<open>filesystem.go\<close>): hosts and ports of a
    Dockerfile, the texts and their templates, options, ids, the inventory. Templates that are
    accepted are all backed, accepted options configure a container, and the inventory is exactly
    what loads.

  \<^item> \<open>Markdown_Loader\<close> (\<open>loader_markdown.go\<close>): \<open>problem.md\<close> with its sections and
    options, and the HTML in its texts. Every tag is converted once and the rest of a text kept to
    the letter; errors of the decoder of options fail the load, a missing marker does not; what
    loads passes the hand-over's checks on a challenge.

  \<^bold>\<open>Interaction.\<close> A request is served alone in the models of the stores, the lifecycle and
  the schemas; updates, schema operations and hand-overs hold one lock in the code
  (\<open>lockUpdates\<close>), which is why their statements are not interleaved here.
  Where requests meet, the interleaving is explicit: on a connection (\<open>Reachable_Race\<close>), on
  a daemon's slots (\<open>Launch_Slots\<close>), on the ports (the argument \<open>others\<close> of
  \<open>reservePort\<close>), on the list of orphans (\<open>Worker_Reconcile\<close>), during a preload pass (the
  argument \<open>others\<close> of \<open>preloadPass\<close>).

  \<^bold>\<open>Not modelled.\<close> What docker does with a build context, the packing of that context, the
  HTTP exchange with the registry and its TLS material: they are calls with replies, or arguments.
  The parsers of Markdown, HTML and YAML, which are arguments; logging; the HTTP and command-line
  front ends.
  Of a transaction that fails, the error of the rollback is modelled only in
  \<open>Challenge_Store\<close>, where the code looks at it. Of SQLite, what the statements of the code
  rely on: constraints, foreign keys, cascades and atomic transactions.
\<close>

end
